(* ===== verification/Prelude.thy ===== *)
theory Prelude
  imports Main "HOL-Library.Word"
begin

text \<open>
  Shared vocabulary of the development: Go's fixed-width integers as words, byte slices as lists of
  bytes, the outcome of a Go call (a value, an \<open>error\<close> result or a run-time panic), the slice
  expressions the sources use, and generic lemmas on words, big-endian numbers and lists that the
  component theories use.
\<close>

unbundle bit_operations_syntax

section \<open>Machine types\<close>

type_synonym byte = "8 word"
type_synonym uint64 = "64 word"
type_synonym bytes = "byte list"

text \<open>
  \<open>common.Hash\<close> is \<open>[32]byte\<close> and \<open>common.Address\<close> is \<open>[20]byte\<close>; both are read as big-endian
  words of the same width, so that equality and \<open>bytes.Compare\<close> agree with equality and order of the
  words.
\<close>

type_synonym hash = "256 word"
type_synonym address = "160 word"

section \<open>Outcomes of Go calls\<close>

text \<open>
  A Go function returns normally (\<open>Ret\<close>), returns a non-nil \<open>error\<close> (\<open>Fail\<close>) or panics
  (\<open>Panic\<close>: an explicit \<open>panic\<close>, a failed type assertion, an index or a slice out of range).
\<close>

datatype ('e, 'a) outcome = Ret 'a | Fail 'e | Panic

fun bind_outcome :: "('e, 'a) outcome \<Rightarrow> ('a \<Rightarrow> ('e, 'b) outcome) \<Rightarrow> ('e, 'b) outcome" where
  "bind_outcome (Ret x) f = f x"
| "bind_outcome (Fail e) f = Fail e"
| "bind_outcome Panic f = Panic"

lemma bind_outcome_Ret [simp]: "bind_outcome m Ret = m"
  by (cases m) simp_all

lemma bind_outcome_assoc:
  "bind_outcome (bind_outcome m f) g = bind_outcome m (\<lambda>x. bind_outcome (f x) g)"
  by (cases m) simp_all

lemma bind_outcome_eq_Ret:
  "bind_outcome m f = Ret y \<longleftrightarrow> (\<exists>x. m = Ret x \<and> f x = Ret y)"
  by (cases m) simp_all

lemma bind_outcome_eq_Panic:
  "bind_outcome m f = Panic \<longleftrightarrow> m = Panic \<or> (\<exists>x. m = Ret x \<and> f x = Panic)"
  by (cases m) simp_all

lemma bind_outcome_eq_Fail:
  "bind_outcome m f = Fail e \<longleftrightarrow> m = Fail e \<or> (\<exists>x. m = Ret x \<and> f x = Fail e)"
  by (cases m) simp_all

text \<open>
  Go methods that mutate their receiver: the state is threaded through, and what was written before an
  error or a panic stays written.
\<close>

type_synonym ('s, 'e, 'a) stm = "'s \<Rightarrow> ('e, 'a) outcome \<times> 's"

definition ret_st :: "'a \<Rightarrow> ('s, 'e, 'a) stm" where
  "ret_st x = (\<lambda>s. (Ret x, s))"

definition fail_st :: "'e \<Rightarrow> ('s, 'e, 'a) stm" where
  "fail_st e = (\<lambda>s. (Fail e, s))"

definition panic_st :: "('s, 'e, 'a) stm" where
  "panic_st = (\<lambda>s. (Panic, s))"

definition lift_st :: "('e, 'a) outcome \<Rightarrow> ('s, 'e, 'a) stm" where
  "lift_st r = (\<lambda>s. (r, s))"

definition modify_st :: "('s \<Rightarrow> 's) \<Rightarrow> ('s, 'e, unit) stm" where
  "modify_st f = (\<lambda>s. (Ret (), f s))"

definition bind_st :: "('s, 'e, 'a) stm \<Rightarrow> ('a \<Rightarrow> ('s, 'e, 'b) stm) \<Rightarrow> ('s, 'e, 'b) stm" where
  "bind_st m f = (\<lambda>s. case m s of
     (Ret x, s') \<Rightarrow> f x s' | (Fail e, s') \<Rightarrow> (Fail e, s') | (Panic, s') \<Rightarrow> (Panic, s'))"

lemma st_apply [simp]:
  "ret_st x s = (Ret x, s)" "fail_st e s = (Fail e, s)" "panic_st s = (Panic, s)" "lift_st r s = (r, s)"
  "modify_st g s = (Ret (), g s)"
  by (simp_all add: ret_st_def fail_st_def panic_st_def lift_st_def modify_st_def)

lemma bind_st_apply [simp]:
  "m s = (Ret x, s') \<Longrightarrow> bind_st m f s = f x s'"
  "m s = (Fail e, s') \<Longrightarrow> bind_st m f s = (Fail e, s')"
  "m s = (Panic, s') \<Longrightarrow> bind_st m f s = (Panic, s')"
  by (simp_all add: bind_st_def)

section \<open>Slices\<close>

text \<open>
  Go lengths are of type \<open>int\<close>, 64 bits wide and non-negative: every slice a Go program can hold
  satisfies \<open>go_slice\<close>.
\<close>

definition go_slice :: "'a list \<Rightarrow> bool" where
  "go_slice xs \<longleftrightarrow> length xs < 2 ^ 63"

text \<open>\<open>uint64(len(xs))\<close>\<close>

definition ulen :: "'a list \<Rightarrow> uint64" where
  "ulen xs = word_of_nat (length xs)"

text \<open>
  \<open>b[i:j]\<close>. Go panics unless \<open>i \<le> j \<le> cap(b)\<close>; the model panics already beyond the length, so a
  proof that no slice expression panics also shows that none reads beyond the length.
\<close>

definition slice :: "'a list \<Rightarrow> nat \<Rightarrow> nat \<Rightarrow> ('e, 'a list) outcome" where
  "slice b i j = (if i \<le> j \<and> j \<le> length b then Ret (take (j - i) (drop i b)) else Panic)"

text \<open>\<open>b[i:]\<close>\<close>

definition slice_from :: "'a list \<Rightarrow> nat \<Rightarrow> ('e, 'a list) outcome" where
  "slice_from b i = slice b i (length b)"

text \<open>\<open>b[i]\<close>\<close>

definition index :: "'a list \<Rightarrow> nat \<Rightarrow> ('e, 'a) outcome" where
  "index b i = (if i < length b then Ret (b ! i) else Panic)"

lemma unat_ulen: "go_slice xs \<Longrightarrow> unat (ulen xs) = length xs"
  by (simp add: go_slice_def ulen_def unat_of_nat)

lemma go_slice_take [simp]: "go_slice xs \<Longrightarrow> go_slice (take n xs)"
  by (simp add: go_slice_def)

lemma go_slice_drop [simp]: "go_slice xs \<Longrightarrow> go_slice (drop n xs)"
  by (simp add: go_slice_def)

lemma go_slice_tl [simp]: "go_slice (x # xs) \<Longrightarrow> go_slice xs"
  by (simp add: go_slice_def)

lemma go_slice_append1: "go_slice (xs @ ys) \<Longrightarrow> go_slice xs"
  by (simp add: go_slice_def)

lemma go_slice_append2: "go_slice (xs @ ys) \<Longrightarrow> go_slice ys"
  by (simp add: go_slice_def)

lemma slice_Ret: "i \<le> j \<Longrightarrow> j \<le> length b \<Longrightarrow> slice b i j = Ret (take (j - i) (drop i b))"
  by (simp add: slice_def)

lemma slice_from_Ret: "i \<le> length b \<Longrightarrow> slice_from b i = Ret (drop i b)"
  by (simp add: slice_from_def slice_def)

lemma index_Ret: "i < length b \<Longrightarrow> index b i = Ret (b ! i)"
  by (simp add: index_def)

lemma list_split3: "xs = take m xs @ take n (drop m xs) @ drop (m + n) xs"
proof -
  have "take m xs @ take n (drop m xs) @ drop (m + n) xs = take (m + n) xs @ drop (m + n) xs"
    by (simp add: take_add)
  then show ?thesis by simp
qed

lemma take_add_split:
  assumes "take (m + n) xs = a @ b" and "length a = m"
  shows "take m xs = a \<and> take n (drop m xs) = b"
proof -
  have "m \<le> length (take (m + n) xs)" unfolding assms(1) using assms(2) by simp
  then have "length (take m xs) = length a" using assms(2) by simp
  then show ?thesis using assms(1) by (simp add: take_add)
qed

section \<open>Big-endian numbers\<close>

text \<open>The number a byte string denotes, most significant byte first.\<close>

definition be_nat :: "bytes \<Rightarrow> nat" where
  "be_nat bs = foldl (\<lambda>acc b. acc * 256 + unat b) 0 bs"

text \<open>The same reading accumulated in a 64-bit register, as shifts and ors compute it.\<close>

definition be_word :: "bytes \<Rightarrow> uint64" where
  "be_word bs = foldl (\<lambda>acc b. push_bit 8 acc OR ucast b) 0 bs"

lemma be_nat_Nil [simp]: "be_nat [] = 0"
  by (simp add: be_nat_def)

lemma be_nat_snoc [simp]: "be_nat (bs @ [b]) = be_nat bs * 256 + unat b"
  by (simp add: be_nat_def)

lemma be_word_Nil [simp]: "be_word [] = 0"
  by (simp add: be_word_def)

lemma be_word_snoc [simp]: "be_word (bs @ [b]) = push_bit 8 (be_word bs) OR ucast b"
  by (simp add: be_word_def)

lemma byte_less_256: "unat (b :: byte) < 256"
  using unsigned_less[of b, where 'a = nat] by simp

lemma word_of_nat_low_byte: "(word_of_nat (n * 256 + unat b) :: byte) = b"
proof -
  have "unat (word_of_nat (n * 256 + unat b) :: byte) = (n * 256 + unat b) mod 256"
    by (simp only: unat_of_nat) simp
  then have "unat (word_of_nat (n * 256 + unat b) :: byte) = unat b"
    using byte_less_256[of b] by simp
  then show ?thesis by (simp only: word_unat_eq_iff)
qed

lemma unat_drop_bit_div: "unat (drop_bit n (w :: 'a::len word)) = unat w div 2 ^ n"
proof -
  have "unat (drop_bit n w) = drop_bit n (unat w)"
    by (simp add: unsigned_drop_bit_eq take_bit_nat_eq_self)
  then show ?thesis by (simp only: drop_bit_eq_div)
qed

lemma ucast_drop_bit_byte:
  "(ucast (drop_bit n (i :: uint64)) :: byte) = word_of_nat (unat i div 2 ^ n)"
proof -
  have "(ucast (drop_bit n i) :: byte) = word_of_nat (unat (drop_bit n i))"
    by simp
  then show ?thesis by (simp only: unat_drop_bit_div)
qed

lemma ucast_word_of_nat_byte: "n < 2 ^ 64 \<Longrightarrow> (ucast (word_of_nat n :: uint64) :: byte) = word_of_nat n"
proof -
  assume "n < 2 ^ 64"
  then have "unat (word_of_nat n :: uint64) = n" by (simp add: unat_of_nat)
  moreover have "(ucast (word_of_nat n :: uint64) :: byte) = word_of_nat (unat (word_of_nat n :: uint64))"
    by simp
  ultimately show ?thesis by simp
qed

lemma be_nat_less: "be_nat bs < 256 ^ length bs"
proof (induction bs rule: rev_induct)
  case Nil
  then show ?case by simp
next
  case (snoc b bs)
  have "be_nat bs * 256 + unat b < (be_nat bs + 1) * 256"
    using byte_less_256[of b] by simp
  also have "\<dots> \<le> 256 ^ length bs * 256"
    using snoc.IH by (intro mult_le_mono1) simp
  finally show ?case by simp
qed

text \<open>Shifting in one byte: the or of disjoint bit fields is their sum.\<close>

lemma shift_or_byte:
  fixes w :: uint64 and b :: byte
  assumes "unat w < 2 ^ 56"
  shows "unat (push_bit 8 w OR ucast b) = unat w * 256 + unat b"
proof -
  have disj: "push_bit 8 w AND ucast b = 0"
    by (rule bit_word_eqI) (auto simp: bit_simps dest: bit_imp_le_length)
  have "unat (push_bit 8 w OR ucast b) = unat (push_bit 8 w + ucast b)"
    using disj by (simp add: disjunctive_add_eq_or)
  also have "\<dots> = unat w * 256 + unat b"
  proof -
    have "unat (push_bit 8 w) = unat w * 256"
      using assms by (simp add: push_bit_eq_mult unat_word_ariths)
    moreover have "unat (ucast b :: uint64) = unat b"
      by (simp add: unsigned_ucast_eq take_bit_nat_eq_self_iff order_less_trans[OF byte_less_256])
    ultimately show ?thesis
      using assms byte_less_256[of b] by (simp add: unat_word_ariths)
  qed
  finally show ?thesis .
qed

lemma unat_be_word: "length bs \<le> 8 \<Longrightarrow> unat (be_word bs) = be_nat bs"
proof (induction bs rule: rev_induct)
  case Nil
  then show ?case by simp
next
  case (snoc b bs)
  then have IH: "unat (be_word bs) = be_nat bs" and len: "length bs \<le> 7" by simp_all
  have "be_nat bs < 256 ^ length bs" by (rule be_nat_less)
  also have "(256::nat) ^ length bs \<le> 256 ^ 7" using len by (intro power_increasing) simp_all
  finally have "unat (be_word bs) < 2 ^ 56" by (simp add: IH)
  then show ?case by (simp add: shift_or_byte IH)
qed

section \<open>Binary search\<close>

text \<open>
  \<open>sort.Search(n, f)\<close>: the loop that halves \<open>[i, j)\<close> until it is empty. On a predicate that is
  monotone it finds the least index at which the predicate holds, or \<open>n\<close>.
\<close>

function search_loop :: "(nat \<Rightarrow> bool) \<Rightarrow> nat \<Rightarrow> nat \<Rightarrow> nat" where
  "search_loop f i j =
     (if i < j then
        let h = (i + j) div 2 in if \<not> f h then search_loop f (h + 1) j else search_loop f i h
      else i)"
  by pat_completeness auto

termination by (relation "measure (\<lambda>(f, i, j). j - i)") auto

declare search_loop.simps [simp del]

definition sort_Search :: "nat \<Rightarrow> (nat \<Rightarrow> bool) \<Rightarrow> nat" where
  "sort_Search n f = search_loop f 0 n"

lemma search_loop_spec:
  assumes "i \<le> j" "\<And>k l. k \<le> l \<Longrightarrow> l < j \<Longrightarrow> f k \<Longrightarrow> f l"
  shows "i \<le> search_loop f i j \<and> search_loop f i j \<le> j \<and>
    (\<forall>k. i \<le> k \<longrightarrow> k < search_loop f i j \<longrightarrow> \<not> f k) \<and> (search_loop f i j < j \<longrightarrow> f (search_loop f i j))"
  using assms
proof (induction f i j rule: search_loop.induct)
  case (1 f i j)
  show ?case
  proof (cases "i < j")
    case False
    then show ?thesis using "1.prems"(1) by (subst (1 2 3 4 5) search_loop.simps) simp
  next
    case True
    define h where "h = (i + j) div 2"
    have h: "i \<le> h" "h < j" using True by (auto simp: h_def)
    show ?thesis
    proof (cases "f h")
      case True
      have eq: "search_loop f i j = search_loop f i h"
        using \<open>i < j\<close> True by (subst search_loop.simps) (simp add: h_def[symmetric])
      have mono: "\<And>k l. k \<le> l \<Longrightarrow> l < h \<Longrightarrow> f k \<Longrightarrow> f l" using "1.prems"(2) h by force
      have IH: "i \<le> search_loop f i h \<and> search_loop f i h \<le> h \<and>
          (\<forall>k. i \<le> k \<longrightarrow> k < search_loop f i h \<longrightarrow> \<not> f k) \<and> (search_loop f i h < h \<longrightarrow> f (search_loop f i h))"
        by (rule "1.IH"(2)[OF \<open>i < j\<close> h_def]) (use True h(1) mono in auto)
      have "f (search_loop f i h)" if "search_loop f i h \<le> h"
        using that IH True by (cases "search_loop f i h = h") auto
      then show ?thesis using IH True h unfolding eq by auto
    next
      case False
      have eq: "search_loop f i j = search_loop f (h + 1) j"
        using \<open>i < j\<close> False by (subst search_loop.simps) (simp add: h_def[symmetric])
      have low: "\<not> f k" if "k < h + 1" for k using that False h "1.prems"(2)[of k h] by auto
      have IH: "h + 1 \<le> search_loop f (h + 1) j \<and> search_loop f (h + 1) j \<le> j \<and>
          (\<forall>k. h + 1 \<le> k \<longrightarrow> k < search_loop f (h + 1) j \<longrightarrow> \<not> f k) \<and>
          (search_loop f (h + 1) j < j \<longrightarrow> f (search_loop f (h + 1) j))"
        by (rule "1.IH"(1)[OF \<open>i < j\<close> h_def]) (use False h "1.prems"(2) in auto)
      have "\<not> f k" if "k < search_loop f (h + 1) j" for k
        using that low IH by (cases "k < h + 1") auto
      then show ?thesis using IH h unfolding eq by auto
    qed
  qed
qed

end
