(* ===== verification/Rlp_Encode.thy ===== *)
theory Rlp_Encode
  imports Prelude
begin

text \<open>
  The RLP encoder: \<^verbatim>\<open>rlp/encode.go\<close> (headers, minimal integers, the writers of the value kinds) and
  \<^verbatim>\<open>rlp/encbuffer.go\<close> (the buffer that keeps string data and list headers apart and splices the
  headers in when the output is made). The reference encoding \<open>rlp\<close> is defined at the end by
  recursion on the value, and the buffer is shown to produce it.
\<close>

section \<open>Headers and integers\<close>

datatype rlp_error =
    ErrUnexpectedEOF | ErrCanonSize | ErrValueTooLarge | ErrExpectedString | ErrExpectedList
  | ErrCanonInt | ErrUintOverflow | ErrNegativeBigInt

text \<open>
  \<open>putint\<close> writes the integer at the beginning of a buffer and returns the number of bytes: the model
  returns the bytes written.
\<close>

definition putint :: "uint64 \<Rightarrow> bytes" where
  "putint i =
     (if i < 2 ^ 8 then [ucast i]
      else if i < 2 ^ 16 then [ucast (drop_bit 8 i), ucast i]
      else if i < 2 ^ 24 then [ucast (drop_bit 16 i), ucast (drop_bit 8 i), ucast i]
      else if i < 2 ^ 32 then
        [ucast (drop_bit 24 i), ucast (drop_bit 16 i), ucast (drop_bit 8 i), ucast i]
      else if i < 2 ^ 40 then
        [ucast (drop_bit 32 i), ucast (drop_bit 24 i), ucast (drop_bit 16 i), ucast (drop_bit 8 i),
         ucast i]
      else if i < 2 ^ 48 then
        [ucast (drop_bit 40 i), ucast (drop_bit 32 i), ucast (drop_bit 24 i), ucast (drop_bit 16 i),
         ucast (drop_bit 8 i), ucast i]
      else if i < 2 ^ 56 then
        [ucast (drop_bit 48 i), ucast (drop_bit 40 i), ucast (drop_bit 32 i), ucast (drop_bit 24 i),
         ucast (drop_bit 16 i), ucast (drop_bit 8 i), ucast i]
      else
        [ucast (drop_bit 56 i), ucast (drop_bit 48 i), ucast (drop_bit 40 i), ucast (drop_bit 32 i),
         ucast (drop_bit 24 i), ucast (drop_bit 16 i), ucast (drop_bit 8 i), ucast i])"

text \<open>The loop of \<open>intsize\<close>: shift by one byte until nothing is left.\<close>

function intsize_loop :: "nat \<Rightarrow> uint64 \<Rightarrow> nat" where
  "intsize_loop sz i =
     (let i' = drop_bit 8 i in if i' = 0 then sz else intsize_loop (sz + 1) i')"
  by pat_completeness auto
termination
proof (relation "measure (\<lambda>(sz, i). unat i)", goal_cases)
  case 1
  then show ?case by simp
next
  case (2 sz i i')
  have "unat i' = unat i div 256"
    using 2 by (simp add: unat_drop_bit_div)
  moreover have "unat i' \<noteq> 0" using 2 by (simp add: unat_eq_0)
  ultimately show ?case by simp
qed

declare intsize_loop.simps [simp del]

definition intsize :: "uint64 \<Rightarrow> nat" where
  "intsize i = intsize_loop 1 i"

definition headsize :: "uint64 \<Rightarrow> nat" where
  "headsize sz = (if sz < 56 then 1 else 1 + intsize sz)"

text \<open>\<open>puthead\<close>, again as the bytes it writes.\<close>

definition puthead :: "byte \<Rightarrow> byte \<Rightarrow> uint64 \<Rightarrow> bytes" where
  "puthead smalltag largetag sz =
     (if sz < 56 then [smalltag + ucast sz]
      else let b = putint sz in (largetag + word_of_nat (length b)) # b)"

subsection \<open>Minimal big-endian integers\<close>

text \<open>The specification \<open>putint\<close> and \<open>intsize\<close> meet: base-256 digits, most significant first.\<close>

fun be_bytes :: "nat \<Rightarrow> bytes" where
  "be_bytes n = (if n < 256 then [word_of_nat n] else be_bytes (n div 256) @ [word_of_nat n])"

declare be_bytes.simps [simp del]

lemma be_bytes_small: "n < 256 \<Longrightarrow> be_bytes n = [word_of_nat n]"
  by (subst be_bytes.simps) simp

lemma be_bytes_step: "256 \<le> n \<Longrightarrow> be_bytes n = be_bytes (n div 256) @ [word_of_nat n]"
  by (subst be_bytes.simps) simp

lemma ucast_byte: "(ucast (i :: uint64) :: byte) = word_of_nat (unat i)"
  by simp

lemma be_bytes_digits:
  "256 ^ k \<le> n \<or> k = 0 \<Longrightarrow> n < 256 ^ Suc k \<Longrightarrow>
     be_bytes n = map (\<lambda>j. word_of_nat (n div 256 ^ j)) (rev [0..<Suc k])"
proof (induction k arbitrary: n)
  case 0
  then show ?case by (simp add: be_bytes_small)
next
  case (Suc k)
  have "256 ^ 1 \<le> n"
    using Suc.prems(1) order_trans[OF power_increasing[of 1 "Suc k" "256 :: nat"]] by simp
  then have "be_bytes n = be_bytes (n div 256) @ [word_of_nat n]"
    by (simp add: be_bytes_step)
  also have "be_bytes (n div 256) =
      map (\<lambda>j. word_of_nat (n div 256 div 256 ^ j)) (rev [0..<Suc k])"
    using Suc.prems
    by (intro Suc.IH) (auto simp: less_eq_div_iff_mult_less_eq less_mult_imp_div_less mult.commute)
  also have "\<dots> = map (\<lambda>j. word_of_nat (n div 256 ^ j)) (rev [1..<Suc (Suc k)])"
    by (simp add: map_Suc_upt[symmetric] rev_map comp_def div_mult2_eq[symmetric] del: upt_Suc)
  also have "\<dots> @ [word_of_nat n] = map (\<lambda>j. word_of_nat (n div 256 ^ j)) (rev [0..<Suc (Suc k)])"
    by (simp add: upt_conv_Cons[of 0 "Suc (Suc k)"] del: upt_Suc)
  finally show ?case .
qed

lemma putint_be_bytes: "putint i = be_bytes (unat i)"
proof -
  have lim: "unat i < 256 ^ 8"
    using unsigned_less[of i, where 'a = nat] by simp
  have digits: "map (\<lambda>j. (word_of_nat (unat i div 256 ^ j) :: byte)) (rev [0..<Suc k]) =
      map (\<lambda>j. ucast (drop_bit (8 * j) i)) (rev [0..<Suc k])" for k
    by (simp only: ucast_drop_bit_byte power_mult) simp
  note d = be_bytes_digits[of _ "unat i", unfolded digits]
  show ?thesis
    using lim d[of 0] d[of 1] d[of 2] d[of 3] d[of 4] d[of 5] d[of 6] d[of 7]
    by (simp add: putint_def word_less_nat_alt upt_rec not_less)
qed

text \<open>\<open>intsize\<close> is the length of what \<open>putint\<close> writes.\<close>

lemma intsize_loop_be_bytes: "intsize_loop sz i + 1 = sz + length (be_bytes (unat i))"
proof (induction sz i rule: intsize_loop.induct)
  case (1 sz i)
  have half: "unat (drop_bit 8 i) = unat i div 256"
    by (simp add: unat_drop_bit_div)
  show ?case
  proof (cases "drop_bit 8 i = 0")
    case True
    then have "unat i < 256" using half by (simp add: unat_eq_zero[symmetric] div_eq_0_iff)
    with True show ?thesis by (simp add: intsize_loop.simps[of sz i] be_bytes_small)
  next
    case False
    then have "unat i div 256 \<noteq> 0" using half by (metis unat_eq_zero)
    then have "256 \<le> unat i" by (simp add: div_eq_0_iff)
    with False 1 show ?thesis
      by (simp add: intsize_loop.simps[of sz i] be_bytes_step half)
  qed
qed

lemma intsize_be_bytes: "intsize i = length (be_bytes (unat i))"
  using intsize_loop_be_bytes[of 1 i] by (simp add: intsize_def)

lemma be_nat_be_bytes [simp]: "be_nat (be_bytes n) = n"
proof (induction n rule: be_bytes.induct)
  case (1 n)
  show ?case
  proof (cases "n < 256")
    case True
    then show ?thesis using be_nat_snoc[of "[]"] by (simp add: be_bytes_small unat_of_nat)
  next
    case False
    then have "be_nat (be_bytes (n div 256)) = n div 256" by (rule 1)
    with False show ?thesis by (simp add: be_bytes_step unat_of_nat)
  qed
qed

lemma be_bytes_not_Nil [simp]: "be_bytes n \<noteq> []"
  by (subst be_bytes.simps) simp

text \<open>Minimality: no leading zero, except for the number zero itself.\<close>

lemma hd_be_bytes: "0 < n \<Longrightarrow> hd (be_bytes n) \<noteq> 0"
proof (induction n rule: be_bytes.induct)
  case (1 n)
  show ?case
  proof (cases "n < 256")
    case True
    with "1.prems" show ?thesis
      by (auto simp: be_bytes_small word_of_nat_eq_0_iff dest: dvd_imp_le)
  next
    case False
    with 1 show ?thesis by (simp add: be_bytes_step)
  qed
qed

lemma be_bytes_be_nat: "bs \<noteq> [] \<Longrightarrow> hd bs \<noteq> 0 \<Longrightarrow> be_bytes (be_nat bs) = bs"
proof (induction bs rule: rev_induct)
  case Nil
  then show ?case by simp
next
  case (snoc b bs)
  show ?case
  proof (cases bs)
    case Nil
    then show ?thesis using be_nat_snoc[of "[]" b] byte_less_256[of b] by (simp add: be_bytes_small)
  next
    case (Cons c cs)
    with snoc have IH: "be_bytes (be_nat bs) = bs" by simp
    have "be_nat bs \<noteq> 0"
    proof
      assume "be_nat bs = 0"
      with IH have "bs = [0]" by (simp add: be_bytes_small)
      with snoc.prems(2) Cons show False by simp
    qed
    then have "be_bytes (be_nat bs * 256 + unat b) = be_bytes (be_nat bs) @ [b]"
      using byte_less_256[of b]
      by (subst be_bytes_step) (simp_all add: word_of_nat_low_byte del: of_nat_add of_nat_mult)
    then show ?thesis using IH by simp
  qed
qed

lemma length_be_bytes_le: "n < 256 ^ k \<Longrightarrow> 0 < k \<Longrightarrow> length (be_bytes n) \<le> k"
proof (induction k arbitrary: n)
  case 0
  then show ?case by simp
next
  case (Suc k)
  show ?case
  proof (cases "n < 256")
    case True
    then show ?thesis by (simp add: be_bytes_small)
  next
    case False
    with Suc.prems have "0 < k" by (cases k) simp_all
    moreover have "n div 256 < 256 ^ k"
      using Suc.prems by (simp add: less_mult_imp_div_less mult.commute)
    ultimately show ?thesis using Suc.IH[of "n div 256"] False by (simp add: be_bytes_step)
  qed
qed

lemma length_be_bytes_u64: "length (be_bytes (unat (i :: uint64))) \<le> 8"
  using unsigned_less[of i, where 'a = nat] by (intro length_be_bytes_le) simp_all

section \<open>The encoder buffer\<close>

text \<open>
  \<open>encBuffer\<close> without its scratch array \<open>sizebuf\<close>. Go's \<open>int\<close> is read as a mathematical integer:
  sizes are bounded by the memory that holds the data.
\<close>

record listhead =
  lh_offset :: nat
  lh_size :: int

record encBuffer =
  buf_str :: bytes
  buf_lheads :: "listhead list"
  buf_lhsize :: int

definition buf_reset :: "encBuffer \<Rightarrow> encBuffer" where
  "buf_reset buf = buf\<lparr>buf_lhsize := 0, buf_str := [], buf_lheads := []\<rparr>"

definition buf_size :: "encBuffer \<Rightarrow> int" where
  "buf_size buf = int (length (buf_str buf)) + buf_lhsize buf"

definition buf_append :: "encBuffer \<Rightarrow> bytes \<Rightarrow> encBuffer" where
  "buf_append buf b = buf\<lparr>buf_str := buf_str buf @ b\<rparr>"

definition buf_writeBool :: "encBuffer \<Rightarrow> bool \<Rightarrow> encBuffer" where
  "buf_writeBool buf b = (if b then buf_append buf [0x01] else buf_append buf [0x80])"

definition buf_writeUint64 :: "encBuffer \<Rightarrow> uint64 \<Rightarrow> encBuffer" where
  "buf_writeUint64 buf i =
     (if i = 0 then buf_append buf [0x80]
      else if i < 128 then buf_append buf [ucast i]
      else let s = putint i in buf_append buf ((0x80 + word_of_nat (length s)) # s))"

definition buf_encodeStringHeader :: "encBuffer \<Rightarrow> nat \<Rightarrow> encBuffer" where
  "buf_encodeStringHeader buf sz =
     (if sz < 56 then buf_append buf [0x80 + word_of_nat sz]
      else let s = putint (word_of_nat sz) in buf_append buf ((0xB7 + word_of_nat (length s)) # s))"

definition buf_writeBytes :: "encBuffer \<Rightarrow> bytes \<Rightarrow> encBuffer" where
  "buf_writeBytes buf b =
     (if length b = 1 \<and> b ! 0 \<le> 0x7F then buf_append buf [b ! 0]
      else buf_append (buf_encodeStringHeader buf (length b)) b)"

definition buf_list :: "encBuffer \<Rightarrow> encBuffer \<times> nat" where
  "buf_list buf =
     (buf\<lparr>buf_lheads := buf_lheads buf @ [\<lparr>lh_offset = length (buf_str buf), lh_size = buf_lhsize buf\<rparr>]\<rparr>,
      length (buf_lheads buf))"

definition buf_listEnd :: "encBuffer \<Rightarrow> nat \<Rightarrow> (rlp_error, encBuffer) outcome" where
  "buf_listEnd buf i =
     bind_outcome (index (buf_lheads buf) i) (\<lambda>lh.
       let sz = buf_size buf - int (lh_offset lh) - lh_size lh in
       Ret (buf\<lparr>buf_lheads := (buf_lheads buf)[i := lh\<lparr>lh_size := sz\<rparr>],
               buf_lhsize := buf_lhsize buf +
                 (if sz < 56 then 1 else 1 + int (intsize (word_of_int sz)))\<rparr>))"

definition head_encode :: "listhead \<Rightarrow> bytes" where
  "head_encode h = puthead 0xC0 0xF7 (word_of_int (lh_size h))"

text \<open>
  \<open>copy(dst[pos:], src)\<close> with its count, and the in-place write of a header, whose indexing panics when
  the buffer is too short.
\<close>

definition go_copy :: "'a list \<Rightarrow> nat \<Rightarrow> 'a list \<Rightarrow> ('e, 'a list \<times> nat) outcome" where
  "go_copy dst pos src =
     (if pos \<le> length dst
      then let n = min (length dst - pos) (length src)
           in Ret (take pos dst @ take n src @ drop (pos + n) dst, n)
      else Panic)"

definition put_bytes :: "'a list \<Rightarrow> nat \<Rightarrow> 'a list \<Rightarrow> ('e, 'a list) outcome" where
  "put_bytes dst pos bs =
     (if pos + length bs \<le> length dst then Ret (take pos dst @ bs @ drop (pos + length bs) dst)
      else Panic)"

fun copyTo_loop :: "bytes \<Rightarrow> listhead list \<Rightarrow> bytes \<Rightarrow> nat \<Rightarrow> nat \<Rightarrow> (rlp_error, bytes) outcome" where
  "copyTo_loop s [] dst strpos pos =
     bind_outcome (slice_from s strpos) (\<lambda>src.
     bind_outcome (go_copy dst pos src) (\<lambda>(d, n). Ret d))"
| "copyTo_loop s (h # hs) dst strpos pos =
     bind_outcome (slice s strpos (lh_offset h)) (\<lambda>src.
     bind_outcome (go_copy dst pos src) (\<lambda>(d, n).
     bind_outcome (put_bytes d (pos + n) (head_encode h)) (\<lambda>d'.
       copyTo_loop s hs d' (strpos + n) (pos + n + length (head_encode h)))))"

definition copyTo :: "encBuffer \<Rightarrow> bytes \<Rightarrow> (rlp_error, bytes) outcome" where
  "copyTo buf dst = copyTo_loop (buf_str buf) (buf_lheads buf) dst 0 0"

definition makeBytes :: "encBuffer \<Rightarrow> (rlp_error, bytes) outcome" where
  "makeBytes buf =
     (if buf_size buf < 0 then Panic else copyTo buf (replicate (nat (buf_size buf)) 0))"

definition AppendToBytes :: "encBuffer \<Rightarrow> bytes \<Rightarrow> (rlp_error, bytes) outcome" where
  "AppendToBytes buf dst =
     (if buf_size buf < 0 then Panic
      else bind_outcome (copyTo buf (replicate (nat (buf_size buf)) 0)) (\<lambda>out. Ret (dst @ out)))"

section \<open>Writers\<close>

text \<open>
  The values the reflection-based writers dispatch on: byte strings (\<open>string\<close>, \<open>[]byte\<close>), unsigned
  integers, booleans, raw values, a nil interface and slices of values (a slice of interfaces may nest
  them). The dispatch is that of \<open>makeWriter\<close>.
\<close>

datatype rlp_val =
    VBytes bytes | VUint uint64 | VBool bool | VRaw bytes | VNil | VSlice "rlp_val list"

fun encode_val :: "rlp_val \<Rightarrow> encBuffer \<Rightarrow> (rlp_error, encBuffer) outcome"
and encode_vals :: "rlp_val list \<Rightarrow> encBuffer \<Rightarrow> (rlp_error, encBuffer) outcome" where
  "encode_val (VBytes b) buf = Ret (buf_writeBytes buf b)"
| "encode_val (VUint i) buf = Ret (buf_writeUint64 buf i)"
| "encode_val (VBool b) buf = Ret (buf_writeBool buf b)"
| "encode_val (VRaw b) buf = Ret (buf_append buf b)"
| "encode_val VNil buf = Ret (buf_append buf [0xC0])"
| "encode_val (VSlice vs) buf =
     (if vs = [] then Ret (buf_append buf [0xC0])
      else let (buf1, listOffset) = buf_list buf in
        bind_outcome (encode_vals vs buf1) (\<lambda>buf2. buf_listEnd buf2 listOffset))"
| "encode_vals [] buf = Ret buf"
| "encode_vals (v # vs) buf = bind_outcome (encode_val v buf) (encode_vals vs)"

definition empty_buf :: encBuffer where
  "empty_buf = \<lparr>buf_str = [], buf_lheads = [], buf_lhsize = 0\<rparr>"

definition EncodeToBytes :: "rlp_val \<Rightarrow> (rlp_error, bytes) outcome" where
  "EncodeToBytes v = bind_outcome (encode_val v empty_buf) makeBytes"

section \<open>The reference encoding\<close>

definition rlp_head :: "byte \<Rightarrow> byte \<Rightarrow> nat \<Rightarrow> bytes" where
  "rlp_head small large n =
     (if n < 56 then [small + word_of_nat n]
      else (large + word_of_nat (length (be_bytes n))) # be_bytes n)"

definition rlp_string :: "bytes \<Rightarrow> bytes" where
  "rlp_string b = (if length b = 1 \<and> hd b < 0x80 then b else rlp_head 0x80 0xB7 (length b) @ b)"

definition rlp_list :: "bytes \<Rightarrow> bytes" where
  "rlp_list c = rlp_head 0xC0 0xF7 (length c) @ c"

fun rlp :: "rlp_val \<Rightarrow> bytes" where
  "rlp (VBytes b) = rlp_string b"
| "rlp (VUint i) = rlp_string (if i = 0 then [] else be_bytes (unat i))"
| "rlp (VBool b) = rlp_string (if b then [1] else [])"
| "rlp (VRaw b) = b"
| "rlp VNil = rlp_list []"
| "rlp (VSlice vs) = rlp_list (concat (map rlp vs))"

lemma puthead_rlp_head:
  "n < 2 ^ 64 \<Longrightarrow> puthead small large (word_of_nat n) = rlp_head small large n"
  by (simp add: puthead_def rlp_head_def putint_be_bytes word_less_nat_alt unat_of_nat Let_def
      ucast_word_of_nat_byte)

lemma length_rlp_head:
  "n < 2 ^ 64 \<Longrightarrow> length (rlp_head small large n) = headsize (word_of_nat n)"
  by (simp add: rlp_head_def headsize_def intsize_be_bytes word_less_nat_alt unat_of_nat)

lemma length_rlp_list_ge: "length c < length (rlp_list c)"
  by (simp add: rlp_list_def rlp_head_def)

lemma byte_le_7F: "(b :: byte) \<le> 0x7F \<longleftrightarrow> b < 0x80"
  by (simp add: word_le_nat_alt word_less_nat_alt) arith

lemma encodeStringHeader_rlp_head:
  "n < 2 ^ 64 \<Longrightarrow> buf_encodeStringHeader buf n = buf_append buf (rlp_head 0x80 0xB7 n)"
  by (simp add: buf_encodeStringHeader_def rlp_head_def putint_be_bytes unat_of_nat Let_def)

lemma writeBytes_rlp_string:
  "length b < 2 ^ 64 \<Longrightarrow> buf_writeBytes buf b = buf_append buf (rlp_string b)"
  by (cases b)
    (auto simp: buf_writeBytes_def rlp_string_def byte_le_7F encodeStringHeader_rlp_head buf_append_def)

lemma be_bytes_single: "length (be_bytes n) = 1 \<longleftrightarrow> n < 256"
proof (cases "n < 256")
  case True
  then show ?thesis by (simp add: be_bytes_small)
next
  case False
  then show ?thesis by (simp add: be_bytes_step)
qed

lemma writeUint64_rlp: "buf_writeUint64 buf i = buf_append buf (rlp (VUint i))"
proof -
  have len: "length (be_bytes (unat i)) < 56"
    using length_be_bytes_u64[of i] by simp
  consider "i = 0" | "i \<noteq> 0" "i < 128" | "128 \<le> i" by fastforce
  then show ?thesis
  proof cases
    case 1
    then show ?thesis by (simp add: buf_writeUint64_def rlp_string_def rlp_head_def)
  next
    case 2
    then have "unat i < 128" by (simp add: word_less_nat_alt)
    then have "be_bytes (unat i) = [ucast i]" "(ucast i :: byte) < 0x80"
      by (simp_all add: be_bytes_small word_less_nat_alt unsigned_ucast_eq take_bit_eq_mod)
    with 2 show ?thesis by (simp add: buf_writeUint64_def rlp_string_def)
  next
    case 3
    then have "128 \<le> unat i" "i \<noteq> 0" "\<not> i < 128" by (auto simp: word_le_nat_alt word_less_nat_alt)
    moreover have "unat i < 256 \<Longrightarrow> \<not> (ucast i :: byte) < 0x80"
      using \<open>128 \<le> unat i\<close> by (simp add: word_less_nat_alt unsigned_ucast_eq take_bit_eq_mod)
    ultimately show ?thesis
      using len be_bytes_single[of "unat i"]
      by (auto simp: buf_writeUint64_def rlp_string_def rlp_head_def putint_be_bytes Let_def
          be_bytes_small)
  qed
qed

lemma writeBool_rlp: "buf_writeBool buf b = buf_append buf (rlp (VBool b))"
  by (simp add: buf_writeBool_def rlp_string_def rlp_head_def)

subsection \<open>What a value leaves in the buffer\<close>

text \<open>
  The string data and the list headers a value contributes; the offsets of the headers count from the
  length of the string data before the value.
\<close>

fun val_str :: "rlp_val \<Rightarrow> bytes" where
  "val_str (VSlice vs) = (if vs = [] then [0xC0] else concat (map val_str vs))"
| "val_str v = rlp v"

fun val_heads :: "nat \<Rightarrow> rlp_val \<Rightarrow> listhead list"
and vals_heads :: "nat \<Rightarrow> rlp_val list \<Rightarrow> listhead list" where
  "val_heads off (VSlice vs) =
     (if vs = [] then []
      else \<lparr>lh_offset = off, lh_size = int (length (concat (map rlp vs)))\<rparr> # vals_heads off vs)"
| "val_heads off _ = []"
| "vals_heads off [] = []"
| "vals_heads off (v # vs) = val_heads off v @ vals_heads (off + length (val_str v)) vs"

definition add_val :: "encBuffer \<Rightarrow> bytes \<Rightarrow> listhead list \<Rightarrow> bytes \<Rightarrow> encBuffer" where
  "add_val buf sd hs out =
     buf\<lparr>buf_str := buf_str buf @ sd, buf_lheads := buf_lheads buf @ hs,
         buf_lhsize := buf_lhsize buf + int (length out) - int (length sd)\<rparr>"

lemma add_val_append: "add_val buf b [] b = buf_append buf b"
  by (simp add: add_val_def buf_append_def)

lemma listEnd_add_val:
  fixes out :: bytes
  assumes "length out < 2 ^ 64"
  shows "buf_listEnd (add_val (fst (buf_list buf)) sd hs out) (snd (buf_list buf)) =
    Ret (add_val buf sd (\<lparr>lh_offset = length (buf_str buf), lh_size = int (length out)\<rparr> # hs)
           (rlp_list out))"
  using assms length_rlp_head[of "length out" "0xC0" "0xF7"]
  by (auto simp: buf_listEnd_def buf_list_def add_val_def index_def buf_size_def rlp_list_def nth_append
      headsize_def word_less_nat_alt unat_of_nat Let_def)

lemma encode_val_spec:
  "length (rlp v) < 2 ^ 64 \<Longrightarrow>
     encode_val v buf = Ret (add_val buf (val_str v) (val_heads (length (buf_str buf)) v) (rlp v))"
  "length (concat (map rlp vs)) < 2 ^ 64 \<Longrightarrow>
     encode_vals vs buf = Ret (add_val buf (concat (map val_str vs))
       (vals_heads (length (buf_str buf)) vs) (concat (map rlp vs)))"
proof (induction v buf and vs buf rule: encode_val_encode_vals.induct)
  case (1 b buf)
  then have "length b < 2 ^ 64" by (auto simp: rlp_string_def split: if_splits)
  then show ?case by (simp add: writeBytes_rlp_string add_val_append)
next
  case (2 i buf)
  then show ?case by (simp only: encode_val.simps writeUint64_rlp) (simp add: add_val_append)
next
  case (3 b buf)
  then show ?case by (simp only: encode_val.simps writeBool_rlp) (simp add: add_val_append)
next
  case (4 b buf)
  then show ?case by (simp add: add_val_append)
next
  case (5 buf)
  then show ?case by (simp add: add_val_append rlp_list_def rlp_head_def)
next
  case (6 vs buf)
  let ?out = "concat (map rlp vs)"
  have out: "length ?out < 2 ^ 64"
    using 6(2) length_rlp_list_ge[of ?out] by simp
  show ?case
  proof (cases "vs = []")
    case True
    then show ?thesis by (simp add: add_val_append rlp_list_def rlp_head_def)
  next
    case False
    note IH = 6(1)[OF False refl prod.collapse out]
    with False show ?thesis
      by (simp add: listEnd_add_val[OF out] split_beta) (simp add: buf_list_def)
  qed
next
  case (7 buf)
  then show ?case by (simp add: add_val_def)
next
  case (8 v vs buf)
  then show ?case by (simp add: add_val_def)
qed

subsection \<open>Splicing the headers in\<close>

text \<open>The bytes \<open>copyTo\<close> emits from position \<open>p\<close> of the string data on.\<close>

fun render :: "bytes \<Rightarrow> listhead list \<Rightarrow> nat \<Rightarrow> bytes" where
  "render s [] p = drop p s"
| "render s (h # hs) p = take (lh_offset h - p) (drop p s) @ head_encode h @ render s hs (lh_offset h)"

text \<open>Header offsets never decrease and stay within the string data.\<close>

fun heads_from :: "nat \<Rightarrow> listhead list \<Rightarrow> nat \<Rightarrow> bool" where
  "heads_from p [] n \<longleftrightarrow> p \<le> n"
| "heads_from p (h # hs) n \<longleftrightarrow> p \<le> lh_offset h \<and> heads_from (lh_offset h) hs n"

lemma heads_from_le: "heads_from p hs n \<Longrightarrow> p \<le> n"
  by (induction hs arbitrary: p) fastforce+

lemma heads_from_weaken: "heads_from q hs n \<Longrightarrow> p \<le> q \<Longrightarrow> heads_from p hs n"
  by (cases hs) auto

lemma render_advance:
  "heads_from q hs (length s) \<Longrightarrow> p \<le> q \<Longrightarrow>
     render s hs p = take (q - p) (drop p s) @ render s hs q"
proof (cases hs)
  case Nil
  assume "p \<le> q"
  then have "drop p s = take (q - p) (drop p s) @ drop q s"
    by (metis append_take_drop_id drop_drop le_add_diff_inverse2)
  with Nil show ?thesis by simp
next
  case (Cons h hs')
  assume q: "heads_from q hs (length s)" and "p \<le> q"
  then have "take (lh_offset h - p) (drop p s) =
      take (q - p) (drop p s) @ take (lh_offset h - q) (drop q s)"
    using Cons take_add[of "q - p" "lh_offset h - q" "drop p s"] by simp
  with Cons show ?thesis by simp
qed

lemma render_skip:
  "take (length b) (drop off s) = b \<Longrightarrow> heads_from (off + length b) hs (length s) \<Longrightarrow>
     render s hs off = b @ render s hs (off + length b)"
  using render_advance[of "off + length b" hs s off] by simp

lemma go_copy_fits:
  "pos + length src \<le> length dst \<Longrightarrow>
     go_copy dst pos src = Ret (take pos dst @ src @ drop (pos + length src) dst, length src)"
  by (simp add: go_copy_def Let_def min.absorb2)

lemma copyTo_loop_render:
  "heads_from p hs (length s) \<Longrightarrow> pos + length (render s hs p) \<le> length dst \<Longrightarrow>
     copyTo_loop s hs dst p pos =
       Ret (take pos dst @ render s hs p @ drop (pos + length (render s hs p)) dst)"
proof (induction hs arbitrary: dst p pos)
  case Nil
  then show ?case by (simp add: slice_from_Ret go_copy_fits)
next
  case (Cons h hs)
  define src where "src = take (lh_offset h - p) (drop p s)"
  define pos' where "pos' = pos + length src + length (head_encode h)"
  define rest where "rest = render s hs (lh_offset h)"
  define pre where "pre = take pos dst @ src @ head_encode h"
  have off: "p \<le> lh_offset h" "lh_offset h \<le> length s" "heads_from (lh_offset h) hs (length s)"
    using Cons.prems(1) heads_from_le by auto
  have sl: "slice s p (lh_offset h) = (Ret src :: (rlp_error, _) outcome)" "p + length src = lh_offset h"
    using off by (simp_all add: slice_Ret src_def)
  have fits: "pos' + length rest \<le> length dst"
    using Cons.prems(2) by (simp add: pos'_def rest_def src_def)
  then have pre: "pos' = length pre" by (simp add: pos'_def pre_def)
  have cp: "go_copy dst pos src =
      (Ret (take pos dst @ src @ drop (pos + length src) dst, length src) :: (rlp_error, _) outcome)"
    using fits by (intro go_copy_fits) (simp add: pos'_def)
  have put: "put_bytes (take pos dst @ src @ drop (pos + length src) dst) (pos + length src)
      (head_encode h) = (Ret (pre @ drop pos' dst) :: (rlp_error, _) outcome)"
    using fits by (simp add: put_bytes_def pos'_def pre_def ac_simps)
  have "copyTo_loop s hs (pre @ drop pos' dst) (lh_offset h) pos' =
      Ret (pre @ rest @ drop (pos' + length rest) dst)"
    using Cons.IH[OF off(3), of pos' "pre @ drop pos' dst"] fits unfolding pre
    by (simp add: rest_def add.commute)
  then show ?case
    by (simp add: sl cp put pos'_def rest_def[symmetric] src_def[symmetric] pre_def add.assoc)
qed

lemma heads_from_val:
  "heads_from (off + length (val_str v)) hs n \<Longrightarrow> heads_from off (val_heads off v @ hs) n"
  "heads_from (off + length (concat (map val_str vs))) hs n \<Longrightarrow>
     heads_from off (vals_heads off vs @ hs) n"
proof (induction off v and off vs arbitrary: hs and hs rule: val_heads_vals_heads.induct)
  case (1 off vs)
  then show ?case by (auto intro: heads_from_weaken)
qed (auto intro: heads_from_weaken simp: ac_simps)

lemma render_val:
  "length (rlp v) < 2 ^ 64 \<Longrightarrow> take (length (val_str v)) (drop off s) = val_str v \<Longrightarrow>
   heads_from (off + length (val_str v)) hs (length s) \<Longrightarrow>
     render s (val_heads off v @ hs) off = rlp v @ render s hs (off + length (val_str v))"
  "length (concat (map rlp vs)) < 2 ^ 64 \<Longrightarrow>
   take (length (concat (map val_str vs))) (drop off s) = concat (map val_str vs) \<Longrightarrow>
   heads_from (off + length (concat (map val_str vs))) hs (length s) \<Longrightarrow>
     render s (vals_heads off vs @ hs) off =
       concat (map rlp vs) @ render s hs (off + length (concat (map val_str vs)))"
proof (induction off v and off vs arbitrary: hs and hs rule: val_heads_vals_heads.induct)
  case (1 off vs)
  show ?case
  proof (cases "vs = []")
    case True
    with 1 show ?thesis
      using render_advance[of "off + 1" hs s off] by (simp add: rlp_list_def rlp_head_def)
  next
    case False
    have "length (concat (map rlp vs)) < 2 ^ 64"
      using 1(2) length_rlp_list_ge[of "concat (map rlp vs)"] by simp
    with False 1 show ?thesis
      by (simp add: head_encode_def puthead_rlp_head rlp_list_def)
  qed
next
  case (4 off v vs)
  let ?n = "length (val_str v)" and ?vs = "concat (map val_str vs)"
  have split: "take ?n (drop off s) = val_str v"
    "take (length ?vs) (drop (off + ?n) s) = ?vs"
    using take_add_split[of ?n "length ?vs" "drop off s" "val_str v" ?vs] 4(4)
    by (simp_all add: add.commute)
  have hs: "heads_from (off + ?n + length ?vs) hs (length s)"
    using 4(5) by (simp add: ac_simps)
  have "heads_from (off + ?n) (vals_heads (off + ?n) vs @ hs) (length s)"
    using heads_from_val(2)[OF hs] .
  with 4 split hs show ?case by (simp add: ac_simps)
qed (auto intro: render_skip)

lemma EncodeToBytes_rlp:
  assumes "length (rlp v) < 2 ^ 63"
  shows "EncodeToBytes v = Ret (rlp v)"
proof -
  let ?s = "val_str v" and ?hs = "val_heads 0 v"
  have out: "length (rlp v) < 2 ^ 64" using assms by simp
  have hs: "heads_from 0 ?hs (length ?s)"
    using heads_from_val(1)[of 0 v "[]"] by simp
  have "render ?s ?hs 0 = rlp v"
    using render_val(1)[of v 0 ?s "[]"] out by simp
  with hs show ?thesis
    by (simp add: EncodeToBytes_def encode_val_spec(1)[OF out] empty_buf_def add_val_def makeBytes_def
        copyTo_def buf_size_def copyTo_loop_render)
qed

section \<open>Properties\<close>

text \<open>C11. The buffered encoder refines the reference encoding: for every value whose encoding fits a Go
  slice, the two-pass encoder (string data and list heads recorded separately, sizes patched by
  \<open>listEnd\<close>, merged by \<open>copyTo\<close>) neither fails nor panics and returns exactly the recursive RLP
  encoding of the value.\<close>

theorem EncodeToBytes_correct:
  "length (rlp v) < 2 ^ 63 \<Longrightarrow> EncodeToBytes v = Ret (rlp v)"
  by (rule EncodeToBytes_rlp)

theorem EncodeToBytes_correct_witness:
  "length (rlp (VSlice [VUint 1024, VSlice [], VBytes [7]])) < 2 ^ 63 \<and>
   EncodeToBytes (VSlice [VUint 1024, VSlice [], VBytes [7]]) = Ret [0xC5, 0x82, 0x04, 0x00, 0xC0, 0x07]"
proof -
  have r: "rlp (VSlice [VUint 1024, VSlice [], VBytes [7]]) = [0xC5, 0x82, 0x04, 0x00, 0xC0, 0x07]"
    by code_simp
  show ?thesis using EncodeToBytes_correct[of "VSlice [VUint 1024, VSlice [], VBytes [7]]"] unfolding r by simp
qed

end
