(* ===== verification/Rlp_Raw.thy ===== *)
theory Rlp_Raw
  imports Rlp_Encode
begin

text \<open>
  The RLP splitter \<^verbatim>\<open>rlp/raw.go\<close>: reading the header of the first value of a byte slice, splitting the
  value off, counting values, the size functions and the integer shortcut \<open>AppendUint64\<close>. On an error
  the Go functions also return the untouched input; that return value is not part of the model's
  \<open>Fail\<close>.
\<close>

section \<open>The functions\<close>

datatype Kind = Byte_Kind | String_Kind | List_Kind

definition StringSize :: "bytes \<Rightarrow> uint64" where
  "StringSize s =
     (case s of
        [] \<Rightarrow> 1
      | [c] \<Rightarrow> (if c \<le> 0x7f then 1 else 2)
      | _ \<Rightarrow> word_of_nat (headsize (ulen s) + length s))"

definition BytesSize :: "bytes \<Rightarrow> uint64" where
  "BytesSize b =
     (case b of
        [] \<Rightarrow> 1
      | [c] \<Rightarrow> (if c \<le> 0x7f then 1 else 2)
      | _ \<Rightarrow> word_of_nat (headsize (ulen b) + length b))"

definition ListSize :: "uint64 \<Rightarrow> uint64" where
  "ListSize contentSize = word_of_nat (headsize contentSize) + contentSize"

definition IntSize :: "uint64 \<Rightarrow> nat" where
  "IntSize x = (if x < 0x80 then 1 else 1 + intsize x)"

text \<open>
  \<open>uint64(b[i])<<k | ...\<close> for the listed pairs of an index \<open>i\<close> and a shift \<open>k\<close>, from left to right: an index out of range
  panics.
\<close>

fun or_bytes :: "bytes \<Rightarrow> (nat \<times> nat) list \<Rightarrow> (rlp_error, uint64) outcome" where
  "or_bytes b [] = Ret 0"
| "or_bytes b ((i, k) # ts) =
     bind_outcome (index b i) (\<lambda>x. bind_outcome (or_bytes b ts) (\<lambda>s. Ret (push_bit k (ucast x) OR s)))"

text \<open>The \<open>switch\<close> of \<open>readSize\<close>.\<close>

definition readSize_switch :: "bytes \<Rightarrow> byte \<Rightarrow> (rlp_error, uint64) outcome" where
  "readSize_switch b slen =
     (if slen = 1 then or_bytes b [(0, 0)]
      else if slen = 2 then or_bytes b [(0, 8), (1, 0)]
      else if slen = 3 then or_bytes b [(0, 16), (1, 8), (2, 0)]
      else if slen = 4 then or_bytes b [(0, 24), (1, 16), (2, 8), (3, 0)]
      else if slen = 5 then or_bytes b [(0, 32), (1, 24), (2, 16), (3, 8), (4, 0)]
      else if slen = 6 then or_bytes b [(0, 40), (1, 32), (2, 24), (3, 16), (4, 8), (5, 0)]
      else if slen = 7 then or_bytes b [(0, 48), (1, 40), (2, 32), (3, 24), (4, 16), (5, 8), (6, 0)]
      else if slen = 8 then or_bytes b [(0, 56), (1, 48), (2, 40), (3, 32), (4, 24), (5, 16), (6, 8), (7, 0)]
      else Ret 0)"

definition readSize :: "bytes \<Rightarrow> byte \<Rightarrow> (rlp_error, uint64) outcome" where
  "readSize b slen =
     (if unat slen > length b then Fail ErrUnexpectedEOF
      else bind_outcome (readSize_switch b slen) (\<lambda>s.
        if s < 56 then Fail ErrCanonSize
        else bind_outcome (index b 0) (\<lambda>b0. if b0 = 0 then Fail ErrCanonSize else Ret s)))"

definition readKind :: "bytes \<Rightarrow> (rlp_error, Kind \<times> uint64 \<times> uint64) outcome" where
  "readKind buf =
     (if length buf = 0 then Fail ErrUnexpectedEOF
      else
        bind_outcome (index buf 0) (\<lambda>b.
        bind_outcome
          (if b < 0x80 then Ret (Byte_Kind, 0, 1)
           else if b < 0xB8 then
             (let contentsize = ucast (b - 0x80) in
              bind_outcome
                (if contentsize = 1 \<and> length buf > 1 then bind_outcome (index buf 1) (\<lambda>b1. Ret (b1 < 128))
                 else Ret False) (\<lambda>single.
              if single then Fail ErrCanonSize else Ret (String_Kind, 1, contentsize)))
           else if b < 0xC0 then
             bind_outcome (slice_from buf 1) (\<lambda>rest.
             bind_outcome (readSize rest (b - 0xB7)) (\<lambda>contentsize.
               Ret (String_Kind, ucast (b - 0xB7) + 1, contentsize)))
           else if b < 0xF8 then Ret (List_Kind, 1, ucast (b - 0xC0))
           else
             bind_outcome (slice_from buf 1) (\<lambda>rest.
             bind_outcome (readSize rest (b - 0xF7)) (\<lambda>contentsize.
               Ret (List_Kind, ucast (b - 0xF7) + 1, contentsize))))
          (\<lambda>(k, tagsize, contentsize).
             if contentsize > ulen buf - tagsize then Fail ErrValueTooLarge
             else Ret (k, tagsize, contentsize))))"

definition Split :: "bytes \<Rightarrow> (rlp_error, Kind \<times> bytes \<times> bytes) outcome" where
  "Split b =
     bind_outcome (readKind b) (\<lambda>(k, ts, cs).
     bind_outcome (slice b (unat ts) (unat (ts + cs))) (\<lambda>content.
     bind_outcome (slice_from b (unat (ts + cs))) (\<lambda>rest. Ret (k, content, rest))))"

definition SplitString :: "bytes \<Rightarrow> (rlp_error, bytes \<times> bytes) outcome" where
  "SplitString b =
     bind_outcome (Split b) (\<lambda>(k, content, rest).
       if k = List_Kind then Fail ErrExpectedString else Ret (content, rest))"

definition SplitUint64 :: "bytes \<Rightarrow> (rlp_error, uint64 \<times> bytes) outcome" where
  "SplitUint64 b =
     bind_outcome (SplitString b) (\<lambda>(content, rest).
       if length content = 0 then Ret (0, rest)
       else if length content = 1 then
         bind_outcome (index content 0) (\<lambda>c0. if c0 = 0 then Fail ErrCanonInt else Ret (ucast c0, rest))
       else if length content > 8 then Fail ErrUintOverflow
       else case readSize content (word_of_nat (length content)) of
              Ret x \<Rightarrow> Ret (x, rest)
            | Fail e \<Rightarrow> Fail ErrCanonInt
            | Panic \<Rightarrow> Panic)"

definition SplitList :: "bytes \<Rightarrow> (rlp_error, bytes \<times> bytes) outcome" where
  "SplitList b =
     bind_outcome (Split b) (\<lambda>(k, content, rest).
       if k \<noteq> List_Kind then Fail ErrExpectedList else Ret (content, rest))"

definition AppendUint64 :: "bytes \<Rightarrow> uint64 \<Rightarrow> bytes" where
  "AppendUint64 b i =
     (if i = 0 then b @ [0x80]
      else if i < 128 then b @ [ucast i]
      else if i < 2 ^ 8 then b @ [0x81, ucast i]
      else if i < 2 ^ 16 then b @ [0x82, ucast (drop_bit 8 i), ucast i]
      else if i < 2 ^ 24 then b @ [0x83, ucast (drop_bit 16 i), ucast (drop_bit 8 i), ucast i]
      else if i < 2 ^ 32 then
        b @ [0x84, ucast (drop_bit 24 i), ucast (drop_bit 16 i), ucast (drop_bit 8 i), ucast i]
      else if i < 2 ^ 40 then
        b @ [0x85, ucast (drop_bit 32 i), ucast (drop_bit 24 i), ucast (drop_bit 16 i),
             ucast (drop_bit 8 i), ucast i]
      else if i < 2 ^ 48 then
        b @ [0x86, ucast (drop_bit 40 i), ucast (drop_bit 32 i), ucast (drop_bit 24 i),
             ucast (drop_bit 16 i), ucast (drop_bit 8 i), ucast i]
      else if i < 2 ^ 56 then
        b @ [0x87, ucast (drop_bit 48 i), ucast (drop_bit 40 i), ucast (drop_bit 32 i),
             ucast (drop_bit 24 i), ucast (drop_bit 16 i), ucast (drop_bit 8 i), ucast i]
      else
        b @ [0x88, ucast (drop_bit 56 i), ucast (drop_bit 48 i), ucast (drop_bit 40 i),
             ucast (drop_bit 32 i), ucast (drop_bit 24 i), ucast (drop_bit 16 i),
             ucast (drop_bit 8 i), ucast i])"

section \<open>Reading a size\<close>

lemma readSize_switch_be_word:
  assumes "unat slen = n" "0 < n" "n \<le> 8" "n \<le> length b"
  shows "readSize_switch b slen = Ret (be_word (take n b))"
proof -
  have step: "be_word (take (Suc k) b) = push_bit 8 (be_word (take k b)) OR ucast (b ! k)"
    if "k < n" for k
    using that assms(4) by (simp add: take_Suc_conv_app_nth)
  have slen: "slen = word_of_nat n"
    unfolding assms(1)[symmetric] by simp
  have eight: "n \<in> {1, 2, 3, 4, 5, 6, 7, 8}" using assms by auto
  have one: "be_word (take 1 b) = ucast (b ! 0)" if "1 \<le> n"
    using step[of 0] that by simp
  have two: "be_word (take 2 b) = push_bit 8 (be_word (take 1 b)) OR ucast (b ! 1)" if "1 < n"
    using step[of 1] that by (simp add: numeral_2_eq_2)
  have idx: "index b k = (Ret (b ! k) :: (rlp_error, byte) outcome)" if "k < n" for k
    using that assms(4) by (intro index_Ret) linarith
  note digits = one two step[of 2] step[of 3] step[of 4] step[of 5] step[of 6] step[of 7]
  note shifts = push_bit_or push_bit_push_bit or.assoc
  show ?thesis
    using eight digits unfolding readSize_switch_def slen
    by (elim insertE emptyE) (simp_all add: idx shifts)
qed

lemma readSize_be:
  assumes n: "unat slen = n" "0 < n" "n \<le> 8"
  shows "readSize b slen =
    (if length b < n then Fail ErrUnexpectedEOF
     else if be_nat (take n b) < 56 \<or> b ! 0 = 0 then Fail ErrCanonSize
     else Ret (be_word (take n b)))"
proof (cases "length b < n")
  case True
  with n show ?thesis by (simp add: readSize_def)
next
  case False
  then have "unat (be_word (take n b)) = be_nat (take n b)"
    using n by (intro unat_be_word) simp
  then have "be_word (take n b) < 56 \<longleftrightarrow> be_nat (take n b) < 56"
    by (simp add: word_less_nat_alt)
  moreover have "index b 0 = (Ret (b ! 0) :: (rlp_error, byte) outcome)"
    using False n by (intro index_Ret) linarith
  ultimately show ?thesis
    using False n readSize_switch_be_word[of slen n b] by (simp add: readSize_def)
qed

text \<open>The length bytes that \<open>readSize\<close> accepts are exactly the canonical ones.\<close>

lemma readSize_be_bytes:
  assumes "56 \<le> m" "m < 2 ^ 64"
  shows "readSize (be_bytes m @ rest) (word_of_nat (length (be_bytes m))) = Ret (word_of_nat m)"
proof -
  let ?n = "length (be_bytes m)"
  have n: "?n \<le> 8" using assms(2) by (intro length_be_bytes_le) simp_all
  then have un: "unat (word_of_nat ?n :: byte) = ?n" by (simp add: unat_of_nat)
  have "hd (be_bytes m) \<noteq> 0" using assms(1) by (intro hd_be_bytes) simp
  then have hd: "(be_bytes m @ rest) ! 0 \<noteq> 0" by (simp add: nth_append hd_conv_nth)
  have "be_word (be_bytes m) = word_of_nat m"
    using unat_be_word[OF n] assms(2) by (simp add: word_unat_eq_iff unat_of_nat)
  then show ?thesis
    using readSize_be[OF un] n hd assms(1) by simp
qed

lemma readSize_RetD:
  assumes n: "unat slen = n" "0 < n" "n \<le> 8" and r: "readSize b slen = Ret s"
  shows "56 \<le> unat s \<and> b = be_bytes (unat s) @ drop n b \<and> length (be_bytes (unat s)) = n"
proof -
  have s: "s = be_word (take n b)" and len: "n \<le> length b" and big: "56 \<le> be_nat (take n b)"
    and nz: "b ! 0 \<noteq> 0"
    using r by (auto simp: readSize_be[OF n] split: if_splits)
  have us: "unat s = be_nat (take n b)"
    using n by (simp add: s unat_be_word)
  have "hd (take n b) \<noteq> 0" using nz len n by (cases b) simp_all
  then have "be_bytes (unat s) = take n b"
    using n len us by (auto intro: be_bytes_be_nat)
  with us big len show ?thesis by simp
qed

section \<open>Canonical values\<close>

text \<open>The encoding of a value of each kind, and the contents that kind may have.\<close>

fun enc_kind :: "Kind \<Rightarrow> bytes \<Rightarrow> bytes" where
  "enc_kind Byte_Kind c = c"
| "enc_kind String_Kind c = rlp_head 0x80 0xB7 (length c) @ c"
| "enc_kind List_Kind c = rlp_list c"

fun kind_ok :: "Kind \<Rightarrow> bytes \<Rightarrow> bool" where
  "kind_ok Byte_Kind c \<longleftrightarrow> (\<exists>b. c = [b] \<and> b < 0x80)"
| "kind_ok String_Kind c \<longleftrightarrow> \<not> (\<exists>b. c = [b] \<and> b < 0x80)"
| "kind_ok List_Kind c \<longleftrightarrow> True"

definition enc_head :: "Kind \<Rightarrow> nat \<Rightarrow> bytes" where
  "enc_head k n =
     (case k of Byte_Kind \<Rightarrow> [] | String_Kind \<Rightarrow> rlp_head 0x80 0xB7 n | List_Kind \<Rightarrow> rlp_head 0xC0 0xF7 n)"

lemma enc_kind_head: "enc_kind k c = enc_head k (length c) @ c"
  by (cases k) (simp_all add: enc_head_def rlp_list_def)

lemma size_check:
  assumes "go_slice buf" "m + n \<le> length buf"
  shows "\<not> (word_of_nat n :: uint64) > ulen buf - word_of_nat m"
    and "unat (word_of_nat m + word_of_nat n :: uint64) = m + n"
proof -
  have m: "unat (word_of_nat m :: uint64) = m" and n: "unat (word_of_nat n :: uint64) = n"
    using assms by (simp_all add: go_slice_def unat_of_nat)
  have "word_of_nat m \<le> ulen buf"
    using assms m by (simp add: word_le_nat_alt unat_ulen)
  then have "unat (ulen buf - word_of_nat m) = length buf - m"
    using assms m by (simp add: unat_sub unat_ulen)
  then show "\<not> (word_of_nat n :: uint64) > ulen buf - word_of_nat m"
    using assms n by (simp add: word_less_nat_alt)
  show "unat (word_of_nat m + word_of_nat n :: uint64) = m + n"
    using assms by (simp add: unat_word_ariths m n go_slice_def)
qed

text \<open>Tag bytes: a tag plus a small number stays in its range and gives the number back.\<close>

lemma tag_add:
  assumes "unat (tag :: byte) + n < 256"
  shows "unat (tag + word_of_nat n) = unat tag + n" and "tag + word_of_nat n - tag = word_of_nat n"
  using assms by (simp_all add: unat_word_ariths unat_of_nat)

text \<open>
  The guards in front of the index and slice expressions of \<open>readKind\<close> keep them in range: on a non-empty input it reads the tag,
  the byte after it where there is one, and the rest.
\<close>

lemma readKind_Nil: "readKind [] = Fail ErrUnexpectedEOF"
  by (simp add: readKind_def)

lemma readKind_Cons:
  "readKind (b # rest) =
     bind_outcome
       (if b < 0x80 then Ret (Byte_Kind, 0, 1)
        else if b < 0xB8 then
          (let contentsize = ucast (b - 0x80) in
           if contentsize = 1 \<and> length (b # rest) > 1 \<and> (b # rest) ! 1 < 128 then Fail ErrCanonSize
           else Ret (String_Kind, 1, contentsize))
        else if b < 0xC0 then
          bind_outcome (readSize rest (b - 0xB7)) (\<lambda>contentsize. Ret (String_Kind, ucast (b - 0xB7) + 1, contentsize))
        else if b < 0xF8 then Ret (List_Kind, 1, ucast (b - 0xC0))
        else bind_outcome (readSize rest (b - 0xF7)) (\<lambda>contentsize. Ret (List_Kind, ucast (b - 0xF7) + 1, contentsize)))
       (\<lambda>(k, tagsize, contentsize).
          if contentsize > ulen (b # rest) - tagsize then Fail ErrValueTooLarge else Ret (k, tagsize, contentsize))"
proof -
  have "(if contentsize = 1 \<and> length (b # rest) > 1 then bind_outcome (index (b # rest) 1) (\<lambda>b1. Ret (b1 < 128)) else Ret False)
      = (Ret (contentsize = 1 \<and> length (b # rest) > 1 \<and> (b # rest) ! 1 < 128) :: (rlp_error, bool) outcome)" for contentsize :: uint64
    by (simp add: index_def)
  then show ?thesis by (simp add: readKind_def index_def slice_from_def slice_def Let_def)
qed

lemma readKind_enc:
  assumes b: "go_slice (enc_kind k c @ rest)" and ok: "kind_ok k c"
  shows "readKind (enc_kind k c @ rest) =
    Ret (k, word_of_nat (length (enc_head k (length c))), word_of_nat (length c))"
proof -
  let ?buf = "enc_kind k c @ rest"
  let ?L = "length (be_bytes (length c))"
  have chk: "\<not> (word_of_nat (length c) :: uint64) > ulen ?buf - word_of_nat (length (enc_head k (length c)))"
    using b by (intro size_check(1)) (simp_all add: enc_kind_head)
  have len: "length c < 2 ^ 64" using b by (simp add: go_slice_def enc_kind_head)
  then have L: "?L \<le> 8" "0 < ?L" by (auto intro: length_be_bytes_le)
  note tags = word_less_nat_alt tag_add
  show ?thesis
  proof (cases k)
    case Byte_Kind
    with ok chk show ?thesis by (auto simp: readKind_Cons enc_head_def)
  next
    case String_Kind
    show ?thesis
    proof (cases "length c < 56")
      case True
      have "\<not> (length c = 1 \<and> length ?buf > 1 \<and> ?buf ! 1 < 128)"
        using String_Kind ok True by (cases c) (auto simp: rlp_head_def)
      moreover have "(ucast (word_of_nat (length c) :: byte) :: uint64) = 1 \<longleftrightarrow> length c = 1"
        using True by (simp add: word_unat_eq_iff unsigned_ucast_eq unat_of_nat take_bit_eq_mod)
      moreover have "(ucast (word_of_nat (length c) :: byte) :: uint64) = word_of_nat (length c)"
        using True by (simp add: word_unat_eq_iff unsigned_ucast_eq unat_of_nat take_bit_eq_mod)
      ultimately show ?thesis
        using String_Kind True chk by (simp add: readKind_Cons enc_head_def rlp_head_def tags Let_def)
    next
      case False
      have "(ucast (word_of_nat ?L :: byte) :: uint64) + 1 = word_of_nat (Suc ?L)"
        using L by (simp add: word_unat_eq_iff unat_word_ariths unsigned_ucast_eq unat_of_nat take_bit_eq_mod)
      then show ?thesis
        using String_Kind False L chk readSize_be_bytes[of "length c" "c @ rest"] len
        by (simp add: readKind_Cons enc_head_def rlp_head_def tags add.commute[of _ 1])
    qed
  next
    case List_Kind
    show ?thesis
    proof (cases "length c < 56")
      case True
      moreover have "(ucast (word_of_nat (length c) :: byte) :: uint64) = word_of_nat (length c)"
        using True by (simp add: word_unat_eq_iff unsigned_ucast_eq unat_of_nat take_bit_eq_mod)
      ultimately show ?thesis
        using List_Kind True chk by (simp add: readKind_Cons enc_head_def rlp_head_def rlp_list_def tags)
    next
      case False
      have "(ucast (word_of_nat ?L :: byte) :: uint64) + 1 = word_of_nat (Suc ?L)"
        using L by (simp add: word_unat_eq_iff unat_word_ariths unsigned_ucast_eq unat_of_nat take_bit_eq_mod)
      then show ?thesis
        using List_Kind False L chk readSize_be_bytes[of "length c" "c @ rest"] len
        by (simp add: readKind_Cons enc_head_def rlp_head_def rlp_list_def tags add.commute[of _ 1])
    qed
  qed
qed

text \<open>A size that passes the check against the input length leaves room for the content.\<close>

lemma size_check_room:
  assumes "go_slice buf" "unat ts \<le> length buf" "\<not> cs > ulen buf - ts"
  shows "unat ts + unat cs \<le> length buf"
proof -
  have "ts \<le> ulen buf" using assms by (simp add: word_le_nat_alt unat_ulen)
  then have "unat (ulen buf - ts) = length buf - unat ts"
    using assms by (simp add: unat_sub unat_ulen)
  then show ?thesis using assms(2,3) by (simp add: word_less_nat_alt)
qed

lemma long_head:
  assumes tag: "unat (large :: byte) + n = unat b" "0 < n" "n \<le> 8"
    and r: "readSize rest (b - large) = Ret cs"
  shows "rlp_head small large (unat cs) = b # take n rest \<and> n \<le> length rest \<and> unat (ucast (b - large) + 1 :: uint64) = n + 1"
proof -
  have un: "unat (b - large) = n"
    using tag by (simp add: unat_sub word_le_nat_alt)
  from readSize_RetD[OF un tag(2,3) r]
  have cs: "56 \<le> unat cs" "rest = be_bytes (unat cs) @ drop n rest" "length (be_bytes (unat cs)) = n"
    by auto
  have "take n rest = be_bytes (unat cs)"
    using cs(3) by (subst cs(2)) simp
  moreover have "n \<le> length rest" using cs(3) by (subst cs(2)) simp
  moreover have "large + word_of_nat n = b"
    using un by (metis add_diff_cancel_left' diff_add_cancel add.commute word_unat_eq_iff unat_of_nat of_nat_unat ucast_id)
  moreover have "unat (ucast (b - large) + 1 :: uint64) = n + 1"
    using un tag(3) by (simp add: unat_word_ariths unsigned_ucast_eq take_bit_eq_mod)
  ultimately show ?thesis using cs by (simp add: rlp_head_def)
qed

lemma short_head:
  assumes "unat (small :: byte) \<le> unat b" "unat b < unat small + 56"
  shows "rlp_head small large (unat (ucast (b - small) :: uint64)) = [b]"
proof -
  have "unat (ucast (b - small) :: uint64) = unat (b - small)"
    using unsigned_less[of "b - small", where 'a = nat]
    by (simp add: unsigned_ucast_eq take_bit_eq_mod)
  moreover have "unat (b - small) < 56" using assms by (simp add: unat_sub word_le_nat_alt)
  ultimately show ?thesis by (simp add: rlp_head_def)
qed

lemma readKind_RetD:
  assumes b: "go_slice buf" and r: "readKind buf = Ret (k, ts, cs)"
  shows "\<exists>c rest. buf = enc_kind k c @ rest \<and> kind_ok k c \<and>
    unat ts = length (enc_head k (length c)) \<and> unat cs = length c"
proof -
  obtain b0 tl where buf: "buf = b0 # tl"
    using r by (cases buf) (simp_all add: readKind_Nil)
  have chk: "\<not> cs > ulen buf - ts"
    using r unfolding buf by (auto simp: readKind_Cons bind_outcome_eq_Ret split: if_splits)
  have head: "take (unat ts) buf = enc_head k (unat cs) \<and> unat ts \<le> length buf \<and>
      length (enc_head k (unat cs)) = unat ts \<and>
      (k = Byte_Kind \<longrightarrow> ts = 0 \<and> cs = 1 \<and> b0 < 0x80) \<and>
      (k = String_Kind \<longrightarrow> cs = 1 \<longrightarrow> ts = 1 \<and> \<not> (length buf > 1 \<and> buf ! 1 < 128))"
  proof -
    consider "unat b0 < 0x80" | "0x80 \<le> unat b0" "unat b0 < 0xB8" | "0xB8 \<le> unat b0" "unat b0 < 0xC0"
      | "0xC0 \<le> unat b0" "unat b0 < 0xF8" | "0xF8 \<le> unat b0" by linarith
    then show ?thesis
    proof cases
      case 1
      then show ?thesis using r unfolding buf
        by (auto simp: readKind_Cons enc_head_def word_less_nat_alt split: if_splits)
    next
      case 2
      then have "k = String_Kind" "ts = 1" "cs = ucast (b0 - 0x80)"
        "\<not> (cs = 1 \<and> length buf > 1 \<and> buf ! 1 < 128)"
        using r unfolding buf by (auto simp: readKind_Cons word_less_nat_alt Let_def split: if_splits)
      then show ?thesis using 2 short_head[of "0x80" b0 "0xB7"] unfolding buf
        by (auto simp: enc_head_def)
    next
      case 3
      then have "k = String_Kind" "ts = ucast (b0 - 0xB7) + 1" "readSize tl (b0 - 0xB7) = Ret cs"
        using r unfolding buf
        by (auto simp: readKind_Cons word_less_nat_alt bind_outcome_eq_Ret split: if_splits)
      moreover have "unat b0 - 0xB7 \<le> 8" using 3 by simp
      ultimately show ?thesis
        using 3 long_head[of "0xB7" "unat b0 - 0xB7" b0 tl cs "0x80"] readSize_RetD[of "b0 - 0xB7" "unat b0 - 0xB7" tl cs]
        unfolding buf by (auto simp: enc_head_def unat_sub word_le_nat_alt)
    next
      case 4
      then have "k = List_Kind" "ts = 1" "cs = ucast (b0 - 0xC0)"
        using r unfolding buf by (auto simp: readKind_Cons word_less_nat_alt split: if_splits)
      then show ?thesis using 4 short_head[of "0xC0" b0 "0xF7"] unfolding buf
        by (auto simp: enc_head_def)
    next
      case 5
      then have "k = List_Kind" "ts = ucast (b0 - 0xF7) + 1" "readSize tl (b0 - 0xF7) = Ret cs"
        using r unfolding buf
        by (auto simp: readKind_Cons word_less_nat_alt bind_outcome_eq_Ret split: if_splits)
      then show ?thesis
        using 5 long_head[of "0xF7" "unat b0 - 0xF7" b0 tl cs "0xC0"] byte_less_256[of b0]
        unfolding buf by (auto simp: enc_head_def)
    qed
  qed
  define c where "c = take (unat cs) (drop (unat ts) buf)"
  have room: "unat ts + unat cs \<le> length buf"
    using size_check_room[OF b _ chk] head by blast
  then have lc: "length c = unat cs" by (simp add: c_def)
  have "buf = take (unat ts) buf @ c @ drop (unat ts + unat cs) buf"
    unfolding c_def by (rule list_split3)
  with head lc have eq: "buf = enc_kind k c @ drop (unat ts + unat cs) buf"
    by (simp add: enc_kind_head)
  moreover have "kind_ok k c"
  proof (cases k)
    case Byte_Kind
    with head have "c = [b0]" "b0 < 0x80" by (simp_all add: c_def buf)
    with Byte_Kind show ?thesis by simp
  next
    case String_Kind
    show ?thesis
    proof (rule ccontr)
      assume "\<not> kind_ok k c"
      with String_Kind obtain x where x: "c = [x]" "x < 0x80" by auto
      with lc have "cs = 1" by (simp add: word_unat_eq_iff)
      with head String_Kind have ts: "ts = 1" "\<not> (length buf > 1 \<and> buf ! 1 < 128)" by auto
      with x room \<open>cs = 1\<close> have "buf ! 1 = x" "1 < length buf"
        by (auto simp: c_def take_Suc hd_drop_conv_nth)
      with ts x show False by simp
    qed
  qed simp
  moreover have "unat ts = length (enc_head k (length c))" using head lc by simp
  ultimately show ?thesis using lc by metis
qed

section \<open>Splitting\<close>

lemma readSize_no_panic: "readSize b slen \<noteq> Panic"
proof (cases "0 < unat slen \<and> unat slen \<le> 8")
  case True
  then show ?thesis by (simp add: readSize_be)
next
  case False
  then have "readSize_switch b slen = Ret 0" by (auto simp: readSize_switch_def)
  then show ?thesis by (simp add: readSize_def)
qed

lemma readKind_no_panic: "readKind b \<noteq> Panic"
  by (cases b) (auto simp: readKind_Nil readKind_Cons readSize_no_panic bind_outcome_eq_Panic Let_def split: if_splits)

lemma Split_enc:
  assumes "go_slice (enc_kind k c @ rest)" "kind_ok k c"
  shows "Split (enc_kind k c @ rest) = Ret (k, c, rest)"
proof -
  let ?b = "enc_kind k c @ rest" and ?t = "length (enc_head k (length c))"
  have room: "?t + length c \<le> length ?b" by (simp add: enc_kind_head)
  have t: "unat (word_of_nat ?t :: uint64) = ?t"
    using assms(1) by (simp add: go_slice_def enc_kind_head unat_of_nat)
  have "slice ?b ?t (?t + length c) = (Ret c :: (rlp_error, bytes) outcome)"
    "slice_from ?b (?t + length c) = (Ret rest :: (rlp_error, bytes) outcome)"
    by (simp_all add: slice_Ret slice_from_Ret enc_kind_head)
  then show ?thesis
    using readKind_enc[OF assms] t size_check(2)[OF assms(1) room] by (simp add: Split_def)
qed

lemma Split_cases:
  assumes "go_slice b"
  obtains k c rest where "b = enc_kind k c @ rest" "kind_ok k c" "Split b = Ret (k, c, rest)"
    "readKind b = Ret (k, word_of_nat (length (enc_head k (length c))), word_of_nat (length c))"
  | e where "readKind b = Fail e" "Split b = Fail e"
proof (cases "readKind b")
  case (Ret x)
  then obtain k ts cs where "readKind b = Ret (k, ts, cs)" by (cases x) auto
  from readKind_RetD[OF assms this] obtain c rest where "b = enc_kind k c @ rest" "kind_ok k c" by auto
  with that(1) assms readKind_enc Split_enc show thesis by blast
next
  case (Fail e)
  then show thesis using that(2) by (simp add: Split_def)
next
  case Panic
  then show thesis using readKind_no_panic by blast
qed

lemma Split_eq_Ret:
  "go_slice b \<Longrightarrow> Split b = Ret (k, c, rest) \<longleftrightarrow> b = enc_kind k c @ rest \<and> kind_ok k c"
proof
  assume b: "go_slice b" and s: "Split b = Ret (k, c, rest)"
  show "b = enc_kind k c @ rest \<and> kind_ok k c"
    using Split_cases[OF b] s by (metis outcome.distinct(1) outcome.inject(1) prod.inject)
next
  assume "go_slice b" "b = enc_kind k c @ rest \<and> kind_ok k c"
  then show "Split b = Ret (k, c, rest)" by (simp add: Split_enc)
qed

lemma Split_no_panic: "go_slice b \<Longrightarrow> Split b \<noteq> Panic"
  by (rule Split_cases[of b]) auto

lemma enc_kind_string: "kind_ok (if length c = 1 \<and> hd c < 0x80 then Byte_Kind else String_Kind) c"
  and rlp_string_enc_kind:
    "rlp_string c = enc_kind (if length c = 1 \<and> hd c < 0x80 then Byte_Kind else String_Kind) c"
  by (cases c, auto simp: rlp_string_def)+

lemma SplitString_eq_Ret:
  assumes "go_slice b"
  shows "SplitString b = Ret (c, rest) \<longleftrightarrow> b = rlp_string c @ rest"
proof -
  have "SplitString b = Ret (c, rest) \<longleftrightarrow>
      (\<exists>k. k \<noteq> List_Kind \<and> b = enc_kind k c @ rest \<and> kind_ok k c)"
    using assms by (auto simp: SplitString_def bind_outcome_eq_Ret Split_eq_Ret split: if_splits)
  also have "\<dots> \<longleftrightarrow> b = rlp_string c @ rest"
    by (cases c) (auto simp: rlp_string_def elim: kind_ok.elims intro: exI[of _ Byte_Kind] exI[of _ String_Kind])
  finally show ?thesis .
qed

lemma SplitList_eq_Ret:
  "go_slice b \<Longrightarrow> SplitList b = Ret (c, rest) \<longleftrightarrow> b = rlp_list c @ rest"
  by (auto simp: SplitList_def bind_outcome_eq_Ret Split_eq_Ret split: if_splits)

lemma Split_decreases:
  "go_slice b \<Longrightarrow> Split b = Ret (k, c, rest) \<Longrightarrow> length rest < length b"
  by (cases k) (auto simp: Split_eq_Ret rlp_list_def rlp_head_def)

section \<open>Integers\<close>

lemma AppendUint64_rlp: "AppendUint64 b i = b @ rlp (VUint i)"
proof -
  have "buf_str (buf_writeUint64 (empty_buf\<lparr>buf_str := b\<rparr>) i) = AppendUint64 b i"
    by (simp add: buf_writeUint64_def AppendUint64_def putint_def buf_append_def Let_def)
  then show ?thesis by (simp add: writeUint64_rlp buf_append_def)
qed

lemma SplitUint64_eq_Ret:
  assumes b: "go_slice b"
  shows "SplitUint64 b = Ret (x, rest) \<longleftrightarrow> b = AppendUint64 [] x @ rest"
proof
  assume r: "SplitUint64 b = Ret (x, rest)"
  then obtain c where c: "b = rlp_string c @ rest"
    and x: "(if length c = 0 then Ret (0, rest) else if length c = 1 then
         (if c ! 0 = 0 then Fail ErrCanonInt else Ret (ucast (c ! 0), rest))
       else if length c > 8 then Fail ErrUintOverflow
       else case readSize c (word_of_nat (length c)) of
              Ret x \<Rightarrow> Ret (x, rest) | Fail e \<Rightarrow> Fail ErrCanonInt | Panic \<Rightarrow> Panic) = Ret (x, rest)"
    using b by (auto simp: SplitUint64_def bind_outcome_eq_Ret SplitString_eq_Ret index_def
        split: if_splits outcome.splits)
  have "c = (if x = 0 then [] else be_bytes (unat x))"
  proof -
    consider "length c = 0" | "length c = 1" | "2 \<le> length c" by linarith
    then show ?thesis
    proof cases
      case 1
      with x show ?thesis by simp
    next
      case 2
      then obtain y where y: "c = [y]" by (cases c) auto
      with x have "x = ucast y" "y \<noteq> 0" by (auto split: if_splits)
      moreover have "unat (ucast y :: uint64) = unat y"
        using byte_less_256[of y] by (simp add: unsigned_ucast_eq take_bit_eq_mod)
      ultimately show ?thesis
        using y byte_less_256[of y] by (auto simp: be_bytes_small word_unat_eq_iff)
    next
      case 3
      with x have len: "length c \<le> 8" and rs: "readSize c (word_of_nat (length c)) = Ret x"
        by (auto split: if_splits outcome.splits)
      have un: "unat (word_of_nat (length c) :: byte) = length c"
        using len by (simp add: unat_of_nat)
      have "0 < length c" using 3 by linarith
      from readSize_RetD[OF un this len rs]
      have "56 \<le> unat x" "c = be_bytes (unat x)" by auto
      moreover from this have "x \<noteq> 0" by auto
      ultimately show ?thesis by simp
    qed
  qed
  with c show "b = AppendUint64 [] x @ rest" by (simp add: AppendUint64_rlp)
next
  assume "b = AppendUint64 [] x @ rest"
  then have ss: "SplitString b = Ret (if x = 0 then [] else be_bytes (unat x), rest)"
    using b by (simp add: SplitString_eq_Ret AppendUint64_rlp)
  show "SplitUint64 b = Ret (x, rest)"
  proof (cases "unat x < 256")
    case True
    then have "word_of_nat (unat x) = (0 :: byte) \<longleftrightarrow> x = 0" "ucast (word_of_nat (unat x) :: byte) = x"
      by (auto simp: word_unat_eq_iff unat_of_nat unsigned_ucast_eq take_bit_eq_mod unat_mod)
    with True ss show ?thesis by (auto simp: SplitUint64_def be_bytes_small index_def)
  next
    case False
    then have "x \<noteq> 0" "length (be_bytes (unat x)) \<noteq> 1" using be_bytes_single[of "unat x"] by auto
    with False ss length_be_bytes_u64[of x] readSize_be_bytes[of "unat x" "[]"]
      unsigned_less[of x, where 'a = nat] show ?thesis
      by (auto simp: SplitUint64_def)
  qed
qed

section \<open>Counting values\<close>

text \<open>
  The loop of \<open>CountValues\<close>. The first guard is not in the code: it excludes lists longer than any Go
  slice, for which the 64-bit length arithmetic of \<open>readKind\<close> is not meaningful; every other equation
  is the code's.
\<close>

function CountValues_loop :: "bytes \<Rightarrow> nat \<Rightarrow> (rlp_error, nat) outcome" where
  "CountValues_loop b i =
     (if \<not> go_slice b then Panic
      else if length b = 0 then Ret i
      else case readKind b of
             Fail e \<Rightarrow> Fail e
           | Panic \<Rightarrow> Panic
           | Ret (k, tagsize, sz) \<Rightarrow>
               (if unat (tagsize + sz) \<le> length b
                then CountValues_loop (drop (unat (tagsize + sz)) b) (i + 1) else Panic))"
  by pat_completeness auto
termination
proof (relation "measure (\<lambda>(b, i). length b)", goal_cases)
  case 1
  then show ?case by simp
next
  case (2 b i x k y ts cs)
  then have b: "go_slice b" and r: "readKind b = Ret (k, ts, cs)" by auto
  from Split_cases[OF b] obtain c rest where c:
    "b = enc_kind k c @ rest" "kind_ok k c" "ts = word_of_nat (length (enc_head k (length c)))"
    "cs = word_of_nat (length c)"
    using r by (metis outcome.distinct(1) outcome.inject(1) prod.inject)
  then have "unat (ts + cs) = length (enc_head k (length c)) + length c"
    using b by (simp add: size_check(2) enc_kind_head)
  moreover have "0 < length (enc_head k (length c)) + length c"
    using c(2) by (cases k) (auto simp: enc_head_def rlp_head_def)
  ultimately have "0 < unat (ts + cs)" by simp
  moreover have "0 < length b" using 2 by simp
  ultimately show ?case by (simp del: length_greater_0_conv)
qed

declare CountValues_loop.simps [simp del]

definition CountValues :: "bytes \<Rightarrow> (rlp_error, nat) outcome" where
  "CountValues b = CountValues_loop b 0"

lemma CountValues_loop_Split:
  assumes "go_slice b" "b \<noteq> []"
  shows "CountValues_loop b i =
    bind_outcome (Split b) (\<lambda>(k, c, rest). CountValues_loop rest (i + 1))"
proof (rule Split_cases[OF assms(1)])
  fix k c rest
  assume b: "b = enc_kind k c @ rest" and s: "Split b = Ret (k, c, rest)"
    and r: "readKind b = Ret (k, word_of_nat (length (enc_head k (length c))), word_of_nat (length c))"
  let ?t = "length (enc_head k (length c))"
  have n: "unat (word_of_nat ?t + word_of_nat (length c) :: uint64) = ?t + length c"
    using assms(1) b by (intro size_check(2)) (auto simp: enc_kind_head)
  have "?t + length c \<le> length b" "drop (?t + length c) b = rest"
    by (simp_all add: b enc_kind_head)
  then show ?thesis
    using assms r s n by (simp add: CountValues_loop.simps[of b])
next
  fix e
  assume "readKind b = Fail e" "Split b = Fail e"
  then show ?thesis using assms by (simp add: CountValues_loop.simps[of b])
qed

text \<open>A list of values: each element is the kind and content of one encoded value.\<close>

definition enc_seq :: "(Kind \<times> bytes) list \<Rightarrow> bytes" where
  "enc_seq vs = concat (map (\<lambda>(k, c). enc_kind k c) vs)"

lemma enc_seq_simps [simp]:
  "enc_seq [] = []" "enc_seq ((k, c) # vs) = enc_kind k c @ enc_seq vs"
  by (simp_all add: enc_seq_def)

lemma enc_kind_not_Nil: "kind_ok k c \<Longrightarrow> enc_kind k c \<noteq> []"
  by (cases k) (auto simp: rlp_list_def rlp_head_def)

lemma CountValues_loop_enc_seq:
  assumes "go_slice (enc_seq vs)" "\<forall>(k, c) \<in> set vs. kind_ok k c"
  shows "CountValues_loop (enc_seq vs) i = Ret (i + length vs)"
  using assms
proof (induction vs arbitrary: i)
  case Nil
  then show ?case by (simp add: CountValues_loop.simps[of "[]"])
next
  case (Cons v vs)
  obtain k c where v: "v = (k, c)" by (cases v)
  have "CountValues_loop (enc_seq (v # vs)) i = CountValues_loop (enc_seq vs) (i + 1)"
    using Cons.prems v by (subst CountValues_loop_Split) (auto simp: enc_kind_not_Nil Split_enc)
  moreover have "go_slice (enc_seq vs)"
    using Cons.prems(1) v go_slice_append2[of "enc_kind k c" "enc_seq vs"] by simp
  ultimately show ?case using Cons by simp
qed

lemma CountValues_loop_RetD:
  assumes "go_slice b" "CountValues_loop b i = Ret n"
  shows "\<exists>vs. b = enc_seq vs \<and> (\<forall>(k, c) \<in> set vs. kind_ok k c) \<and> n = i + length vs"
  using assms
proof (induction b arbitrary: i rule: length_induct)
  case (1 b)
  show ?case
  proof (cases "b = []")
    case True
    with 1 show ?thesis by (intro exI[of _ "[]"]) (simp add: CountValues_loop.simps[of "[]"])
  next
    case False
    with 1 obtain k c rest where s: "Split b = Ret (k, c, rest)"
      and r: "CountValues_loop rest (i + 1) = Ret n"
      by (auto simp: CountValues_loop_Split bind_outcome_eq_Ret)
    then have b: "b = enc_kind k c @ rest" "kind_ok k c"
      using 1 by (simp_all add: Split_eq_Ret)
    have "length rest < length b" using 1 s by (intro Split_decreases)
    with 1 r b obtain vs where "rest = enc_seq vs" "\<forall>(k, c) \<in> set vs. kind_ok k c"
      "n = i + 1 + length vs"
      by (metis go_slice_append2)
    with b show ?thesis by (intro exI[of _ "(k, c) # vs"]) simp
  qed
qed

section \<open>Absence of panics\<close>

lemma SplitString_no_panic: "go_slice b \<Longrightarrow> SplitString b \<noteq> Panic"
  and SplitList_no_panic: "go_slice b \<Longrightarrow> SplitList b \<noteq> Panic"
  by (auto simp: SplitString_def SplitList_def bind_outcome_eq_Panic Split_no_panic split: if_splits)

lemma SplitUint64_no_panic: "go_slice b \<Longrightarrow> SplitUint64 b \<noteq> Panic"
  by (auto simp: SplitUint64_def bind_outcome_eq_Panic SplitString_no_panic readSize_no_panic index_def
      split: if_splits outcome.splits)

lemma CountValues_no_panic: "go_slice b \<Longrightarrow> CountValues b \<noteq> Panic"
proof -
  have "go_slice b \<Longrightarrow> CountValues_loop b i \<noteq> Panic" for i
  proof (induction b arbitrary: i rule: length_induct)
    case (1 b)
    show ?case
    proof (cases "b = []")
      case True
      then show ?thesis by (simp add: CountValues_loop.simps[of "[]"] go_slice_def)
    next
      case False
      have "CountValues_loop rest j \<noteq> Panic" if "Split b = Ret (k, c, rest)" for k c rest j
        using 1 Split_decreases[of b k c rest] that Split_eq_Ret[of b k c rest] go_slice_append2 by blast
      then show ?thesis
        using 1 False by (auto simp: CountValues_loop_Split bind_outcome_eq_Panic Split_no_panic)
    qed
  qed
  then show "go_slice b \<Longrightarrow> CountValues b \<noteq> Panic" by (simp add: CountValues_def)
qed

section \<open>Properties\<close>

text \<open>C12. \<open>Split\<close> accepts canonical encodings only, and all of them: on a Go slice it returns kind, content
  and rest exactly when the input is the canonical encoding of that kind and content followed by the
  rest (short form where one exists, no leading zeros in sizes, single bytes below 0x80 as themselves).\<close>

theorem Split_canonical:
  "go_slice b \<Longrightarrow> Split b = Ret (k, c, rest) \<longleftrightarrow> b = enc_kind k c @ rest \<and> kind_ok k c"
  by (rule Split_eq_Ret)

theorem Split_canonical_witness:
  "go_slice [0x82, 1, 2, 9] \<and> Split [0x82, 1, 2, 9] = Ret (String_Kind, [1, 2], [9])"
  using Split_canonical[of "[0x82, 1, 2, 9]" String_Kind "[1, 2]" "[9]"]
  by (simp add: go_slice_def rlp_head_def)

text \<open>C13. No input makes the raw readers panic: the size checks of \<open>readKind\<close> and \<open>readSize\<close>, done in
  64-bit arithmetic, keep every index and slice expression of \<open>Split\<close>, \<open>SplitString\<close>, \<open>SplitList\<close>,
  \<open>SplitUint64\<close> and \<open>CountValues\<close> in range.\<close>

theorem raw_readers_never_panic:
  "go_slice b \<Longrightarrow> Split b \<noteq> Panic \<and> SplitString b \<noteq> Panic \<and> SplitList b \<noteq> Panic \<and>
     SplitUint64 b \<noteq> Panic \<and> CountValues b \<noteq> Panic"
  by (intro conjI Split_no_panic SplitString_no_panic SplitList_no_panic SplitUint64_no_panic CountValues_no_panic)

theorem raw_readers_never_panic_witness:
  "go_slice [0xB8, 0xFF, 1] \<and> Split [0xB8, 0xFF, 1] \<noteq> Panic"
  using raw_readers_never_panic[of "[0xB8, 0xFF, 1]"] by (simp add: go_slice_def)

text \<open>C14. \<open>SplitUint64\<close> and \<open>AppendUint64\<close> are inverse: the reader returns \<open>x\<close> and \<open>rest\<close> exactly on the
  integer encoding \<open>AppendUint64\<close> writes for \<open>x\<close>, followed by \<open>rest\<close>.\<close>

theorem SplitUint64_AppendUint64:
  "go_slice b \<Longrightarrow> SplitUint64 b = Ret (x, rest) \<longleftrightarrow> b = AppendUint64 [] x @ rest"
  by (rule SplitUint64_eq_Ret)

theorem SplitUint64_AppendUint64_witness:
  "go_slice [0x82, 4, 0, 5] \<and> SplitUint64 [0x82, 4, 0, 5] = Ret (1024, [5])"
proof -
  have "AppendUint64 [] 1024 = [0x82, 4, 0]" by code_simp
  then show ?thesis
    using SplitUint64_AppendUint64[of "[0x82, 4, 0, 5]" 1024 "[5]"] by (simp add: go_slice_def)
qed

text \<open>C15. \<open>CountValues\<close> returns \<open>n\<close> exactly when the input is a sequence of \<open>n\<close> canonically encoded
  values and nothing else.\<close>

theorem CountValues_correct:
  "go_slice b \<Longrightarrow>
     CountValues b = Ret n \<longleftrightarrow>
     (\<exists>vs. b = enc_seq vs \<and> (\<forall>(k, c) \<in> set vs. kind_ok k c) \<and> n = length vs)"
  using CountValues_loop_RetD[of b 0 n] CountValues_loop_enc_seq[of _ 0] by (auto simp: CountValues_def)

theorem CountValues_correct_witness:
  "go_slice [0x82, 1, 2, 0xC0, 7] \<and> CountValues [0x82, 1, 2, 0xC0, 7] = Ret 3"
proof -
  have "[0x82, 1, 2, 0xC0, 7] = enc_seq [(String_Kind, [1, 2]), (List_Kind, []), (Byte_Kind, [7])]"
    by code_simp
  then have "\<exists>vs. [0x82, 1, 2, 0xC0, 7] = enc_seq vs \<and> (\<forall>(k, c) \<in> set vs. kind_ok k c) \<and> 3 = length vs"
    by (intro exI[of _ "[(String_Kind, [1, 2]), (List_Kind, []), (Byte_Kind, [7])]"]) simp
  then show ?thesis
    using CountValues_correct[of "[0x82, 1, 2, 0xC0, 7]" 3] by (simp add: go_slice_def)
qed

end
