(* ===== verification/Trie_Encoding.thy ===== *)
theory Trie_Encoding
  imports Prelude
begin

text \<open>
  The three key encodings of \<^verbatim>\<open>trie/encoding.go\<close>: KEYBYTES, HEX (one byte per nibble and an optional
  terminator 16) and COMPACT (the hex-prefix encoding of nodes on disk), the in-place variant used by
  the stack trie, and \<open>prefixLen\<close>.
\<close>

section \<open>The functions\<close>

definition hasTerm :: "bytes \<Rightarrow> bool" where
  "hasTerm s \<longleftrightarrow> length s > 0 \<and> s ! (length s - 1) = 16"

text \<open>
  \<open>decodeNibbles\<close> packs pairs of nibbles; an odd number of nibbles makes it read past the end. The model
  returns the bytes written to the destination, which both callers allocate with the right length.
\<close>

fun decodeNibbles :: "bytes \<Rightarrow> ('e, bytes) outcome" where
  "decodeNibbles [] = Ret []"
| "decodeNibbles [x] = Panic"
| "decodeNibbles (x # y # r) =
     bind_outcome (decodeNibbles r) (\<lambda>bs. Ret ((push_bit 4 x OR y) # bs))"

definition hexToCompact :: "bytes \<Rightarrow> ('e, bytes) outcome" where
  "hexToCompact hex0 =
     (let terminator = (if hasTerm hex0 then 1 else 0);
          hex = (if hasTerm hex0 then take (length hex0 - 1) hex0 else hex0);
          buf0 = push_bit 5 terminator
      in if odd (length hex)
         then bind_outcome (index hex 0) (\<lambda>h0.
              bind_outcome (decodeNibbles (drop 1 hex)) (\<lambda>bs. Ret ((buf0 OR push_bit 4 1 OR h0) # bs)))
         else bind_outcome (decodeNibbles hex) (\<lambda>bs. Ret (buf0 # bs)))"

text \<open>The loop of \<open>hexToCompactInPlace\<close>: it reads at \<open>ni\<close> and writes at \<open>bi\<close> of the same array.\<close>

function inplace_loop :: "nat \<Rightarrow> bytes \<Rightarrow> nat \<Rightarrow> nat \<Rightarrow> ('e, bytes) outcome" where
  "inplace_loop hexLen hex bi ni =
     (if ni < hexLen then
        (if ni + 1 < length hex \<and> bi < length hex
         then inplace_loop hexLen (hex[bi := push_bit 4 (hex ! ni) OR hex ! (ni + 1)]) (bi + 1) (ni + 2)
         else Panic)
      else Ret hex)"
  by pat_completeness auto
termination
  by (relation "measure (\<lambda>(hexLen, hex, bi, ni). hexLen - ni)") auto

declare inplace_loop.simps [simp del]

definition hexToCompactInPlace :: "bytes \<Rightarrow> ('e, bytes \<times> nat) outcome" where
  "hexToCompactInPlace hex =
     (let term = length hex > 0 \<and> hex ! (length hex - 1) = 16;
          hexLen = (if term then length hex - 1 else length hex);
          firstByte = (if term then push_bit 5 1 else 0);
          binLen = hexLen div 2 + 1
      in bind_outcome
           (if odd hexLen
            then bind_outcome (index hex 0) (\<lambda>h0. Ret (firstByte OR push_bit 4 1 OR h0, 1))
            else Ret (firstByte, 0)) (\<lambda>(firstByte, ni).
         bind_outcome (inplace_loop hexLen hex 1 ni) (\<lambda>hex'.
           if 0 < length hex' then Ret (hex'[0 := firstByte], binLen) else Panic)))"

definition keybytesToHex :: "bytes \<Rightarrow> bytes" where
  "keybytesToHex str = concat (map (\<lambda>b. [b div 16, b mod 16]) str) @ [16]"

definition compactToHex :: "bytes \<Rightarrow> ('e, bytes) outcome" where
  "compactToHex compact =
     (if length compact = 0 then Ret compact
      else let base0 = keybytesToHex compact;
               base = (if base0 ! 0 < 2 then take (length base0 - 1) base0 else base0);
               chop = 2 - (base ! 0 AND 1)
           in slice_from base (unat chop))"

definition hexToKeybytes :: "bytes \<Rightarrow> ('e, bytes) outcome" where
  "hexToKeybytes hex0 =
     (let hex = (if hasTerm hex0 then take (length hex0 - 1) hex0 else hex0)
      in if odd (length hex) then Panic else decodeNibbles hex)"

text \<open>The loop of \<open>prefixLen\<close> runs over both slices in step.\<close>

fun prefixLen :: "bytes \<Rightarrow> bytes \<Rightarrow> nat" where
  "prefixLen (a # as) (b # bs) = (if a \<noteq> b then 0 else Suc (prefixLen as bs))"
| "prefixLen _ _ = 0"

section \<open>Nibbles\<close>

abbreviation nibble :: "byte \<Rightarrow> bool" where
  "nibble x \<equiv> x < 16"

text \<open>A HEX key: nibbles, followed by the terminator or not.\<close>

definition hex_key :: "bytes \<Rightarrow> bool" where
  "hex_key h \<longleftrightarrow> (\<exists>ns. (\<forall>x \<in> set ns. nibble x) \<and> (h = ns \<or> h = ns @ [16]))"

lemma unat_nibble: "nibble x \<longleftrightarrow> unat x < 16"
  by (simp add: word_less_nat_alt)

lemma unat_pack: "nibble x \<Longrightarrow> nibble y \<Longrightarrow> unat (push_bit 4 x OR y) = unat x * 16 + unat y"
proof -
  assume x: "nibble x" and y: "nibble y"
  have "push_bit 4 x AND y = 0"
  proof (rule bit_word_eqI)
    fix n
    have "y = take_bit 4 y"
      using y by (simp add: word_unat_eq_iff unsigned_take_bit_eq take_bit_eq_mod unat_nibble unat_mod)
    then have "bit y n \<Longrightarrow> n < 4" by (metis bit_take_bit_iff)
    then show "bit (push_bit 4 x AND y) n \<longleftrightarrow> bit (0 :: byte) n"
      by (auto simp: bit_simps)
  qed
  then have "unat (push_bit 4 x OR y) = unat (push_bit 4 x + y)"
    by (simp add: disjunctive_add_eq_or)
  also have "\<dots> = unat x * 16 + unat y"
    using x y by (simp add: push_bit_eq_mult unat_word_ariths unat_nibble)
  finally show ?thesis .
qed

lemma pack_div [simp]: "nibble x \<Longrightarrow> nibble y \<Longrightarrow> (push_bit 4 x OR y) div 16 = x"
  by (simp add: word_unat_eq_iff unat_div unat_pack unat_nibble)

lemma pack_mod [simp]: "nibble x \<Longrightarrow> nibble y \<Longrightarrow> (push_bit 4 x OR y) mod 16 = y"
  by (simp add: word_unat_eq_iff unat_mod unat_pack unat_nibble)

lemma nibble_div [simp]: "nibble (b div 16)"
  using byte_less_256[of b] by (simp add: unat_nibble unat_div less_mult_imp_div_less)

lemma nibble_mod [simp]: "nibble (b mod 16)"
  by (simp add: unat_nibble unat_mod)

lemma pack_div_mod [simp]: "push_bit 4 (b div 16) OR b mod 16 = (b :: byte)"
  by (simp add: word_unat_eq_iff unat_pack unat_div unat_mod)

text \<open>The flag bytes of the compact encoding, as the simplifier leaves them.\<close>

lemma flag_div_mod [simp]:
  fixes h :: byte
  assumes "nibble h"
  shows "(48 OR h) div 16 = 3" "(48 OR h) mod 16 = h" "(16 OR h) div 16 = 1" "(16 OR h) mod 16 = h"
  using pack_div[OF _ assms, of 3] pack_mod[OF _ assms, of 3] pack_div[OF _ assms, of 1]
    pack_mod[OF _ assms, of 1] by simp_all

lemma decodeNibbles_Ret:
  "even (length h) \<Longrightarrow> \<exists>bs. decodeNibbles h = Ret bs \<and> 2 * length bs = length h"
  by (induction h rule: decodeNibbles.induct) auto

lemma decodeNibbles_unpack: "decodeNibbles (concat (map (\<lambda>b. [b div 16, b mod 16]) bs)) = Ret bs"
  by (induction bs) simp_all

lemma unpack_decodeNibbles:
  "\<forall>x \<in> set h. nibble x \<Longrightarrow> decodeNibbles h = Ret bs \<Longrightarrow>
     concat (map (\<lambda>b. [b div 16, b mod 16]) bs) = h"
  by (induction h arbitrary: bs rule: decodeNibbles.induct) (auto simp: bind_outcome_eq_Ret)

section \<open>Round trips\<close>

lemma hasTerm_snoc [simp]: "hasTerm (h @ [16])"
  by (simp add: hasTerm_def)

lemma hasTerm_Cons_snoc [simp]: "hasTerm (x # h @ [16])" "hasTerm [16]"
  using hasTerm_snoc[of "x # h"] hasTerm_snoc[of "[]"] by simp_all

lemma hasTerm_nibbles [simp]: "\<forall>x \<in> set ns. nibble x \<Longrightarrow> \<not> hasTerm ns"
  by (cases ns rule: rev_cases) (auto simp: hasTerm_def)

lemma hexToKeybytes_keybytesToHex_lemma: "hexToKeybytes (keybytesToHex k) = Ret k"
proof -
  have "even (length (concat (map (\<lambda>b. [b div 16, b mod 16]) k)))"
    by (induction k) simp_all
  then show ?thesis
    by (simp add: hexToKeybytes_def keybytesToHex_def decodeNibbles_unpack Let_def)
qed

lemma keybytesToHex_hex_key: "hex_key (keybytesToHex k)"
proof -
  have "\<forall>x \<in> set (concat (map (\<lambda>b. [b div 16, b mod 16]) k)). nibble x"
    by (auto simp del: set_concat simp: set_concat)
  then show ?thesis unfolding hex_key_def keybytesToHex_def by blast
qed

text \<open>The flag byte of a compact key: flag nibble and first nibble.\<close>

definition compact_flag :: "bool \<Rightarrow> bytes \<Rightarrow> byte" where
  "compact_flag t ns = (if t then 2 else 0) + (if odd (length ns) then 1 else 0)"

definition compact_of :: "bool \<Rightarrow> bytes \<Rightarrow> bytes \<Rightarrow> bytes" where
  "compact_of t ns bs =
     (push_bit 4 (compact_flag t ns) OR (if odd (length ns) then hd ns else 0)) # bs"

lemma hexToCompact_nibbles:
  assumes "\<forall>x \<in> set ns. nibble x"
  shows "\<exists>bs. hexToCompact (ns @ (if t then [16] else [])) = (Ret (compact_of t ns bs) :: ('e, bytes) outcome) \<and>
    decodeNibbles (if odd (length ns) then tl ns else ns) = (Ret bs :: ('e, bytes) outcome)"
proof -
  have "even (length (if odd (length ns) then tl ns else ns))" by (cases ns) simp_all
  from decodeNibbles_Ret[OF this, where 'a = 'e] obtain bs where bs:
    "decodeNibbles (if odd (length ns) then tl ns else ns) = (Ret bs :: ('e, bytes) outcome)" by blast
  have flags: "32 OR 16 OR h = 48 OR (h :: byte)" for h
    by (simp flip: or.assoc)
  have "hexToCompact (ns @ (if t then [16] else [])) = (Ret (compact_of t ns bs) :: ('e, bytes) outcome)"
    using assms bs
    by (cases ns; cases t)
      (auto simp: hexToCompact_def compact_of_def compact_flag_def index_def Let_def flags)
  with bs show ?thesis by blast
qed

lemma compactToHex_compact_of:
  assumes "\<forall>x \<in> set ns. nibble x"
    and "decodeNibbles (if odd (length ns) then tl ns else ns) = (Ret bs :: ('e, bytes) outcome)"
  shows "compactToHex (compact_of t ns bs) = Ret (ns @ (if t then [16] else []))"
proof -
  have bs: "concat (map (\<lambda>b. [b div 16, b mod 16]) bs) = (if odd (length ns) then tl ns else ns)"
    using assms by (intro unpack_decodeNibbles) (cases ns; auto)+
  have h: "nibble (if odd (length ns) then hd ns else 0)"
    using assms(1) by (cases ns) auto
  have f: "nibble (compact_flag t ns)" by (simp add: compact_flag_def)
  have hd: "odd (length ns) \<Longrightarrow> hd ns # tl ns = ns" by (cases ns) simp_all
  have hn: "odd (length ns) \<Longrightarrow> nibble (hd ns)" using h by simp
  show ?thesis
    using hd hn
    by (cases t; cases "odd (length ns)")
      (simp_all add: compactToHex_def compact_of_def keybytesToHex_def Let_def h[simplified] f[simplified] bs
        slice_from_Ret compact_flag_def)
qed

lemma compactToHex_hexToCompact_lemma:
  assumes "hex_key h"
  shows "\<exists>c. hexToCompact h = (Ret c :: ('e, bytes) outcome) \<and> compactToHex c = (Ret h :: ('e, bytes) outcome)"
proof -
  obtain ns t where ns: "\<forall>x \<in> set ns. nibble x" and h: "h = ns @ (if t then [16] else [])"
    using assms unfolding hex_key_def by (metis append_Nil2)
  from hexToCompact_nibbles[OF ns, of t, where 'e = 'e] obtain bs where
    bs: "hexToCompact h = (Ret (compact_of t ns bs) :: ('e, bytes) outcome)"
    "decodeNibbles (if odd (length ns) then tl ns else ns) = (Ret bs :: ('e, bytes) outcome)"
    unfolding h by blast
  from compactToHex_compact_of[OF ns bs(2), of t] show ?thesis
    unfolding bs(1) h[symmetric] by blast
qed

section \<open>The in-place variant\<close>

lemma inplace_loop_spec:
  assumes "decodeNibbles (take (hexLen - ni) (drop ni hex)) = (Ret bs :: ('e, bytes) outcome)"
    and "hexLen \<le> length hex" "bi \<le> ni + 1" "ni \<le> hexLen"
  shows "inplace_loop hexLen hex bi ni =
    (Ret (take bi hex @ bs @ drop (bi + length bs) hex) :: ('e, bytes) outcome)"
  using assms
proof (induction hexLen hex bi ni arbitrary: bs rule: inplace_loop.induct)
  case (1 hexLen hex bi ni)
  show ?case
  proof (cases "ni < hexLen")
    case False
    with 1 show ?thesis by (simp add: inplace_loop.simps[of hexLen])
  next
    case True
    then have dr: "drop ni hex = hex ! ni # drop (Suc ni) hex"
      using 1 by (simp add: Cons_nth_drop_Suc)
    have two: "ni + 1 < hexLen"
    proof (rule ccontr)
      assume "\<not> ni + 1 < hexLen"
      then have "hexLen - ni = 1" using True by simp
      with 1(2) dr show False by simp
    qed
    then have dr2: "drop ni hex = hex ! ni # hex ! (ni + 1) # drop (ni + 2) hex"
      using dr 1(3) by (simp add: Cons_nth_drop_Suc)
    obtain m where m: "hexLen - ni = Suc (Suc m)" "hexLen - (ni + 2) = m"
      using two by (metis Suc_diff_Suc Suc_lessD add_2_eq_Suc' add.commute plus_1_eq_Suc Suc_eq_plus1)
    define x where "x = push_bit 4 (hex ! ni) OR hex ! (ni + 1)"
    from 1(2) dr2 m obtain bs' where bs': "decodeNibbles (take m (drop (ni + 2) hex)) = (Ret bs' :: ('e, bytes) outcome)"
      "bs = x # bs'" by (auto simp: bind_outcome_eq_Ret x_def)
    let ?hex = "hex[bi := x]"
    have "drop (ni + 2) ?hex = drop (ni + 2) hex" using 1(4) by simp
    with 1(1)[OF True] two 1(3-5) m bs'
    have "inplace_loop hexLen ?hex (bi + 1) (ni + 2) =
        (Ret (take (bi + 1) ?hex @ bs' @ drop (bi + 1 + length bs') ?hex) :: ('e, bytes) outcome)"
      by (simp add: x_def)
    moreover have "take (bi + 1) ?hex = take bi hex @ [x]"
      using 1(3,4) two by (simp add: take_Suc_conv_app_nth)
    ultimately show ?thesis
      using True two 1(3,4) bs' by (simp add: inplace_loop.simps[of hexLen hex] x_def)
  qed
qed

lemma hexToCompactInPlace_lemma:
  assumes "hexToCompact hex = (Ret c :: ('e, bytes) outcome)" "hex \<noteq> []"
  shows "\<exists>hex'. hexToCompactInPlace hex = (Ret (hex', length c) :: ('e, bytes \<times> nat) outcome) \<and>
    take (length c) hex' = c \<and> length hex' = length hex"
proof -
  let ?n = "if hasTerm hex then length hex - 1 else length hex"
  let ?h = "if hasTerm hex then take (length hex - 1) hex else hex"
  let ?ni = "if odd ?n then 1 else 0 :: nat"
  have h: "?h = take ?n hex" "length ?h = ?n" by simp_all
  obtain bs where bs: "decodeNibbles (take (?n - ?ni) (drop ?ni hex)) = (Ret bs :: ('e, bytes) outcome)"
    and c: "c = ((if hasTerm hex then push_bit 5 1 else 0) OR (if odd ?n then push_bit 4 1 OR hex ! 0 else 0)) # bs"
    using assms
    by (auto simp: hexToCompact_def Let_def bind_outcome_eq_Ret index_def drop_take split: if_splits)
  have le: "(if odd n then 1 else 0) \<le> n" "even (n - (if odd n then 1 else 0))" for n :: nat
    by (cases n; simp)+
  have "even (?n - ?ni)" "?ni \<le> ?n" by (rule le)+
  have len: "2 * length bs = ?n - ?ni"
    using decodeNibbles_Ret[of "take (?n - ?ni) (drop ?ni hex)", where 'a = 'e] \<open>even (?n - ?ni)\<close> bs
    by (auto simp: min_def split: if_splits)
  have loop: "inplace_loop ?n hex 1 ?ni = (Ret (take 1 hex @ bs @ drop (1 + length bs) hex) :: ('e, bytes) outcome)"
    using inplace_loop_spec[OF bs, of 1] \<open>?ni \<le> ?n\<close> by simp
  define b0 where "b0 = (if hasTerm hex then push_bit 5 1 else 0) OR
    (if odd ?n then push_bit 4 1 OR hex ! 0 else 0)"
  have first: "(if odd ?n then bind_outcome (index hex 0)
        (\<lambda>h0. Ret ((if hasTerm hex then push_bit 5 1 else 0) OR push_bit 4 1 OR h0, 1))
      else Ret (if hasTerm hex then push_bit 5 1 else 0, 0)) = (Ret (b0, ?ni) :: ('e, byte \<times> nat) outcome)"
    using \<open>hex \<noteq> []\<close> by (simp add: b0_def index_def or.assoc)
  have half: "2 * m = n - (if odd n then 1 else 0) \<Longrightarrow> n div 2 + 1 = Suc m" for m n :: nat
    by (auto elim!: oddE evenE split: if_splits)
  have n: "?n div 2 + 1 = length c" using half[OF len] c by (simp only: list.size)
  have fits: "length bs + 1 \<le> length hex" using len \<open>hex \<noteq> []\<close> by (cases hex) (simp_all split: if_splits)
  let ?hex' = "(take 1 hex @ bs @ drop (1 + length bs) hex)[0 := b0]"
  have "hexToCompactInPlace hex = (Ret (?hex', length c) :: ('e, bytes \<times> nat) outcome)"
    unfolding hexToCompactInPlace_def Let_def hasTerm_def[symmetric] first bind_outcome.simps
      prod.case loop n using \<open>hex \<noteq> []\<close> by simp
  moreover have "take (length c) ?hex' = c" "length ?hex' = length hex"
    using c fits \<open>hex \<noteq> []\<close> by (cases hex; simp add: b0_def)+
  ultimately show ?thesis by blast
qed

section \<open>Properties\<close>

text \<open>C16. COMPACT encoding loses nothing: \<open>hexToCompact\<close> succeeds on every HEX key, with or without
  terminator and of either parity, and \<open>compactToHex\<close> gives the key back.\<close>

theorem compactToHex_hexToCompact:
  "hex_key h \<Longrightarrow> bind_outcome (hexToCompact h) compactToHex = (Ret h :: ('e, bytes) outcome)"
  using compactToHex_hexToCompact_lemma[of h, where 'e = 'e] by auto

theorem compactToHex_hexToCompact_witness:
  "hex_key [1, 2, 3, 16] \<and> bind_outcome (hexToCompact [1, 2, 3, 16]) compactToHex = Ret [1, 2, 3, 16]"
proof -
  have "hex_key [1, 2, 3, 16]" unfolding hex_key_def by (intro exI[of _ "[1, 2, 3]"]) simp
  then show ?thesis using compactToHex_hexToCompact by blast
qed

text \<open>C17. The in-place conversion agrees with the allocating one: on a non-empty key, whenever
  \<open>hexToCompact\<close> returns, \<open>hexToCompactInPlace\<close> leaves the same bytes at the front of its argument and
  returns their number, although it overwrites the array it is still reading.\<close>

theorem hexToCompactInPlace_correct:
  "hexToCompact hex = (Ret c :: (unit, bytes) outcome) \<Longrightarrow> hex \<noteq> [] \<Longrightarrow>
     \<exists>hex'. hexToCompactInPlace hex = (Ret (hex', length c) :: (unit, bytes \<times> nat) outcome) \<and>
       take (length c) hex' = c \<and> length hex' = length hex"
  by (rule hexToCompactInPlace_lemma)

theorem hexToCompactInPlace_correct_witness:
  "hexToCompact [1, 2, 3, 16] = (Ret [0x31, 0x23] :: (unit, bytes) outcome) \<and>
   (\<exists>hex'. hexToCompactInPlace [1, 2, 3, 16] = (Ret (hex', 2) :: (unit, bytes \<times> nat) outcome) \<and>
     take 2 hex' = [0x31, 0x23])"
proof -
  have "hexToCompact [1, 2, 3, 16] = (Ret [0x31, 0x23] :: (unit, bytes) outcome)" by code_simp
  then show ?thesis using hexToCompactInPlace_correct[of "[1, 2, 3, 16]" "[0x31, 0x23]"]
    by (auto simp: numeral_2_eq_2)
qed

text \<open>KEYBYTES and HEX keys correspond: \<open>hexToKeybytes\<close> inverts \<open>keybytesToHex\<close>, whose result is a
  well-formed HEX key.\<close>

theorem hexToKeybytes_keybytesToHex:
  "hexToKeybytes (keybytesToHex k) = Ret k \<and> hex_key (keybytesToHex k)"
  by (simp add: hexToKeybytes_keybytesToHex_lemma keybytesToHex_hex_key)

end
