(* ===== verification/Trie_Spec.thy ===== *)
theory Trie_Spec
  imports Trie_Encoding
begin

text \<open>
  The Patricia tree a trie stands for once every hash reference is expanded, with lookup, insertion and
  deletion on it, and the canonical form every trie is kept in. The theory is the specification side of
  \<^verbatim>\<open>trie/trie.go\<close>: the map laws of the three operations, preservation of the canonical form, and
  its uniqueness (a canonical tree is determined by its content). The Go operations are related to
  these functions in theory \<open>Trie\<close>.
\<close>

section \<open>Keys\<close>

text \<open>
  A key with terminator: nibbles and then 16. Below a node the remaining key is of this form, or empty
  at a value; \<open>kok e\<close> covers both, \<open>e\<close> telling whether the key has ended.
\<close>

fun vkey :: "bytes \<Rightarrow> bool" where
  "vkey [] = False"
| "vkey (x # r) = (if x = 16 then r = [] else nibble x \<and> vkey r)"

definition kok :: "bool \<Rightarrow> bytes \<Rightarrow> bool" where
  "kok e k \<longleftrightarrow> (if e then k = [] else vkey k)"

abbreviation nibbles :: "bytes \<Rightarrow> bool" where
  "nibbles k \<equiv> \<forall>x \<in> set k. nibble x"

lemma vkey_Cons: "vkey (x # r) \<longleftrightarrow> unat x < 17 \<and> kok (x = 16) r"
proof -
  have "x \<noteq> 16 \<Longrightarrow> nibble x \<longleftrightarrow> unat x < 17"
    by (auto simp: unat_nibble word_unat_eq_iff)
  then show ?thesis by (auto simp: kok_def)
qed

lemma kok_simps [simp]: "kok True k \<longleftrightarrow> k = []" "kok False k \<longleftrightarrow> vkey k"
  by (simp_all add: kok_def)

lemma vkey_append: "nibbles p \<Longrightarrow> vkey (p @ k) \<longleftrightarrow> vkey k"
  by (induction p) auto

lemma vkey_snoc: "vkey k \<longleftrightarrow> (\<exists>ns. nibbles ns \<and> k = ns @ [16])"
proof (induction k)
  case (Cons x k)
  show ?case
  proof (cases "x = 16")
    case True
    have "(\<exists>ns. nibbles ns \<and> 16 # k = ns @ [16]) \<longleftrightarrow> k = []"
    proof
      assume "\<exists>ns. nibbles ns \<and> 16 # k = ns @ [16]"
      then obtain ns where "nibbles ns" "16 # k = ns @ [16]" by blast
      then show "k = []" by (cases ns) auto
    qed (auto intro: exI[of _ "[]"])
    with True show ?thesis by simp
  next
    case False
    have "(\<exists>ns. nibbles ns \<and> x # k = ns @ [16]) \<longleftrightarrow> nibble x \<and> (\<exists>ns. nibbles ns \<and> k = ns @ [16])"
    proof
      assume "\<exists>ns. nibbles ns \<and> x # k = ns @ [16]"
      then obtain ns where "nibbles ns" "x # k = ns @ [16]" by blast
      with False show "nibble x \<and> (\<exists>ns. nibbles ns \<and> k = ns @ [16])" by (cases ns) auto
    next
      assume "nibble x \<and> (\<exists>ns. nibbles ns \<and> k = ns @ [16])"
      then obtain ns where "nibble x" "nibbles ns" "k = ns @ [16]" by blast
      then show "\<exists>ns. nibbles ns \<and> x # k = ns @ [16]" by (intro exI[of _ "x # ns"]) simp
    qed
    with False Cons show ?thesis by simp
  qed
qed simp

lemma keybytesToHex_vkey: "vkey (keybytesToHex k)"
proof -
  have "nibbles (concat (map (\<lambda>b. [b div 16, b mod 16]) k))" by auto
  then show ?thesis unfolding vkey_snoc keybytesToHex_def by blast
qed

lemma keybytesToHex_inj: "keybytesToHex k = keybytesToHex k' \<longleftrightarrow> k = k'"
  using hexToKeybytes_keybytesToHex_lemma by (metis outcome.inject(1))

text \<open>No key is a proper prefix of another.\<close>

lemma vkey_prefix: "vkey k \<Longrightarrow> vkey (k @ r) \<longleftrightarrow> r = []"
  by (induction k) (auto split: if_splits)

lemma nibbles_vkey_clash: "nibbles k \<Longrightarrow> \<not> vkey k"
  by (induction k) auto

text \<open>The first difference of two keys.\<close>

lemma prefixLen_le: "prefixLen a b \<le> length a" "prefixLen a b \<le> length b"
  by (induction a b rule: prefixLen.induct) auto

lemma prefixLen_append [simp]: "prefixLen (p @ a) (p @ b) = length p + prefixLen a b"
  by (induction p) simp_all

lemma prefixLen_refl [simp]: "prefixLen (p @ a) p = length p"
  using prefixLen_append[of p a "[]"] by simp

lemma prefixLen_split:
  obtains p a' b' where "a = p @ a'" "b = p @ b'" "length p = prefixLen a b"
    "a' = [] \<or> b' = [] \<or> hd a' \<noteq> hd b'"
proof (induction a b arbitrary: thesis rule: prefixLen.induct)
  case (1 a as b bs)
  show ?case
  proof (cases "a = b")
    case True
    with 1(1) obtain p a' b' where "as = p @ a'" "bs = p @ b'" "length p = prefixLen as bs"
      "a' = [] \<or> b' = [] \<or> hd a' \<noteq> hd b'" by blast
    with True show ?thesis by (intro 1(2)[of "a # p" a' b']) simp_all
  next
    case False
    then show ?thesis by (intro 1(2)[of "[]" "a # as" "b # bs"]) simp_all
  qed
qed force+

section \<open>Trees\<close>

datatype tree = TNil | TShort bytes tree | TFull "tree list" | TVal bytes

lemma set_take_size: "(c :: tree) \<in> set (take n cs) \<Longrightarrow> size c < Suc (size_list size cs)"
  by (rule le_imp_less_Suc, rule size_list_estimation'[OF in_set_takeD order_refl])

lemma set_drop_size: "(c :: tree) \<in> set (drop n cs) \<Longrightarrow> size c < Suc (size_list size cs)"
  by (rule le_imp_less_Suc, rule size_list_estimation'[OF in_set_dropD order_refl])

text \<open>
  Canonical trees. A leaf (short node with value) ends a key; an extension (short node without) has a
  non-empty key and leads to a branch; a branch has 17 children, the last of them a value or nothing,
  and at least two of them. \<open>e\<close> tells whether the path to the tree has consumed the terminator.
\<close>

fun is_full :: "tree \<Rightarrow> bool" where
  "is_full (TFull cs) = True"
| "is_full _ = False"

function canon :: "bool \<Rightarrow> tree \<Rightarrow> bool" where
  "canon e TNil = False"
| "canon e (TVal v) = (e \<and> v \<noteq> [])"
| "canon e (TShort k c) = (\<not> e \<and> (if vkey k then canon True c
     else k \<noteq> [] \<and> nibbles k \<and> is_full c \<and> canon False c))"
| "canon e (TFull cs) = (\<not> e \<and> length cs = 17 \<and> 2 \<le> length (filter (\<lambda>c. c \<noteq> TNil) cs) \<and>
     (\<forall>c \<in> set (take 16 cs). c = TNil \<or> canon False c) \<and>
     (\<forall>c \<in> set (drop 16 cs). c = TNil \<or> canon True c))"
  by pat_completeness auto
termination
  by (relation "measure (\<lambda>(e, t). size t)") (auto simp: set_take_size set_drop_size)

definition canon0 :: "bool \<Rightarrow> tree \<Rightarrow> bool" where
  "canon0 e t \<longleftrightarrow> t = TNil \<or> canon e t"

fun tget :: "tree \<Rightarrow> bytes \<Rightarrow> bytes option" where
  "tget TNil k = None"
| "tget (TVal v) k = Some v"
| "tget (TShort sk c) k =
     (if take (length sk) k = sk then tget c (drop (length sk) k) else None)"
| "tget (TFull cs) [] = None"
| "tget (TFull cs) (x # r) = (if unat x < length cs then tget (cs ! unat x) r else None)"

text \<open>A tree hung below a key, as \<open>insert\<close> does on a nil node.\<close>

definition tput :: "bytes \<Rightarrow> tree \<Rightarrow> tree" where
  "tput k c = (if k = [] then c else TShort k c)"

fun tinsert :: "tree \<Rightarrow> bytes \<Rightarrow> tree \<Rightarrow> tree" where
  "tinsert t [] v = v"
| "tinsert TNil (x # r) v = TShort (x # r) v"
| "tinsert (TVal w) (x # r) v = TVal w"
| "tinsert (TShort sk c) (x # r) v =
     (let k = x # r; m = prefixLen k sk in
      if m = length sk then TShort sk (tinsert c (drop m k) v)
      else let b = TFull ((replicate 17 TNil)[unat (sk ! m) := tput (drop (m + 1) sk) c,
                                              unat (k ! m) := tput (drop (m + 1) k) v])
           in tput (take m k) b)"
| "tinsert (TFull cs) (x # r) v =
     (if unat x < length cs then TFull (cs[unat x := tinsert (cs ! unat x) r v]) else TFull cs)"

text \<open>
  The branch reduction of \<open>delete\<close>: \<open>only_child\<close> is the loop that looks for a single remaining child.
\<close>

definition nonnil :: "tree list \<Rightarrow> nat list" where
  "nonnil cs = filter (\<lambda>i. cs ! i \<noteq> TNil) [0..<length cs]"

definition treduce :: "tree list \<Rightarrow> tree" where
  "treduce cs =
     (case nonnil cs of
        [pos] \<Rightarrow>
          (if pos \<noteq> 16
           then (case cs ! pos of
                   TShort k c \<Rightarrow> TShort (word_of_nat pos # k) c
                 | _ \<Rightarrow> TShort [word_of_nat pos] (cs ! pos))
           else TShort [word_of_nat pos] (cs ! pos))
      | _ \<Rightarrow> TFull cs)"

fun tdelete :: "tree \<Rightarrow> bytes \<Rightarrow> tree" where
  "tdelete TNil k = TNil"
| "tdelete (TVal v) k = TNil"
| "tdelete (TShort sk c) k =
     (let m = prefixLen k sk in
      if m < length sk then TShort sk c
      else if m = length k then TNil
      else case tdelete c (drop (length sk) k) of
             TShort k2 c2 \<Rightarrow> TShort (sk @ k2) c2
           | c' \<Rightarrow> TShort sk c')"
| "tdelete (TFull cs) [] = TFull cs"
| "tdelete (TFull cs) (x # r) =
     (if unat x < length cs
      then let c' = tdelete (cs ! unat x) r; cs' = cs[unat x := c']
           in if c' \<noteq> TNil then TFull cs' else treduce cs'
      else TFull cs)"


section \<open>The canonical form\<close>

lemma two_indices:
  "2 \<le> length (filter P xs) \<longleftrightarrow>
     (\<exists>i j. i < length xs \<and> j < length xs \<and> i \<noteq> j \<and> P (xs ! i) \<and> P (xs ! j))"
proof -
  let ?S = "{i. i < length xs \<and> P (xs ! i)}"
  have "2 \<le> length (filter P xs) \<longleftrightarrow> \<not> card ?S \<le> Suc 0"
    by (simp add: length_filter_conv_card) linarith
  also have "\<dots> \<longleftrightarrow> (\<exists>i \<in> ?S. \<exists>j \<in> ?S. i \<noteq> j)"
    by (subst card_le_Suc0_iff_eq) auto
  finally show ?thesis by auto
qed

lemma canon_full:
  "canon e (TFull cs) \<longleftrightarrow> \<not> e \<and> length cs = 17 \<and> (\<forall>i < 17. canon0 (i = 16) (cs ! i)) \<and>
     (\<exists>i j. i < 17 \<and> j < 17 \<and> i \<noteq> j \<and> cs ! i \<noteq> TNil \<and> cs ! j \<noteq> TNil)"
proof -
  have "(\<forall>c \<in> set (take 16 cs). c = TNil \<or> canon False c) \<and>
        (\<forall>c \<in> set (drop 16 cs). c = TNil \<or> canon True c) \<longleftrightarrow> (\<forall>i < 17. canon0 (i = 16) (cs ! i))"
    if len: "length cs = 17"
  proof -
    have "i < 17 \<longleftrightarrow> i < 16 \<or> i = 16" for i :: nat by auto
    moreover have "drop 16 cs = [cs ! 16]" using len by (auto simp: list_eq_iff_nth_eq)
    ultimately show ?thesis using len by (auto simp: canon0_def all_set_conv_all_nth)
  qed
  moreover have "2 \<le> length (filter (\<lambda>c. c \<noteq> TNil) cs) \<longleftrightarrow>
      (\<exists>i j. i < 17 \<and> j < 17 \<and> i \<noteq> j \<and> cs ! i \<noteq> TNil \<and> cs ! j \<noteq> TNil)" if "length cs = 17"
    using that by (simp add: two_indices)
  ultimately show ?thesis by auto
qed

declare canon.simps(4) [simp del]

lemma canon0_fullD: "canon0 e (TFull cs) \<Longrightarrow> \<not> e \<and> canon False (TFull cs)"
  and canon0_shortD: "canon0 e (TShort k c) \<Longrightarrow> \<not> e \<and> canon False (TShort k c)"
  by (auto simp: canon0_def canon_full)

lemma canon_tput:
  "canon False (TShort (y # r) c) \<Longrightarrow> canon (y = 16) (tput r c) \<and> unat y < 17"
  by (cases r) (auto simp: tput_def unat_nibble split: if_splits)

lemma canon_TShort_suffix:
  "canon False (TShort (p @ y # r) c) \<Longrightarrow> nibbles p \<Longrightarrow> canon False (TShort (y # r) c)"
  using vkey_append[of p "y # r"] by (cases "vkey (y # r)") (simp_all del: vkey.simps)

lemma canon_tput_val: "vkey (y # r) \<Longrightarrow> v \<noteq> [] \<Longrightarrow> canon (y = 16) (tput r (TVal v)) \<and> unat y < 17"
  by (rule canon_tput) (simp del: vkey.simps)

declare vkey.simps(2) [simp del]

lemma canon_tput_full:
  "nibbles p \<Longrightarrow> canon False (TFull cs) \<Longrightarrow> canon False (tput p (TFull cs))"
  by (auto simp: tput_def dest: nibbles_vkey_clash)

lemma tget_tput: "tget (tput p t) k = (if take (length p) k = p then tget t (drop (length p) k) else None)"
  by (simp add: tput_def)

lemma tget_TShort_Cons: "tget (TShort (y # r) c) (y # k) = tget (tput r c) k"
  by (simp add: tget_tput)

lemma tget_TShort_append:
  "tget (TShort (a @ b) c) k =
     (if take (length a) k = a then tget (TShort b c) (drop (length a) k) else None)"
proof -
  have "take (length (a @ b)) k = a @ b \<longleftrightarrow>
      take (length a) k = a \<and> take (length b) (drop (length a) k) = b"
    using take_add_split[of "length a" "length b" k a b] by (auto simp: take_add)
  then show ?thesis by (simp add: add.commute)
qed

text \<open>The two ways a key meets a short node: it runs through it, or leaves it at a nibble.\<close>

lemma short_cases:
  assumes "canon False (TShort sk c)" "vkey k"
  obtains (through) k' where "k = sk @ k'" "prefixLen k sk = length sk" "kok (vkey sk) k'"
  | (branch) p x kr y sr where "k = p @ x # kr" "sk = p @ y # sr" "x \<noteq> y" "nibbles p"
      "prefixLen k sk = length p" "vkey (x # kr)"
proof -
  obtain p k' sk' where s: "k = p @ k'" "sk = p @ sk'" "length p = prefixLen k sk"
    "k' = [] \<or> sk' = [] \<or> hd k' \<noteq> hd sk'" by (rule prefixLen_split)
  have sk: "vkey sk \<or> nibbles sk" using assms(1) by (auto split: if_splits)
  show thesis
  proof (cases sk')
    case Nil
    then have k: "k = sk @ k'" "prefixLen k sk = length sk" using s by simp_all
    moreover have "kok (vkey sk) k'"
      using sk assms(2) k(1) vkey_prefix[of sk k'] vkey_append[of sk k'] by (auto simp: nibbles_vkey_clash kok_def)
    ultimately show thesis by (rule through)
  next
    case sk': (Cons y sr)
    have np: "nibbles p"
      using sk sk' s(2) vkey_snoc[of sk] by (auto simp: append_eq_append_conv2 Cons_eq_append_conv append_eq_Cons_conv) 
    have "k' \<noteq> []"
      using np assms(2) nibbles_vkey_clash s(1) by auto
    then obtain x kr where k': "k' = x # kr" by (cases k') auto
    with s sk' np assms(2) show thesis
      by (intro branch[of p x kr y sr]) (auto simp: vkey_append[OF np])
  qed
qed

section \<open>Insertion\<close>

text \<open>The branch that replaces a short node whose key leaves it.\<close>

definition fork :: "byte \<Rightarrow> tree \<Rightarrow> byte \<Rightarrow> tree \<Rightarrow> tree list" where
  "fork y c x v = (replicate 17 TNil)[unat y := c, unat x := v]"

lemma fork_canon:
  assumes "canon (y = 16) c" "unat y < 17" "canon (x = 16) v" "unat x < 17" "x \<noteq> y"
  shows "canon False (TFull (fork y c x v))"
proof -
  have eq16: "unat z = 16 \<longleftrightarrow> z = 16" for z :: byte by (simp add: word_unat_eq_iff)
  have ne: "unat x \<noteq> unat y" using assms(5) by (simp add: word_unat_eq_iff)
  have nn: "c \<noteq> TNil" "v \<noteq> TNil" using assms by auto
  have "canon0 (i = 16) (fork y c x v ! i)" if "i < 17" for i
    using assms that by (cases "i = unat x"; cases "i = unat y") (auto simp: fork_def canon0_def eq16)
  moreover have "fork y c x v ! unat x \<noteq> TNil" "fork y c x v ! unat y \<noteq> TNil"
    using assms nn ne by (simp_all add: fork_def)
  ultimately show ?thesis
    unfolding canon_full using assms ne by (metis fork_def length_list_update length_replicate)
qed

lemma fork_get:
  assumes "unat y < 17" "unat x < 17" "x \<noteq> y"
  shows "tget (TFull (fork y c x v)) (z # k) = (if z = x then tget v k else if z = y then tget c k else None)"
proof -
  have "unat z = unat w \<longleftrightarrow> z = w" for z w :: byte by (simp add: word_unat_eq_iff)
  then show ?thesis using assms by (auto simp: fork_def nth_list_update)
qed

lemma tinsert_TShort:
  "k \<noteq> [] \<Longrightarrow> tinsert (TShort sk c) k v =
     (let m = prefixLen k sk in
      if m = length sk then TShort sk (tinsert c (drop m k) v)
      else tput (take m k)
        (TFull (fork (sk ! m) (tput (drop (m + 1) sk) c) (k ! m) (tput (drop (m + 1) k) v))))"
  by (cases k) (simp_all add: Let_def fork_def)

lemma tinsert_branch:
  assumes "k = p @ x # kr" "sk = p @ y # sr" "x \<noteq> y" "prefixLen k sk = length p"
  shows "tinsert (TShort sk c) k v = tput p (TFull (fork y (tput sr c) x (tput kr v)))"
proof -
  have "k \<noteq> []" "length p \<noteq> length sk" using assms by auto
  then show ?thesis
    unfolding tinsert_TShort[OF \<open>k \<noteq> []\<close>] assms(4) using assms(1,2) by (simp add: Let_def)
qed

lemma tinsert_through:
  "k = sk @ k' \<Longrightarrow> k \<noteq> [] \<Longrightarrow> tinsert (TShort sk c) k v = TShort sk (tinsert c k' v)"
  by (simp add: tinsert_TShort Let_def)

lemma tinsert_is_full: "is_full t \<Longrightarrow> k \<noteq> [] \<Longrightarrow> is_full (tinsert t k v)"
  by (cases t; cases k) simp_all

lemma tinsert_canon_lemma:
  "canon0 e t \<Longrightarrow> kok e k \<Longrightarrow> v \<noteq> [] \<Longrightarrow> canon e (tinsert t k (TVal v))"
proof (induction t arbitrary: e k)
  case TNil
  then show ?case by (cases k; cases e) auto
next
  case (TVal w)
  then show ?case by (cases e) (auto simp: canon0_def)
next
  case (TShort sk c)
  then have e: "\<not> e" and cs: "canon False (TShort sk c)" and k: "vkey k" by (auto simp: canon0_def kok_def)
  from cs k show ?case
  proof (cases rule: short_cases)
    case (through k')
    have "k \<noteq> []" using k by auto
    moreover have "canon0 (vkey sk) c" using cs by (auto simp: canon0_def split: if_splits)
    then have "canon (vkey sk) (tinsert c k' (TVal v))" by (rule TShort.IH) (rule through(3), rule TShort.prems)
    moreover have "\<not> vkey sk \<Longrightarrow> is_full (tinsert c k' (TVal v))"
      using cs through by (intro tinsert_is_full) (auto split: if_splits)
    ultimately show ?thesis
      using e cs by (auto simp: tinsert_through[OF through(1)] split: if_splits)
  next
    case (branch p x kr y sr)
    have "canon False (TShort (y # sr) c)"
      using cs canon_TShort_suffix branch(2,4) by blast
    then have "canon False (TFull (fork y (tput sr c) x (tput kr (TVal v))))"
      using canon_tput canon_tput_val[OF branch(6) TShort.prems(3)] branch(3) by (intro fork_canon) blast+
    then show ?thesis
      unfolding tinsert_branch[OF branch(1-3,5)] using e canon_tput_full[OF branch(4)] by simp
  qed
next
  case (TFull cs)
  then have e: "\<not> e" and full: "canon False (TFull cs)" and k: "vkey k"
    using canon0_fullD[of e cs] by (auto simp: kok_def)
  then obtain x r where xr: "k = x # r" "unat x < 17" "kok (x = 16) r" by (cases k) (auto simp: vkey_Cons)
  have len: "length cs = 17" and ch: "\<And>i. i < 17 \<Longrightarrow> canon0 (i = 16) (cs ! i)"
    using full by (auto simp: canon_full)
  have x16: "unat x = 16 \<longleftrightarrow> x = 16" by (simp add: word_unat_eq_iff)
  have new: "canon (x = 16) (tinsert (cs ! unat x) r (TVal v))"
    using TFull.IH[of "cs ! unat x"] xr len ch[of "unat x"] TFull.prems x16 by simp
  then have nn: "tinsert (cs ! unat x) r (TVal v) \<noteq> TNil" by auto
  let ?cs = "cs[unat x := tinsert (cs ! unat x) r (TVal v)]"
  have "canon0 (i = 16) (?cs ! i)" if "i < 17" for i
    using that new ch x16 len by (cases "i = unat x") (auto simp: canon0_def)
  moreover have "?cs ! i \<noteq> TNil" if "cs ! i \<noteq> TNil" for i
    using that nn xr len by (cases "i = unat x") auto
  ultimately have "canon False (TFull ?cs)"
    using full unfolding canon_full by (metis length_list_update)
  then show ?case using e xr len by simp
qed

lemma tget_tinsert_lemma:
  "canon0 e t \<Longrightarrow> kok e k \<Longrightarrow> kok e k' \<Longrightarrow>
     tget (tinsert t k (TVal v)) k' = (if k' = k then Some v else tget t k')"
proof (induction t arbitrary: e k k')
  case TNil
  show ?case
  proof (cases k)
    case Nil
    with TNil show ?thesis by (cases e) auto
  next
    case (Cons x r)
    with TNil have "vkey k" "vkey k'" by (cases e; auto)+
    then have "take (length k) k' = k \<longleftrightarrow> k' = k"
      using vkey_prefix[of k "drop (length k) k'"] by (metis append_take_drop_id append_Nil2 take_all order_refl)
    with Cons show ?thesis by auto
  qed
next
  case (TVal w)
  then show ?case by (cases e) (auto simp: canon0_def)
next
  case (TShort sk c)
  then have e: "\<not> e" and cs: "canon False (TShort sk c)" and k: "vkey k" and k': "vkey k'"
    by (auto simp: canon0_def kok_def)
  from cs k show ?case
  proof (cases rule: short_cases)
    case (through kr)
    have "k \<noteq> []" using k by auto
    note eq = tinsert_through[OF through(1) this]
    have c: "canon0 (vkey sk) c" using cs by (auto simp: canon0_def split: if_splits)
    from cs k' show ?thesis
    proof (cases rule: short_cases)
      case (through kr')
      then show ?thesis
        unfolding eq using TShort.IH[OF c, of kr kr'] \<open>kok (vkey sk) kr\<close> \<open>k = sk @ kr\<close> by simp
    next
      case (branch p x r y sr)
      then have "take (length sk) k' \<noteq> sk" "k' \<noteq> k" using \<open>k = sk @ kr\<close> by auto
      then show ?thesis by (simp add: eq)
    qed
  next
    case (branch p x kr y sr)
    have "canon False (TShort (y # sr) c)"
      using cs canon_TShort_suffix branch(2,4) by blast
    then have y: "unat y < 17" using canon_tput by blast
    have x: "unat x < 17" using branch by (simp add: vkey_Cons)
    note sub = tget_TShort_append[where k = k']
    have ext: "k' = p @ k'' \<Longrightarrow> \<exists>z r. k'' = z # r" for k''
      using k' branch(4) nibbles_vkey_clash[of p] by (cases k'') auto
    show ?thesis
    proof (cases "take (length p) k' = p")
      case False
      then have "k' \<noteq> k" using branch by auto
      moreover have "tget (TShort sk c) k' = None"
        unfolding branch(2) using False sub[of p "y # sr" c] by simp
      ultimately show ?thesis
        unfolding tinsert_branch[OF branch(1-3,5)] using False by (simp add: tget_tput)
    next
      case True
      then obtain z r where zr: "k' = p @ z # r" using ext by (metis append_take_drop_id)
      have vz: "vkey (z # r)" using k' zr vkey_append[OF branch(4)] by simp
      have "tget (tput kr (TVal v)) r = (if r = kr then Some v else None)" if "z = x"
      proof -
        have "kok (x = 16) kr" "kok (x = 16) r" using branch(6) vz that by (simp_all add: vkey_Cons)
        moreover have "take (length kr) r = kr \<longleftrightarrow> r = kr" if "vkey kr" "vkey r"
          using that vkey_prefix[of kr "drop (length kr) r"]
          by (metis append_take_drop_id append_Nil2 take_all order_refl)
        ultimately show ?thesis by (cases "x = 16") (auto simp: tget_tput)
      qed
      moreover have "tget (TShort sk c) k' = (if z = y then tget (tput sr c) r else None)"
        unfolding branch(2) using sub[of p "y # sr" c] zr by (simp add: tget_tput del: append_Cons)
      moreover have "tget (tinsert (TShort sk c) k (TVal v)) k' =
          (if z = x then tget (tput kr (TVal v)) r else if z = y then tget (tput sr c) r else None)"
        unfolding tinsert_branch[OF branch(1-3,5)] tget_tput[of p]
        using zr fork_get[OF y x branch(3)] by simp
      ultimately show ?thesis using branch(1,3) zr by auto
    qed
  qed
next
  case (TFull cs)
  then have e: "\<not> e" and full: "canon False (TFull cs)" and k: "vkey k" and k': "vkey k'"
    using canon0_fullD[of e cs] by (auto simp: kok_def)
  then obtain x r where xr: "k = x # r" "unat x < 17" "kok (x = 16) r" by (cases k) (auto simp: vkey_Cons)
  from k' obtain x' r' where xr': "k' = x' # r'" "unat x' < 17" "kok (x' = 16) r'"
    by (cases k') (auto simp: vkey_Cons)
  have len: "length cs = 17" and ch: "\<And>i. i < 17 \<Longrightarrow> canon0 (i = 16) (cs ! i)"
    using full by (auto simp: canon_full)
  have x16: "unat x = 16 \<longleftrightarrow> x = 16" and xx': "unat x = unat x' \<longleftrightarrow> x = x'"
    by (simp_all add: word_unat_eq_iff)
  show ?case
  proof (cases "x = x'")
    case True
    then show ?thesis
      using TFull.IH[of "cs ! unat x" "x = 16" r r'] xr xr' len ch[of "unat x"] x16 by simp
  next
    case False
    then show ?thesis using xr xr' len xx' by simp
  qed
qed

section \<open>Deletion\<close>

lemma nonnil_set: "set (nonnil cs) = {i. i < length cs \<and> cs ! i \<noteq> TNil}"
  by (auto simp: nonnil_def)

lemma nonnil_cases:
  assumes "i < length cs" "cs ! i \<noteq> TNil"
  obtains (one) pos where "nonnil cs = [pos]" "pos < length cs" "cs ! pos \<noteq> TNil"
      "\<And>j. j < length cs \<Longrightarrow> j \<noteq> pos \<Longrightarrow> cs ! j = TNil"
  | (two) i j where "treduce cs = TFull cs" "i < length cs" "j < length cs" "i \<noteq> j"
      "cs ! i \<noteq> TNil" "cs ! j \<noteq> TNil"
proof (cases "nonnil cs")
  case Nil
  then show thesis using assms nonnil_set[of cs] by auto
next
  case (Cons a as)
  show thesis
  proof (cases as)
    case Nil
    with Cons have s: "{i. i < length cs \<and> cs ! i \<noteq> TNil} = {a}" using nonnil_set[of cs] by simp
    show thesis by (rule one[of a]) (use Cons Nil s in auto)
  next
    case (Cons b bs)
    then have l: "nonnil cs = a # b # bs" using \<open>nonnil cs = a # as\<close> by simp
    moreover have "distinct (nonnil cs)" by (simp add: nonnil_def)
    ultimately have "a \<noteq> b" by simp
    have "a \<in> set (nonnil cs)" "b \<in> set (nonnil cs)" unfolding l by simp_all
    then have "a < length cs" "cs ! a \<noteq> TNil" "b < length cs" "cs ! b \<noteq> TNil" by (simp_all add: nonnil_set)
    moreover have "treduce cs = TFull cs" using l by (simp add: treduce_def)
    ultimately show thesis using two \<open>a \<noteq> b\<close> by blast
  qed
qed

lemma treduce_lemma:
  assumes len: "length cs = 17" and ch: "\<And>i. i < 17 \<Longrightarrow> canon0 (i = 16) (cs ! i)"
    and i: "i < 17" "cs ! i \<noteq> TNil"
  shows "canon False (treduce cs)" "vkey k \<Longrightarrow> tget (treduce cs) k = tget (TFull cs) k"
proof -
  have "i < length cs" using i len by simp
  from this i(2) have "canon False (treduce cs) \<and> (vkey k \<longrightarrow> tget (treduce cs) k = tget (TFull cs) k)"
  proof (cases rule: nonnil_cases)
    case (one pos)
    let ?p = "word_of_nat pos :: byte"
    have p: "unat ?p = pos" using one(2) len by (simp add: unat_of_nat)
    have p16: "?p = 16 \<longleftrightarrow> pos = 16" using p by (simp add: word_unat_eq_iff)
    have c: "canon (?p = 16) (cs ! pos)" using ch[of pos] one(2,3) len p16 by (simp add: canon0_def)
    have other: "tget (cs ! unat x) r = None" if "unat x < 17" "x \<noteq> ?p" for x r
      using one(4)[of "unat x"] that p len by (auto simp: word_unat_eq_iff)
    obtain sk c' where t: "treduce cs = TShort (?p # sk) c'" "cs ! pos = tput sk c'"
      "canon False (TShort (?p # sk) c')"
    proof (cases "pos \<noteq> 16 \<and> (\<exists>k c. cs ! pos = TShort k c)")
      case True
      then obtain k2 c2 where k2: "cs ! pos = TShort k2 c2" by blast
      moreover have "k2 \<noteq> []" using c k2 by auto
      moreover have np: "nibble ?p" using True one(2) len p by (simp add: unat_nibble)
      moreover have "canon False (TShort (?p # k2) c2)"
        using c k2 True p16 np by (cases "vkey k2") (auto simp: vkey.simps(2))
      ultimately show thesis using that[of k2 c2] one(1) True by (simp add: treduce_def tput_def)
    next
      case False
      have "treduce cs = TShort [?p] (cs ! pos)"
        using one(1) False by (auto simp: treduce_def split: tree.splits)
      moreover have "canon False (TShort [?p] (cs ! pos))"
      proof (cases "pos = 16")
        case True
        then show ?thesis using c p16 by (simp add: vkey.simps(2))
      next
        case nl: False
        then have "nibble ?p" using one(2) len p by (simp add: unat_nibble)
        moreover have "is_full (cs ! pos)" using c nl False p16 by (cases "cs ! pos") auto
        ultimately show ?thesis using c p16 nl by (simp add: vkey.simps)
      qed
      ultimately show thesis using that[of "[]"] by (simp add: tput_def)
    qed
    have "tget (treduce cs) k = tget (TFull cs) k" if vk: "vkey k"
    proof -
      obtain x r where xr: "k = x # r" "unat x < 17" using vk by (cases k) (auto simp: vkey_Cons)
      show ?thesis
      proof (cases "x = ?p")
        case True
        have "tget (treduce cs) k = tget (cs ! pos) r" unfolding t(1,2) xr True by (rule tget_TShort_Cons)
        then show ?thesis using p len one(2) True xr by simp
      next
        case False
        then have "tget (treduce cs) k = None" unfolding t(1) xr by simp
        then show ?thesis using other[OF xr(2) False] xr len by simp
      qed
    qed
    with t show ?thesis by simp
  next
    case (two a b)
    then have "canon False (TFull cs)" unfolding canon_full using len ch by auto
    with two show ?thesis by simp
  qed
  then show "canon False (treduce cs)" "vkey k \<Longrightarrow> tget (treduce cs) k = tget (TFull cs) k" by blast+
qed

lemma treduce_not_TNil: "treduce cs \<noteq> TNil"
  by (auto simp: treduce_def split: list.splits tree.splits)

lemma tdelete_full_not_TNil: "is_full t \<Longrightarrow> tdelete t k \<noteq> TNil"
  by (cases t; cases k) (auto simp: Let_def treduce_not_TNil)

lemma tdelete_through:
  "tdelete (TShort sk c) (sk @ k') =
     (if k' = [] then TNil
      else case tdelete c k' of TShort k2 c2 \<Rightarrow> TShort (sk @ k2) c2 | c' \<Rightarrow> TShort sk c')"
  by (auto simp: Let_def)

lemma tdelete_branch:
  "prefixLen k sk < length sk \<Longrightarrow> tdelete (TShort sk c) k = TShort sk c"
  by (simp add: Let_def)

declare tdelete.simps(3) [simp del]

lemma tdelete_lemma:
  "canon0 e t \<Longrightarrow> kok e k \<Longrightarrow>
     canon0 e (tdelete t k) \<and>
     (\<forall>k'. kok e k' \<longrightarrow> tget (tdelete t k) k' = (if k' = k then None else tget t k'))"
proof (induction t arbitrary: e k)
  case TNil
  then show ?case by (simp add: canon0_def)
next
  case (TVal v)
  then show ?case by (cases e) (auto simp: canon0_def)
next
  case (TShort sk c)
  from canon0_shortD[OF TShort.prems(1)] have e: "\<not> e" and cs: "canon False (TShort sk c)" by auto
  then have k: "vkey k" using TShort.prems(2) by simp
  from cs k show ?case
  proof (cases rule: short_cases)
    case (through kr)
    show ?thesis
    proof (cases "vkey sk")
      case True
      then have kr: "kr = []" using through(3) by simp
      have "tget (TShort sk c) k' = None" if "vkey k'" "k' \<noteq> k" for k'
        using cs that(1)
      proof (cases rule: short_cases)
        case (through kr')
        then show ?thesis using True that kr \<open>k = sk @ kr\<close> by simp
      next
        case (branch p x kr' y sr)
        then show ?thesis by simp
      qed
      with e kr through(1) tdelete_through[of sk c "[]"] show ?thesis by (simp add: canon0_def)
    next
      case False
      then have sk: "sk \<noteq> []" "nibbles sk" and c: "is_full c" "canon False c" using cs by auto
      have kr: "vkey kr" "kr \<noteq> []" using through(3) False by auto
      from TShort.IH[of False kr] c kr have IH: "canon0 False (tdelete c kr)"
        "\<And>k'. vkey k' \<Longrightarrow> tget (tdelete c kr) k' = (if k' = kr then None else tget c k')"
        by (auto simp: canon0_def)
      then have cn: "canon False (tdelete c kr)" using tdelete_full_not_TNil[OF c(1)] by (simp add: canon0_def)
      have new: "canon False (tdelete (TShort sk c) k) \<and>
        (\<forall>k'. tget (tdelete (TShort sk c) k) k' =
          (if take (length sk) k' = sk then tget (tdelete c kr) (drop (length sk) k') else None))"
      proof (cases "tdelete c kr")
        case (TShort k2 c2)
        have "canon False (TShort (sk @ k2) c2)"
          using cn TShort sk vkey_append[OF sk(2), of k2] by (auto split: if_splits)
        then show ?thesis
          unfolding through(1) tdelete_through using kr sk(1) TShort by (simp add: tget_TShort_append del: tget.simps(3))
      next
        case (TFull cs')
        then show ?thesis
          unfolding through(1) tdelete_through using kr cn sk False by simp
      qed (use cn in auto)
      have "tget (tdelete (TShort sk c) k) k' = (if k' = k then None else tget (TShort sk c) k')"
        if "vkey k'" for k'
        using cs that
      proof (cases rule: short_cases)
        case (through kr')
        then show ?thesis using new IH(2)[of kr'] False \<open>k = sk @ kr\<close> by auto
      next
        case (branch p x kr' y sr)
        then show ?thesis using new \<open>k = sk @ kr\<close> by auto
      qed
      with new e show ?thesis by (simp add: canon0_def)
    qed
  next
    case (branch p x kr y sr)
    then have "prefixLen k sk < length sk" by simp
    note eq = tdelete_branch[OF this]
    have "take (length sk) k \<noteq> sk" using branch(1-3) by auto
    then show ?thesis unfolding eq using TShort.prems(1) by simp
  qed
next
  case (TFull cs)
  from canon0_fullD[OF TFull.prems(1)] have e: "\<not> e" and full: "canon False (TFull cs)" by auto
  then obtain x r where xr: "k = x # r" "unat x < 17" "kok (x = 16) r"
    using TFull.prems(2) by (cases k) (auto simp: vkey_Cons)
  have len: "length cs = 17" and ch: "\<And>i. i < 17 \<Longrightarrow> canon0 (i = 16) (cs ! i)"
    using full by (auto simp: canon_full)
  have x16: "unat x = 16 \<longleftrightarrow> x = 16" by (simp add: word_unat_eq_iff)
  let ?c = "tdelete (cs ! unat x) r" and ?cs = "cs[unat x := tdelete (cs ! unat x) r]"
  have IH: "canon0 (x = 16) ?c"
    "\<And>k'. kok (x = 16) k' \<Longrightarrow> tget ?c k' = (if k' = r then None else tget (cs ! unat x) k')"
    using TFull.IH[of "cs ! unat x" "x = 16" r] xr len ch[of "unat x"] x16 by auto
  have ch': "canon0 (i = 16) (?cs ! i)" if "i < 17" for i
    using that IH(1) ch x16 len by (cases "i = unat x") auto
  obtain i where i: "i < 17" "i \<noteq> unat x" "cs ! i \<noteq> TNil"
    using full unfolding canon_full by metis
  have "canon False (if ?c \<noteq> TNil then TFull ?cs else treduce ?cs) \<and>
     (\<forall>k'. vkey k' \<longrightarrow> tget (if ?c \<noteq> TNil then TFull ?cs else treduce ?cs) k' = tget (TFull ?cs) k')"
  proof (cases "?c = TNil")
    case True
    then show ?thesis using treduce_lemma[of ?cs i] ch' i len by simp
  next
    case False
    then have "canon False (TFull ?cs)"
      unfolding canon_full using ch' i len xr(2)
      by (metis length_list_update nth_list_update_eq nth_list_update_neq)
    with False show ?thesis by simp
  qed
  moreover have "tget (TFull ?cs) k' = (if k' = k then None else tget (TFull cs) k')" if vk: "vkey k'" for k'
  proof -
    obtain x' r' where xr': "k' = x' # r'" "unat x' < 17" "kok (x' = 16) r'"
      using vk by (cases k') (auto simp: vkey_Cons)
    have "unat x = unat x' \<longleftrightarrow> x = x'" by (simp add: word_unat_eq_iff)
    then show ?thesis using IH(2)[of r'] xr xr' len by (cases "x = x'") auto
  qed
  ultimately show ?case using e xr len by (simp add: canon0_def Let_def)
qed

section \<open>Uniqueness\<close>

lemma canon_inhabited: "canon e t \<Longrightarrow> \<exists>k v. kok e k \<and> tget t k = Some v \<and> v \<noteq> []"
proof (induction t arbitrary: e)
  case (TShort sk c)
  then have e: "\<not> e" by simp
  show ?case
  proof (cases "vkey sk")
    case True
    with TShort obtain k v where "kok True k" "tget c k = Some v" "v \<noteq> []" by fastforce
    with True e show ?thesis by (intro exI[of _ sk] exI[of _ v] conjI) auto
  next
    case False
    with TShort obtain k v where "kok False k" "tget c k = Some v" "v \<noteq> []" "nibbles sk" by fastforce
    with e show ?thesis by (intro exI[of _ "sk @ k"] exI[of _ v] conjI) (auto simp: vkey_append)
  qed
next
  case (TFull cs)
  then obtain i where e: "\<not> e" and i: "i < 17" "cs ! i \<noteq> TNil" "length cs = 17"
    and "canon0 (i = 16) (cs ! i)" by (auto simp: canon_full)
  then have "canon (i = 16) (cs ! i)" by (simp add: canon0_def)
  then obtain k v where k: "kok (i = 16) k" "tget (cs ! i) k = Some v" "v \<noteq> []"
    using TFull.IH[of "cs ! i" "i = 16"] i by auto
  let ?x = "word_of_nat i :: byte"
  have x: "unat ?x = i" using i(1) by (simp add: unat_of_nat)
  then have "?x = 16 \<longleftrightarrow> i = 16" by (simp add: word_unat_eq_iff)
  then show ?case using e k i x by (intro exI[of _ "?x # k"] exI[of _ v] conjI) (auto simp: vkey_Cons)
qed (auto intro: exI[of _ "[]"])

text \<open>The size a descent by one nibble decreases.\<close>

fun tsize :: "tree \<Rightarrow> nat" where
  "tsize TNil = 1"
| "tsize (TVal v) = 1"
| "tsize (TShort k c) = length k + tsize c"
| "tsize (TFull cs) = Suc (sum_list (map tsize cs))"

lemma tsize_pos [simp]: "0 < tsize t"
  by (induction t) simp_all

lemma tsize_tput: "tsize (tput r c) < tsize (TShort (y # r) c)"
  by (simp add: tput_def)

lemma tsize_child: "i < length cs \<Longrightarrow> tsize (cs ! i) < tsize (TFull cs)"
  by (simp add: le_imp_less_Suc member_le_sum_list)

text \<open>
  The subtree below one nibble of a canonical tree, and what a canonical tree at an open position is:
  its content below every nibble, and one or several non-empty nibbles.
\<close>

fun below :: "tree \<Rightarrow> byte \<Rightarrow> tree" where
  "below (TShort (y # r) c) x = (if x = y then tput r c else TNil)"
| "below (TFull cs) x = cs ! unat x"
| "below t x = TNil"

lemma below_facts:
  assumes "canon False t" "unat x < 17"
  shows "canon0 (x = 16) (below t x)" "tget t (x # k) = tget (below t x) k" "tsize (below t x) < tsize t"
proof -
  have "canon0 (x = 16) (below t x) \<and> tget t (x # k) = tget (below t x) k \<and> tsize (below t x) < tsize t"
  proof (cases t)
    case (TShort sk c)
    with assms obtain y r where "sk = y # r" by (cases sk) auto
    with TShort assms canon_tput[of y r c] tsize_tput[of r c y] show ?thesis
      by (auto simp: canon0_def tget_tput)
  next
    case (TFull cs)
    have "unat x = 16 \<longleftrightarrow> x = 16" by (simp add: word_unat_eq_iff)
    with TFull assms tsize_child[of "unat x" cs] show ?thesis by (auto simp: canon_full)
  qed (use assms in auto)
  then show "canon0 (x = 16) (below t x)" "tget t (x # k) = tget (below t x) k" "tsize (below t x) < tsize t"
    by blast+
qed

lemma below_determines:
  assumes "canon False t" "canon False t'" "\<And>x. unat x < 17 \<Longrightarrow> below t x = below t' x"
  shows "t = t'"
proof -
  have short: "\<exists>y r c. u = TShort (y # r) c \<and> unat y < 17 \<and> tput r c \<noteq> TNil \<and>
      (r \<noteq> [] \<or> (\<nexists>k d. c = TShort k d))" if cu: "canon False u" "\<not> is_full u" for u
  proof (cases u)
    case (TShort sk c)
    with cu obtain y r where "sk = y # r" by (cases sk) auto
    moreover from this cu TShort have "unat y < 17" "tput r c \<noteq> TNil" using canon_tput[of y r c] by auto
    moreover have "canon True c \<or> is_full c" using cu TShort by (auto split: if_splits)
    then have "\<nexists>k d. c = TShort k d" by auto
    ultimately show ?thesis using TShort by blast
  qed (use cu in auto)
  have two: "\<exists>x y. unat x < 17 \<and> unat y < 17 \<and> x \<noteq> y \<and> below u x \<noteq> TNil \<and> below u y \<noteq> TNil"
    if cu: "canon False u" "is_full u" for u
  proof -
    obtain cs where u: "u = TFull cs" using cu(2) by (cases u) auto
    then obtain i j where "i < 17" "j < 17" "i \<noteq> j" "cs ! i \<noteq> TNil" "cs ! j \<noteq> TNil"
      using cu by (auto simp: canon_full)
    then show ?thesis using u
      by (intro exI[of _ "word_of_nat i"] exI[of _ "word_of_nat j"])
        (auto simp: unat_of_nat word_unat_eq_iff)
  qed
  have mixed: False if u: "canon False u" "\<not> is_full u" and w: "canon False w" "is_full w"
    and eq: "\<And>x. unat x < 17 \<Longrightarrow> below u x = below w x" for u w
  proof -
    obtain x y where "unat x < 17" "unat y < 17" "x \<noteq> y" "below w x \<noteq> TNil" "below w y \<noteq> TNil"
      using two[OF w] by blast
    with eq have "below u x \<noteq> TNil" "below u y \<noteq> TNil" by simp_all
    with \<open>x \<noteq> y\<close> short[OF u] show False by (auto split: if_splits)
  qed
  consider "is_full t" "is_full t'" | "\<not> is_full t" "\<not> is_full t'"
    using mixed[OF assms(1) _ assms(2)] mixed[OF assms(2) _ assms(1)] assms(3) by metis
  then show ?thesis
  proof cases
    case 1
    then obtain cs cs' where t: "t = TFull cs" "t' = TFull cs'" by (cases t; cases t') auto
    have "cs ! i = cs' ! i" if "i < 17" for i
      using assms(3)[of "word_of_nat i"] that t by (simp add: unat_of_nat)
    with t assms(1,2) show ?thesis by (auto simp: canon_full list_eq_iff_nth_eq)
  next
    case 2
    from short[OF assms(1) 2(1)] obtain y r c where t: "t = TShort (y # r) c" "unat y < 17"
      "tput r c \<noteq> TNil" "r \<noteq> [] \<or> (\<nexists>k d. c = TShort k d)" by blast
    from short[OF assms(2) 2(2)] obtain y' r' c' where t': "t' = TShort (y' # r') c'" "unat y' < 17"
      "tput r' c' \<noteq> TNil" "r' \<noteq> [] \<or> (\<nexists>k d. c' = TShort k d)" by blast
    have "y = y'" using assms(3)[OF t(2)] t t' by (auto split: if_splits)
    then have "tput r c = tput r' c'" using assms(3)[OF t(2)] t t' by simp
    then have "r = r' \<and> c = c'" using t(4) t'(4) by (auto simp: tput_def split: if_splits)
    with t t' \<open>y = y'\<close> show ?thesis by simp
  qed
qed

lemma canon_unique:
  "canon0 e t \<Longrightarrow> canon0 e t' \<Longrightarrow> (\<And>k. kok e k \<Longrightarrow> tget t k = tget t' k) \<Longrightarrow> t = t'"
proof (induction "tsize t" arbitrary: e t t' rule: less_induct)
  case less
  have nil: "t = TNil \<longleftrightarrow> t' = TNil"
    using less.prems canon_inhabited by (metis canon0_def option.distinct(1) tget.simps(1))
  show ?case
  proof (cases "t = TNil")
    case True
    then show ?thesis using nil by simp
  next
    case False
    then have c: "canon e t" "canon e t'" using nil less.prems by (simp_all add: canon0_def)
    show ?thesis
    proof (cases e)
      case True
      then obtain v w where "t = TVal v" "t' = TVal w"
        using c by (cases t; cases t') (auto simp: canon_full)
      with less.prems(3)[of "[]"] True show ?thesis by simp
    next
      case e: False
      then have c: "canon False t" "canon False t'" using c by simp_all
      then show ?thesis
      proof (rule below_determines)
        fix x :: byte assume x: "unat x < 17"
        show "below t x = below t' x"
        proof (rule less.hyps)
          show "tsize (below t x) < tsize t" "canon0 (x = 16) (below t x)" "canon0 (x = 16) (below t' x)"
            using below_facts[OF _ x] c by blast+
          fix k assume "kok (x = 16) k"
          then have "tget t (x # k) = tget t' (x # k)" using less.prems(3) e x by (simp add: vkey_Cons)
          then show "tget (below t x) k = tget (below t' x) k"
            using below_facts(2)[OF c(1) x] below_facts(2)[OF c(2) x] by simp
        qed
      qed
    qed
  qed
qed

end
