(* ===== verification/Trie_Node.thy ===== *)
theory Trie_Node
  imports Trie_Encoding Rlp_Raw
begin

text \<open>
  Trie nodes and their disk format: \<^verbatim>\<open>trie/node.go\<close> (the node types and the decoder) and
  \<^verbatim>\<open>trie/node_enc.go\<close> (the encoder). The encoder writes to the RLP buffer of theory
  \<open>Rlp_Encode\<close>, the decoder splits with the readers of theory \<open>Rlp_Raw\<close>.
\<close>

section \<open>Nodes\<close>

text \<open>
  The \<open>node\<close> interface: the four implementations of a live trie, and \<open>nil\<close>. The cached hash of a node
  is \<open>None\<close> when it is nil.
\<close>

record nodeFlag =
  fl_hash :: "bytes option"
  fl_dirty :: bool

datatype node =
    NilNode
  | ShortNode bytes node nodeFlag
  | FullNode "node list" nodeFlag
  | HashNode bytes
  | ValueNode bytes

fun node_cache :: "node \<Rightarrow> bytes option \<times> bool" where
  "node_cache (FullNode cs fl) = (fl_hash fl, fl_dirty fl)"
| "node_cache (ShortNode k c fl) = (fl_hash fl, fl_dirty fl)"
| "node_cache (HashNode h) = (None, True)"
| "node_cache (ValueNode v) = (None, True)"
| "node_cache NilNode = (None, True)"

section \<open>Encoding\<close>

text \<open>
  \<open>encode\<close> of the node types. A nil child is written as the empty string by its parent, so the model
  gives that meaning to a nil node.
\<close>

fun node_encode :: "node \<Rightarrow> encBuffer \<Rightarrow> (rlp_error, encBuffer) outcome"
and children_encode :: "node list \<Rightarrow> encBuffer \<Rightarrow> (rlp_error, encBuffer) outcome" where
  "node_encode NilNode w = Ret (buf_append w [0x80])"
| "node_encode (FullNode cs fl) w =
     (let (w1, offset) = buf_list w in
      bind_outcome (children_encode cs w1) (\<lambda>w2. buf_listEnd w2 offset))"
| "node_encode (ShortNode k c fl) w =
     (let (w1, offset) = buf_list w in
      bind_outcome (node_encode c (buf_writeBytes w1 k)) (\<lambda>w2. buf_listEnd w2 offset))"
| "node_encode (HashNode h) w = Ret (buf_writeBytes w h)"
| "node_encode (ValueNode v) w = Ret (buf_writeBytes w v)"
| "children_encode [] w = Ret w"
| "children_encode (c # cs) w = bind_outcome (node_encode c w) (children_encode cs)"

definition nodeToBytes :: "node \<Rightarrow> (rlp_error, bytes) outcome" where
  "nodeToBytes n = bind_outcome (node_encode n empty_buf) makeBytes"

text \<open>The RLP value a node is written as.\<close>

fun node_val :: "node \<Rightarrow> rlp_val" where
  "node_val NilNode = VRaw [0x80]"
| "node_val (FullNode cs fl) = VSlice (map node_val cs)"
| "node_val (ShortNode k c fl) = VSlice [VBytes k, node_val c]"
| "node_val (HashNode h) = VBytes h"
| "node_val (ValueNode v) = VBytes v"

fun no_empty_full :: "node \<Rightarrow> bool" where
  "no_empty_full (FullNode cs fl) = (cs \<noteq> [] \<and> (\<forall>c \<in> set cs. no_empty_full c))"
| "no_empty_full (ShortNode k c fl) = no_empty_full c"
| "no_empty_full n = True"

section \<open>Decoding\<close>

datatype decode_ctx = Ctx_short | Ctx_full | Ctx_val | Ctx_index nat

datatype trie_error =
    Decode_EOF
  | Decode_List rlp_error
  | Decode_Count nat
  | Decode_Rlp rlp_error
  | Decode_Value rlp_error
  | Decode_Oversized nat
  | Decode_Size nat
  | decodeError trie_error "decode_ctx list"
  | MissingNodeError hash hash bytes
  | State_Not_Found hash
  | Non_Consensus_Node
  | Out_Of_Fuel

fun wrapError :: "trie_error \<Rightarrow> decode_ctx \<Rightarrow> trie_error" where
  "wrapError (decodeError what stack) ctx = decodeError what (stack @ [ctx])"
| "wrapError e ctx = decodeError e [ctx]"

definition map_fail :: "('e \<Rightarrow> 'f) \<Rightarrow> ('e, 'a) outcome \<Rightarrow> ('f, 'a) outcome" where
  "map_fail f r = (case r of Ret x \<Rightarrow> Ret x | Fail e \<Rightarrow> Fail (f e) | Panic \<Rightarrow> Panic)"

definition hashLen :: nat where
  "hashLen = 32"

text \<open>
  \<open>decodeRef\<close> calls \<open>decodeNode\<close> on an embedded list; \<open>dec\<close> is that call. The recursion of the decoder
  is cut by a fuel argument: the list inside a list is shorter, so the length of the input is enough
  (lemma \<open>decode_fuel\<close>).
\<close>

definition decodeRef :: "(bytes \<Rightarrow> (trie_error, node) outcome) \<Rightarrow> bytes \<Rightarrow>
    (trie_error, node \<times> bytes) outcome" where
  "decodeRef dec buf =
     bind_outcome (map_fail Decode_Rlp (Split buf)) (\<lambda>(kind, val, rest).
       if kind = List_Kind then
         (let sz = length buf - length rest in
          if sz > hashLen then Fail (Decode_Oversized sz)
          else bind_outcome (dec buf) (\<lambda>n. Ret (n, rest)))
       else if kind = String_Kind \<and> length val = 0 then Ret (NilNode, rest)
       else if kind = String_Kind \<and> length val = 32 then Ret (HashNode val, rest)
       else Fail (Decode_Size (length val)))"

definition decodeShort :: "(bytes \<Rightarrow> (trie_error, node) outcome) \<Rightarrow> bytes option \<Rightarrow> bytes \<Rightarrow>
    (trie_error, node) outcome" where
  "decodeShort dec h elems =
     bind_outcome (map_fail Decode_Rlp (SplitString elems)) (\<lambda>(kbuf, rest).
     bind_outcome (compactToHex kbuf) (\<lambda>key.
       let flag = \<lparr>fl_hash = h, fl_dirty = False\<rparr> in
       if hasTerm key then
         bind_outcome (map_fail Decode_Value (SplitString rest)) (\<lambda>(val, r).
           Ret (ShortNode key (ValueNode val) flag))
       else bind_outcome (map_fail (\<lambda>e. wrapError e Ctx_val) (decodeRef dec rest)) (\<lambda>(r, rest').
           Ret (ShortNode key r flag))))"

text \<open>The loop over the first 16 children: \<open>m\<close> of them are left, \<open>i\<close> is the next index.\<close>

primrec decodeFull_loop :: "(bytes \<Rightarrow> (trie_error, node) outcome) \<Rightarrow> nat \<Rightarrow> nat \<Rightarrow> bytes \<Rightarrow>
    (trie_error, node list \<times> bytes) outcome" where
  "decodeFull_loop dec 0 i elems = Ret ([], elems)"
| "decodeFull_loop dec (Suc m) i elems =
     bind_outcome (map_fail (\<lambda>e. wrapError e (Ctx_index i)) (decodeRef dec elems)) (\<lambda>(cld, rest).
     bind_outcome (decodeFull_loop dec m (i + 1) rest) (\<lambda>(cs, rest'). Ret (cld # cs, rest')))"

definition decodeFull :: "(bytes \<Rightarrow> (trie_error, node) outcome) \<Rightarrow> bytes option \<Rightarrow> bytes \<Rightarrow>
    (trie_error, node) outcome" where
  "decodeFull dec h elems =
     bind_outcome (decodeFull_loop dec 16 0 elems) (\<lambda>(cs, elems').
     bind_outcome (map_fail Decode_Rlp (SplitString elems')) (\<lambda>(val, r).
       Ret (FullNode (cs @ [if length val > 0 then ValueNode val else NilNode])
              \<lparr>fl_hash = h, fl_dirty = False\<rparr>)))"

text \<open>\<open>c, _ := f()\<close>: the value beside a dropped error is \<open>z\<close>; a panic still propagates.\<close>

definition drop_error :: "'a \<Rightarrow> ('e, 'a) outcome \<Rightarrow> ('f, 'a) outcome" where
  "drop_error z r = (case r of Ret x \<Rightarrow> Ret x | Fail e \<Rightarrow> Ret z | Panic \<Rightarrow> Panic)"

fun decodeNode_fuel :: "nat \<Rightarrow> bytes option \<Rightarrow> bytes \<Rightarrow> (trie_error, node) outcome" where
  "decodeNode_fuel 0 h buf = Fail Out_Of_Fuel"
| "decodeNode_fuel (Suc fuel) h buf =
     (if length buf = 0 then Fail Decode_EOF
      else bind_outcome (map_fail Decode_List (SplitList buf)) (\<lambda>(elems, r).
        bind_outcome (drop_error 0 (CountValues elems)) (\<lambda>c.
        if c = 2 then map_fail (\<lambda>e. wrapError e Ctx_short) (decodeShort (decodeNode_fuel fuel None) h elems)
        else if c = 17 then map_fail (\<lambda>e. wrapError e Ctx_full) (decodeFull (decodeNode_fuel fuel None) h elems)
        else Fail (Decode_Count c))))"

definition decodeNode :: "bytes option \<Rightarrow> bytes \<Rightarrow> (trie_error, node) outcome" where
  "decodeNode h buf = decodeNode_fuel (length buf + 1) h buf"

definition mustDecodeNode :: "bytes option \<Rightarrow> bytes \<Rightarrow> (trie_error, node) outcome" where
  "mustDecodeNode h buf = (case decodeNode h buf of Ret n \<Rightarrow> Ret n | _ \<Rightarrow> Panic)"

section \<open>The encoder writes the node's value\<close>

lemma node_encode_val:
  "no_empty_full n \<Longrightarrow> node_encode n w = encode_val (node_val n) w"
  "(\<forall>c \<in> set cs. no_empty_full c) \<Longrightarrow> children_encode cs w = encode_vals (map node_val cs) w"
proof (induction n w and cs w rule: node_encode_children_encode.induct)
  case (2 cs fl w)
  then show ?case by (cases "buf_list w") simp
next
  case (3 k c fl w)
  have nil: "encode_vals [] = Ret" by (rule ext) simp
  from 3 show ?case by (cases "buf_list w") (simp add: nil)
next
  case (7 c cs w)
  then show ?case by (cases "encode_val (node_val c) w") auto
qed simp_all

lemma nodeToBytes_rlp:
  assumes "no_empty_full n" "length (rlp (node_val n)) < 2 ^ 63"
  shows "nodeToBytes n = Ret (rlp (node_val n))"
  using EncodeToBytes_rlp[OF assms(2)] assms(1)
  by (simp add: nodeToBytes_def node_encode_val EncodeToBytes_def)

section \<open>Fuel\<close>

lemma Split_rest: "go_slice b \<Longrightarrow> Split b = Ret (k, c, r) \<Longrightarrow> length r < length b \<and> go_slice r"
  by (metis Split_decreases Split_eq_Ret go_slice_append2)

lemma SplitString_rest: "go_slice b \<Longrightarrow> SplitString b = Ret (c, r) \<Longrightarrow> length r < length b \<and> go_slice r"
  by (auto simp: SplitString_def bind_outcome_eq_Ret split: if_splits dest: Split_rest)

lemma SplitList_content: "go_slice b \<Longrightarrow> SplitList b = Ret (c, r) \<Longrightarrow> length c < length b \<and> go_slice c"
proof -
  assume b: "go_slice b" "SplitList b = Ret (c, r)"
  then have "b = rlp_list c @ r" by (simp add: SplitList_eq_Ret)
  then show ?thesis using b(1) length_rlp_list_ge[of c] by (auto simp: go_slice_def)
qed

lemma map_fail_eq_Ret: "map_fail f m = Ret x \<longleftrightarrow> m = Ret x"
  by (cases m) (simp_all add: map_fail_def)

lemma drop_error_simps [simp]: "drop_error z (Ret x) = Ret x" "drop_error z (Fail e) = Ret z" "drop_error z m = Panic \<longleftrightarrow> m = Panic"
  by (simp_all add: drop_error_def split: outcome.split)

lemma map_fail_Ret [simp]: "map_fail f (Ret x) = Ret x"
  by (simp add: map_fail_def)

lemma decodeRef_rest:
  "go_slice b \<Longrightarrow> decodeRef dec b = Ret (n, r) \<Longrightarrow> length r < length b \<and> go_slice r"
  by (auto simp: decodeRef_def bind_outcome_eq_Ret map_fail_eq_Ret Let_def split: if_splits dest: Split_rest)

lemma decodeRef_cong:
  assumes "dec b = dec' b"
  shows "decodeRef dec b = decodeRef dec' b"
  unfolding decodeRef_def assms ..

lemma decodeShort_cong:
  assumes "go_slice elems" "\<And>b. length b \<le> length elems \<Longrightarrow> go_slice b \<Longrightarrow> dec b = dec' b"
  shows "decodeShort dec h elems = decodeShort dec' h elems"
proof (cases "SplitString elems")
  case (Ret x)
  then obtain kbuf rest where s: "SplitString elems = Ret (kbuf, rest)" by (cases x) auto
  then have eq: "decodeRef dec rest = decodeRef dec' rest"
    using SplitString_rest[OF assms(1) s] by (intro decodeRef_cong assms(2)) auto
  show ?thesis unfolding decodeShort_def s map_fail_Ret bind_outcome.simps prod.case eq ..
qed (simp_all add: decodeShort_def map_fail_def)

lemma decodeFull_loop_cong:
  assumes "go_slice elems" "\<And>b. length b \<le> length elems \<Longrightarrow> go_slice b \<Longrightarrow> dec b = dec' b"
  shows "decodeFull_loop dec m i elems = decodeFull_loop dec' m i elems"
  using assms
proof (induction m arbitrary: i elems)
  case (Suc m)
  have eq: "decodeRef dec elems = decodeRef dec' elems"
    by (intro decodeRef_cong Suc.prems(2)) (simp_all add: Suc.prems(1))
  show ?case
  proof (cases "decodeRef dec' elems")
    case (Ret x)
    then obtain cld rest where s: "decodeRef dec' elems = Ret (cld, rest)" by (cases x) auto
    have "decodeFull_loop dec m (i + 1) rest = decodeFull_loop dec' m (i + 1) rest"
      using decodeRef_rest[OF Suc.prems(1) s] by (intro Suc.IH Suc.prems(2)) auto
    with s eq show ?thesis by simp
  qed (simp_all add: eq map_fail_def)
qed simp

lemma decode_fuel:
  "go_slice b \<Longrightarrow> length b < m \<Longrightarrow> length b < n \<Longrightarrow> decodeNode_fuel m h b = decodeNode_fuel n h b"
proof (induction m arbitrary: n h b)
  case (Suc m)
  then obtain n' where n: "n = Suc n'" by (cases n) auto
  show ?case
  proof (cases "SplitList b")
    case (Ret x)
    then obtain elems r where s: "SplitList b = Ret (elems, r)" by (cases x) auto
    note e = SplitList_content[OF Suc.prems(1) s]
    have dec: "decodeNode_fuel m None b' = decodeNode_fuel n' None b'"
      if "length b' \<le> length elems" "go_slice b'" for b'
      using Suc.IH[OF that(2)] that(1) e Suc.prems n by simp
    have "decodeShort (decodeNode_fuel m None) h elems = decodeShort (decodeNode_fuel n' None) h elems"
      using e dec by (intro decodeShort_cong) auto
    moreover have "decodeFull_loop (decodeNode_fuel m None) 16 0 elems =
        decodeFull_loop (decodeNode_fuel n' None) 16 0 elems"
      using e dec by (intro decodeFull_loop_cong) auto
    ultimately show ?thesis using s n by (simp add: decodeFull_def cong: if_cong)
  qed (use n in \<open>simp_all add: map_fail_def\<close>)
qed simp

section \<open>Shape of decoded nodes\<close>

text \<open>
  What the decoder may return, at every level: nodes carry the hash they were loaded under, embedded ones none, and none is
  dirty; a short node holds a value exactly when its key ends in the terminator; a full node has 16 references and a value or
  nothing in the 17th place; a hash has 32 bytes.
\<close>

inductive decoded :: "bytes option \<Rightarrow> node \<Rightarrow> bool" and decoded_ref :: "node \<Rightarrow> bool" where
  leaf: "hasTerm k \<Longrightarrow> decoded h (ShortNode k (ValueNode v) \<lparr>fl_hash = h, fl_dirty = False\<rparr>)"
| extension: "\<not> hasTerm k \<Longrightarrow> decoded_ref c \<Longrightarrow> decoded h (ShortNode k c \<lparr>fl_hash = h, fl_dirty = False\<rparr>)"
| branch: "length ds = 16 \<Longrightarrow> (\<And>d. d \<in> set ds \<Longrightarrow> decoded_ref d) \<Longrightarrow> v = NilNode \<or> (\<exists>b. v = ValueNode b \<and> b \<noteq> []) \<Longrightarrow>
    decoded h (FullNode (ds @ [v]) \<lparr>fl_hash = h, fl_dirty = False\<rparr>)"
| absent: "decoded_ref NilNode"
| hashed: "length x = 32 \<Longrightarrow> decoded_ref (HashNode x)"
| embedded: "decoded None n \<Longrightarrow> decoded_ref n"

lemma decodeRef_decoded:
  assumes "\<forall>b n. dec b = Ret n \<longrightarrow> decoded None n" "decodeRef dec b = Ret (n, r)"
  shows "decoded_ref n"
  using assms
  by (auto simp: decodeRef_def bind_outcome_eq_Ret map_fail_eq_Ret Let_def split: if_splits
      intro: decoded_decoded_ref.intros)

lemma decodeFull_loop_decoded:
  assumes "\<forall>b n. dec b = Ret n \<longrightarrow> decoded None n" "decodeFull_loop dec m i b = Ret (cs, r)"
  shows "length cs = m \<and> (\<forall>d \<in> set cs. decoded_ref d)"
  using assms(2)
proof (induction m arbitrary: i b cs)
  case (Suc m)
  then obtain c rest cs' where "cs = c # cs'" "decodeRef dec b = Ret (c, rest)" "decodeFull_loop dec m (i + 1) rest = Ret (cs', r)"
    by (auto simp: bind_outcome_eq_Ret map_fail_eq_Ret)
  then show ?case using Suc.IH decodeRef_decoded[OF assms(1)] by auto
qed simp

lemma decodeShort_decoded:
  assumes "\<forall>b n. dec b = Ret n \<longrightarrow> decoded None n" "decodeShort dec h b = Ret n"
  shows "decoded h n"
proof -
  obtain k c where n: "n = ShortNode k c \<lparr>fl_hash = h, fl_dirty = False\<rparr>"
    and c: "hasTerm k \<longrightarrow> (\<exists>v. c = ValueNode v)" "\<not> hasTerm k \<longrightarrow> (\<exists>b r. decodeRef dec b = Ret (c, r))"
    using assms(2) by (auto simp: decodeShort_def bind_outcome_eq_Ret map_fail_eq_Ret Let_def split: if_splits)
  show ?thesis
    unfolding n using c decodeRef_decoded[OF assms(1)]
    by (cases "hasTerm k") (auto intro: decoded_decoded_ref.leaf decoded_decoded_ref.extension)
qed

lemma decodeFull_decoded:
  assumes "\<forall>b n. dec b = Ret n \<longrightarrow> decoded None n" "decodeFull dec h b = Ret n"
  shows "decoded h n"
proof -
  obtain cs r v where n: "n = FullNode (cs @ [v]) \<lparr>fl_hash = h, fl_dirty = False\<rparr>" "decodeFull_loop dec 16 0 b = Ret (cs, r)"
    "v = NilNode \<or> (\<exists>x. v = ValueNode x \<and> x \<noteq> [])"
    using assms(2) by (auto simp: decodeFull_def bind_outcome_eq_Ret map_fail_eq_Ret)
  then show ?thesis using decodeFull_loop_decoded[OF assms(1) n(2)] by (auto intro: decoded_decoded_ref.branch)
qed

lemma decodeNode_decoded: "decodeNode_fuel m h b = Ret n \<Longrightarrow> decoded h n"
proof (induction m arbitrary: h b n)
  case (Suc m)
  have IH: "\<forall>b n. decodeNode_fuel m None b = Ret n \<longrightarrow> decoded None n" using Suc.IH by blast
  have "(\<exists>e. decodeShort (decodeNode_fuel m None) h e = Ret n) \<or> (\<exists>e. decodeFull (decodeNode_fuel m None) h e = Ret n)"
    using Suc.prems by (auto simp: bind_outcome_eq_Ret map_fail_eq_Ret split: if_splits)
  then show ?case using decodeShort_decoded[OF IH] decodeFull_decoded[OF IH] by blast
qed simp

lemma decodeNode_shape:
  assumes "decodeNode h b = Ret n"
  shows "(\<exists>k c. n = ShortNode k c \<lparr>fl_hash = h, fl_dirty = False\<rparr>) \<or>
    (\<exists>cs. n = FullNode cs \<lparr>fl_hash = h, fl_dirty = False\<rparr> \<and> length cs = 17)"
  using decodeNode_decoded[OF assms[unfolded decodeNode_def]] by (cases rule: decoded.cases) auto

section \<open>Round trip through the disk format\<close>

text \<open>
  The value written for a node whose short keys are in HEX encoding: \<open>hexToCompact\<close> is applied on the
  way, as the hasher does before it encodes a node.
\<close>

definition compact :: "bytes \<Rightarrow> bytes" where
  "compact k = (case (hexToCompact k :: (unit, bytes) outcome) of Ret c \<Rightarrow> c | _ \<Rightarrow> [])"

fun disk_val :: "node \<Rightarrow> rlp_val" where
  "disk_val NilNode = VRaw [0x80]"
| "disk_val (FullNode cs fl) = VSlice (map disk_val cs)"
| "disk_val (ShortNode k c fl) = VSlice [VBytes (compact k), disk_val c]"
| "disk_val (HashNode h) = VBytes h"
| "disk_val (ValueNode v) = VBytes v"

text \<open>
  Nodes of the disk format: children are hashes, absent, or nodes embedded because their
  encoding is smaller than a hash; embedded nodes carry no cached hash.
\<close>

definition disk_enc :: "node \<Rightarrow> bytes" where
  "disk_enc n = rlp (disk_val n)"

lemma disk_enc_simps [simp]:
  "disk_enc NilNode = rlp_string []"
  "disk_enc (FullNode cs fl) = rlp_list (concat (map disk_enc cs))"
  "disk_enc (ShortNode k c fl) = rlp_list (rlp_string (compact k) @ disk_enc c)"
  "disk_enc (HashNode h) = rlp_string h"
  "disk_enc (ValueNode v) = rlp_string v"
  by (simp_all add: disk_enc_def[abs_def] rlp_string_def rlp_head_def comp_def)

definition embeddable :: "node \<Rightarrow> bool" where
  "embeddable n \<longleftrightarrow> length (disk_enc n) < hashLen"

fun disk_node :: "bytes option \<Rightarrow> node \<Rightarrow> bool" and disk_ref :: "node \<Rightarrow> bool" where
  "disk_node h (ShortNode k c fl) = (fl = \<lparr>fl_hash = h, fl_dirty = False\<rparr> \<and> hex_key k \<and>
     (if hasTerm k then \<exists>v. c = ValueNode v else disk_ref c))"
| "disk_node h (FullNode cs fl) = (fl = \<lparr>fl_hash = h, fl_dirty = False\<rparr> \<and>
     (\<exists>ds v. cs = ds @ [v] \<and> length ds = 16 \<and> (v = NilNode \<or> (\<exists>b. v = ValueNode b \<and> b \<noteq> []))) \<and>
     (\<forall>d \<in> set cs. disk_ref d \<or> (\<exists>b. d = ValueNode b)) \<and> (\<forall>d \<in> set (take 16 cs). \<forall>b. d \<noteq> ValueNode b))"
| "disk_node h n = False"
| "disk_ref NilNode = True"
| "disk_ref (HashNode x) = (length x = 32)"
| "disk_ref (ValueNode v) = False"
| "disk_ref (ShortNode k c fl) = (embeddable (ShortNode k c fl) \<and> disk_node None (ShortNode k c fl))"
| "disk_ref (FullNode cs fl) = (embeddable (FullNode cs fl) \<and> disk_node None (FullNode cs fl))"

lemma decodeNode_unfold:
  assumes "go_slice b"
  shows "decodeNode h b =
    (if length b = 0 then Fail Decode_EOF
     else bind_outcome (map_fail Decode_List (SplitList b)) (\<lambda>(elems, r).
       bind_outcome (drop_error 0 (CountValues elems)) (\<lambda>c.
       if c = 2 then map_fail (\<lambda>e. wrapError e Ctx_short) (decodeShort (decodeNode None) h elems)
       else if c = 17 then map_fail (\<lambda>e. wrapError e Ctx_full) (decodeFull (decodeNode None) h elems)
       else Fail (Decode_Count c))))"
proof (cases "SplitList b")
  case (Ret x)
  then obtain elems r where s: "SplitList b = Ret (elems, r)" by (cases x) auto
  note e = SplitList_content[OF assms s]
  have dec: "decodeNode_fuel (length b) None b' = decodeNode None b'"
    if "length b' \<le> length elems" "go_slice b'" for b'
    unfolding decodeNode_def using that e by (intro decode_fuel) auto
  have "decodeShort (decodeNode_fuel (length b) None) h elems = decodeShort (decodeNode None) h elems"
    using e dec by (intro decodeShort_cong) auto
  moreover have "decodeFull_loop (decodeNode_fuel (length b) None) 16 0 elems =
      decodeFull_loop (decodeNode None) 16 0 elems"
    using e dec by (intro decodeFull_loop_cong) auto
  ultimately show ?thesis using s by (simp add: decodeNode_def[of h b] decodeFull_def cong: if_cong)
qed (simp_all add: map_fail_def decodeNode_def)

lemma compactToHex_compact: "hex_key k \<Longrightarrow> compactToHex (compact k) = (Ret k :: ('e, bytes) outcome)"
proof -
  assume "hex_key k"
  then obtain ns t where ns: "\<forall>x \<in> set ns. nibble x" and k: "k = ns @ (if t then [16] else [])"
    unfolding hex_key_def by (metis append_Nil2)
  obtain bs where bs: "hexToCompact k = (Ret (compact_of t ns bs) :: (unit, bytes) outcome)"
    "decodeNibbles (if odd (length ns) then tl ns else ns) = (Ret bs :: (unit, bytes) outcome)"
    using hexToCompact_nibbles[OF ns, of t, where 'e = unit] unfolding k by blast
  have "decodeNibbles h = (Ret b :: (unit, bytes) outcome) \<Longrightarrow> decodeNibbles h = (Ret b :: ('e, bytes) outcome)"
    for h b
    by (induction h arbitrary: b rule: decodeNibbles.induct) (auto simp: bind_outcome_eq_Ret)
  from compactToHex_compact_of[OF ns this[OF bs(2)], of t] show ?thesis
    unfolding compact_def bs(1) k[symmetric] by simp
qed

lemma disk_val_enc: "\<exists>k c. disk_enc n = enc_kind k c \<and> kind_ok k c"
proof -
  have str: "\<exists>k c. rlp_string b = enc_kind k c \<and> kind_ok k c" for b
    using rlp_string_enc_kind enc_kind_string by blast
  have lst: "\<exists>k c. rlp_list b = enc_kind k c \<and> kind_ok k c" for b
    by (intro exI[of _ List_Kind] exI[of _ b]) simp
  show ?thesis by (cases n) (simp_all add: str lst del: enc_kind.simps kind_ok.simps)
qed

lemma CountValues_disk:
  assumes "go_slice (concat (map disk_enc ns))"
  shows "CountValues (concat (map disk_enc ns)) = Ret (length ns)"
proof -
  have "\<exists>f. \<forall>n. disk_enc n = enc_kind (fst (f n)) (snd (f n)) \<and> kind_ok (fst (f n)) (snd (f n))"
    using disk_val_enc by (intro choice) force
  then obtain f where f: "\<And>n. disk_enc n = enc_kind (fst (f n)) (snd (f n))"
    "\<And>n. kind_ok (fst (f n)) (snd (f n))" by blast
  have "concat (map disk_enc ns) = enc_seq (map f ns)"
    by (induction ns) (simp_all add: enc_seq_def f(1) case_prod_beta)
  with assms CountValues_loop_enc_seq[of "map f ns" 0] f(2) show ?thesis
    by (simp add: CountValues_def case_prod_beta)
qed

lemma decodeFull_loop_disk:
  assumes "\<And>d rest. d \<in> set ds \<Longrightarrow> go_slice (disk_enc d @ rest) \<Longrightarrow>
      decodeRef dec (disk_enc d @ rest) = Ret (d, rest)"
    and "go_slice (concat (map disk_enc ds) @ r)"
  shows "decodeFull_loop dec (length ds) i (concat (map disk_enc ds) @ r) = Ret (ds, r)"
  using assms
proof (induction ds arbitrary: i)
  case (Cons d ds)
  let ?r = "concat (map disk_enc ds) @ r"
  have go: "go_slice (disk_enc d @ ?r)" using Cons.prems(2) by simp
  then have "decodeRef dec (disk_enc d @ ?r) = Ret (d, ?r)" by (intro Cons.prems(1)) simp_all
  moreover have "decodeFull_loop dec (length ds) (i + 1) ?r = Ret (ds, r)"
    using Cons.prems(1) go_slice_append2[OF go] by (intro Cons.IH) auto
  ultimately show ?case by simp
qed simp

lemma decode_elems:
  assumes "go_slice (rlp_list (concat (map disk_enc ns)) @ rest)"
  shows "decodeNode h (rlp_list (concat (map disk_enc ns)) @ rest) =
    (let elems = concat (map disk_enc ns) in
     if length ns = 2 then map_fail (\<lambda>e. wrapError e Ctx_short) (decodeShort (decodeNode None) h elems)
     else if length ns = 17 then map_fail (\<lambda>e. wrapError e Ctx_full) (decodeFull (decodeNode None) h elems)
     else Fail (Decode_Count (length ns)))"
proof -
  let ?e = "concat (map disk_enc ns)"
  have s: "SplitList (rlp_list ?e @ rest) = Ret (?e, rest)" using assms by (simp add: SplitList_eq_Ret)
  have "go_slice ?e" using SplitList_content[OF assms s] by blast
  note cv = CountValues_disk[OF this]
  have ne: "(length (rlp_list ?e @ rest) = 0) = False" using length_rlp_list_ge[of ?e] by auto
  show ?thesis unfolding decodeNode_unfold[OF assms] s ne by (simp add: cv Let_def)
qed

lemma decodeShort_disk:
  assumes go: "go_slice (rlp_string (compact k) @ disk_enc c)"
    and k: "hex_key k"
    and val: "hasTerm k \<Longrightarrow> \<exists>v. c = ValueNode v"
    and ref: "\<not> hasTerm k \<Longrightarrow> decodeRef dec (disk_enc c) = Ret (c, [])"
  shows "decodeShort dec h (rlp_string (compact k) @ disk_enc c) =
    Ret (ShortNode k c \<lparr>fl_hash = h, fl_dirty = False\<rparr>)"
proof -
  have s: "SplitString (rlp_string (compact k) @ disk_enc c) = Ret (compact k, disk_enc c)"
    using go by (simp add: SplitString_eq_Ret)
  show ?thesis
  proof (cases "hasTerm k")
    case True
    with val obtain v where v: "c = ValueNode v" by blast
    have "SplitString (disk_enc c) = Ret (v, [])"
      using go_slice_append2[OF go] v by (simp add: SplitString_eq_Ret)
    then show ?thesis
      unfolding decodeShort_def s using True by (simp add: v compactToHex_compact[OF k])
  next
    case False
    then show ?thesis using ref by (simp add: decodeShort_def s compactToHex_compact[OF k] Let_def)
  qed
qed

lemma decodeFull_disk:
  assumes go: "go_slice (concat (map disk_enc (ds @ [v])))" and ds: "length ds = 16"
    and v: "v = NilNode \<or> (\<exists>b. v = ValueNode b \<and> b \<noteq> [])"
    and ref: "\<And>d rest. d \<in> set ds \<Longrightarrow> go_slice (disk_enc d @ rest) \<Longrightarrow>
      decodeRef dec (disk_enc d @ rest) = Ret (d, rest)"
  shows "decodeFull dec h (concat (map disk_enc (ds @ [v]))) =
    Ret (FullNode (ds @ [v]) \<lparr>fl_hash = h, fl_dirty = False\<rparr>)"
proof -
  have go': "go_slice (concat (map disk_enc ds) @ disk_enc v)" using go by simp
  have loop: "decodeFull_loop dec 16 0 (concat (map disk_enc ds) @ disk_enc v) = Ret (ds, disk_enc v)"
    using decodeFull_loop_disk[of ds dec "disk_enc v" 0] ref go' ds by simp
  define b where "b = (case v of ValueNode b \<Rightarrow> b | _ \<Rightarrow> [])"
  have b: "disk_enc v = rlp_string b" "v = (if b \<noteq> [] then ValueNode b else NilNode)"
    using v by (auto simp: b_def)
  have "SplitString (disk_enc v) = Ret (b, [])"
    using go_slice_append2[OF go'] b(1) by (simp add: SplitString_eq_Ret)
  then show ?thesis using loop b(2) by (simp add: decodeFull_def)
qed

lemma decodeRef_list:
  assumes go: "go_slice (rlp_list c @ rest)" and "length (rlp_list c) \<le> hashLen"
    and "dec (rlp_list c @ rest) = Ret n"
  shows "decodeRef dec (rlp_list c @ rest) = Ret (n, rest)"
proof -
  have "Split (rlp_list c @ rest) = Ret (List_Kind, c, rest)" using go by (simp add: Split_eq_Ret)
  then show ?thesis using assms by (simp add: decodeRef_def)
qed

lemma decodeRef_string:
  assumes "go_slice (rlp_string b @ rest)" "length b = 0 \<or> length b = 32"
  shows "decodeRef dec (rlp_string b @ rest) = Ret (if b = [] then NilNode else HashNode b, rest)"
proof -
  have "Split (rlp_string b @ rest) = Ret (String_Kind, b, rest)"
    using assms by (auto simp: Split_eq_Ret rlp_string_def)
  then show ?thesis using assms(2) by (auto simp: decodeRef_def)
qed

lemma decode_disk:
  "disk_node h n \<Longrightarrow> go_slice (disk_enc n @ rest) \<Longrightarrow> decodeNode h (disk_enc n @ rest) = Ret n"
  "disk_ref n \<Longrightarrow> go_slice (disk_enc n @ rest) \<Longrightarrow> decodeRef (decodeNode None) (disk_enc n @ rest) = Ret (n, rest)"
proof (induction n arbitrary: h rest)
  case (ShortNode k c fl)
  have node: "decodeNode h (disk_enc (ShortNode k c fl) @ rest) = Ret (ShortNode k c fl)"
    if d: "disk_node h (ShortNode k c fl)" and go: "go_slice (disk_enc (ShortNode k c fl) @ rest)" for h rest
  proof -
    let ?e = "rlp_string (compact k) @ disk_enc c"
    have ge: "go_slice ?e" using go length_rlp_list_ge[of ?e] by (simp add: go_slice_def)
    have kc: "hex_key k" "hasTerm k \<Longrightarrow> \<exists>v. c = ValueNode v" "\<not> hasTerm k \<Longrightarrow> disk_ref c"
      using d by (simp_all split: if_splits)
    have "decodeRef (decodeNode None) (disk_enc c) = Ret (c, [])" if "\<not> hasTerm k"
      using ShortNode.IH(2)[OF kc(3)[OF that], of "[]"] go_slice_append2[OF ge] by simp
    then have "decodeShort (decodeNode None) h ?e = Ret (ShortNode k c \<lparr>fl_hash = h, fl_dirty = False\<rparr>)"
      by (intro decodeShort_disk[OF ge kc(1,2)])
    moreover have "decodeNode h (rlp_list ?e @ rest) =
        map_fail (\<lambda>e. wrapError e Ctx_short) (decodeShort (decodeNode None) h ?e)"
      using decode_elems[of "[ValueNode (compact k), c]" rest h] go by simp
    moreover have "fl = \<lparr>fl_hash = h, fl_dirty = False\<rparr>" using d by simp
    ultimately show ?thesis by simp
  qed
  {
    case 1
    then show ?case by (rule node)
  next
    case 2
    then show ?case using node[of None rest]
      by (auto simp: embeddable_def intro: decodeRef_list)
  }
next
  case (FullNode cs fl)
  have node: "decodeNode h (disk_enc (FullNode cs fl) @ rest) = Ret (FullNode cs fl)"
    if d: "disk_node h (FullNode cs fl)" and go: "go_slice (disk_enc (FullNode cs fl) @ rest)" for h rest
  proof -
    obtain ds v where ds: "cs = ds @ [v]" "length ds = 16" "v = NilNode \<or> (\<exists>b. v = ValueNode b \<and> b \<noteq> [])"
      and refs: "\<And>x. x \<in> set ds \<Longrightarrow> disk_ref x" using d by auto
    have ge: "go_slice (concat (map disk_enc (ds @ [v])))"
      using go length_rlp_list_ge[of "concat (map disk_enc cs)"] ds(1) by (simp add: go_slice_def)
    have "decodeFull (decodeNode None) h (concat (map disk_enc cs)) =
        Ret (FullNode cs \<lparr>fl_hash = h, fl_dirty = False\<rparr>)"
      unfolding ds(1) using refs FullNode.IH(2) ds(1)
      by (intro decodeFull_disk[OF ge ds(2,3)]) auto
    moreover have "decodeNode h (rlp_list (concat (map disk_enc cs)) @ rest) =
        map_fail (\<lambda>e. wrapError e Ctx_full) (decodeFull (decodeNode None) h (concat (map disk_enc cs)))"
      using decode_elems[of cs rest h] go ds by simp
    moreover have "fl = \<lparr>fl_hash = h, fl_dirty = False\<rparr>" using d by simp
    ultimately show ?thesis by simp
  qed
  {
    case 1
    then show ?case by (rule node)
  next
    case 2
    then show ?case using node[of None rest]
      by (auto simp: embeddable_def intro: decodeRef_list)
  }
next
  case (HashNode x)
  {
    case 1
    then show ?case by simp
  next
    case 2
    then show ?case using decodeRef_string[of x rest] by auto
  }
next
  case NilNode
  {
    case 1
    then show ?case by simp
  next
    case 2
    then show ?case using decodeRef_string[of "[]" rest] by auto
  }
qed simp_all

text \<open>
  The decoder's own test lets through one size more than the disk format has: an embedded node of exactly 32 bytes, which no
  hasher writes, is decoded.
\<close>

lemma decodeRef_accepts_hash_size:
  "\<exists>n. length (disk_enc n) = hashLen \<and> decodeRef (decodeNode None) (disk_enc n) = Ret (n, [])"
proof -
  let ?n = "ShortNode [1, 16] (ValueNode (replicate 29 7)) \<lparr>fl_hash = None, fl_dirty = False\<rparr>"
  have l: "length (disk_enc ?n) = hashLen" by code_simp
  have "disk_node None ?n" by (auto simp: hex_key_def hasTerm_def intro!: exI[of _ "[1]"])
  then have "decodeNode None (disk_enc ?n @ []) = Ret ?n"
    by (rule decode_disk(1)) (use l in \<open>simp add: go_slice_def hashLen_def del: disk_enc_simps\<close>)
  then have "decodeRef (decodeNode None) (disk_enc ?n) = Ret (?n, [])"
    using decodeRef_list[of "rlp_string (compact [1, 16]) @ disk_enc (ValueNode (replicate 29 7))" "[]" "decodeNode None" ?n] l
    by (simp add: go_slice_def hashLen_def)
  then show ?thesis using l by blast
qed

text \<open>The nodes as the hasher hands them to the encoder: keys converted by \<open>hexToCompact\<close>.\<close>

fun compact_keys :: "node \<Rightarrow> node" where
  "compact_keys (ShortNode k c fl) = ShortNode (compact k) (compact_keys c) fl"
| "compact_keys (FullNode cs fl) = FullNode (map compact_keys cs) fl"
| "compact_keys n = n"

lemma node_val_compact_keys: "node_val (compact_keys n) = disk_val n"
  by (induction n) simp_all

lemma disk_no_empty_full:
  "disk_node h n \<Longrightarrow> no_empty_full (compact_keys n)" "disk_ref n \<Longrightarrow> no_empty_full (compact_keys n)"
proof (induction n arbitrary: h)
  case (ShortNode k c fl)
  {
    case 1
    then show ?case using ShortNode.IH by (auto split: if_splits)
  next
    case 2
    then show ?case using ShortNode.IH by (auto split: if_splits)
  }
next
  case (FullNode cs fl)
  have "no_empty_full (compact_keys d)" if "d \<in> set cs" "disk_ref d \<or> (\<exists>b. d = ValueNode b)" for d
    using FullNode.IH(2)[OF that(1)] that(2) by auto
  note ch = this
  {
    case 1
    then show ?case using ch by auto
  next
    case 2
    then show ?case using ch by auto
  }
qed simp_all

section \<open>Absence of panics\<close>

lemma keybytesToHex_length: "length (keybytesToHex b) = 2 * length b + 1"
  by (induction b) (simp_all add: keybytesToHex_def)

lemma compactToHex_no_panic: "\<exists>k. compactToHex c = (Ret k :: ('e, bytes) outcome)"
proof (cases c)
  case Nil
  then show ?thesis by (simp add: compactToHex_def)
next
  case (Cons x xs)
  have "unat (2 - (y AND 1) :: byte) \<le> 2" for y :: byte
  proof -
    have "y AND 1 = 0 \<or> y AND 1 = 1" by (simp add: and_one_eq mod_2_eq_odd)
    then show ?thesis by auto
  qed
  moreover have "\<exists>r. slice_from b (unat (2 - (y AND 1))) = (Ret r :: ('e, bytes) outcome)"
    if "2 \<le> length b" "unat (2 - (y AND 1)) \<le> 2" for b and y :: byte
    using that slice_from_Ret[of _ b] by (meson order_trans)
  ultimately show ?thesis
    using Cons keybytesToHex_length[of c] by (simp add: compactToHex_def Let_def)
qed

lemma map_fail_eq_Panic: "map_fail f m = Panic \<longleftrightarrow> m = Panic"
  by (cases m) (simp_all add: map_fail_def)

lemma decodeRef_no_panic: "go_slice b \<Longrightarrow> dec b \<noteq> Panic \<Longrightarrow> decodeRef dec b \<noteq> Panic"
  by (auto simp: decodeRef_def bind_outcome_eq_Panic map_fail_eq_Panic Split_no_panic Let_def)

lemma decodeShort_no_panic:
  assumes "go_slice elems" "\<And>b. length b \<le> length elems \<Longrightarrow> go_slice b \<Longrightarrow> dec b \<noteq> Panic"
  shows "decodeShort dec h elems \<noteq> Panic"
proof
  have comp: "compactToHex c \<noteq> (Panic :: (trie_error, bytes) outcome)" for c
    using compactToHex_no_panic[of c, where 'e = trie_error] by auto
  assume "decodeShort dec h elems = Panic"
  then obtain kbuf rest key where s: "SplitString elems = Ret (kbuf, rest)"
    and p: "SplitString rest = Panic \<or> decodeRef dec rest = Panic"
    using SplitString_no_panic[OF assms(1)] comp
    by (auto simp: decodeShort_def bind_outcome_eq_Panic map_fail_eq_Panic map_fail_eq_Ret Let_def
        split: if_splits)
  have "go_slice rest" "length rest \<le> length elems" using SplitString_rest[OF assms(1) s] by auto
  then show False using p SplitString_no_panic decodeRef_no_panic assms(2) by metis
qed

lemma decodeFull_loop_no_panic:
  assumes "go_slice elems" "\<And>b. length b \<le> length elems \<Longrightarrow> go_slice b \<Longrightarrow> dec b \<noteq> Panic"
  shows "decodeFull_loop dec m i elems \<noteq> Panic \<and>
    (\<forall>cs r. decodeFull_loop dec m i elems = Ret (cs, r) \<longrightarrow> go_slice r)"
  using assms
proof (induction m arbitrary: i elems)
  case (Suc m)
  have r: "decodeRef dec elems \<noteq> Panic" using Suc.prems by (intro decodeRef_no_panic) auto
  have "decodeFull_loop dec m j rest \<noteq> Panic \<and> (\<forall>cs r. decodeFull_loop dec m j rest = Ret (cs, r) \<longrightarrow> go_slice r)"
    if "decodeRef dec elems = Ret (n, rest)" for n rest j
    using decodeRef_rest[OF Suc.prems(1) that] by (intro Suc.IH Suc.prems(2)) auto
  with r show ?case
    by (auto simp: bind_outcome_eq_Panic bind_outcome_eq_Ret map_fail_eq_Panic map_fail_eq_Ret)
qed simp

lemma decodeNode_no_panic_lemma: "go_slice b \<Longrightarrow> decodeNode_fuel m h b \<noteq> Panic"
proof (induction m arbitrary: h b)
  case (Suc m)
  show ?case
  proof (cases "SplitList b")
    case (Ret x)
    then obtain elems r where s: "SplitList b = Ret (elems, r)" by (cases x) auto
    then have e: "go_slice elems" using SplitList_content[OF Suc.prems] by blast
    have sh: "decodeShort (decodeNode_fuel m None) h elems \<noteq> Panic"
      using Suc.IH by (intro decodeShort_no_panic e)
    have "decodeFull (decodeNode_fuel m None) h elems \<noteq> Panic"
      using decodeFull_loop_no_panic[OF e, of "decodeNode_fuel m None" 16 0] Suc.IH SplitString_no_panic
      by (auto simp: decodeFull_def bind_outcome_eq_Panic map_fail_eq_Panic)
    with sh s show ?thesis
      using CountValues_no_panic[OF e] by (auto simp: bind_outcome_eq_Panic map_fail_eq_Panic)
  next
    case Panic
    then show ?thesis using SplitList_no_panic[OF Suc.prems] by simp
  qed (simp add: map_fail_def)
qed simp

section \<open>Properties\<close>

text \<open>C18. Disk round trip of trie nodes: for every node of the disk format (hash, absent or embedded
  children, keys in HEX form) the encoder writes its compact form, and \<open>decodeNode\<close> gives the node back
  with the hash it was loaded under.\<close>

theorem node_disk_roundtrip:
  "disk_node h n \<Longrightarrow> length (disk_enc n) < 2 ^ 63 \<Longrightarrow>
     nodeToBytes (compact_keys n) = Ret (disk_enc n) \<and> decodeNode h (disk_enc n) = Ret n"
  using nodeToBytes_rlp[of "compact_keys n"] disk_no_empty_full(1)[of h n] decode_disk(1)[of h n "[]"]
  by (simp add: node_val_compact_keys disk_enc_def go_slice_def)

theorem node_disk_roundtrip_witness:
  "let n = ShortNode [1, 2, 16] (ValueNode [7]) \<lparr>fl_hash = None, fl_dirty = False\<rparr> in
   disk_node None n \<and> decodeNode None [0xC4, 0x82, 0x20, 0x12, 0x07] = Ret n"
proof -
  let ?n = "ShortNode [1, 2, 16] (ValueNode [7]) \<lparr>fl_hash = None, fl_dirty = False\<rparr>"
  have d: "disk_node None ?n"
    by (auto simp: hex_key_def hasTerm_def intro!: exI[of _ "[1, 2]"])
  have e: "disk_enc ?n = [0xC4, 0x82, 0x20, 0x12, 0x07]" by code_simp
  show ?thesis using node_disk_roundtrip[OF d] d unfolding e Let_def by (auto simp del: disk_node.simps)
qed

text \<open>C19. No blob makes the node decoder panic: on every input it returns a node or an error. A returned node has, at every
  level, the shape the trie relies on: it carries the given hash (embedded nodes none) and is not dirty, a short node holds
  a value exactly when its key ends in the terminator, a full node has 16 references and a value or nothing in the 17th
  place, and every hash has 32 bytes.\<close>

theorem decodeNode_safe:
  "go_slice b \<Longrightarrow> decodeNode h b \<noteq> Panic \<and> (\<forall>n. decodeNode h b = Ret n \<longrightarrow> decoded h n)"
  using decodeNode_no_panic_lemma[of b] decodeNode_decoded[of _ h b] unfolding decodeNode_def by blast

theorem decodeNode_safe_witness:
  "go_slice [0xC1, 0x81] \<and> decodeNode None [0xC1, 0x81] \<noteq> Panic \<and>
   (\<exists>n. decodeNode None [0xC4, 0x82, 0x20, 0x12, 0x07] = Ret n \<and> decoded None n)"
proof -
  let ?n = "ShortNode [1, 2, 16] (ValueNode [7]) \<lparr>fl_hash = None, fl_dirty = False\<rparr>"
  have "disk_node None ?n" by (auto simp: hex_key_def hasTerm_def intro!: exI[of _ "[1, 2]"])
  moreover have e: "disk_enc ?n = [0xC4, 0x82, 0x20, 0x12, 0x07]" by code_simp
  ultimately have "decodeNode None [0xC4, 0x82, 0x20, 0x12, 0x07] = Ret ?n"
    using decode_disk(1)[of None ?n "[]"] unfolding e by (simp add: go_slice_def del: disk_node.simps)
  then show ?thesis
    using decodeNode_safe[of "[0xC1, 0x81]" None] decodeNode_safe[of "[0xC4, 0x82, 0x20, 0x12, 0x07]" None]
    by (simp add: go_slice_def)
qed

end
