(* ===== verification/Trie_Ops.thy ===== *)
theory Trie_Ops
  imports Trie_Node
begin

text \<open>
  The trie: \<^verbatim>\<open>trie/trie.go\<close> with its change tracer (\<^verbatim>\<open>trie/tracer.go\<close>) and node reader
  (\<^verbatim>\<open>trie/trie_reader.go\<close>). The backing store is a parameter (the \<open>Reader\<close> interface of the
  trie database); the operations thread the tracer through and return errors and panics as values.
\<close>

section \<open>The tracer\<close>

record tracer =
  tr_inserts :: "bytes set"
  tr_deletes :: "bytes set"
  tr_accessList :: "bytes \<rightharpoonup> bytes"

definition newTracer :: tracer where
  "newTracer = \<lparr>tr_inserts = {}, tr_deletes = {}, tr_accessList = Map.empty\<rparr>"

definition onRead :: "bytes \<Rightarrow> bytes \<Rightarrow> tracer \<Rightarrow> tracer" where
  "onRead path val t = t\<lparr>tr_accessList := (tr_accessList t)(path \<mapsto> val)\<rparr>"

definition onInsert :: "bytes \<Rightarrow> tracer \<Rightarrow> tracer" where
  "onInsert path t =
     (if path \<in> tr_deletes t then t\<lparr>tr_deletes := tr_deletes t - {path}\<rparr>
      else t\<lparr>tr_inserts := insert path (tr_inserts t)\<rparr>)"

definition onDelete :: "bytes \<Rightarrow> tracer \<Rightarrow> tracer" where
  "onDelete path t =
     (if path \<in> tr_inserts t then t\<lparr>tr_inserts := tr_inserts t - {path}\<rparr>
      else t\<lparr>tr_deletes := insert path (tr_deletes t)\<rparr>)"

definition tracer_reset :: "tracer \<Rightarrow> tracer" where
  "tracer_reset t = t\<lparr>tr_inserts := {}, tr_deletes := {}, tr_accessList := Map.empty\<rparr>"

text \<open>
  \<open>markDeletions\<close> adds a deletion marker with the node's previous blob for every deleted path that was
  read from the store; the node set is the map of those markers.
\<close>

definition markDeletions :: "tracer \<Rightarrow> (bytes \<rightharpoonup> bytes) \<Rightarrow> (bytes \<rightharpoonup> bytes)" where
  "markDeletions t nodeset =
     (\<lambda>path. if path \<in> tr_deletes t \<and> tr_accessList t path \<noteq> None then tr_accessList t path
             else nodeset path)"

section \<open>The reader\<close>

text \<open>
  \<open>common.BytesToHash\<close>: the last 32 bytes, right-aligned; \<open>hash_bytes\<close> is \<open>h[:]\<close>.
\<close>

definition BytesToHash :: "bytes \<Rightarrow> hash" where
  "BytesToHash b = word_of_nat (be_nat b)"

definition hash_bytes :: "hash \<Rightarrow> bytes" where
  "hash_bytes h = map (\<lambda>i. ucast (drop_bit (8 * (31 - i)) h)) [0..<32]"

lemma be_nat_digits:
  "be_nat (map (\<lambda>i. word_of_nat (n div 256 ^ (m - 1 - i))) [0..<m]) = n mod 256 ^ m"
proof (induction m arbitrary: n)
  case (Suc m)
  have "map (\<lambda>i. word_of_nat (n div 256 ^ (Suc m - 1 - i))) [0..<Suc m] =
      map (\<lambda>i. word_of_nat (n div 256 div 256 ^ (m - 1 - i))) [0..<m] @ [word_of_nat n :: byte]"
  proof -
    have "n div 256 ^ (Suc m - 1 - i) = n div 256 div 256 ^ (m - 1 - i)" if "i < m" for i
    proof -
      have "Suc m - 1 - i = Suc (m - 1 - i)" using that by simp
      then show ?thesis by (simp add: div_mult2_eq)
    qed
    then show ?thesis by simp
  qed
  then have "be_nat (map (\<lambda>i. word_of_nat (n div 256 ^ (Suc m - 1 - i))) [0..<Suc m]) =
      (n div 256) mod 256 ^ m * 256 + n mod 256"
    using Suc.IH[of "n div 256"] by (simp only: be_nat_snoc) (simp add: unat_of_nat)
  also have "\<dots> = n mod 256 ^ Suc m"
    using mod_mult2_eq[of n 256 "256 ^ m"] by (simp add: mult.commute)
  finally show ?case .
qed simp

lemma BytesToHash_hash_bytes: "BytesToHash (hash_bytes h) = h"
proof -
  have "(ucast (drop_bit (8 * k) h) :: byte) = word_of_nat (unat h div 256 ^ k)" for k
  proof -
    have "(ucast (drop_bit (8 * k) h) :: byte) = word_of_nat (unat (drop_bit (8 * k) h))" by simp
    then show ?thesis by (simp only: unat_drop_bit_div power_mult) simp
  qed
  then have "hash_bytes h = map (\<lambda>i. word_of_nat (unat h div 256 ^ (32 - 1 - i))) [0..<32]"
    by (simp add: hash_bytes_def)
  then have "be_nat (hash_bytes h) = unat h mod 256 ^ 32" using be_nat_digits[of "unat h" 32] by metis
  moreover have "unat h < 256 ^ 32" using unsigned_less[of h, where 'a = nat] by simp
  ultimately show ?thesis by (simp add: BytesToHash_def)
qed

lemma be_nat_inj:
  assumes "length xs = length ys" "be_nat xs = be_nat ys"
  shows "xs = ys"
  using assms
proof (induction xs arbitrary: ys rule: rev_induct)
  case (snoc x xs)
  then obtain zs y where ys: "ys = zs @ [y]" "length zs = length xs"
    by (metis append_butlast_last_id length_append_singleton length_butlast diff_Suc_1 length_0_conv nat.distinct(1))
  have e: "be_nat xs * 256 + unat x = be_nat zs * 256 + unat y" using snoc.prems ys by simp
  have "be_nat xs = (be_nat xs * 256 + unat x) div 256" "be_nat zs = (be_nat zs * 256 + unat y) div 256"
    using byte_less_256[of x] byte_less_256[of y] by simp_all
  then have "be_nat xs = be_nat zs" using e by simp
  then show ?case using snoc.IH[of zs] ys e by (simp add: word_unat_eq_iff)
qed simp

lemma hash_bytes_BytesToHash:
  assumes "length b = 32"
  shows "hash_bytes (BytesToHash b) = b"
proof (rule be_nat_inj)
  show "length (hash_bytes (BytesToHash b)) = length b" using assms by (simp add: hash_bytes_def)
  have small: "be_nat c < 2 ^ 256" if "length c = 32" for c using be_nat_less[of c] that by simp
  have "unat (BytesToHash c) = be_nat c" if "length c = 32" for c
    unfolding BytesToHash_def using small[OF that] by (simp add: unat_of_nat)
  then show "be_nat (hash_bytes (BytesToHash b)) = be_nat b"
    using BytesToHash_hash_bytes[of "BytesToHash b"] assms by (metis hash_bytes_def length_map length_upt minus_nat.diff_0)
qed

text \<open>
  A node store answers \<open>Node(owner, path, hash)\<close> with a blob, or with an error (\<open>None\<close>). \<open>rd_reader\<close> is
  \<open>None\<close> for the pure in-memory reader.
\<close>

type_synonym node_store = "hash \<Rightarrow> bytes \<Rightarrow> hash \<Rightarrow> bytes option"

record trieReader =
  rd_owner :: hash
  rd_reader :: "node_store option"
  rd_banned :: "bytes set"

definition newTrieReader :: "hash \<Rightarrow> hash \<Rightarrow> (hash \<Rightarrow> node_store option) \<Rightarrow> (trie_error, trieReader) outcome" where
  "newTrieReader stateRoot owner db =
     (case db stateRoot of
        None \<Rightarrow> Fail (State_Not_Found stateRoot)
      | Some reader \<Rightarrow> Ret \<lparr>rd_owner = owner, rd_reader = Some reader, rd_banned = {}\<rparr>)"

definition newEmptyReader :: trieReader where
  "newEmptyReader = \<lparr>rd_owner = 0, rd_reader = None, rd_banned = {}\<rparr>"

definition reader_node :: "trieReader \<Rightarrow> bytes \<Rightarrow> hash \<Rightarrow> (trie_error, bytes) outcome" where
  "reader_node r path h =
     (if path \<in> rd_banned r then Fail (MissingNodeError (rd_owner r) h path)
      else case rd_reader r of
        None \<Rightarrow> Fail (MissingNodeError (rd_owner r) h path)
      | Some reader \<Rightarrow>
          (case reader (rd_owner r) path h of
             None \<Rightarrow> Fail (MissingNodeError (rd_owner r) h path)
           | Some blob \<Rightarrow> if length blob = 0 then Fail (MissingNodeError (rd_owner r) h path) else Ret blob))"

section \<open>The trie\<close>

record Trie =
  t_root :: node
  t_owner :: hash
  t_unhashed :: int
  t_reader :: trieReader
  t_tracer :: tracer

definition newFlag :: nodeFlag where
  "newFlag = \<lparr>fl_hash = None, fl_dirty = True\<rparr>"

type_synonym 'a tm = "(tracer, trie_error, 'a) stm"

definition resolveAndTrack :: "trieReader \<Rightarrow> bytes \<Rightarrow> bytes \<Rightarrow> node tm" where
  "resolveAndTrack rd n prefix =
     bind_st (lift_st (reader_node rd prefix (BytesToHash n))) (\<lambda>blob.
     bind_st (modify_st (onRead prefix blob)) (\<lambda>_.
       lift_st (mustDecodeNode (Some n) blob)))"

definition resolve :: "trieReader \<Rightarrow> node \<Rightarrow> bytes \<Rightarrow> node tm" where
  "resolve rd n prefix = (case n of HashNode h \<Rightarrow> resolveAndTrack rd h prefix | _ \<Rightarrow> ret_st n)"

text \<open>
  The recursive operations. A store may hold a short node with an empty key whose child refers back to
  it, so the recursion of \<open>get\<close>, \<open>insert\<close> and \<open>delete\<close> need not end; the fuel is the number of nested
  calls, and running out of it is reported as \<open>Out_Of_Fuel\<close>. The operations below start with
  \<open>key_fuel\<close>, which is enough for every trie in canonical form.
\<close>

definition key_fuel :: "bytes \<Rightarrow> nat" where
  "key_fuel k = 2 * length k + 2"

fun trie_get :: "nat \<Rightarrow> trieReader \<Rightarrow> node \<Rightarrow> bytes \<Rightarrow> nat \<Rightarrow> (bytes option \<times> node \<times> bool) tm" where
  "trie_get 0 rd n key pos = fail_st Out_Of_Fuel"
| "trie_get (Suc fuel) rd NilNode key pos = ret_st (None, NilNode, False)"
| "trie_get (Suc fuel) rd (ValueNode v) key pos = ret_st (Some v, ValueNode v, False)"
| "trie_get (Suc fuel) rd (ShortNode k c fl) key pos =
     (if length key - pos < length k \<or> k \<noteq> take (length k) (drop pos key)
      then ret_st (None, ShortNode k c fl, False)
      else bind_st (trie_get fuel rd c key (pos + length k)) (\<lambda>(value, newnode, didResolve).
        ret_st (value, if didResolve then ShortNode k newnode fl else ShortNode k c fl, didResolve)))"
| "trie_get (Suc fuel) rd (FullNode cs fl) key pos =
     bind_st (lift_st (index key pos)) (\<lambda>x.
     bind_st (lift_st (index cs (unat x))) (\<lambda>c.
     bind_st (trie_get fuel rd c key (pos + 1)) (\<lambda>(value, newnode, didResolve).
       ret_st (value, if didResolve then FullNode (cs[unat x := newnode]) fl else FullNode cs fl, didResolve))))"
| "trie_get (Suc fuel) rd (HashNode h) key pos =
     bind_st (lift_st (slice key 0 pos)) (\<lambda>path.
     bind_st (resolveAndTrack rd h path) (\<lambda>child.
     bind_st (trie_get fuel rd child key pos) (\<lambda>(value, newnode, _). ret_st (value, newnode, True))))"

fun trie_insert :: "nat \<Rightarrow> trieReader \<Rightarrow> node \<Rightarrow> bytes \<Rightarrow> bytes \<Rightarrow> node \<Rightarrow> (bool \<times> node) tm" where
  "trie_insert 0 rd n prefix key value = fail_st Out_Of_Fuel"
| "trie_insert (Suc fuel) rd n prefix [] value =
     (case n of
        ValueNode v \<Rightarrow> (case value of ValueNode w \<Rightarrow> ret_st (v \<noteq> w, value) | _ \<Rightarrow> panic_st)
      | _ \<Rightarrow> ret_st (True, value))"
| "trie_insert (Suc fuel) rd (ShortNode sk c fl) prefix (x # r) value =
     (let key = x # r; matchlen = prefixLen key sk in
      if matchlen = length sk then
        bind_st (trie_insert fuel rd c (prefix @ take matchlen key) (drop matchlen key) value) (\<lambda>(dirty, nn).
          if \<not> dirty then ret_st (False, ShortNode sk c fl) else ret_st (True, ShortNode sk nn newFlag))
      else
        bind_st (lift_st (index sk matchlen)) (\<lambda>y.
        bind_st (trie_insert fuel rd NilNode (prefix @ take (matchlen + 1) sk) (drop (matchlen + 1) sk) c) (\<lambda>(_, c1).
        bind_st (lift_st (index key matchlen)) (\<lambda>z.
        bind_st (trie_insert fuel rd NilNode (prefix @ take (matchlen + 1) key) (drop (matchlen + 1) key) value) (\<lambda>(_, c2).
          if 17 \<le> unat y \<or> 17 \<le> unat z then panic_st
          else let branch = FullNode ((replicate 17 NilNode)[unat y := c1, unat z := c2]) newFlag in
            if matchlen = 0 then ret_st (True, branch)
            else bind_st (modify_st (onInsert (prefix @ take matchlen key))) (\<lambda>_.
              ret_st (True, ShortNode (take matchlen key) branch newFlag)))))))"
| "trie_insert (Suc fuel) rd (FullNode cs fl) prefix (x # r) value =
     bind_st (lift_st (index cs (unat x))) (\<lambda>c.
     bind_st (trie_insert fuel rd c (prefix @ [x]) r value) (\<lambda>(dirty, nn).
       if \<not> dirty then ret_st (False, FullNode cs fl)
       else ret_st (True, FullNode (cs[unat x := nn]) newFlag)))"
| "trie_insert (Suc fuel) rd NilNode prefix (x # r) value =
     bind_st (modify_st (onInsert prefix)) (\<lambda>_. ret_st (True, ShortNode (x # r) value newFlag))"
| "trie_insert (Suc fuel) rd (HashNode h) prefix (x # r) value =
     bind_st (resolveAndTrack rd h prefix) (\<lambda>rn.
     bind_st (trie_insert fuel rd rn prefix (x # r) value) (\<lambda>(dirty, nn).
       if \<not> dirty then ret_st (False, rn) else ret_st (True, nn)))"
| "trie_insert (Suc fuel) rd (ValueNode v) prefix (x # r) value = panic_st"

text \<open>The search for the single remaining child: -1 when there is none, -2 when there are several.\<close>

fun pos_loop :: "nat \<Rightarrow> node list \<Rightarrow> int \<Rightarrow> int" where
  "pos_loop i [] pos = pos"
| "pos_loop i (cld # cs) pos =
     (if cld \<noteq> NilNode then (if pos = -1 then pos_loop (i + 1) cs (int i) else -2)
      else pos_loop (i + 1) cs pos)"

definition trie_reduce :: "trieReader \<Rightarrow> bytes \<Rightarrow> node list \<Rightarrow> (bool \<times> node) tm" where
  "trie_reduce rd prefix cs =
     (let pos = pos_loop 0 cs (-1) in
      if pos \<ge> 0 then
        let p = nat pos; single = ret_st (True, ShortNode [word_of_nat p] (cs ! p) newFlag) in
        if p \<noteq> 16 then
          bind_st (resolve rd (cs ! p) (prefix @ [word_of_nat p])) (\<lambda>cnode.
            case cnode of
              ShortNode k c fl \<Rightarrow>
                bind_st (modify_st (onDelete (prefix @ [word_of_nat p]))) (\<lambda>_.
                  ret_st (True, ShortNode (word_of_nat p # k) c newFlag))
            | _ \<Rightarrow> single)
        else single
      else ret_st (True, FullNode cs newFlag))"

fun trie_delete :: "nat \<Rightarrow> trieReader \<Rightarrow> node \<Rightarrow> bytes \<Rightarrow> bytes \<Rightarrow> (bool \<times> node) tm" where
  "trie_delete 0 rd n prefix key = fail_st Out_Of_Fuel"
| "trie_delete (Suc fuel) rd (ShortNode sk c fl) prefix key =
     (let matchlen = prefixLen key sk in
      if matchlen < length sk then ret_st (False, ShortNode sk c fl)
      else if matchlen = length key then
        bind_st (modify_st (onDelete prefix)) (\<lambda>_. ret_st (True, NilNode))
      else
        bind_st (trie_delete fuel rd c (prefix @ take (length sk) key) (drop (length sk) key)) (\<lambda>(dirty, child).
          if \<not> dirty then ret_st (False, ShortNode sk c fl)
          else case child of
                 ShortNode k2 c2 fl2 \<Rightarrow>
                   bind_st (modify_st (onDelete (prefix @ sk))) (\<lambda>_.
                     ret_st (True, ShortNode (sk @ k2) c2 newFlag))
               | _ \<Rightarrow> ret_st (True, ShortNode sk child newFlag)))"
| "trie_delete (Suc fuel) rd (FullNode cs fl) prefix key =
     bind_st (lift_st (index key 0)) (\<lambda>x.
     bind_st (lift_st (index cs (unat x))) (\<lambda>c.
     bind_st (trie_delete fuel rd c (prefix @ [x]) (drop 1 key)) (\<lambda>(dirty, nn).
       if \<not> dirty then ret_st (False, FullNode cs fl)
       else let cs' = cs[unat x := nn] in
         if nn \<noteq> NilNode then ret_st (True, FullNode cs' newFlag)
         else trie_reduce rd prefix cs')))"
| "trie_delete (Suc fuel) rd (ValueNode v) prefix key = ret_st (True, NilNode)"
| "trie_delete (Suc fuel) rd NilNode prefix key = ret_st (False, NilNode)"
| "trie_delete (Suc fuel) rd (HashNode h) prefix key =
     bind_st (resolveAndTrack rd h prefix) (\<lambda>rn.
     bind_st (trie_delete fuel rd rn prefix key) (\<lambda>(dirty, nn).
       if \<not> dirty then ret_st (False, rn) else ret_st (True, nn)))"

text \<open>The exported operations: each returns its result and the trie it leaves behind.\<close>

definition Trie_Get :: "bytes \<Rightarrow> (Trie, trie_error, bytes option) stm" where
  "Trie_Get key t =
     (let k = keybytesToHex key in
      case trie_get (key_fuel k) (t_reader t) (t_root t) k 0 (t_tracer t) of
        (Ret (value, newroot, didResolve), tr) \<Rightarrow>
          (Ret value, t\<lparr>t_tracer := tr, t_root := if didResolve then newroot else t_root t\<rparr>)
      | (Fail e, tr) \<Rightarrow> (Fail e, t\<lparr>t_tracer := tr\<rparr>)
      | (Panic, tr) \<Rightarrow> (Panic, t\<lparr>t_tracer := tr\<rparr>))"

definition set_root :: "(trie_error, bool \<times> node) outcome \<times> tracer \<Rightarrow> Trie \<Rightarrow> (trie_error, unit) outcome \<times> Trie" where
  "set_root res t =
     (case res of
        (Ret (_, n), tr) \<Rightarrow> (Ret (), t\<lparr>t_tracer := tr, t_root := n\<rparr>)
      | (Fail e, tr) \<Rightarrow> (Fail e, t\<lparr>t_tracer := tr\<rparr>)
      | (Panic, tr) \<Rightarrow> (Panic, t\<lparr>t_tracer := tr\<rparr>))"

definition Trie_Update :: "bytes \<Rightarrow> bytes \<Rightarrow> (Trie, trie_error, unit) stm" where
  "Trie_Update key value t0 =
     (let t = t0\<lparr>t_unhashed := t_unhashed t0 + 1\<rparr>; k = keybytesToHex key in
      if length value \<noteq> 0
      then set_root (trie_insert (key_fuel k) (t_reader t) (t_root t) [] k (ValueNode value) (t_tracer t)) t
      else set_root (trie_delete (key_fuel k) (t_reader t) (t_root t) [] k (t_tracer t)) t)"

definition Trie_Delete :: "bytes \<Rightarrow> (Trie, trie_error, unit) stm" where
  "Trie_Delete key t0 =
     (let t = t0\<lparr>t_unhashed := t_unhashed t0 + 1\<rparr>; k = keybytesToHex key in
      set_root (trie_delete (key_fuel k) (t_reader t) (t_root t) [] k (t_tracer t)) t)"

text \<open>
  \<open>New\<close>: the root hash of the empty trie is a constant of \<^verbatim>\<open>core/types\<close>.
\<close>

record trie_ID =
  id_StateRoot :: hash
  id_Owner :: hash
  id_Root :: hash

definition EmptyRootHash :: hash where
  "EmptyRootHash = 0x56e81f171bcc55a6ff8345e692c0f86e5b48e01b996cadc001622fb5e363b421"

definition Trie_New :: "trie_ID \<Rightarrow> (hash \<Rightarrow> node_store option) \<Rightarrow> (trie_error, Trie) outcome" where
  "Trie_New tid db =
     bind_outcome (newTrieReader (id_StateRoot tid) (id_Owner tid) db) (\<lambda>reader.
       let trie = \<lparr>t_root = NilNode, t_owner = id_Owner tid, t_unhashed = 0, t_reader = reader,
                   t_tracer = newTracer\<rparr> in
       if id_Root tid \<noteq> 0 \<and> id_Root tid \<noteq> EmptyRootHash then
         (case resolveAndTrack reader (hash_bytes (id_Root tid)) [] newTracer of
            (Ret rootnode, tr) \<Rightarrow> Ret (trie\<lparr>t_root := rootnode, t_tracer := tr\<rparr>)
          | (Fail e, _) \<Rightarrow> Fail e
          | (Panic, _) \<Rightarrow> Panic)
       else Ret trie)"

definition Trie_Reset :: "Trie \<Rightarrow> Trie" where
  "Trie_Reset t = t\<lparr>t_root := NilNode, t_owner := 0, t_unhashed := 0, t_tracer := tracer_reset (t_tracer t)\<rparr>"

end
