(* ===== verification/Trie_Sim.thy ===== *)
theory Trie_Sim
  imports Trie_Ops Trie_Spec
begin

text \<open>
  The trie operations of theory \<open>Trie_Ops\<close> implement the tree operations of theory \<open>Trie_Spec\<close>: a node
  stands for the tree obtained by loading every hash reference from the store, and \<open>get\<close>, \<open>insert\<close> and
  \<open>delete\<close> simulate \<open>tget\<close>, \<open>tinsert\<close> and \<open>tdelete\<close>. The tracer is shown to hold exactly the difference
  between the paths of the nodes before and after.
\<close>

section \<open>The tree a node stands for\<close>

text \<open>
  A node at path \<open>p\<close> stands for a tree; the hashes cached in its nodes satisfy \<open>V\<close>, a predicate on the
  path, the hash and the tree below (instantiated with the correctness of the hash in theory
  \<open>Trie_Hasher\<close>). A hash reference stands for the node its blob in the store decodes to.
\<close>

type_synonym hash_ok = "bytes \<Rightarrow> bytes \<Rightarrow> tree \<Rightarrow> bool"

definition flag_ok :: "hash_ok \<Rightarrow> bytes \<Rightarrow> nodeFlag \<Rightarrow> tree \<Rightarrow> bool" where
  "flag_ok V p fl t \<longleftrightarrow> (\<forall>h. fl_hash fl = Some h \<longrightarrow> V p h t)"

lemma flag_ok_newFlag [simp]: "flag_ok V p newFlag t"
  by (simp add: flag_ok_def newFlag_def)

inductive expands :: "hash_ok \<Rightarrow> trieReader \<Rightarrow> bytes \<Rightarrow> node \<Rightarrow> tree \<Rightarrow> bool" for V rd where
  ex_nil: "expands V rd p NilNode TNil"
| ex_value: "expands V rd p (ValueNode v) (TVal v)"
| ex_short: "expands V rd (p @ k) c t \<Longrightarrow> flag_ok V p fl (TShort k t) \<Longrightarrow>
     expands V rd p (ShortNode k c fl) (TShort k t)"
| ex_full: "length ts = length cs \<Longrightarrow>
     (\<And>i. i < length cs \<Longrightarrow> expands V rd (p @ [word_of_nat i]) (cs ! i) (ts ! i)) \<Longrightarrow>
     flag_ok V p fl (TFull ts) \<Longrightarrow> expands V rd p (FullNode cs fl) (TFull ts)"
| ex_hash: "reader_node rd p (BytesToHash h) = Ret blob \<Longrightarrow> mustDecodeNode (Some h) blob = Ret n \<Longrightarrow>
     expands V rd p n t \<Longrightarrow> expands V rd p (HashNode h) t"

inductive_simps expands_simps [simp]:
  "expands V rd p NilNode t"
  "expands V rd p (ValueNode v) t"
  "expands V rd p (ShortNode k c fl) t"
  "expands V rd p (FullNode cs fl) t"

inductive_cases expands_hashE: "expands V rd p (HashNode h) t"

lemma mustDecode_shape: "mustDecodeNode h b = Ret n \<Longrightarrow>
    (\<exists>k c fl. n = ShortNode k c fl) \<or> (\<exists>cs fl. n = FullNode cs fl)"
  using decodeNode_shape[of h b n]
  by (cases n) (auto simp: mustDecodeNode_def split: outcome.splits)

lemma expands_nil_iff: "expands V rd p n t \<Longrightarrow> n = NilNode \<longleftrightarrow> t = TNil"
  by (induction rule: expands.induct) (auto dest: mustDecode_shape)

fun is_hash :: "node \<Rightarrow> bool" where
  "is_hash (HashNode h) = True"
| "is_hash n = False"

lemma resolveAndTrack_expands:
  assumes "expands V rd p (HashNode h) t"
  shows "\<exists>blob n. (\<forall>tr. resolveAndTrack rd h p tr = (Ret n, onRead p blob tr)) \<and> expands V rd p n t \<and> \<not> is_hash n"
proof (rule expands_hashE[OF assms])
  fix blob n
  assume 1: "reader_node rd p (BytesToHash h) = Ret blob" "mustDecodeNode (Some h) blob = Ret n" "expands V rd p n t"
  then have "resolveAndTrack rd h p tr = (Ret n, onRead p blob tr)" for tr
    by (simp add: resolveAndTrack_def)
  moreover have "\<not> is_hash n" using mustDecode_shape[OF 1(2)] by auto
  ultimately show ?thesis using 1 by blast
qed

section \<open>Paths and the tracer\<close>

text \<open>The paths of the short and full nodes of a tree rooted at \<open>p\<close>.\<close>

function tpaths :: "bytes \<Rightarrow> tree \<Rightarrow> bytes set" where
  "tpaths p TNil = {}"
| "tpaths p (TVal v) = {}"
| "tpaths p (TShort k c) = insert p (tpaths (p @ k) c)"
| "tpaths p (TFull cs) = insert p (\<Union>(i, c) \<in> set (enumerate 0 cs). tpaths (p @ [word_of_nat i]) c)"
  by pat_completeness auto
termination
proof (relation "measure (\<lambda>(p, t). size t)", goal_cases)
  case (3 p cs x i c)
  then have "c \<in> set cs" by (auto simp: in_set_enumerate_eq)
  then have "size c < Suc (size_list size cs)"
    by (intro le_imp_less_Suc size_list_estimation'[OF _ order_refl])
  then show ?case by simp
qed simp_all

lemma tpaths_full:
  "tpaths p (TFull cs) = insert p (\<Union>i < length cs. tpaths (p @ [word_of_nat i]) (cs ! i))"
proof -
  have "set (enumerate 0 cs) = (\<lambda>i. (i, cs ! i)) ` {..<length cs}"
    by (auto simp: in_set_enumerate_eq image_iff)
  then show ?thesis by simp
qed

declare tpaths.simps(4) [simp del]

lemma tpaths_prefix: "q \<in> tpaths p t \<Longrightarrow> \<exists>r. q = p @ r"
proof (induction t arbitrary: p)
  case (TShort k c)
  then show ?case by fastforce
next
  case (TFull cs)
  then consider "q = p" | i where "i < length cs" "q \<in> tpaths (p @ [word_of_nat i]) (cs ! i)"
    by (auto simp: tpaths_full)
  then show ?case
  proof cases
    case 2
    with TFull.IH[of "cs ! i"] show ?thesis by fastforce
  qed simp
qed simp_all

text \<open>
  The tracer of a trie whose nodes were at the paths \<open>o\<close> when it was opened and are at \<open>c\<close> now: the
  inserted paths are the new ones, the deleted paths those that are gone.
\<close>

definition tracks :: "bytes set \<Rightarrow> bytes set \<Rightarrow> tracer \<Rightarrow> bool" where
  "tracks old cur tr \<longleftrightarrow> tr_inserts tr = cur - old \<and> tr_deletes tr = old - cur"

lemma tracks_onInsert: "q \<notin> cur \<Longrightarrow> tracks old cur tr \<Longrightarrow> tracks old (insert q cur) (onInsert q tr)"
  by (auto simp: tracks_def onInsert_def)

lemma tracks_onDelete: "q \<in> cur \<Longrightarrow> tracks old cur tr \<Longrightarrow> tracks old (cur - {q}) (onDelete q tr)"
  by (auto simp: tracks_def onDelete_def)

lemma tracks_onRead [simp]: "tracks old cur (onRead q b tr) \<longleftrightarrow> tracks old cur tr"
  by (simp add: tracks_def onRead_def)

text \<open>
  What a change of the tree at path \<open>p\<close> from \<open>t\<close> to \<open>t'\<close> does to the tracer, whatever the nodes
  elsewhere (\<open>S\<close>).
\<close>

definition eff :: "bytes \<Rightarrow> tree \<Rightarrow> tree \<Rightarrow> tracer \<Rightarrow> tracer \<Rightarrow> bool" where
  "eff p t t' tr tr' \<longleftrightarrow>
     (\<forall>old S. (\<forall>r. p @ r \<notin> S) \<longrightarrow> tracks old (S \<union> tpaths p t) tr \<longrightarrow> tracks old (S \<union> tpaths p t') tr')"

lemma effD: "eff p t t' tr tr' \<Longrightarrow> (\<And>r. p @ r \<notin> S) \<Longrightarrow> tracks old (S \<union> tpaths p t) tr \<Longrightarrow>
    tracks old (S \<union> tpaths p t') tr'"
  by (simp add: eff_def)

lemma eff_refl: "eff p t t tr tr"
  by (simp add: eff_def)

lemma eff_trans: "eff p t t' tr tr' \<Longrightarrow> eff p t' t'' tr' tr'' \<Longrightarrow> eff p t t'' tr tr''"
  by (simp add: eff_def)

lemma eff_onRead: "eff p t t' (onRead q b tr) tr' \<longleftrightarrow> eff p t t' tr tr'"
  by (simp add: eff_def)

lemma eff_short:
  assumes "k \<noteq> []" "eff (p @ k) c c' tr tr'"
  shows "eff p (TShort k c) (TShort k c') tr tr'"
  unfolding eff_def
proof (intro allI impI)
  fix old S
  assume S: "\<forall>r. p @ r \<notin> S" and t: "tracks old (S \<union> tpaths p (TShort k c)) tr"
  have "(p @ k) @ r \<notin> insert p S" for r using S assms(1) by auto
  then have "tracks old (insert p S \<union> tpaths (p @ k) c') tr'"
    using t by (intro effD[OF assms(2)]) simp_all
  then show "tracks old (S \<union> tpaths p (TShort k c')) tr'" by simp
qed

lemma eff_full:
  assumes len: "length cs \<le> 17" and i: "i < length cs"
    and eff: "eff (p @ [word_of_nat i]) (cs ! i) c' tr tr'"
  shows "eff p (TFull cs) (TFull (cs[i := c'])) tr tr'"
  unfolding eff_def
proof (intro allI impI)
  fix old S
  assume S: "\<forall>r. p @ r \<notin> S" and t: "tracks old (S \<union> tpaths p (TFull cs)) tr"
  let ?T = "insert p (S \<union> (\<Union>j \<in> {..<length cs} - {i}. tpaths (p @ [word_of_nat j]) (cs ! j)))"
  have inj: "(word_of_nat j :: byte) = word_of_nat i \<longleftrightarrow> j = i" if "j < length cs" for j
    using that i len by (simp add: word_unat_eq_iff unat_of_nat)
  have nin: "(p @ [word_of_nat i]) @ r \<notin> ?T" for r
  proof
    assume "(p @ [word_of_nat i]) @ r \<in> ?T"
    then obtain j where j: "j < length cs" "j \<noteq> i" "p @ word_of_nat i # r \<in> tpaths (p @ [word_of_nat j]) (cs ! j)"
      using S by auto
    with tpaths_prefix[OF j(3)] inj[OF j(1)] show False by auto
  qed
  have un: "{..<length cs} = insert i ({..<length cs} - {i})" using i by auto
  have "S \<union> tpaths p (TFull cs) = ?T \<union> tpaths (p @ [word_of_nat i]) (cs ! i)"
    unfolding tpaths_full by (subst un) auto
  with t have "tracks old (?T \<union> tpaths (p @ [word_of_nat i]) (cs ! i)) tr" by metis
  with nin have "tracks old (?T \<union> tpaths (p @ [word_of_nat i]) c') tr'" by (rule effD[OF eff])
  moreover have "S \<union> tpaths p (TFull (cs[i := c'])) = ?T \<union> tpaths (p @ [word_of_nat i]) c'"
    unfolding tpaths_full length_list_update by (subst un) (auto simp: i nth_list_update split: if_splits)
  ultimately show "tracks old (S \<union> tpaths p (TFull (cs[i := c']))) tr'" by simp
qed

section \<open>Lookup\<close>

lemma get_sim:
  assumes "expands V rd pre n t" "canon0 e t" "kok e k" "2 * length k + (if is_hash n then 1 else 0) < fuel"
  shows "\<exists>n' res tr'. trie_get fuel rd n (pre @ k) (length pre) tr = (Ret (tget t k, n', res), tr') \<and>
    expands V rd pre n' t \<and> tr_inserts tr' = tr_inserts tr \<and> tr_deletes tr' = tr_deletes tr"
  using assms
proof (induction fuel arbitrary: n pre k e t tr)
  case 0
  then show ?case by simp
next
  case (Suc fuel)
  show ?case
  proof (cases n)
    case NilNode
    then show ?thesis using Suc.prems by auto
  next
    case (ValueNode v)
    then show ?thesis using Suc.prems by auto
  next
    case n: (ShortNode sk c fl)
    with Suc.prems obtain c' where t: "t = TShort sk c'" and ex: "expands V rd (pre @ sk) c c'"
      and fl: "flag_ok V pre fl (TShort sk c')" by auto
    have cs: "canon False (TShort sk c')" and k: "vkey k"
      using canon0_shortD[of e sk c'] Suc.prems(2,3) t by (auto simp del: canon.simps)
    have kne: "sk \<noteq> []" using cs by auto
    from cs k show ?thesis
    proof (cases rule: short_cases)
      case (through k')
      have "canon0 (vkey sk) c'" using cs by (auto simp: canon0_def split: if_splits)
      moreover have "2 * length k' + (if is_hash c then 1 else 0) < fuel"
        using Suc.prems(4) through(1) kne by (cases sk) auto
      ultimately obtain n' res tr' where IH:
        "trie_get fuel rd c ((pre @ sk) @ k') (length (pre @ sk)) tr = (Ret (tget c' k', n', res), tr')"
        "expands V rd (pre @ sk) n' c'" "tr_inserts tr' = tr_inserts tr" "tr_deletes tr' = tr_deletes tr"
        using Suc.IH[OF ex _ through(3)] by blast
      then show ?thesis using n t ex fl through(1) by simp
    next
      case (branch p x kr y sr)
      then have "take (length sk) k \<noteq> sk" by auto
      then show ?thesis using n t ex fl by auto
    qed
  next
    case n: (FullNode cs fl)
    with Suc.prems obtain ts where t: "t = TFull ts" "length ts = length cs" and fl: "flag_ok V pre fl (TFull ts)"
      and ex: "\<And>i. i < length cs \<Longrightarrow> expands V rd (pre @ [word_of_nat i]) (cs ! i) (ts ! i)" by auto
    have ct: "canon False (TFull ts)" and k: "vkey k"
      using canon0_fullD[of e ts] Suc.prems(2,3) t by (auto simp del: canon.simps)
    then have len: "length ts = 17" and ch: "\<And>i. i < 17 \<Longrightarrow> canon0 (i = 16) (ts ! i)"
      by (auto simp: canon_full)
    from k obtain x r where xr: "k = x # r" "unat x < 17" "kok (x = 16) r" by (cases k) (auto simp: vkey_Cons)
    have x16: "unat x = 16 \<longleftrightarrow> x = 16" by (simp add: word_unat_eq_iff)
    have "expands V rd (pre @ [x]) (cs ! unat x) (ts ! unat x)" using ex[of "unat x"] xr len t by simp
    moreover have "2 * length r + (if is_hash (cs ! unat x) then 1 else 0) < fuel"
      using Suc.prems(4) xr by auto
    ultimately obtain n' res tr' where IH:
      "trie_get fuel rd (cs ! unat x) ((pre @ [x]) @ r) (length (pre @ [x])) tr = (Ret (tget (ts ! unat x) r, n', res), tr')"
      "expands V rd (pre @ [x]) n' (ts ! unat x)" "tr_inserts tr' = tr_inserts tr" "tr_deletes tr' = tr_deletes tr"
      using Suc.IH[of "pre @ [x]" "cs ! unat x" "ts ! unat x" "x = 16" r tr] ch[of "unat x"] x16 xr by auto
    have "expands V rd (pre @ [word_of_nat i]) (cs[unat x := n'] ! i) (ts ! i)" if "i < length cs" for i
      using ex[OF that] IH(2) that by (cases "i = unat x") auto
    then show ?thesis using n t xr len ex fl IH by (simp add: index_def)
  next
    case n: (HashNode h)
    with Suc.prems(1) have "expands V rd pre (HashNode h) t" by simp
    then obtain blob rn where res: "\<And>tr. resolveAndTrack rd h pre tr = (Ret rn, onRead pre blob tr)"
      "expands V rd pre rn t" "\<not> is_hash rn" using resolveAndTrack_expands by blast
    have "2 * length k + (if is_hash rn then 1 else 0) < fuel" using Suc.prems(4) n res(3) by simp
    from Suc.IH[OF res(2) Suc.prems(2,3) this, of "onRead pre blob tr"] obtain n' r tr' where
      "trie_get fuel rd rn (pre @ k) (length pre) (onRead pre blob tr) = (Ret (tget t k, n', r), tr')"
      "expands V rd pre n' t" "tr_inserts tr' = tr_inserts tr" "tr_deletes tr' = tr_deletes tr"
      by (auto simp: onRead_def)
    then show ?thesis using n by (auto simp: slice_Ret res(1))
  qed
qed

section \<open>Insertion\<close>

text \<open>Inserting below a nil node hangs the value there.\<close>

definition nput :: "bytes \<Rightarrow> node \<Rightarrow> node" where
  "nput k v = (if k = [] then v else ShortNode k v newFlag)"

definition traceIns :: "bytes \<Rightarrow> bytes \<Rightarrow> tracer \<Rightarrow> tracer" where
  "traceIns k p tr = (if k = [] then tr else onInsert p tr)"

lemma tracks_traceIns:
  "(k \<noteq> [] \<Longrightarrow> q \<notin> cur) \<Longrightarrow> tracks old cur tr \<Longrightarrow>
     tracks old ((if k = [] then {} else {q}) \<union> cur) (traceIns k q tr)"
  by (simp add: traceIns_def tracks_onInsert)

lemma insert_nil:
  "0 < fuel \<Longrightarrow> trie_insert fuel rd NilNode p k v tr =
     (Ret (True, nput k v), traceIns k p tr)"
  by (cases fuel; cases k) (simp_all add: nput_def traceIns_def)

lemma expands_nput: "expands V rd (p @ k) n c \<Longrightarrow> expands V rd p (nput k n) (tput k c)"
  by (cases k) (simp_all add: nput_def tput_def)

lemma tpaths_tput: "tpaths p (tput k c) = (if k = [] then {} else {p}) \<union> tpaths (p @ k) c"
  by (simp add: tput_def)

lemma tpaths_fork:
  assumes "unat y < 17" "unat x < 17" "x \<noteq> y"
  shows "tpaths p (TFull (fork y c x v)) = insert p (tpaths (p @ [y]) c \<union> tpaths (p @ [x]) v)"
proof -
  have ne: "unat x \<noteq> unat y" using assms(3) by (simp add: word_unat_eq_iff)
  have "tpaths (p @ [word_of_nat i]) (fork y c x v ! i) =
      (if i = unat x then tpaths (p @ [x]) v else if i = unat y then tpaths (p @ [y]) c else {})"
    if "i < 17" for i
    using that assms ne by (auto simp: fork_def nth_list_update)
  then have "(\<Union>i < 17. tpaths (p @ [word_of_nat i]) (fork y c x v ! i)) =
      (\<Union>i < 17. if i = unat x then tpaths (p @ [x]) v else if i = unat y then tpaths (p @ [y]) c else {})"
    by (intro SUP_cong) auto
  also have "\<dots> = tpaths (p @ [y]) c \<union> tpaths (p @ [x]) v"
    using assms ne by (auto split: if_splits)
  finally show ?thesis by (simp add: tpaths_full fork_def)
qed

text \<open>The branch that splits a short node: the tracer sees each new node once.\<close>

lemma eff_branch:
  assumes "unat y < 17" "unat x < 17" "x \<noteq> y"
  shows "eff q (TShort (p @ y # sr) c) (tput p (TFull (fork y (tput sr c) x (tput kr (TVal v))))) tr
    (traceIns p (q @ p) (traceIns kr (q @ p @ [x]) (traceIns sr (q @ p @ [y]) tr)))"
  unfolding eff_def
proof (intro allI impI)
  let ?t = "TShort (p @ y # sr) c" and ?t' = "tput p (TFull (fork y (tput sr c) x (tput kr (TVal v))))"
  fix old S
  assume S: "\<forall>r. q @ r \<notin> S" and t: "tracks old (S \<union> tpaths q ?t) tr"
  let ?C = "insert q (S \<union> tpaths (q @ p @ y # sr) c)"
  let ?A = "if sr = [] then {} else {q @ p @ [y]}" and ?B = "if kr = [] then {} else {q @ p @ [x]}"
  have C: "S \<union> tpaths q ?t = ?C" by simp
  have nin: "q @ p @ [z] \<notin> ?C" if "z \<noteq> y \<or> sr \<noteq> []" for z
    using S that tpaths_prefix[of "q @ p @ [z]" "q @ p @ y # sr" c] by auto
  have "tracks old (?A \<union> ?C) (traceIns sr (q @ p @ [y]) tr)"
    using t nin[of y] unfolding C by (intro tracks_traceIns) auto
  then have "tracks old (?B \<union> (?A \<union> ?C)) (traceIns kr (q @ p @ [x]) (traceIns sr (q @ p @ [y]) tr))"
    using nin[of x] assms(3) by (rule_tac tracks_traceIns) (auto split: if_splits)
  moreover have "q @ p \<notin> ?B \<union> (?A \<union> ?C)" if "p \<noteq> []"
    using S that tpaths_prefix[of "q @ p" "q @ p @ y # sr" c] by auto
  ultimately have "tracks old ((if p = [] then {} else {q @ p}) \<union> (?B \<union> (?A \<union> ?C)))
      (traceIns p (q @ p) (traceIns kr (q @ p @ [x]) (traceIns sr (q @ p @ [y]) tr)))"
    by (rule_tac tracks_traceIns) auto
  moreover have "S \<union> tpaths q ?t' = (if p = [] then {} else {q @ p}) \<union> (?B \<union> (?A \<union> ?C))"
    by (auto simp: tpaths_tput tpaths_fork[OF assms])
  ultimately show "tracks old (S \<union> tpaths q ?t')
      (traceIns p (q @ p) (traceIns kr (q @ p @ [x]) (traceIns sr (q @ p @ [y]) tr)))" by simp
qed

lemma expands_fork:
  assumes "unat y < 17" "unat x < 17" "x \<noteq> y" "expands V rd (p @ [y]) c1 t1" "expands V rd (p @ [x]) c2 t2"
  shows "expands V rd p (FullNode ((replicate 17 NilNode)[unat y := c1, unat x := c2]) newFlag) (TFull (fork y t1 x t2))"
proof -
  have ne: "unat x \<noteq> unat y" using assms(3) by (simp add: word_unat_eq_iff)
  have "expands V rd (p @ [word_of_nat i]) ((replicate 17 NilNode)[unat y := c1, unat x := c2] ! i) (fork y t1 x t2 ! i)"
    if "i < 17" for i
    using assms that ne by (auto simp: fork_def nth_list_update)
  then show ?thesis by (simp add: fork_def)
qed

lemma expands_full_upd:
  assumes "expands V rd p (FullNode cs fl) (TFull ts)" "expands V rd (p @ [word_of_nat i]) n t"
  shows "expands V rd p (FullNode (cs[i := n]) newFlag) (TFull (ts[i := t]))"
proof -
  have len: "length ts = length cs" using assms(1) by simp
  have "expands V rd (p @ [word_of_nat j]) (cs[i := n] ! j) (ts[i := t] ! j)" if "j < length cs" for j
    using assms that len by (cases "j = i") auto
  then show ?thesis using len by simp
qed

text \<open>An insertion that changes nothing leaves the tree as it was.\<close>

lemma tinsert_same:
  assumes "canon0 e t" "kok e k" "tget t k = Some v" "v \<noteq> []"
  shows "tinsert t k (TVal v) = t"
proof (rule canon_unique[of e])
  show "canon0 e (tinsert t k (TVal v))" using tinsert_canon_lemma[OF assms(1,2,4)] by (simp add: canon0_def)
  show "tget (tinsert t k (TVal v)) k' = tget t k'" if "kok e k'" for k'
    using tget_tinsert_lemma[OF assms(1,2) that] assms(3) by simp
qed (rule assms(1))

lemma insert_sim:
  assumes "expands V rd p n t" "canon0 e t" "kok e k" "v \<noteq> []" "2 * length k + (if is_hash n then 1 else 0) < fuel"
  shows "\<exists>n' tr'. trie_insert fuel rd n p k (ValueNode v) tr = (Ret (tget t k \<noteq> Some v, n'), tr') \<and>
    expands V rd p n' (tinsert t k (TVal v)) \<and> eff p t (tinsert t k (TVal v)) tr tr'"
  using assms
proof (induction fuel arbitrary: n p k e t tr)
  case 0
  then show ?case by simp
next
  case (Suc fuel)
  show ?case
  proof (cases "k = []")
    case True
    with Suc.prems have "t = TNil \<or> (\<exists>w. t = TVal w)" by (cases e; cases t) (auto simp: canon0_def canon_full)
    with Suc.prems True show ?thesis
      using eff_refl by (cases n) (fastforce simp: eff_def dest: expands_nil_iff elim: expands_hashE dest: mustDecode_shape)+
  next
    case kne: False
    then have e: "\<not> e" and k: "vkey k" using Suc.prems(3) by (cases e; simp)+
    obtain x r where xr: "k = x # r" "unat x < 17" "kok (x = 16) r" using k by (cases k) (auto simp: vkey_Cons)
    show ?thesis
    proof (cases n)
      case NilNode
      have "eff p TNil (TShort k (TVal v)) tr (onInsert p tr)"
        unfolding eff_def by (auto intro!: tracks_onInsert) (metis append_Nil2)
      then show ?thesis using Suc.prems NilNode xr by simp
    next
      case (ValueNode w)
      then show ?thesis using Suc.prems e by (auto simp: canon0_def)
    next
      case n: (HashNode h)
      with Suc.prems(1) have "expands V rd p (HashNode h) t" by simp
      then obtain blob rn where res: "\<And>tr. resolveAndTrack rd h p tr = (Ret rn, onRead p blob tr)"
        "expands V rd p rn t" "\<not> is_hash rn" using resolveAndTrack_expands by blast
      have "2 * length k + (if is_hash rn then 1 else 0) < fuel" using Suc.prems(5) n res(3) by simp
      from Suc.IH[OF res(2) Suc.prems(2-4) this, of "onRead p blob tr"] obtain n' tr' where
        IH: "trie_insert fuel rd rn p k (ValueNode v) (onRead p blob tr) = (Ret (tget t k \<noteq> Some v, n'), tr')"
        "expands V rd p n' (tinsert t k (TVal v))" "eff p t (tinsert t k (TVal v)) tr tr'"
        by (auto simp: eff_onRead)
      have "expands V rd p rn (tinsert t k (TVal v))" if "tget t k = Some v"
        using tinsert_same[OF Suc.prems(2,3) that Suc.prems(4)] res(2) by simp
      with IH res(1) n xr show ?thesis by (cases "tget t k = Some v") auto
    next
      case n: (FullNode cs fl)
      with Suc.prems obtain ts where t: "t = TFull ts" "length ts = length cs"
        and ex: "\<And>i. i < length cs \<Longrightarrow> expands V rd (p @ [word_of_nat i]) (cs ! i) (ts ! i)" by auto
      have ct: "canon False (TFull ts)" using canon0_fullD[of e ts] Suc.prems(2) t by blast
      then have len: "length ts = 17" and ch: "\<And>i. i < 17 \<Longrightarrow> canon0 (i = 16) (ts ! i)"
        by (auto simp: canon_full)
      have x16: "unat x = 16 \<longleftrightarrow> x = 16" by (simp add: word_unat_eq_iff)
      have "expands V rd (p @ [x]) (cs ! unat x) (ts ! unat x)" using ex[of "unat x"] xr len t by simp
      moreover have "2 * length r + (if is_hash (cs ! unat x) then 1 else 0) < fuel"
        using Suc.prems(5) xr by auto
      ultimately obtain n' tr' where IH:
        "trie_insert fuel rd (cs ! unat x) (p @ [x]) r (ValueNode v) tr = (Ret (tget (ts ! unat x) r \<noteq> Some v, n'), tr')"
        "expands V rd (p @ [x]) n' (tinsert (ts ! unat x) r (TVal v))"
        "eff (p @ [x]) (ts ! unat x) (tinsert (ts ! unat x) r (TVal v)) tr tr'"
        using Suc.IH[of "p @ [x]" "cs ! unat x" "ts ! unat x" "x = 16" r tr] ch[of "unat x"] x16 xr Suc.prems(4)
        by auto
      have ins: "tinsert t k (TVal v) = TFull (ts[unat x := tinsert (ts ! unat x) r (TVal v)])"
        and get: "tget t k = tget (ts ! unat x) r" using t xr len by simp_all
      have "eff p t (tinsert t k (TVal v)) tr tr'"
        unfolding ins unfolding t(1) using IH(3) xr(2) len by (intro eff_full) simp_all
      moreover have "expands V rd p (FullNode (cs[unat x := n']) newFlag) (tinsert t k (TVal v))"
        unfolding ins using Suc.prems(1) IH(2) n t(1) by (intro expands_full_upd[where fl = fl]) simp_all
      moreover have "expands V rd p n (tinsert t k (TVal v))" if "tget t k = Some v"
        using tinsert_same[OF Suc.prems(2,3) that Suc.prems(4)] Suc.prems(1) by simp
      ultimately show ?thesis
        using n xr IH(1) t(2) len get by (cases "tget t k = Some v") (auto simp: index_def)
    next
      case n: (ShortNode sk c fl)
      with Suc.prems obtain c' where t: "t = TShort sk c'" and ex: "expands V rd (p @ sk) c c'" by auto
      have cs: "canon False (TShort sk c')" using canon0_shortD[of e sk c'] Suc.prems(2) t by blast
      have skne: "sk \<noteq> []" using cs by auto
      from cs k show ?thesis
      proof (cases rule: short_cases)
        case (through k')
        have "canon0 (vkey sk) c'" using cs by (auto simp: canon0_def split: if_splits)
        moreover have "2 * length k' + (if is_hash c then 1 else 0) < fuel"
          using Suc.prems(5) through(1) skne by (cases sk) auto
        ultimately obtain n' tr' where IH:
          "trie_insert fuel rd c (p @ sk) k' (ValueNode v) tr = (Ret (tget c' k' \<noteq> Some v, n'), tr')"
          "expands V rd (p @ sk) n' (tinsert c' k' (TVal v))" "eff (p @ sk) c' (tinsert c' k' (TVal v)) tr tr'"
          using Suc.IH[OF ex _ through(3) Suc.prems(4)] by blast
        have ins: "tinsert t k (TVal v) = TShort sk (tinsert c' k' (TVal v))"
          unfolding t by (rule tinsert_through[OF through(1) kne])
        have get: "tget t k = tget c' k'" using t through(1) by simp
        have m: "take (length sk) k = sk" "drop (length sk) k = k'" using through(1) by simp_all
        have same: "expands V rd p n (tinsert t k (TVal v))" if "tget t k = Some v"
          using tinsert_same[OF Suc.prems(2,3) that Suc.prems(4)] Suc.prems(1) by simp
        have run: "trie_insert (Suc fuel) rd n p k (ValueNode v) tr =
            (Ret (tget t k \<noteq> Some v, if tget t k = Some v then n else ShortNode sk n' newFlag), tr')"
          using IH(1) through(2) m unfolding n xr(1) get by (simp add: Let_def get[unfolded xr(1)])
        have "eff p t (tinsert t k (TVal v)) tr tr'"
          unfolding ins unfolding t using IH(3) by (rule eff_short[OF skne])
        with same IH(2) show ?thesis unfolding run by (cases "tget t k = Some v") (auto simp: ins)
      next
        case (branch q z kr y sr)
        have "canon False (TShort (y # sr) c')" using cs canon_TShort_suffix branch(2,4) by blast
        then have y: "unat y < 17" using canon_tput by blast
        have z: "unat z < 17" using branch(6) by (simp add: vkey_Cons)
        have f: "0 < fuel" using Suc.prems(5) xr by simp
        have ins: "tinsert t k (TVal v) = tput q (TFull (fork y (tput sr c') z (tput kr (TVal v))))"
          unfolding t by (rule tinsert_branch[OF branch(1-3,5)])
        have get: "tget t k = None" using t branch(1-3) by simp
        let ?b = "FullNode ((replicate 17 NilNode)[unat y := nput sr c, unat z := nput kr (ValueNode v)]) newFlag"
        have "expands V rd (p @ q) ?b (TFull (fork y (tput sr c') z (tput kr (TVal v))))"
          using ex branch(2) by (intro expands_fork[OF y z branch(3)] expands_nput) simp_all
        then have exb: "expands V rd p (nput q ?b) (tinsert t k (TVal v))"
          unfolding ins by (rule expands_nput)
        have idx: "sk ! length q = y" "k ! length q = z" "length q < length sk" "length q < length k"
          "take (length q + 1) sk = q @ [y]" "drop (length q + 1) sk = sr"
          "take (length q + 1) k = q @ [z]" "drop (length q + 1) k = kr" "take (length q) k = q"
          "length q \<noteq> length sk"
          using branch(1,2) by simp_all
        have "trie_insert (Suc fuel) rd n p k (ValueNode v) tr = (Ret (True, nput q ?b),
            traceIns q (p @ q) (traceIns kr (p @ q @ [z]) (traceIns sr (p @ q @ [y]) tr)))"
          using idx branch(5) y z unfolding n xr(1)
          by (simp add: Let_def index_def insert_nil[OF f] nput_def traceIns_def[of q])
        moreover have "eff p t (tinsert t k (TVal v)) tr
            (traceIns q (p @ q) (traceIns kr (p @ q @ [z]) (traceIns sr (p @ q @ [y]) tr)))"
          unfolding ins unfolding t branch(2) by (rule eff_branch[OF y z branch(3)])
        ultimately show ?thesis using exb get by auto
      qed
    qed
  qed
qed

section \<open>Deletion\<close>

lemma eff_paths: "tpaths p t = tpaths p t' \<Longrightarrow> eff p t t' tr tr"
  by (simp add: eff_def)

text \<open>Merging a short node into its parent removes its path, and the tracer records that.\<close>

lemma eff_merge:
  assumes "k \<noteq> []" "k2 \<noteq> []"
  shows "eff p (TShort k (TShort k2 c)) (TShort (k @ k2) c) tr (onDelete (p @ k) tr)"
  unfolding eff_def
proof (intro allI impI)
  fix old S
  assume S: "\<forall>r. p @ r \<notin> S" and t: "tracks old (S \<union> tpaths p (TShort k (TShort k2 c))) tr"
  let ?C = "S \<union> tpaths p (TShort k (TShort k2 c))"
  have "p @ k \<notin> tpaths (p @ k @ k2) c" using tpaths_prefix[of "p @ k" "p @ k @ k2" c] assms(2) by auto
  then have "?C - {p @ k} = S \<union> tpaths p (TShort (k @ k2) c)" using S assms(1) by auto
  with tracks_onDelete[OF _ t, of "p @ k"]
  show "tracks old (S \<union> tpaths p (TShort (k @ k2) c)) (onDelete (p @ k) tr)" by simp
qed

lemma eff_delete_leaf: "eff p (TShort k (TVal v)) TNil tr (onDelete p tr)"
  unfolding eff_def
proof (intro allI impI)
  fix old S
  assume S: "\<forall>r. p @ r \<notin> S" and t: "tracks old (S \<union> tpaths p (TShort k (TVal v))) tr"
  have "S \<union> tpaths p (TShort k (TVal v)) - {p} = S \<union> tpaths p TNil" using S[rule_format, of "[]"] by auto
  with tracks_onDelete[OF _ t, of p] show "tracks old (S \<union> tpaths p TNil) (onDelete p tr)" by simp
qed

lemma pos_loop_found: "0 \<le> pos \<Longrightarrow> pos_loop i cs pos = (if \<forall>c \<in> set cs. c = NilNode then pos else - 2)"
  by (induction cs arbitrary: i) auto

lemma pos_loop_one:
  "j < length cs \<Longrightarrow> cs ! j \<noteq> NilNode \<Longrightarrow> (\<And>l. l < length cs \<Longrightarrow> l \<noteq> j \<Longrightarrow> cs ! l = NilNode) \<Longrightarrow>
     pos_loop i cs (- 1) = int (i + j)"
proof (induction cs arbitrary: i j)
  case (Cons c cs)
  show ?case
  proof (cases j)
    case 0
    have "\<forall>d \<in> set cs. d = NilNode" using Cons.prems(3)[of "Suc _"] 0 by (auto simp: in_set_conv_nth)
    then show ?thesis using Cons.prems 0 by (simp add: pos_loop_found)
  next
    case (Suc j')
    then have "c = NilNode" using Cons.prems(3)[of 0] by simp
    moreover have "pos_loop (i + 1) cs (- 1) = int (i + 1 + j')"
      using Cons.prems Suc by (intro Cons.IH) force+
    ultimately show ?thesis using Suc by simp
  qed
qed simp

lemma pos_loop_two:
  "j < length cs \<Longrightarrow> l < length cs \<Longrightarrow> j < l \<Longrightarrow> cs ! j \<noteq> NilNode \<Longrightarrow> cs ! l \<noteq> NilNode \<Longrightarrow>
     pos_loop i cs (- 1) = - 2"
proof (induction cs arbitrary: i j l)
  case (Cons c cs)
  then obtain l' where l: "l = Suc l'" by (cases l) auto
  show ?case
  proof (cases "c = NilNode")
    case True
    then obtain j' where "j = Suc j'" using Cons.prems by (cases j) auto
    then show ?thesis using Cons.IH[of j' l' "i + 1"] Cons.prems l True by simp
  next
    case False
    have "cs ! l' \<in> set cs" "cs ! l' \<noteq> NilNode" using Cons.prems l by auto
    then show ?thesis using False by (auto simp: pos_loop_found)
  qed
qed simp

lemma resolve_expands:
  assumes "expands V rd p n t"
  shows "\<exists>cnode tr'. resolve rd n p tr = (Ret cnode, tr') \<and> expands V rd p cnode t \<and> \<not> is_hash cnode \<and>
    (tr' = tr \<or> (\<exists>b. tr' = onRead p b tr))"
proof (cases "is_hash n")
  case True
  then obtain h where n: "n = HashNode h" by (cases n) auto
  then show ?thesis using resolveAndTrack_expands[of V rd p h t] assms by (fastforce simp: resolve_def)
next
  case False
  then show ?thesis using assms by (cases n) (auto simp: resolve_def)
qed

lemma reduce_sim:
  assumes ex: "expands V rd p (FullNode cs fl) (TFull ts)" and len: "length ts = 17"
    and ch: "\<And>i. i < 17 \<Longrightarrow> canon0 (i = 16) (ts ! i)" and i: "i < 17" "ts ! i \<noteq> TNil"
  shows "\<exists>n' tr'. trie_reduce rd p cs tr = (Ret (True, n'), tr') \<and> expands V rd p n' (treduce ts) \<and>
    \<not> is_hash n' \<and> eff p (TFull ts) (treduce ts) tr tr'"
proof -
  have lc: "length cs = 17" and exi: "\<And>j. j < 17 \<Longrightarrow> expands V rd (p @ [word_of_nat j]) (cs ! j) (ts ! j)"
    using ex len by auto
  have nil: "cs ! j = NilNode \<longleftrightarrow> ts ! j = TNil" if "j < 17" for j
    using expands_nil_iff[OF exi[OF that]] .
  have "i < length ts" using i len by simp
  from this i(2) show ?thesis
  proof (cases rule: nonnil_cases)
    case (one pos)
    let ?w = "word_of_nat pos :: byte"
    have pl: "pos_loop 0 cs (- 1) = int pos"
      using pos_loop_one[of pos cs 0] one nil lc len by simp
    have "(\<Union>j < length ts. tpaths (p @ [word_of_nat j]) (ts ! j)) = tpaths (p @ [?w]) (ts ! pos)"
      using one(2,4) by (auto, metis empty_iff tpaths.simps(1))
    then have paths: "tpaths p (TFull ts) = insert p (tpaths (p @ [?w]) (ts ! pos))"
      by (simp add: tpaths_full)
    have single: "eff p (TFull ts) (TShort [?w] (ts ! pos)) tr tr" for tr
      by (rule eff_paths) (simp add: paths)
    have exs: "expands V rd p (ShortNode [?w] (cs ! pos) newFlag) (TShort [?w] (ts ! pos))"
      using exi[of pos] one(2) len by simp
    show ?thesis
    proof (cases "pos = 16")
      case True
      then have "treduce ts = TShort [?w] (ts ! pos)" using one(1) by (simp add: treduce_def)
      then show ?thesis using True pl exs single by (simp add: trie_reduce_def)
    next
      case False
      obtain cnode tr' where res: "resolve rd (cs ! pos) (p @ [?w]) tr = (Ret cnode, tr')"
        "expands V rd (p @ [?w]) cnode (ts ! pos)" "\<not> is_hash cnode" "tr' = tr \<or> (\<exists>b. tr' = onRead (p @ [?w]) b tr)"
        using resolve_expands[OF exi[of pos], of tr] one(2) len by auto
      have weaken: "eff p t t' tr' tr'' \<Longrightarrow> eff p t t' tr tr''" for t t' tr''
        using res(4) eff_onRead by auto
      have c: "canon False (ts ! pos)" using ch[of pos] one(2,3) len False by (simp add: canon0_def)
      show ?thesis
      proof (cases cnode)
        case n: (ShortNode k2 c2 fl2)
        with res(2) obtain c' where t: "ts ! pos = TShort k2 c'" "expands V rd (p @ [?w] @ k2) c2 c'" by auto
        have red: "treduce ts = TShort (?w # k2) c'" using one(1) False t by (simp add: treduce_def)
        have "k2 \<noteq> []" using c t(1) by auto
        then have "eff p (TShort [?w] (ts ! pos)) (treduce ts) tr' (onDelete (p @ [?w]) tr')"
          unfolding t(1) red using eff_merge[of "[?w]" k2 p c' tr'] by simp
        with single have "eff p (TFull ts) (treduce ts) tr (onDelete (p @ [?w]) tr')"
          using eff_trans weaken by blast
        then show ?thesis using False pl res(1) n red t(2) by (simp add: trie_reduce_def Let_def)
      next
        case n: (FullNode cs2 fl2)
        with res(2) obtain ts2 where "ts ! pos = TFull ts2" by auto
        then have red: "treduce ts = TShort [?w] (ts ! pos)" using one(1) False by (simp add: treduce_def)
        moreover have "eff p (TFull ts) (treduce ts) tr tr'" unfolding red using single weaken by blast
        ultimately show ?thesis using False pl res(1) n exs by (simp add: trie_reduce_def Let_def)
      qed (use res c in auto)
    qed
  next
    case (two a b)
    then have "pos_loop 0 cs (- 1) = - 2"
      using pos_loop_two[of a cs b 0] pos_loop_two[of b cs a 0] nil lc len by (cases "a < b") auto
    then show ?thesis using two(1) ex eff_refl by (simp add: trie_reduce_def)
  qed
qed

lemma tdelete_same:
  assumes "canon0 e t" "kok e k" "tget t k = None"
  shows "tdelete t k = t"
proof (rule canon_unique[of e])
  show "canon0 e (tdelete t k)" using tdelete_lemma[OF assms(1,2)] by blast
  show "tget (tdelete t k) k' = tget t k'" if "kok e k'" for k'
    using tdelete_lemma[OF assms(1,2)] that assms(3) by simp
qed (rule assms(1))

lemma delete_sim:
  assumes "expands V rd p n t" "canon0 e t" "kok e k" "2 * length k + (if is_hash n then 1 else 0) < fuel"
  shows "\<exists>n' tr'. trie_delete fuel rd n p k tr = (Ret (tget t k \<noteq> None, n'), tr') \<and>
    expands V rd p n' (tdelete t k) \<and> (tget t k \<noteq> None \<longrightarrow> \<not> is_hash n') \<and> eff p t (tdelete t k) tr tr'"
  using assms
proof (induction fuel arbitrary: n p k e t tr)
  case 0
  then show ?case by simp
next
  case (Suc fuel)
  have same: "expands V rd p n (tdelete t k)" if "tget t k = None"
    using tdelete_same[OF Suc.prems(2,3) that] Suc.prems(1) by simp
  show ?case
  proof (cases n)
    case NilNode
    then show ?thesis using Suc.prems eff_refl by auto
  next
    case (ValueNode v)
    have "eff p (TVal v) TNil tr tr" by (rule eff_paths) simp
    with ValueNode show ?thesis using Suc.prems by auto
  next
    case n: (HashNode h)
    with Suc.prems(1) have "expands V rd p (HashNode h) t" by simp
    then obtain blob rn where res: "\<And>tr. resolveAndTrack rd h p tr = (Ret rn, onRead p blob tr)"
      "expands V rd p rn t" "\<not> is_hash rn" using resolveAndTrack_expands by blast
    have "2 * length k + (if is_hash rn then 1 else 0) < fuel" using Suc.prems(4) n res(3) by simp
    from Suc.IH[OF res(2) Suc.prems(2,3) this, of "onRead p blob tr"] obtain n' tr' where
      IH: "trie_delete fuel rd rn p k (onRead p blob tr) = (Ret (tget t k \<noteq> None, n'), tr')"
      "expands V rd p n' (tdelete t k)" "tget t k \<noteq> None \<longrightarrow> \<not> is_hash n'" "eff p t (tdelete t k) tr tr'"
      by (auto simp: eff_onRead)
    have "expands V rd p rn (tdelete t k)" if "tget t k = None"
      using tdelete_same[OF Suc.prems(2,3) that] res(2) by simp
    with IH res(1) n show ?thesis by (cases "tget t k = None") auto
  next
    case n: (FullNode cs fl)
    with Suc.prems obtain ts where t: "t = TFull ts" "length ts = length cs"
      and ex: "\<And>i. i < length cs \<Longrightarrow> expands V rd (p @ [word_of_nat i]) (cs ! i) (ts ! i)" by auto
    have ct: "canon False (TFull ts)" and k: "vkey k"
      using canon0_fullD[of e ts] Suc.prems(2,3) t by (auto simp del: canon.simps)
    then have len: "length ts = 17" and ch: "\<And>i. i < 17 \<Longrightarrow> canon0 (i = 16) (ts ! i)"
      by (auto simp: canon_full)
    from k obtain x r where xr: "k = x # r" "unat x < 17" "kok (x = 16) r" by (cases k) (auto simp: vkey_Cons)
    have x16: "unat x = 16 \<longleftrightarrow> x = 16" by (simp add: word_unat_eq_iff)
    let ?c = "tdelete (ts ! unat x) r" and ?ts = "ts[unat x := tdelete (ts ! unat x) r]"
    have "expands V rd (p @ [x]) (cs ! unat x) (ts ! unat x)" using ex[of "unat x"] xr len t by simp
    moreover have "2 * length r + (if is_hash (cs ! unat x) then 1 else 0) < fuel"
      using Suc.prems(4) xr by auto
    ultimately obtain n' tr' where IH:
      "trie_delete fuel rd (cs ! unat x) (p @ [x]) r tr = (Ret (tget (ts ! unat x) r \<noteq> None, n'), tr')"
      "expands V rd (p @ [x]) n' ?c" "eff (p @ [x]) (ts ! unat x) ?c tr tr'"
      using Suc.IH[of "p @ [x]" "cs ! unat x" "ts ! unat x" "x = 16" r tr] ch[of "unat x"] x16 xr by auto
    have del: "tdelete t k = (if ?c \<noteq> TNil then TFull ?ts else treduce ?ts)"
      and get: "tget t k = tget (ts ! unat x) r" using t xr len by (simp_all add: Let_def)
    have eff1: "eff p t (TFull ?ts) tr tr'" unfolding t(1) using IH(3) xr(2) len by (intro eff_full) simp_all
    have ex1: "expands V rd p (FullNode (cs[unat x := n']) newFlag) (TFull ?ts)"
      using Suc.prems(1) IH(2) n t(1) by (intro expands_full_upd[where fl = fl]) simp_all
    have nil: "n' = NilNode \<longleftrightarrow> ?c = TNil" by (rule expands_nil_iff[OF IH(2)])
    show ?thesis
    proof (cases "tget t k = None")
      case True
      have "?c = ts ! unat x" using tdelete_same[of "x = 16" "ts ! unat x" r] ch[of "unat x"] x16 xr get True by simp
      then have "eff p t (tdelete t k) tr tr'"
        using eff1 t(1) tdelete_same[OF Suc.prems(2,3) True] by simp
      then show ?thesis using same[OF True] True IH(1) n xr t(2) len get by (simp add: index_def)
    next
      case found: False
      show ?thesis
      proof (cases "?c = TNil")
        case False
        then show ?thesis using found IH(1) n xr t(2) len get del nil ex1 eff1 by (simp add: index_def)
      next
        case True
        have ch': "canon0 (i = 16) (?ts ! i)" if "i < 17" for i
          using that ch True by (cases "i = unat x") (auto simp: canon0_def nth_list_update len)
        obtain i where i: "i < 17" "i \<noteq> unat x" "ts ! i \<noteq> TNil" using ct unfolding canon_full by metis
        then obtain n2 tr2 where red: "trie_reduce rd p (cs[unat x := n']) tr' = (Ret (True, n2), tr2)"
          "expands V rd p n2 (treduce ?ts)" "\<not> is_hash n2" "eff p (TFull ?ts) (treduce ?ts) tr' tr2"
          using reduce_sim[OF ex1 _ ch', of i tr'] len by auto
        have "eff p t (tdelete t k) tr tr2" unfolding del using True eff_trans[OF eff1 red(4)] by simp
        then show ?thesis using found True IH(1) n xr t(2) len get del nil red by (simp add: index_def)
      qed
    qed
  next
    case n: (ShortNode sk c fl)
    with Suc.prems obtain c' where t: "t = TShort sk c'" and ex: "expands V rd (p @ sk) c c'" by auto
    have cs: "canon False (TShort sk c')" and k: "vkey k"
      using canon0_shortD[of e sk c'] Suc.prems(2,3) t by (auto simp del: canon.simps)
    have skne: "sk \<noteq> []" using cs by auto
    from cs k show ?thesis
    proof (cases rule: short_cases)
      case (branch q z kr y sr)
      then have m: "prefixLen k sk < length sk" by simp
      have "tget t k = None" using t branch(1-3) by simp
      with same m n show ?thesis using tdelete_branch[OF m, of c'] eff_refl t by simp
    next
      case (through k')
      show ?thesis
      proof (cases "vkey sk")
        case True
        then have k': "k' = []" and c: "canon True c'" using through(3) cs by auto
        then obtain v where v: "c' = TVal v" by (cases c') (auto simp: canon_full)
        have "tdelete t k = TNil" "tget t k = Some v" using t through(1) k' v tdelete_through[of sk c' "[]"] by simp_all
        then show ?thesis using n t through(1,2) k' v eff_delete_leaf by simp
      next
        case False
        then have c: "is_full c'" "canon False c'" and k': "vkey k'" "k' \<noteq> []" using cs through(3) by auto
        have fuel': "2 * length k' + (if is_hash c then 1 else 0) < fuel"
          using Suc.prems(4) through(1) skne by (cases sk) auto
        have "canon0 False c'" "kok False k'" using c k' by (simp_all add: canon0_def)
        from Suc.IH[OF ex this fuel', of tr] obtain n' tr' where IH:
          "trie_delete fuel rd c (p @ sk) k' tr = (Ret (tget c' k' \<noteq> None, n'), tr')"
          "expands V rd (p @ sk) n' (tdelete c' k')" "tget c' k' \<noteq> None \<longrightarrow> \<not> is_hash n'"
          "eff (p @ sk) c' (tdelete c' k') tr tr'" by blast
        have get: "tget t k = tget c' k'" using t through(1) by simp
        have m: "take (length sk) k = sk" "drop (length sk) k = k'" "length sk \<noteq> length k"
          using through(1) k'(2) by simp_all
        have eff1: "eff p t (TShort sk (tdelete c' k')) tr tr'"
          unfolding t using IH(4) by (rule eff_short[OF skne])
        have del: "tdelete t k = (case tdelete c' k' of TShort k2 c2 \<Rightarrow> TShort (sk @ k2) c2 | c'' \<Rightarrow> TShort sk c'')"
          unfolding t through(1) tdelete_through using k'(2) by simp
        have cd: "canon False (tdelete c' k')"
          using tdelete_lemma[of False c' k'] c k' tdelete_full_not_TNil[OF c(1)] by (auto simp: canon0_def)
        have run: "trie_delete (Suc fuel) rd n p k tr =
          (if tget t k = None then (Ret (False, n), tr')
           else (case n' of ShortNode k2 c2 fl2 \<Rightarrow> (Ret (True, ShortNode (sk @ k2) c2 newFlag), onDelete (p @ sk) tr')
                 | _ \<Rightarrow> (Ret (True, ShortNode sk n' newFlag), tr')))"
          unfolding n get using IH(1) through(2) m by (auto simp: Let_def split: node.splits)
        show ?thesis
        proof (cases "tget t k = None")
          case True
          have "tdelete c' k' = c'" using tdelete_same[of False c' k'] c k' get True by (simp add: canon0_def)
          then have "eff p t (tdelete t k) tr tr'"
            using eff1 t tdelete_same[OF Suc.prems(2,3) True] by simp
          then show ?thesis unfolding run using True same[OF True] by simp
        next
          case found: False
          show ?thesis
          proof (cases n')
            case n': (ShortNode k2 c2 fl2)
            with IH(2) obtain c2' where d: "tdelete c' k' = TShort k2 c2'" "expands V rd (p @ sk @ k2) c2 c2'" by auto
            have "k2 \<noteq> []" using cd d(1) by auto
            then have "eff p t (tdelete t k) tr (onDelete (p @ sk) tr')"
              using eff_trans[OF eff1] eff_merge[OF skne] unfolding del d(1) by simp
            then show ?thesis unfolding run using found n' d del by simp
          next
            case n': (FullNode cs2 fl2)
            with IH(2) obtain ts2 where "tdelete c' k' = TFull ts2" by auto
            then have "tdelete t k = TShort sk (tdelete c' k')" using del by simp
            then show ?thesis unfolding run using found n' IH(2) eff1 by simp
          qed (use IH found get cd in auto)
        qed
      qed
    qed
  qed
qed

end
