(* ===== verification/Store_Interface.thy ===== *)
theory Store_Interface
  imports Prelude
begin

text \<open>
  The contract of a key-value store whose operations may fail: what a client of a trie (the state
  database, the transaction and receipt roots) relies on. The laws are the provider's; the lemmas on
  sequences of operations are proved once, from the laws.
\<close>

text \<open>A sequence of writes: a key and the value put there, or \<open>None\<close> for a deletion.\<close>

primrec run_ops :: "('k \<Rightarrow> 'v \<Rightarrow> ('s, 'e, unit) stm) \<Rightarrow> ('k \<Rightarrow> ('s, 'e, unit) stm) \<Rightarrow>
    ('k \<times> 'v option) list \<Rightarrow> ('s, 'e, unit) stm" where
  "run_ops put del [] = ret_st ()"
| "run_ops put del (x # xs) =
     bind_st (case snd x of Some v \<Rightarrow> put (fst x) v | None \<Rightarrow> del (fst x)) (\<lambda>_. run_ops put del xs)"

primrec map_ops :: "('k \<rightharpoonup> 'v) \<Rightarrow> ('k \<times> 'v option) list \<Rightarrow> ('k \<rightharpoonup> 'v)" where
  "map_ops m [] = m"
| "map_ops m (x # xs) = map_ops (m(fst x := snd x)) xs"

locale map_store =
  fixes rep :: "'s \<Rightarrow> ('k \<rightharpoonup> 'v) \<Rightarrow> bool"
    and get :: "'k \<Rightarrow> ('s, 'e, 'v option) stm"
    and put :: "'k \<Rightarrow> 'v \<Rightarrow> ('s, 'e, unit) stm"
    and del :: "'k \<Rightarrow> ('s, 'e, unit) stm"
    and ok :: "'v \<Rightarrow> bool"
  assumes get_ok: "rep s m \<Longrightarrow> \<exists>s'. get k s = (Ret (m k), s') \<and> rep s' m"
    and put_ok: "rep s m \<Longrightarrow> ok v \<Longrightarrow> \<exists>s'. put k v s = (Ret (), s') \<and> rep s' (m(k \<mapsto> v))"
    and del_ok: "rep s m \<Longrightarrow> \<exists>s'. del k s = (Ret (), s') \<and> rep s' (m(k := None))"
begin

lemma run_ok:
  assumes "rep s m" "\<forall>x \<in> set ops. \<forall>v. snd x = Some v \<longrightarrow> ok v"
  shows "\<exists>s'. run_ops put del ops s = (Ret (), s') \<and> rep s' (map_ops m ops)"
  using assms
proof (induction ops arbitrary: s m)
  case Nil
  then show ?case by simp
next
  case (Cons x xs)
  have "\<exists>s1. (case snd x of Some v \<Rightarrow> put (fst x) v | None \<Rightarrow> del (fst x)) s = (Ret (), s1) \<and>
      rep s1 (m(fst x := snd x))"
  proof (cases "snd x")
    case None
    then show ?thesis using del_ok[OF Cons.prems(1), of "fst x"] by simp
  next
    case (Some v)
    then have "ok v" using Cons.prems(2) by simp
    then show ?thesis using put_ok[OF Cons.prems(1), of v "fst x"] Some by simp
  qed
  then obtain s1 where s1: "(case snd x of Some v \<Rightarrow> put (fst x) v | None \<Rightarrow> del (fst x)) s = (Ret (), s1)"
    "rep s1 (m(fst x := snd x))" by blast
  have "\<forall>y \<in> set xs. \<forall>v. snd y = Some v \<longrightarrow> ok v" using Cons.prems(2) by simp
  from Cons.IH[OF s1(2) this] show ?case
    unfolding run_ops.simps map_ops.simps bind_st_def s1(1) prod.case outcome.case .
qed

lemma run_get:
  assumes "rep s m" "\<forall>x \<in> set ops. \<forall>v. snd x = Some v \<longrightarrow> ok v"
  shows "\<exists>s' s''. run_ops put del ops s = (Ret (), s') \<and> get k s' = (Ret (map_ops m ops k), s'') \<and>
    rep s'' (map_ops m ops)"
  using run_ok[OF assms] get_ok by blast

end

end
