(* ===== verification/Trie_Map.thy ===== *)
theory Trie_Map
  imports Trie_Sim Store_Interface
begin

text \<open>
  The trie as a map from byte keys to values: the exported operations \<open>New\<close>, \<open>Get\<close>, \<open>Update\<close> and
  \<open>Delete\<close> meet the store contract, the form of a trie depends on its content only, and the tracer
  always holds the difference to the trie that was opened.
\<close>

section \<open>The tree of a trie\<close>

definition byte_keys :: "tree \<Rightarrow> bool" where
  "byte_keys T \<longleftrightarrow> (\<forall>k v. vkey k \<longrightarrow> tget T k = Some v \<longrightarrow> (\<exists>b. k = keybytesToHex b))"

definition trie_tree :: "hash_ok \<Rightarrow> Trie \<Rightarrow> tree \<Rightarrow> bool" where
  "trie_tree V t T \<longleftrightarrow> expands V (t_reader t) [] (t_root t) T \<and> canon0 False T \<and> byte_keys T"

definition content :: "tree \<Rightarrow> bytes \<rightharpoonup> bytes" where
  "content T = (\<lambda>key. tget T (keybytesToHex key))"

definition trie_rep :: "hash_ok \<Rightarrow> Trie \<Rightarrow> (bytes \<rightharpoonup> bytes) \<Rightarrow> bool" where
  "trie_rep V t m \<longleftrightarrow> (\<exists>T. trie_tree V t T \<and> m = content T)"

lemma content_unique:
  assumes "canon0 False T" "canon0 False T'" "byte_keys T" "byte_keys T'" "content T = content T'"
  shows "T = T'"
proof (rule canon_unique[OF assms(1,2)])
  fix k assume "kok False k"
  then have k: "vkey k" by simp
  have "tget T (keybytesToHex b) = tget T' (keybytesToHex b)" for b
    using assms(5) by (metis content_def)
  then show "tget T k = tget T' k"
    using assms(3,4) k unfolding byte_keys_def by (metis not_None_eq)
qed

lemma content_tinsert:
  assumes "canon0 False T"
  shows "content (tinsert T (keybytesToHex k) (TVal v)) = (content T)(k \<mapsto> v)"
  using tget_tinsert_lemma[OF assms, of "keybytesToHex k" _ v] keybytesToHex_vkey
  by (auto simp: content_def keybytesToHex_inj)

lemma content_tdelete:
  assumes "canon0 False T"
  shows "content (tdelete T (keybytesToHex k)) = (content T)(k := None)"
  using tdelete_lemma[OF assms, of "keybytesToHex k"] keybytesToHex_vkey
  by (auto simp: content_def keybytesToHex_inj)

lemma byte_keys_tinsert:
  assumes "canon0 False T" "byte_keys T"
  shows "byte_keys (tinsert T (keybytesToHex k) (TVal v))"
  using assms(2) tget_tinsert_lemma[OF assms(1), of "keybytesToHex k" _ v] keybytesToHex_vkey
  unfolding byte_keys_def by (metis kok_simps(2))

lemma byte_keys_tdelete:
  assumes "canon0 False T" "byte_keys T"
  shows "byte_keys (tdelete T (keybytesToHex k))"
  using assms(2) tdelete_lemma[OF assms(1), of "keybytesToHex k"] keybytesToHex_vkey
  unfolding byte_keys_def by (metis kok_simps(2) option.distinct(1))

section \<open>The exported operations\<close>

lemma key_fuel_enough: "2 * length k + (if is_hash n then 1 else 0) < key_fuel k"
  by (simp add: key_fuel_def)

lemma Trie_Get_tree:
  assumes "trie_tree V t T"
  shows "\<exists>t'. Trie_Get key t = (Ret (content T key), t') \<and> trie_tree V t' T \<and>
    tr_inserts (t_tracer t') = tr_inserts (t_tracer t) \<and> tr_deletes (t_tracer t') = tr_deletes (t_tracer t)"
proof -
  let ?k = "keybytesToHex key"
  have ex: "expands V (t_reader t) [] (t_root t) T" and c: "canon0 False T" using assms by (auto simp: trie_tree_def)
  obtain n' res tr' where
    "trie_get (key_fuel ?k) (t_reader t) (t_root t) ([] @ ?k) (length []) (t_tracer t) =
       (Ret (tget T ?k, n', res), tr')"
    "expands V (t_reader t) [] n' T" "tr_inserts tr' = tr_inserts (t_tracer t)" "tr_deletes tr' = tr_deletes (t_tracer t)"
    using get_sim[OF ex c _ key_fuel_enough, of ?k "t_tracer t"] keybytesToHex_vkey by auto
  then show ?thesis
    using assms by (auto simp: Trie_Get_def Let_def trie_tree_def content_def)
qed

lemma Trie_Update_tree:
  fixes key :: bytes
  assumes "trie_tree V t T" "v \<noteq> []"
  defines "T' \<equiv> tinsert T (keybytesToHex key) (TVal v)"
  shows "\<exists>t'. Trie_Update key v t = (Ret (), t') \<and> trie_tree V t' T' \<and> content T' = (content T)(key \<mapsto> v) \<and>
    eff [] T T' (t_tracer t) (t_tracer t')"
proof -
  let ?k = "keybytesToHex key"
  have ex: "expands V (t_reader t) [] (t_root t) T" and c: "canon0 False T" and b: "byte_keys T"
    using assms by (auto simp: trie_tree_def)
  have k: "kok False ?k" using keybytesToHex_vkey by simp
  obtain n' tr' where
    "trie_insert (key_fuel ?k) (t_reader t) (t_root t) [] ?k (ValueNode v) (t_tracer t) =
       (Ret (tget T ?k \<noteq> Some v, n'), tr')"
    "expands V (t_reader t) [] n' T'" "eff [] T T' (t_tracer t) tr'"
    using insert_sim[OF ex c k assms(2) key_fuel_enough, of "t_tracer t"] unfolding T'_def by blast
  moreover have "canon0 False T'" using tinsert_canon_lemma[OF c k assms(2)] by (simp add: T'_def canon0_def)
  moreover have "byte_keys T'" unfolding T'_def by (rule byte_keys_tinsert[OF c b])
  moreover have "content T' = (content T)(key \<mapsto> v)" unfolding T'_def by (rule content_tinsert[OF c])
  ultimately show ?thesis
    using assms(2) by (auto simp: Trie_Update_def Let_def set_root_def trie_tree_def)
qed

lemma delete_tree:
  fixes key :: bytes
  assumes "trie_tree V t T"
  defines "T' \<equiv> tdelete T (keybytesToHex key)"
  shows "\<exists>t'. set_root (trie_delete (key_fuel (keybytesToHex key)) (t_reader t) (t_root t) []
      (keybytesToHex key) (t_tracer t)) t = (Ret (), t') \<and>
    trie_tree V t' T' \<and> content T' = (content T)(key := None) \<and> eff [] T T' (t_tracer t) (t_tracer t')"
proof -
  let ?k = "keybytesToHex key"
  have ex: "expands V (t_reader t) [] (t_root t) T" and c: "canon0 False T" and b: "byte_keys T"
    using assms by (auto simp: trie_tree_def)
  have k: "kok False ?k" using keybytesToHex_vkey by simp
  obtain n' tr' where
    "trie_delete (key_fuel ?k) (t_reader t) (t_root t) [] ?k (t_tracer t) = (Ret (tget T ?k \<noteq> None, n'), tr')"
    "expands V (t_reader t) [] n' T'" "eff [] T T' (t_tracer t) tr'"
    using delete_sim[OF ex c k key_fuel_enough, of "t_tracer t"] unfolding T'_def by blast
  moreover have "canon0 False T'" using tdelete_lemma[OF c k] by (simp add: T'_def)
  moreover have "byte_keys T'" unfolding T'_def by (rule byte_keys_tdelete[OF c b])
  moreover have "content T' = (content T)(key := None)" unfolding T'_def by (rule content_tdelete[OF c])
  ultimately show ?thesis by (auto simp: set_root_def trie_tree_def)
qed

lemma Trie_Delete_tree:
  fixes key :: bytes
  assumes "trie_tree V t T"
  defines "T' \<equiv> tdelete T (keybytesToHex key)"
  shows "\<exists>t'. Trie_Delete key t = (Ret (), t') \<and> trie_tree V t' T' \<and> content T' = (content T)(key := None) \<and>
    eff [] T T' (t_tracer t) (t_tracer t')"
proof -
  have "trie_tree V (t\<lparr>t_unhashed := t_unhashed t + 1\<rparr>) T" using assms(1) by (simp add: trie_tree_def)
  from delete_tree[OF this, of key] show ?thesis unfolding T'_def by (simp add: Trie_Delete_def Let_def)
qed

lemma Trie_Update_empty: "Trie_Update key [] t = Trie_Delete key t"
  by (simp add: Trie_Update_def Trie_Delete_def Let_def)

interpretation tm: map_store "trie_rep V" Trie_Get Trie_Update Trie_Delete "\<lambda>v. v \<noteq> []" for V
proof unfold_locales
  fix s m k and v :: bytes
  assume "trie_rep V s m"
  then obtain T where T: "trie_tree V s T" "m = content T" by (auto simp: trie_rep_def)
  show "\<exists>s'. Trie_Get k s = (Ret (m k), s') \<and> trie_rep V s' m"
    using Trie_Get_tree[OF T(1), of k] T(2) by (auto simp: trie_rep_def)
  show "v \<noteq> [] \<Longrightarrow> \<exists>s'. Trie_Update k v s = (Ret (), s') \<and> trie_rep V s' (m(k \<mapsto> v))"
    using Trie_Update_tree[OF T(1), of v k] T(2) unfolding trie_rep_def by metis
  show "\<exists>s'. Trie_Delete k s = (Ret (), s') \<and> trie_rep V s' (m(k := None))"
    using Trie_Delete_tree[OF T(1), of k] T(2) unfolding trie_rep_def by metis
qed

section \<open>Opening a trie\<close>

lemma expands_clean_paths:
  assumes "trie_tree V t T"
  shows "tracks (tpaths [] T) (tpaths [] T) newTracer"
  by (simp add: tracks_def newTracer_def)

lemma Trie_New_tree:
  assumes db: "db (id_StateRoot tid) = Some store"
    and rd: "rd = \<lparr>rd_owner = id_Owner tid, rd_reader = Some store, rd_banned = {}\<rparr>"
    and root: "id_Root tid \<noteq> 0 \<and> id_Root tid \<noteq> EmptyRootHash"
    and ex: "expands V rd [] (HashNode (hash_bytes (id_Root tid))) T" "canon0 False T" "byte_keys T"
  shows "\<exists>t. Trie_New tid db = Ret t \<and> trie_tree V t T \<and> tracks (tpaths [] T) (tpaths [] T) (t_tracer t)"
proof -
  from resolveAndTrack_expands[OF ex(1)] obtain blob n where
    r: "\<And>tr. resolveAndTrack rd (hash_bytes (id_Root tid)) [] tr = (Ret n, onRead [] blob tr)" "expands V rd [] n T"
    by blast
  then show ?thesis
    using root ex(2,3) db
    by (auto simp: Trie_New_def newTrieReader_def rd[symmetric] Let_def trie_tree_def tracks_def newTracer_def onRead_def)
qed

lemma Trie_New_empty:
  assumes "db (id_StateRoot tid) = Some store" "id_Root tid = 0 \<or> id_Root tid = EmptyRootHash"
  shows "\<exists>t. Trie_New tid db = Ret t \<and> trie_tree V t TNil \<and> tracks {} (tpaths [] TNil) (t_tracer t)"
  using assms
  by (auto simp: Trie_New_def newTrieReader_def Let_def trie_tree_def canon0_def byte_keys_def tracks_def newTracer_def)

text \<open>The empty trie over the in-memory reader.\<close>

definition mem_trie :: Trie where
  "mem_trie = \<lparr>t_root = NilNode, t_owner = 0, t_unhashed = 0, t_reader = newEmptyReader, t_tracer = newTracer\<rparr>"

lemma mem_trie_tree: "trie_tree V mem_trie TNil"
  by (simp add: mem_trie_def trie_tree_def canon0_def byte_keys_def)

lemma mem_trie_rep: "trie_rep V mem_trie Map.empty"
  unfolding trie_rep_def using mem_trie_tree[of V]
  by (intro exI[of _ TNil]) (simp add: content_def)

section \<open>Properties\<close>

text \<open>C20. The trie implements a map: on a trie that represents \<open>m\<close>, any sequence of \<open>Update\<close>s with
  non-empty values and \<open>Delete\<close>s succeeds (no missing node, no panic, no exhausted recursion), and
  \<open>Get\<close> then returns exactly what the sequence of writes leaves in \<open>m\<close>.\<close>

theorem trie_writes_then_get:
  "trie_rep V t m \<Longrightarrow> \<forall>x \<in> set ops. \<forall>v. snd x = Some v \<longrightarrow> v \<noteq> [] \<Longrightarrow>
     \<exists>t' t''. run_ops Trie_Update Trie_Delete ops t = (Ret (), t') \<and>
       Trie_Get k t' = (Ret (map_ops m ops k), t'') \<and> trie_rep V t'' (map_ops m ops)"
  by (rule tm.run_get)

theorem trie_writes_then_get_witness:
  "\<exists>t' t''. run_ops Trie_Update Trie_Delete [([1], Some [7]), ([1, 2], Some [8]), ([1], None)] mem_trie = (Ret (), t') \<and>
     Trie_Get [1, 2] t' = (Ret (Some [8]), t'')"
proof -
  from trie_writes_then_get[OF mem_trie_rep, where V = "\<lambda>_ _ _. True" and k = "[1, 2]"
    and ops = "[([1], Some [7]), ([1, 2], Some [8]), ([1], None)]"]
  show ?thesis by auto
qed

text \<open>Writing an empty value is a deletion: \<open>Update\<close> with a value of length zero and \<open>Delete\<close> are the
  same operation.\<close>

theorem Trie_Update_empty_is_Delete:
  "Trie_Update key [] t = Trie_Delete key t"
  by (rule Trie_Update_empty)

text \<open>C21. The canonical form is kept and unique: after an update or a deletion the trie is again in
  canonical form (no short node below a short node, no branch with fewer than two children, no empty
  value), and two tries in this form with the same content have the same tree, whatever sequence of
  operations produced them.\<close>

theorem trie_form_unique:
  "trie_tree V t T \<Longrightarrow> trie_tree V t' T' \<Longrightarrow> content T = content T' \<Longrightarrow>
     T = T' \<and> (\<exists>u U. Trie_Update key v t = (Ret (), u) \<and> trie_tree V u U \<and>
       content U = (content T)(key := if v = [] then None else Some v))"
proof -
  assume t: "trie_tree V t T" "trie_tree V t' T'" "content T = content T'"
  then have "T = T'" by (intro content_unique) (auto simp: trie_tree_def)
  moreover have "\<exists>u U. Trie_Update key v t = (Ret (), u) \<and> trie_tree V u U \<and>
      content U = (content T)(key := if v = [] then None else Some v)"
    using Trie_Update_tree[OF t(1), of v key] Trie_Delete_tree[OF t(1), of key] Trie_Update_empty[of key t]
    by (cases "v = []") fastforce+
  ultimately show ?thesis by blast
qed

theorem trie_form_unique_witness:
  "\<exists>u U. Trie_Update [1] [7] mem_trie = (Ret (), u) \<and> trie_tree (\<lambda>_ _ _. True) u U \<and> content U [1] = Some [7]"
proof -
  from trie_form_unique[OF mem_trie_tree mem_trie_tree refl, where key = "[1]" and v = "[7]" and V = "\<lambda>_ _ _. True"]
  obtain u U where "Trie_Update [1] [7] mem_trie = (Ret (), u)" "trie_tree (\<lambda>_ _ _. True) u U"
    "content U = (content TNil)([1] := Some [7])" by auto
  then show ?thesis by (intro exI[of _ u] exI[of _ U]) simp
qed

text \<open>C22. The tracer is exact: if the tracer of a trie holds the difference between the node paths when
  the trie was opened (\<open>old\<close>) and now, it still does after \<open>Get\<close>, \<open>Update\<close> and \<open>Delete\<close>. So the paths
  marked deleted are precisely the nodes of the opened trie that are gone, and the paths marked
  inserted precisely the nodes that are new.\<close>

theorem tracer_exact:
  "trie_tree V t T \<Longrightarrow> tracks old (tpaths [] T) (t_tracer t) \<Longrightarrow>
     (\<exists>u. Trie_Get key t = (Ret (content T key), u) \<and> trie_tree V u T \<and> tracks old (tpaths [] T) (t_tracer u)) \<and>
     (\<exists>u U. Trie_Update key v t = (Ret (), u) \<and> trie_tree V u U \<and> tracks old (tpaths [] U) (t_tracer u)) \<and>
     (\<exists>u U. Trie_Delete key t = (Ret (), u) \<and> trie_tree V u U \<and> tracks old (tpaths [] U) (t_tracer u))"
proof -
  assume t: "trie_tree V t T" and tr: "tracks old (tpaths [] T) (t_tracer t)"
  have e: "tracks old (tpaths [] U) u" if "eff [] T U (t_tracer t) u" for U u
    using effD[OF that, of "{}" old] tr by simp
  have del: "\<exists>u U. Trie_Delete key t = (Ret (), u) \<and> trie_tree V u U \<and> tracks old (tpaths [] U) (t_tracer u)"
    using Trie_Delete_tree[OF t, of key] e by blast
  moreover have "\<exists>u U. Trie_Update key v t = (Ret (), u) \<and> trie_tree V u U \<and> tracks old (tpaths [] U) (t_tracer u)"
    using Trie_Update_tree[OF t, of v key] del Trie_Update_empty[of key t] e by (cases "v = []") (simp, blast)
  moreover have "\<exists>u. Trie_Get key t = (Ret (content T key), u) \<and> trie_tree V u T \<and> tracks old (tpaths [] T) (t_tracer u)"
    using Trie_Get_tree[OF t, of key] tr by (auto simp: tracks_def)
  ultimately show ?thesis by blast
qed

theorem tracer_exact_witness:
  "\<exists>u U. Trie_Update [1] [7] mem_trie = (Ret (), u) \<and> trie_tree (\<lambda>_ _ _. True) u U \<and> tracks {} (tpaths [] U) (t_tracer u)"
proof -
  have "tracks {} (tpaths [] TNil) (t_tracer mem_trie)" by (simp add: tracks_def mem_trie_def newTracer_def)
  from tracer_exact[OF mem_trie_tree this, where key = "[1]" and v = "[7]" and V = "\<lambda>_ _ _. True"] show ?thesis by blast
qed

text \<open>Opening a trie: when the state is available and the store holds the nodes of a canonical tree
  under the root hash, \<open>New\<close> returns a trie that stands for this tree, with a tracer that records no
  change.\<close>

theorem Trie_New_opens:
  assumes "db (id_StateRoot tid) = Some store"
    and "rd = \<lparr>rd_owner = id_Owner tid, rd_reader = Some store, rd_banned = {}\<rparr>"
    and "id_Root tid \<noteq> 0 \<and> id_Root tid \<noteq> EmptyRootHash"
    and "expands V rd [] (HashNode (hash_bytes (id_Root tid))) T" "canon0 False T" "byte_keys T"
  shows "\<exists>t. Trie_New tid db = Ret t \<and> trie_tree V t T \<and> tracks (tpaths [] T) (tpaths [] T) (t_tracer t)"
  by (rule Trie_New_tree[of db tid store rd V T, OF assms])

theorem Trie_New_opens_witness:
  "\<exists>t. Trie_New \<lparr>id_StateRoot = 1, id_Owner = 0, id_Root = 5\<rparr>
      (\<lambda>_. Some (\<lambda>_ _ _. Some [0xC4, 0x82, 0x20, 0x12, 0x07])) = Ret t \<and>
    trie_tree (\<lambda>_ _ _. True) t (TShort [1, 2, 16] (TVal [7]))"
proof -
  let ?h = "hash_bytes 5" and ?T = "TShort [1, 2, 16] (TVal [7])"
  let ?id = "\<lparr>id_StateRoot = 1, id_Owner = 0, id_Root = 5\<rparr>"
  let ?store = "\<lambda>_ _ _. Some [0xC4, 0x82, 0x20, 0x12, 0x07]"
  let ?rd = "\<lparr>rd_owner = 0, rd_reader = Some ?store, rd_banned = {}\<rparr>"
  let ?n = "ShortNode [1, 2, 16] (ValueNode [7]) \<lparr>fl_hash = Some ?h, fl_dirty = False\<rparr>"
  have k: "hex_key [1, 2, 16]" "hasTerm [1, 2, 16]" by (auto simp: hex_key_def hasTerm_def intro!: exI[of _ "[1, 2]"])
  have e: "disk_enc ?n = [0xC4, 0x82, 0x20, 0x12, 0x07]"
  proof -
    have "compact [1, 2, 16] = [0x20, 0x12]" by code_simp
    then show ?thesis by (simp add: rlp_list_def rlp_head_def rlp_string_def)
  qed
  have dn: "disk_node (Some ?h) ?n" using k by simp
  from decode_disk(1)[OF dn, of "[]"] have "decodeNode (Some ?h) [0xC4, 0x82, 0x20, 0x12, 0x07] = Ret ?n"
    unfolding e by (simp add: go_slice_def)
  then have ex: "expands (\<lambda>_ _ _. True) ?rd [] (HashNode ?h) ?T"
    by (intro ex_hash[where blob = "[0xC4, 0x82, 0x20, 0x12, 0x07]" and n = ?n])
      (simp_all add: reader_node_def mustDecodeNode_def flag_ok_def)
  have c: "canon0 False ?T" by (simp add: canon0_def vkey.simps)
  have b: "byte_keys ?T"
    unfolding byte_keys_def
  proof (intro allI impI)
    fix k v assume vk: "vkey k" and "tget ?T k = Some v"
    then have "take 3 k = [1, 2, 16]" by (simp add: numeral_3_eq_3 split: if_splits)
    then have kk: "k = [1, 2, 16] @ drop 3 k" by (metis append_take_drop_id)
    have "vkey [1, 2, 16]" by (simp add: vkey.simps)
    then have "drop 3 k = []" using vkey_prefix[of "[1, 2, 16]" "drop 3 k"] vk kk by metis
    with kk have "k = [1, 2, 16]" by simp
    moreover have "[1, 2, 16] = keybytesToHex [0x12]" by code_simp
    ultimately show "\<exists>b. k = keybytesToHex b" by blast
  qed
  have "id_Root ?id \<noteq> 0 \<and> id_Root ?id \<noteq> EmptyRootHash" by (simp add: EmptyRootHash_def)
  from Trie_New_opens[of "\<lambda>_. Some ?store" ?id ?store, OF _ _ this _ c b, of ?rd "\<lambda>_ _ _. True"] ex
  show ?thesis by auto
qed

end
