(* ===== verification/Trie_Hasher.thy ===== *)
theory Trie_Hasher
  imports Trie_Map
begin

text \<open>
  The hasher of \<^verbatim>\<open>trie/hasher.go\<close> and the root hash of \<^verbatim>\<open>trie/trie.go\<close>. Keccak-256 is a
  parameter. The root hash is shown to be the Merkle root of the tree the trie stands for (the
  recursive definition of the Ethereum specification), so it depends on the content only, and the
  parallel hashing of children gives the same result in every order.
\<close>

type_synonym keccak = "bytes \<Rightarrow> bytes"

section \<open>The hasher\<close>

definition hashData :: "keccak \<Rightarrow> bytes \<Rightarrow> node" where
  "hashData kc data = HashNode (kc data)"

text \<open>\<open>shortnodeToHash\<close> and \<open>fullnodeToHash\<close> have the same body.\<close>

definition nodeToHash :: "keccak \<Rightarrow> node \<Rightarrow> bool \<Rightarrow> (rlp_error, node) outcome" where
  "nodeToHash kc n force =
     bind_outcome (nodeToBytes n) (\<lambda>enc.
       if length enc < 32 \<and> \<not> force then Ret n else Ret (hashData kc enc))"

fun hash_of :: "node \<Rightarrow> bytes option" where
  "hash_of (HashNode h) = Some h"
| "hash_of n = None"

text \<open>
  \<open>hash\<close> returns the collapsed form of a node and a copy with the computed hashes cached.
  \<open>hasher_children\<close> is the loop over the first 16 children; \<open>i\<close> is the index of the next one.
\<close>

fun hasher_hash :: "keccak \<Rightarrow> bool \<Rightarrow> node \<Rightarrow> (rlp_error, node \<times> node) outcome"
and hasher_children :: "keccak \<Rightarrow> nat \<Rightarrow> node list \<Rightarrow> (rlp_error, node list \<times> node list) outcome" where
  "hasher_hash kc force (ShortNode k c fl) =
     (case fl_hash fl of
        Some h \<Rightarrow> Ret (HashNode h, ShortNode k c fl)
      | None \<Rightarrow>
          bind_outcome (case c of FullNode _ _ \<Rightarrow> hasher_hash kc False c
                        | ShortNode _ _ _ \<Rightarrow> hasher_hash kc False c
                        | _ \<Rightarrow> Ret (c, c)) (\<lambda>(collapsedVal, cachedVal).
          bind_outcome (nodeToHash kc (ShortNode (compact k) collapsedVal fl) force) (\<lambda>hashed.
            Ret (hashed, ShortNode k cachedVal (fl\<lparr>fl_hash := hash_of hashed\<rparr>)))))"
| "hasher_hash kc force (FullNode cs fl) =
     (case fl_hash fl of
        Some h \<Rightarrow> Ret (HashNode h, FullNode cs fl)
      | None \<Rightarrow>
          bind_outcome (hasher_children kc 0 cs) (\<lambda>(collapsed, cached).
          bind_outcome (nodeToHash kc (FullNode collapsed fl) force) (\<lambda>hashed.
            Ret (hashed, FullNode cached (fl\<lparr>fl_hash := hash_of hashed\<rparr>)))))"
| "hasher_hash kc force n = Ret (n, n)"
| "hasher_children kc i [] = Ret ([], [])"
| "hasher_children kc i (c # cs) =
     bind_outcome (if i < 16
         then (if c \<noteq> NilNode then hasher_hash kc False c else Ret (ValueNode [], NilNode))
         else Ret (c, c)) (\<lambda>(collapsed, cached).
     bind_outcome (hasher_children kc (i + 1) cs) (\<lambda>(collapsed', cached').
       Ret (collapsed # collapsed', cached # cached')))"

text \<open>
  The parallel variant starts one goroutine per child; each writes its own slot of the two copies. The
  model runs the writes in the order \<open>is\<close> in which the goroutines finish.
\<close>

primrec hasher_children_par :: "keccak \<Rightarrow> nat list \<Rightarrow> node list \<Rightarrow> node list \<times> node list \<Rightarrow>
    (rlp_error, node list \<times> node list) outcome" where
  "hasher_children_par kc [] cs acc = Ret acc"
| "hasher_children_par kc (i # is) cs acc =
     bind_outcome (index cs i) (\<lambda>child.
     bind_outcome (if child \<noteq> NilNode then hasher_hash kc False child else Ret (ValueNode [], NilNode))
       (\<lambda>(collapsed, cached).
       hasher_children_par kc is cs
         (case acc of (xs, ys) \<Rightarrow> (xs[i := collapsed], if child \<noteq> NilNode then ys[i := cached] else ys))))"

definition hashFullNodeChildren_par :: "keccak \<Rightarrow> nat list \<Rightarrow> node list \<Rightarrow>
    (rlp_error, node list \<times> node list) outcome" where
  "hashFullNodeChildren_par kc order cs = hasher_children_par kc order cs (cs, cs)"

text \<open>
  \<open>hash\<close> of a parallel hasher: a short node hands the hasher on to its child, a full node hashes its children with sequential
  ones.
\<close>

fun hasher_hash_par :: "keccak \<Rightarrow> nat list \<Rightarrow> bool \<Rightarrow> node \<Rightarrow> (rlp_error, node \<times> node) outcome" where
  "hasher_hash_par kc order force (ShortNode k c fl) =
     (case fl_hash fl of
        Some h \<Rightarrow> Ret (HashNode h, ShortNode k c fl)
      | None \<Rightarrow>
          bind_outcome (case c of FullNode _ _ \<Rightarrow> hasher_hash_par kc order False c
                        | ShortNode _ _ _ \<Rightarrow> hasher_hash_par kc order False c
                        | _ \<Rightarrow> Ret (c, c)) (\<lambda>(collapsedVal, cachedVal).
          bind_outcome (nodeToHash kc (ShortNode (compact k) collapsedVal fl) force) (\<lambda>hashed.
            Ret (hashed, ShortNode k cachedVal (fl\<lparr>fl_hash := hash_of hashed\<rparr>)))))"
| "hasher_hash_par kc order force (FullNode cs fl) =
     (case fl_hash fl of
        Some h \<Rightarrow> Ret (HashNode h, FullNode cs fl)
      | None \<Rightarrow>
          bind_outcome (hashFullNodeChildren_par kc order cs) (\<lambda>(collapsed, cached).
          bind_outcome (nodeToHash kc (FullNode collapsed fl) force) (\<lambda>hashed.
            Ret (hashed, FullNode cached (fl\<lparr>fl_hash := hash_of hashed\<rparr>)))))"
| "hasher_hash_par kc order force n = Ret (n, n)"

section \<open>The root hash\<close>

text \<open>From 100 changes on the hasher is parallel; \<open>order\<close> is the order in which its goroutines finish.\<close>

definition Trie_hashRoot :: "keccak \<Rightarrow> nat list \<Rightarrow> Trie \<Rightarrow> (rlp_error, (node \<times> node) \<times> Trie) outcome" where
  "Trie_hashRoot kc order t =
     (if t_root t = NilNode then Ret ((HashNode (hash_bytes EmptyRootHash), NilNode), t)
      else
        bind_outcome
          (if t_unhashed t \<ge> 100 then hasher_hash_par kc order True (t_root t) else hasher_hash kc True (t_root t))
          (\<lambda>res. Ret (res, t\<lparr>t_unhashed := 0\<rparr>)))"

definition Trie_Hash :: "keccak \<Rightarrow> nat list \<Rightarrow> Trie \<Rightarrow> (rlp_error, hash \<times> Trie) outcome" where
  "Trie_Hash kc order t =
     bind_outcome (Trie_hashRoot kc order t) (\<lambda>((h, cached), t').
       case h of HashNode b \<Rightarrow> Ret (BytesToHash b, t'\<lparr>t_root := cached\<rparr>) | _ \<Rightarrow> Panic)"

section \<open>The Merkle root of a tree\<close>

text \<open>
  \<open>tenc\<close> is the encoding of a node whose children are given by reference; a reference is the encoding
  itself when it is shorter than 32 bytes and its hash otherwise.
\<close>

definition tref_of :: "keccak \<Rightarrow> bytes \<Rightarrow> bytes" where
  "tref_of kc e = (if length e < 32 then e else rlp_string (kc e))"

fun tenc :: "keccak \<Rightarrow> tree \<Rightarrow> bytes" and tref :: "keccak \<Rightarrow> tree \<Rightarrow> bytes" where
  "tenc kc TNil = rlp_string []"
| "tenc kc (TVal v) = rlp_string v"
| "tenc kc (TShort k c) = rlp_list (rlp_string (compact k) @ tref kc c)"
| "tenc kc (TFull cs) = rlp_list (concat (map (tref kc) cs))"
| "tref kc TNil = rlp_string []"
| "tref kc (TVal v) = rlp_string v"
| "tref kc (TShort k c) = tref_of kc (tenc kc (TShort k c))"
| "tref kc (TFull cs) = tref_of kc (tenc kc (TFull cs))"

definition tree_root :: "keccak \<Rightarrow> tree \<Rightarrow> hash" where
  "tree_root kc T = (if T = TNil then EmptyRootHash else BytesToHash (kc (tenc kc T)))"

text \<open>Every node of the tree has an encoding shorter than \<open>n\<close>; \<open>enc_fits\<close>: one that fits a Go slice.\<close>

fun enc_within :: "nat \<Rightarrow> keccak \<Rightarrow> tree \<Rightarrow> bool" where
  "enc_within n kc TNil = True"
| "enc_within n kc (TVal v) = True"
| "enc_within n kc (TShort k c) = (length (tenc kc (TShort k c)) < n \<and> enc_within n kc c)"
| "enc_within n kc (TFull cs) = (length (tenc kc (TFull cs)) < n \<and> list_all (enc_within n kc) cs)"

definition enc_fits :: "keccak \<Rightarrow> tree \<Rightarrow> bool" where
  "enc_fits kc T = enc_within (2 ^ 63) kc T"

lemma enc_fits_simps [simp]:
  "enc_fits kc TNil" "enc_fits kc (TVal v)"
  "enc_fits kc (TShort k c) = (length (tenc kc (TShort k c)) < 2 ^ 63 \<and> enc_fits kc c)"
  "enc_fits kc (TFull cs) = (length (tenc kc (TFull cs)) < 2 ^ 63 \<and> (\<forall>c \<in> set cs. enc_fits kc c))"
  by (simp_all add: enc_fits_def list_all_iff)

lemma enc_within_mono: "enc_within m kc T \<Longrightarrow> m \<le> n \<Longrightarrow> enc_within n kc T"
  by (induction T) (auto simp: list_all_iff simp del: tenc.simps)

lemma enc_within_fits: "enc_within 1000 kc T \<Longrightarrow> enc_fits kc T"
  unfolding enc_fits_def by (erule enc_within_mono) simp

section \<open>The hasher computes the Merkle root\<close>

text \<open>
  A hash cached at path \<open>p\<close> is right: it is the hash of the node's encoding, and below the root only
  nodes of at least 32 bytes are referenced by hash.
\<close>

definition hash_valid :: "keccak \<Rightarrow> hash_ok" where
  "hash_valid kc p h T \<longleftrightarrow> h = kc (tenc kc T) \<and> (p \<noteq> [] \<longrightarrow> 32 \<le> length (tenc kc T))"

lemma expands_hash_valid:
  assumes "expands V rd p (HashNode h) T"
  shows "V p h T \<and> ((\<exists>k c. T = TShort k c) \<or> (\<exists>cs. T = TFull cs))"
proof (rule expands_hashE[OF assms])
  fix blob n
  assume d: "mustDecodeNode (Some h) blob = Ret n" and ex: "expands V rd p n T"
  then have "decodeNode (Some h) blob = Ret n" by (auto simp: mustDecodeNode_def split: outcome.splits)
  from decodeNode_shape[OF this] ex show ?thesis by (auto simp: flag_ok_def)
qed

text \<open>What hashing the child at path \<open>p\<close> has to deliver.\<close>

definition hashed_child :: "keccak \<Rightarrow> trieReader \<Rightarrow> bytes \<Rightarrow> tree \<Rightarrow> node \<Rightarrow> node \<Rightarrow> bool" where
  "hashed_child kc rd p T collapsed cached \<longleftrightarrow>
     rlp (node_val collapsed) = tref kc T \<and> no_empty_full collapsed \<and> expands (hash_valid kc) rd p cached T"

lemma nodeToHash_rlp:
  "no_empty_full n \<Longrightarrow> length (rlp (node_val n)) < 2 ^ 63 \<Longrightarrow>
     nodeToHash kc n force =
       Ret (if length (rlp (node_val n)) < 32 \<and> \<not> force then n else HashNode (kc (rlp (node_val n))))"
  by (simp add: nodeToHash_def nodeToBytes_rlp hashData_def)

lemma hasher_short_child:
  "(case c of FullNode _ _ \<Rightarrow> hasher_hash kc f c | ShortNode _ _ _ \<Rightarrow> hasher_hash kc f c | _ \<Rightarrow> Ret (c, c)) =
     hasher_hash kc f c"
  by (cases c) simp_all

definition hash_child :: "keccak \<Rightarrow> nat \<Rightarrow> node \<Rightarrow> (rlp_error, node \<times> node) outcome" where
  "hash_child kc i c =
     (if i < 16 then (if c \<noteq> NilNode then hasher_hash kc False c else Ret (ValueNode [], NilNode))
      else Ret (c, c))"

lemma hasher_children_Cons:
  "hasher_children kc i (c # cs) =
     bind_outcome (hash_child kc i c) (\<lambda>(collapsed, cached).
     bind_outcome (hasher_children kc (i + 1) cs) (\<lambda>(collapsed', cached').
       Ret (collapsed # collapsed', cached # cached')))"
  by (simp add: hash_child_def)

lemma hasher_children_ok:
  assumes "length ts = length cs"
    and "\<And>j. j < length cs \<Longrightarrow> \<exists>col cac.
      hash_child kc (i + j) (cs ! j) = Ret (col, cac) \<and> hashed_child kc rd (q j) (ts ! j) col cac"
  shows "\<exists>cols cacs. hasher_children kc i cs = Ret (cols, cacs) \<and> length cols = length cs \<and>
    length cacs = length cs \<and> (\<forall>j < length cs. hashed_child kc rd (q j) (ts ! j) (cols ! j) (cacs ! j))"
  using assms
proof (induction cs arbitrary: i ts q)
  case Nil
  then show ?case by simp
next
  case (Cons c cs)
  obtain t ts' where ts: "ts = t # ts'" using Cons.prems(1) by (cases ts) auto
  from Cons.prems(2)[of 0] obtain col cac where c:
    "hash_child kc i c = Ret (col, cac)" "hashed_child kc rd (q 0) t col cac" by (auto simp: ts)
  from Cons.IH[of ts' "i + 1" "\<lambda>j. q (Suc j)"] Cons.prems(2)[of "Suc _"] Cons.prems(1) ts
  obtain cols cacs where "hasher_children kc (i + 1) cs = Ret (cols, cacs)" "length cols = length cs"
    "length cacs = length cs" "\<forall>j < length cs. hashed_child kc rd (q (Suc j)) (ts' ! j) (cols ! j) (cacs ! j)"
    by auto
  with c ts show ?case
    by (intro exI[of _ "col # cols"] exI[of _ "cac # cacs"])
      (auto simp: hasher_children_Cons less_Suc_eq_0_disj simp del: hasher_children.simps(2))
qed

lemma hashed_full:
  assumes len: "length cols = length ts" "length cacs = length ts" "ts \<noteq> []"
    and ch: "\<And>j. j < length ts \<Longrightarrow> hashed_child kc rd (p @ [word_of_nat j]) (ts ! j) (cols ! j) (cacs ! j)"
  shows "rlp (node_val (FullNode cols fl)) = tenc kc (TFull ts)" "no_empty_full (FullNode cols fl)"
    "flag_ok (hash_valid kc) p fl' (TFull ts) \<Longrightarrow> expands (hash_valid kc) rd p (FullNode cacs fl') (TFull ts)"
proof -
  have "map (rlp \<circ> node_val) cols = map (tref kc) ts"
    using len(1) ch by (auto simp: list_eq_iff_nth_eq hashed_child_def)
  then show "rlp (node_val (FullNode cols fl)) = tenc kc (TFull ts)" by (simp add: comp_assoc)
  show "no_empty_full (FullNode cols fl)" using len ch by (auto simp: all_set_conv_all_nth hashed_child_def)
  show "flag_ok (hash_valid kc) p fl' (TFull ts) \<Longrightarrow> expands (hash_valid kc) rd p (FullNode cacs fl') (TFull ts)"
    using len ch by (auto simp: hashed_child_def)
qed

text \<open>The references of a node's children, and the node's own hash, forced at the root only.\<close>

lemma hash_flag_ok:
  assumes "force \<longleftrightarrow> p = []" "length (tenc kc T) < 32 \<and> \<not> force \<Longrightarrow> hash_of n = None"
  shows "flag_ok (hash_valid kc) p
    (fl\<lparr>fl_hash := hash_of (if length (tenc kc T) < 32 \<and> \<not> force then n else HashNode (kc (tenc kc T)))\<rparr>) T"
  using assms by (auto simp: flag_ok_def hash_valid_def)

lemma cached_hash:
  assumes "hash_valid kc p h T" "(\<exists>k c. T = TShort k c) \<or> (\<exists>cs. T = TFull cs)"
    and "expands (hash_valid kc) rd p n T" "force \<longleftrightarrow> p = []"
  shows "if force then HashNode h = HashNode (kc (tenc kc T)) else hashed_child kc rd p T (HashNode h) n"
proof -
  have h: "h = kc (tenc kc T)" "p \<noteq> [] \<longrightarrow> 32 \<le> length (tenc kc T)"
    using assms(1) by (simp_all add: hash_valid_def)
  have "tref kc T = tref_of kc (tenc kc T)" using assms(2) by auto
  with h assms(3,4) show ?thesis by (auto simp: hashed_child_def tref_of_def)
qed

lemma child_path: "canon False (TShort k c) \<Longrightarrow> p @ k \<noteq> []"
  by auto

lemma hash_sim:
  assumes "expands (hash_valid kc) rd p n T" "canon e T" "enc_fits kc T" "force \<longleftrightarrow> p = []" "force \<longrightarrow> \<not> e"
  shows "\<exists>col cac. hasher_hash kc force n = Ret (col, cac) \<and> expands (hash_valid kc) rd p cac T \<and>
    (if force then col = HashNode (kc (tenc kc T)) else hashed_child kc rd p T col cac)"
  using assms
proof (induction n arbitrary: p T e force)
  case NilNode
  then show ?case by auto
next
  case (ValueNode v)
  then show ?case by (auto simp: hashed_child_def)
next
  case (HashNode h)
  then have "hash_valid kc p h T" "(\<exists>k c. T = TShort k c) \<or> (\<exists>cs. T = TFull cs)"
    using expands_hash_valid by blast+
  from cached_hash[OF this HashNode.prems(1,4)] HashNode.prems(1) show ?case by auto
next
  case (ShortNode k c fl)
  from ShortNode.prems(1) obtain c' where T: "T = TShort k c'" and ex: "expands (hash_valid kc) rd (p @ k) c c'"
    and fl: "flag_ok (hash_valid kc) p fl T" by auto
  have cT: "canon False (TShort k c')" using ShortNode.prems(2) T by auto
  show ?case
  proof (cases "fl_hash fl")
    case (Some h)
    then have "hash_valid kc p h T" using fl by (simp add: flag_ok_def)
    from cached_hash[OF this _ ShortNode.prems(1,4)] T Some ShortNode.prems(1) show ?thesis
      by (auto simp del: tenc.simps)
  next
    case None
    have "canon (vkey k) c'" using cT by (auto split: if_splits)
    with ShortNode.IH[OF ex, of "vkey k" False] ShortNode.prems(3) T child_path[OF cT, of p]
    obtain col cac where c: "hasher_hash kc False c = Ret (col, cac)" "hashed_child kc rd (p @ k) c' col cac"
      by auto
    let ?n = "ShortNode (compact k) col fl"
    have enc: "rlp (node_val ?n) = tenc kc T" "no_empty_full ?n"
      using c(2) T by (simp_all add: hashed_child_def)
    let ?h = "if length (tenc kc T) < 32 \<and> \<not> force then ?n else HashNode (kc (tenc kc T))"
    have "length (rlp (node_val ?n)) < 2 ^ 63" unfolding enc using ShortNode.prems(3) T by simp
    from nodeToHash_rlp[OF enc(2) this, of kc force]
    have run: "hasher_hash kc force (ShortNode k c fl) = Ret (?h, ShortNode k cac (fl\<lparr>fl_hash := hash_of ?h\<rparr>))"
      unfolding hasher_hash.simps(1) None option.case hasher_short_child unfolding c(1) enc(1) by simp
    have cac: "expands (hash_valid kc) rd p (ShortNode k cac (fl\<lparr>fl_hash := hash_of ?h\<rparr>)) T"
      using c(2) hash_flag_ok[OF ShortNode.prems(4), of kc T ?n fl] unfolding T
      by (simp add: hashed_child_def del: tenc.simps)
    have "hashed_child kc rd p T ?h (ShortNode k cac (fl\<lparr>fl_hash := hash_of ?h\<rparr>))" if "\<not> force"
      using cac enc that unfolding hashed_child_def by (auto simp: T tref_of_def simp del: tenc.simps node_val.simps(2,3))
    with run cac show ?thesis by auto
  qed
next
  case (FullNode cs fl)
  from FullNode.prems(1) obtain ts where T: "T = TFull ts" "length ts = length cs"
    and ex: "\<And>i. i < length cs \<Longrightarrow> expands (hash_valid kc) rd (p @ [word_of_nat i]) (cs ! i) (ts ! i)"
    and fl: "flag_ok (hash_valid kc) p fl T" by auto
  have len: "length ts = 17" and ch: "\<And>i. i < 17 \<Longrightarrow> canon0 (i = 16) (ts ! i)"
    using FullNode.prems(2) T by (auto simp: canon_full)
  show ?case
  proof (cases "fl_hash fl")
    case (Some h)
    then have "hash_valid kc p h T" using fl by (simp add: flag_ok_def)
    from cached_hash[OF this _ FullNode.prems(1,4)] T(1) Some FullNode.prems(1) show ?thesis
      by (auto simp del: tenc.simps expands_simps)
  next
    case None
    have "\<exists>col cac. hash_child kc (0 + j) (cs ! j) = Ret (col, cac) \<and>
        hashed_child kc rd (p @ [word_of_nat j]) (ts ! j) col cac" if j: "j < length cs" for j
    proof (cases "cs ! j = NilNode")
      case True
      then have "ts ! j = TNil" using ex[OF j] by simp
      with True show ?thesis by (simp add: hash_child_def hashed_child_def rlp_string_def rlp_head_def)
    next
      case nn: False
      then have nT: "ts ! j \<noteq> TNil" using expands_nil_iff[OF ex[OF j]] by simp
      then have cj: "canon (j = 16) (ts ! j)" using ch[of j] j T(2) len by (simp add: canon0_def)
      have "enc_fits kc (ts ! j)" using FullNode.prems(3) T j by simp
      from FullNode.IH[of "cs ! j", OF _ ex[OF j] cj this, of False] j
      obtain col cac where c: "hasher_hash kc False (cs ! j) = Ret (col, cac)"
        "hashed_child kc rd (p @ [word_of_nat j]) (ts ! j) col cac" by auto
      have "hasher_hash kc False (cs ! j) = Ret (cs ! j, cs ! j)" if "\<not> j < 16"
      proof -
        have "j = 16" using that j T(2) len by simp
        then have "\<not> is_full (ts ! j)" "\<nexists>k d. ts ! j = TShort k d" using cj by (cases "ts ! j"; simp add: canon_full)+
        then show ?thesis using ex[OF j] expands_hash_valid[of "hash_valid kc" rd _ _ "ts ! j"]
          by (cases "cs ! j") auto
      qed
      with c nn show ?thesis by (cases "j < 16") (auto simp: hash_child_def)
    qed
    from hasher_children_ok[OF T(2) this] obtain cols cacs where cc:
      "hasher_children kc 0 cs = Ret (cols, cacs)" "length cols = length ts" "length cacs = length ts"
      "\<And>j. j < length ts \<Longrightarrow> hashed_child kc rd (p @ [word_of_nat j]) (ts ! j) (cols ! j) (cacs ! j)"
      using T(2) by auto
    have ne: "ts \<noteq> []" using len by auto
    note hf = hashed_full[OF cc(2,3) ne cc(4)]
    let ?n = "FullNode cols fl"
    have enc: "rlp (node_val ?n) = tenc kc T" "no_empty_full ?n" using hf(1,2) T(1) by metis+
    let ?h = "if length (tenc kc T) < 32 \<and> \<not> force then ?n else HashNode (kc (tenc kc T))"
    have "length (rlp (node_val ?n)) < 2 ^ 63" unfolding enc using FullNode.prems(3) T(1) by simp
    from nodeToHash_rlp[OF enc(2) this, of kc force]
    have run: "hasher_hash kc force (FullNode cs fl) = Ret (?h, FullNode cacs (fl\<lparr>fl_hash := hash_of ?h\<rparr>))"
      unfolding hasher_hash.simps(2) None option.case cc(1) enc(1) by simp
    have cac: "expands (hash_valid kc) rd p (FullNode cacs (fl\<lparr>fl_hash := hash_of ?h\<rparr>)) T"
      using hf(3) hash_flag_ok[OF FullNode.prems(4), of kc T ?n fl] unfolding T(1) by simp
    have "hashed_child kc rd p T ?h (FullNode cacs (fl\<lparr>fl_hash := hash_of ?h\<rparr>))" if "\<not> force"
      using cac enc that unfolding hashed_child_def by (auto simp: T(1) tref_of_def simp del: tenc.simps node_val.simps(2,3))
    with run cac show ?thesis by auto
  qed
qed

section \<open>Parallel hashing\<close>

lemma hasher_children_nth:
  assumes "hasher_children kc i cs = Ret (cols, cacs)"
  shows "length cols = length cs \<and> length cacs = length cs \<and>
    (\<forall>j < length cs. hash_child kc (i + j) (cs ! j) = Ret (cols ! j, cacs ! j))"
  using assms
proof (induction cs arbitrary: i cols cacs)
  case (Cons c cs)
  from Cons.prems obtain col cac cols' cacs' where c: "hash_child kc i c = Ret (col, cac)"
    "hasher_children kc (i + 1) cs = Ret (cols', cacs')" "cols = col # cols'" "cacs = cac # cacs'"
    unfolding hasher_children_Cons by (auto simp: bind_outcome_eq_Ret)
  with Cons.IH[OF c(2)] show ?case by (auto simp: nth_Cons split: nat.splits)
qed simp

lemma hasher_children_par_step:
  assumes ch: "\<And>j. j \<in> set is \<Longrightarrow> j < 16 \<and> j < length cs \<and> hash_child kc j (cs ! j) = Ret (cols ! j, cacs ! j)"
    and "distinct is" and "\<And>j. j \<in> set is \<Longrightarrow> ys ! j = cs ! j"
  shows "\<exists>xs' ys'. hasher_children_par kc is cs (xs, ys) = Ret (xs', ys') \<and>
    length xs' = length xs \<and> length ys' = length ys \<and>
    (\<forall>j < length xs. xs' ! j = (if j \<in> set is then cols ! j else xs ! j)) \<and>
    (\<forall>j < length ys. ys' ! j = (if j \<in> set is then cacs ! j else ys ! j))"
  using assms
proof (induction "is" arbitrary: xs ys)
  case Nil
  then show ?case by simp
next
  case (Cons i ins)
  let ?ys = "if cs ! i \<noteq> NilNode then ys[i := cacs ! i] else ys"
  have i: "i < 16" "i < length cs" "hash_child kc i (cs ! i) = Ret (cols ! i, cacs ! i)"
    using Cons.prems(1)[of i] by auto
  have nil: "cs ! i = NilNode \<Longrightarrow> cacs ! i = ys ! i"
    using i Cons.prems(3)[of i] by (auto simp: hash_child_def)
  have "hasher_children_par kc (i # ins) cs (xs, ys) = hasher_children_par kc ins cs (xs[i := cols ! i], ?ys)"
    using i by (auto simp: hash_child_def index_def)
  moreover have "?ys ! j = cs ! j" if "j \<in> set ins" for j
    using Cons.prems(2,3) that by (cases "j = i") auto
  ultimately show ?case
    using Cons.IH[of ?ys "xs[i := cols ! i]"] Cons.prems(1,2) nil by (auto simp: nth_list_update)
qed

lemma hasher_children_par_order:
  assumes "hasher_children kc 0 cs = Ret r" "distinct order" "set order = {..<16}" "length cs = 17"
  shows "hashFullNodeChildren_par kc order cs = Ret r"
proof -
  obtain cols cacs where r: "r = (cols, cacs)" by (cases r)
  with assms(1) hasher_children_nth[of kc 0 cs cols cacs] have n: "length cols = 17" "length cacs = 17"
    "\<And>j. j < 17 \<Longrightarrow> hash_child kc j (cs ! j) = Ret (cols ! j, cacs ! j)"
    using assms(4) by auto
  have last: "cols ! 16 = cs ! 16" "cacs ! 16 = cs ! 16" using n(3)[of 16] by (auto simp: hash_child_def)
  have sel: "cs ! j = cols ! j \<and> cs ! j = cacs ! j" if "j < 17" "\<not> j < 16" for j
  proof -
    have "j = 16" using that by linarith
    with last show ?thesis by simp
  qed
  obtain xs' ys' where p: "hasher_children_par kc order cs (cs, cs) = Ret (xs', ys')" "length xs' = 17" "length ys' = 17"
    "\<And>j. j < 17 \<Longrightarrow> xs' ! j = (if j < 16 then cols ! j else cs ! j)"
    "\<And>j. j < 17 \<Longrightarrow> ys' ! j = (if j < 16 then cacs ! j else cs ! j)"
    using hasher_children_par_step[of order cs kc cols cacs cs cs] n(3) assms(2-4) by auto
  have "xs' ! j = cols ! j" "ys' ! j = cacs ! j" if "j < 17" for j
    using p(4,5)[OF that] sel[OF that] by (cases "j < 16"; simp)+
  then have "xs' = cols" "ys' = cacs" using p(2,3) n by (simp_all add: list_eq_iff_nth_eq)
  with p(1) show ?thesis by (simp add: hashFullNodeChildren_par_def r)
qed

text \<open>The full node a parallel hasher splits up, below short nodes, has its 17 places.\<close>

fun top_full :: "node \<Rightarrow> bool" where
  "top_full (ShortNode k c fl) = top_full c"
| "top_full (FullNode cs fl) = (length cs = 17)"
| "top_full n = True"

lemma expands_top_full: "expands V rd p n T \<Longrightarrow> canon e T \<Longrightarrow> top_full n"
proof (induction n arbitrary: p T e)
  case (ShortNode k c fl)
  then show ?case by (fastforce split: if_splits)
next
  case (FullNode cs fl)
  then show ?case by (auto simp: canon_full)
qed simp_all

lemma hasher_short_child_par:
  "(case c of FullNode _ _ \<Rightarrow> hasher_hash_par kc o1 f c | ShortNode _ _ _ \<Rightarrow> hasher_hash_par kc o1 f c | _ \<Rightarrow> Ret (c, c)) =
     hasher_hash_par kc o1 f c"
  by (cases c) simp_all

lemma hasher_hash_par_eq:
  assumes "distinct order" "set order = {..<16}"
  shows "hasher_hash kc force n = Ret r \<Longrightarrow> top_full n \<Longrightarrow> hasher_hash_par kc order force n = Ret r"
proof (induction n arbitrary: force r)
  case (ShortNode k c fl)
  show ?case
  proof (cases "fl_hash fl")
    case None
    with ShortNode.prems obtain x where "hasher_hash kc False c = Ret x"
      by (auto simp: hasher_short_child bind_outcome_eq_Ret)
    then have "hasher_hash_par kc order False c = hasher_hash kc False c" using ShortNode.IH ShortNode.prems(2) by simp
    with ShortNode.prems(1) None show ?thesis by (simp add: hasher_short_child hasher_short_child_par)
  qed (use ShortNode.prems in simp)
next
  case (FullNode cs fl)
  show ?case
  proof (cases "fl_hash fl")
    case None
    with FullNode.prems obtain x where x: "hasher_children kc 0 cs = Ret x" by (auto simp: bind_outcome_eq_Ret)
    have "length cs = 17" using FullNode.prems(2) by simp
    from hasher_children_par_order[OF x assms this] FullNode.prems(1) None x show ?thesis by simp
  qed (use FullNode.prems in simp)
qed simp_all

section \<open>The root hash of a trie\<close>

lemma Trie_Hash_root:
  assumes t: "trie_tree (hash_valid kc) t T" and fits: "enc_fits kc T" and order: "distinct order" "set order = {..<16}"
  shows "\<exists>t'. Trie_Hash kc order t = Ret (tree_root kc T, t') \<and> trie_tree (hash_valid kc) t' T \<and> t_tracer t' = t_tracer t"
proof (cases "T = TNil")
  case True
  then have "t_root t = NilNode" using t expands_nil_iff by (auto simp: trie_tree_def)
  then show ?thesis
    using t True by (auto simp: Trie_Hash_def Trie_hashRoot_def tree_root_def trie_tree_def BytesToHash_hash_bytes)
next
  case False
  have ex: "expands (hash_valid kc) (t_reader t) [] (t_root t) T" and c: "canon False T"
    using t False by (auto simp: trie_tree_def canon0_def)
  have nn: "t_root t \<noteq> NilNode" using expands_nil_iff[OF ex] False by simp
  from hash_sim[OF ex c fits, of True] obtain cac where
    h: "hasher_hash kc True (t_root t) = Ret (HashNode (kc (tenc kc T)), cac)"
    "expands (hash_valid kc) (t_reader t) [] cac T" by auto
  from hasher_hash_par_eq[OF order h(1) expands_top_full[OF ex c]] h t nn False show ?thesis
    by (auto simp: Trie_Hash_def Trie_hashRoot_def tree_root_def trie_tree_def)
qed

section \<open>Properties\<close>

text \<open>A checksum in the place of Keccak, and tries with a history, for the examples.\<close>

definition checksum :: keccak where
  "checksum b = replicate 31 0 @ [sum_list b]"

definition leaf_value :: bytes where
  "leaf_value = replicate 40 1"

definition two_leaves :: tree where
  "two_leaves = tinsert (tinsert TNil (keybytesToHex [0x11]) (TVal leaf_value)) (keybytesToHex [0x12]) (TVal leaf_value)"

lemma two_leaves_fits: "enc_fits checksum two_leaves"
  by (rule enc_within_fits) code_simp

lemma two_leaves_history:
  "\<exists>t1 t. Trie_Update [0x11] leaf_value mem_trie = (Ret (), t1) \<and> Trie_Update [0x12] leaf_value t1 = (Ret (), t) \<and>
     trie_tree V t two_leaves \<and> content two_leaves = [[0x11] \<mapsto> leaf_value, [0x12] \<mapsto> leaf_value]"
proof -
  have v: "leaf_value \<noteq> []" by (simp add: leaf_value_def)
  have e: "content TNil = Map.empty" by (simp add: content_def fun_eq_iff)
  obtain t1 where t1: "Trie_Update [0x11] leaf_value mem_trie = (Ret (), t1)"
    "trie_tree V t1 (tinsert TNil (keybytesToHex [0x11]) (TVal leaf_value))"
    "content (tinsert TNil (keybytesToHex [0x11]) (TVal leaf_value)) = [[0x11] \<mapsto> leaf_value]"
    using Trie_Update_tree[OF mem_trie_tree v, of "[0x11]"] e by metis
  from Trie_Update_tree[OF t1(2) v, of "[0x12]"] t1(1,3) show ?thesis unfolding two_leaves_def by metis
qed

text \<open>C23. \<open>Hash\<close> is the Merkle root: on a trie whose cached hashes are right, \<open>Hash\<close> returns the Keccak
  hash of the root's RLP encoding in which every child of at least 32 bytes is replaced by its hash,
  computed over the whole expanded tree, be the hasher sequential or, from 100 changes on, parallel with its goroutines
  finishing in any order; the trie it leaves behind stands for the same tree and its cached hashes are right again.\<close>

theorem Trie_Hash_merkle_root:
  "trie_tree (hash_valid kc) t T \<Longrightarrow> enc_fits kc T \<Longrightarrow> distinct order \<Longrightarrow> set order = {..<16} \<Longrightarrow>
     \<exists>t'. Trie_Hash kc order t = Ret (tree_root kc T, t') \<and> trie_tree (hash_valid kc) t' T"
  using Trie_Hash_root by blast

theorem Trie_Hash_merkle_root_witness:
  "\<exists>t1 t t' u u'. Trie_Update [0x11] leaf_value mem_trie = (Ret (), t1) \<and> Trie_Update [0x12] leaf_value t1 = (Ret (), t) \<and>
     Trie_Hash checksum [0..<16] t = Ret (80, t') \<and> Trie_Hash checksum [0..<16] t' = Ret (80, u) \<and>
     Trie_Hash checksum (rev [0..<16]) (t\<lparr>t_unhashed := 100\<rparr>) = Ret (80, u')"
proof -
  obtain t1 t where t: "Trie_Update [0x11] leaf_value mem_trie = (Ret (), t1)" "Trie_Update [0x12] leaf_value t1 = (Ret (), t)"
    "trie_tree (hash_valid checksum) t two_leaves" using two_leaves_history by blast
  have r: "tree_root checksum two_leaves = 80" by code_simp
  have s16: "{0..<16 :: nat} = {..<16}" by auto
  note H = Trie_Hash_merkle_root[OF _ two_leaves_fits, unfolded r]
  obtain t' where t': "Trie_Hash checksum [0..<16] t = Ret (80, t')" "trie_tree (hash_valid checksum) t' two_leaves"
    using H[OF t(3), of "[0..<16]"] s16 by auto
  have "trie_tree (hash_valid checksum) (t\<lparr>t_unhashed := 100\<rparr>) two_leaves" using t(3) by (simp add: trie_tree_def)
  from H[OF this, of "rev [0..<16]"] H[OF t'(2), of "[0..<16]"] t t'(1) s16 show ?thesis by auto
qed

text \<open>C24. The root hash depends on the content only: two tries with right cached hashes that hold the
  same key-value pairs have the same \<open>Hash\<close>, whatever writes and deletions led to them and in whatever order
  parallel hashers finish.\<close>

theorem root_hash_content:
  "trie_tree (hash_valid kc) t T \<Longrightarrow> trie_tree (hash_valid kc) t' T' \<Longrightarrow> content T = content T' \<Longrightarrow>
     enc_fits kc T \<Longrightarrow> distinct order \<Longrightarrow> set order = {..<16} \<Longrightarrow> distinct order' \<Longrightarrow> set order' = {..<16} \<Longrightarrow>
     \<exists>h u u'. Trie_Hash kc order t = Ret (h, u) \<and> Trie_Hash kc order' t' = Ret (h, u')"
proof -
  assume t: "trie_tree (hash_valid kc) t T" "trie_tree (hash_valid kc) t' T'" "content T = content T'"
    and fits: "enc_fits kc T" and order: "distinct order" "set order = {..<16}" "distinct order'" "set order' = {..<16}"
  then have "T = T'" by (intro content_unique) (auto simp: trie_tree_def)
  with Trie_Hash_root[OF t(1) fits order(1,2)] Trie_Hash_root[OF t(2) _ order(3,4)] fits show ?thesis by blast
qed

text \<open>
  Two histories of the same content: the second writes the keys in the other order, with a third key that is hashed along and
  deleted again.
\<close>

theorem root_hash_content_witness:
  "\<exists>t1 t s1 s2 s3 h3 s4 s h u u'.
     Trie_Update [0x11] leaf_value mem_trie = (Ret (), t1) \<and> Trie_Update [0x12] leaf_value t1 = (Ret (), t) \<and>
     Trie_Update [0x12] leaf_value mem_trie = (Ret (), s1) \<and> Trie_Update [0x13] [7] s1 = (Ret (), s2) \<and>
     Trie_Hash checksum [0..<16] s2 = Ret (h3, s3) \<and>
     Trie_Update [0x11] leaf_value s3 = (Ret (), s4) \<and> Trie_Delete [0x13] s4 = (Ret (), s) \<and>
     Trie_Hash checksum [0..<16] t = Ret (h, u) \<and> Trie_Hash checksum [0..<16] s = Ret (h, u')"
proof -
  let ?V = "hash_valid checksum"
  have v: "leaf_value \<noteq> []" by (simp add: leaf_value_def)
  have o1: "distinct [0..<16]" "set [0..<16] = {..<16}" by auto
  have e: "content TNil = Map.empty" by (simp add: content_def fun_eq_iff)
  obtain t1 t where t: "Trie_Update [0x11] leaf_value mem_trie = (Ret (), t1)" "Trie_Update [0x12] leaf_value t1 = (Ret (), t)"
    "trie_tree ?V t two_leaves" "content two_leaves = [[0x11] \<mapsto> leaf_value, [0x12] \<mapsto> leaf_value]"
    using two_leaves_history by blast
  define S2 where "S2 = tinsert (tinsert TNil (keybytesToHex [0x12]) (TVal leaf_value)) (keybytesToHex [0x13]) (TVal [7])"
  obtain s1 where s1: "Trie_Update [0x12] leaf_value mem_trie = (Ret (), s1)"
    "trie_tree ?V s1 (tinsert TNil (keybytesToHex [0x12]) (TVal leaf_value))"
    "content (tinsert TNil (keybytesToHex [0x12]) (TVal leaf_value)) = [[0x12] \<mapsto> leaf_value]"
    using Trie_Update_tree[OF mem_trie_tree v, of "[0x12]"] e by metis
  obtain s2 where s2: "Trie_Update [0x13] [7] s1 = (Ret (), s2)" "trie_tree ?V s2 S2"
    "content S2 = [[0x12] \<mapsto> leaf_value, [0x13] \<mapsto> [7]]"
    using Trie_Update_tree[OF s1(2), of "[7]" "[0x13]"] s1(3) unfolding S2_def by (metis list.distinct(1))
  have "enc_fits checksum S2" unfolding S2_def by (rule enc_within_fits) code_simp
  from Trie_Hash_root[OF s2(2) this o1] obtain h3 s3 where s3: "Trie_Hash checksum [0..<16] s2 = Ret (h3, s3)"
    "trie_tree ?V s3 S2" by blast
  obtain s4 S4 where s4: "Trie_Update [0x11] leaf_value s3 = (Ret (), s4)" "trie_tree ?V s4 S4"
    "content S4 = (content S2)([0x11] \<mapsto> leaf_value)" using Trie_Update_tree[OF s3(2) v, of "[0x11]"] by blast
  obtain s S where s: "Trie_Delete [0x13] s4 = (Ret (), s)" "trie_tree ?V s S" "content S = (content S4)([0x13] := None)"
    using Trie_Delete_tree[OF s4(2), of "[0x13]"] by blast
  have "content two_leaves = content S" unfolding s(3) s4(3) s2(3) t(4) by (simp add: fun_eq_iff)
  from root_hash_content[OF t(3) s(2) this two_leaves_fits o1 o1] t s1 s2 s3 s4 s show ?thesis by blast
qed

text \<open>C25. Hashing the children of a branch in parallel is deterministic: in whatever order the sixteen
  goroutines write their slots, the collapsed and cached children are those of the sequential loop.\<close>

theorem parallel_hash_deterministic:
  "hasher_children kc 0 cs = Ret r \<Longrightarrow> distinct order \<Longrightarrow> set order = {..<16} \<Longrightarrow> length cs = 17 \<Longrightarrow>
     hashFullNodeChildren_par kc order cs = Ret r"
  by (rule hasher_children_par_order)

theorem parallel_hash_deterministic_witness:
  "hashFullNodeChildren_par (\<lambda>b. b) (rev [0..<16]) (replicate 16 (HashNode [1]) @ [NilNode]) =
     Ret (replicate 16 (HashNode [1]) @ [NilNode], replicate 16 (HashNode [1]) @ [NilNode])"
proof -
  have "hasher_children (\<lambda>b. b) 0 (replicate 16 (HashNode [1]) @ [NilNode]) =
     Ret (replicate 16 (HashNode [1]) @ [NilNode], replicate 16 (HashNode [1]) @ [NilNode])"
    by (simp add: eval_nat_numeral)
  then show ?thesis by (rule parallel_hash_deterministic) auto
qed

end
