(* ===== verification/Undo_Interface.thy ===== *)
theory Undo_Interface
  imports Prelude
begin

text \<open>
  The contract between a journal and the state it can roll back. The state is observed through a view;
  a journal entry has an effect on views (\<open>undo\<close>) that the code's \<open>revert\<close> implements. From that
  single law the locale derives what the snapshot mechanism needs: reverting a whole batch of entries
  implements undoing it, and steps that can be undone compose.
\<close>

text \<open>Undoing a batch of entries on views, in the order given.\<close>

primrec undo_all :: "('e \<Rightarrow> 'v \<Rightarrow> 'v option) \<Rightarrow> 'e list \<Rightarrow> 'v \<Rightarrow> 'v option" where
  "undo_all undo [] v = Some v"
| "undo_all undo (e # es) v = Option.bind (undo e v) (undo_all undo es)"

text \<open>Reverting a batch of entries on states, in the order given.\<close>

primrec revert_all :: "('e \<Rightarrow> ('s, 'x, unit) stm) \<Rightarrow> 'e list \<Rightarrow> ('s, 'x, unit) stm" where
  "revert_all rv [] = ret_st ()"
| "revert_all rv (e # es) = bind_st (rv e) (\<lambda>_. revert_all rv es)"

lemma undo_all_append: "undo_all u (es @ fs) v = Option.bind (undo_all u es v) (undo_all u fs)"
  by (induction es arbitrary: v) (auto split: Option.bind_split)

text \<open>
  \<open>s'\<close> extends \<open>s\<close>: its journal has further entries, and undoing those, newest first, gives back
  the view of \<open>s\<close>.
\<close>

definition extends :: "('e \<Rightarrow> 'v \<Rightarrow> 'v option) \<Rightarrow> ('s \<Rightarrow> 'v) \<Rightarrow> ('s \<Rightarrow> 'e list) \<Rightarrow> 's \<Rightarrow> 's \<Rightarrow> bool" where
  "extends undo view entries s s' \<longleftrightarrow>
     (\<exists>es. entries s' = entries s @ es \<and> undo_all undo (rev es) (view s') = Some (view s))"

lemma extends_refl [simp]: "extends u vw en s s"
  by (simp add: extends_def)

lemma extends_same: "en s' = en s \<Longrightarrow> vw s' = vw s \<Longrightarrow> extends u vw en s s'"
  by (simp add: extends_def)

lemma extends_one: "en s' = en s @ [e] \<Longrightarrow> u e (vw s') = Some (vw s) \<Longrightarrow> extends u vw en s s'"
  by (auto simp: extends_def)

lemma extends_trans:
  assumes "extends u vw en s1 s2" "extends u vw en s2 s3"
  shows "extends u vw en s1 s3"
proof -
  obtain es fs where "en s2 = en s1 @ es" "undo_all u (rev es) (vw s2) = Some (vw s1)"
    "en s3 = en s2 @ fs" "undo_all u (rev fs) (vw s3) = Some (vw s2)"
    using assms unfolding extends_def by blast
  then have "en s3 = en s1 @ es @ fs" "undo_all u (rev (es @ fs)) (vw s3) = Some (vw s1)"
    by (simp_all add: undo_all_append)
  then show ?thesis unfolding extends_def by blast
qed

text \<open>The view at journal length \<open>n\<close>, rebuilt from the current view.\<close>

definition view_at :: "('e \<Rightarrow> 'v \<Rightarrow> 'v option) \<Rightarrow> ('s \<Rightarrow> 'v) \<Rightarrow> ('s \<Rightarrow> 'e list) \<Rightarrow> nat \<Rightarrow> 's \<Rightarrow> 'v option" where
  "view_at undo view entries n s = undo_all undo (rev (drop n (entries s))) (view s)"

lemma view_at_now [simp]: "view_at u vw en (length (en s)) s = Some (vw s)"
  by (simp add: view_at_def)

lemma view_at_extends:
  assumes "extends u vw en s s'" "n \<le> length (en s)"
  shows "view_at u vw en n s' = view_at u vw en n s"
  using assms by (auto simp: extends_def view_at_def undo_all_append)

text \<open>After the entries from \<open>m\<close> on are dropped, the views at the earlier points are the same.\<close>

lemma view_at_truncate:
  assumes "n \<le> m" "m \<le> length (en s)" "view_at u vw en m s = Some (vw s')" "en s' = take m (en s)"
  shows "view_at u vw en n s' = view_at u vw en n s"
proof -
  have "drop n (en s) = drop n (take m (en s)) @ drop m (en s)"
    by (metis assms(1,2) append_take_drop_id drop_append diff_is_0_eq drop_0 length_take min.absorb2)
  then show ?thesis using assms(3,4) by (simp add: view_at_def undo_all_append)
qed

locale undo_journal =
  fixes rv :: "'e \<Rightarrow> ('s, 'x, unit) stm"
    and undo :: "'e \<Rightarrow> 'v \<Rightarrow> 'v option"
    and view :: "'s \<Rightarrow> 'v"
    and wf :: "'s \<Rightarrow> bool"
  assumes revert_undo: "wf s \<Longrightarrow> undo e (view s) = Some v \<Longrightarrow> \<exists>s'. rv e s = (Ret (), s') \<and> view s' = v \<and> wf s'"
begin

lemma revert_all_undo:
  assumes "wf s" "undo_all undo es (view s) = Some v"
  shows "\<exists>s'. revert_all rv es s = (Ret (), s') \<and> view s' = v \<and> wf s'"
  using assms
proof (induction es arbitrary: s)
  case Nil
  then show ?case by simp
next
  case (Cons e es)
  then obtain v1 where v1: "undo e (view s) = Some v1" "undo_all undo es v1 = Some v"
    by (auto simp: bind_eq_Some_conv)
  obtain s1 where s1: "rv e s = (Ret (), s1)" "view s1 = v1" "wf s1"
    using revert_undo[OF Cons.prems(1) v1(1)] by blast
  obtain s' where "revert_all rv es s1 = (Ret (), s')" "view s' = v" "wf s'"
    using Cons.IH[OF s1(3)] v1(2) s1(2) by blast
  then show ?case using s1(1) by simp
qed

end

end
