(* ===== verification/State_AccessList.thy ===== *)
theory State_AccessList
  imports Prelude
begin

text \<open>
  The per-transaction access list of EIP-2929/2930 (\<open>core/state/access_list.go\<close>) and the transient
  storage of EIP-1153 (\<open>core/state/transient_storage.go\<close>). The access list keeps one slot set per
  address in a slice that only ever grows and shrinks at its end; the lemmas show that this layout
  represents a set of addresses and a set of (address, slot) pairs, and that the deletions the journal
  performs undo the additions exactly.
\<close>

section \<open>Access list\<close>

text \<open>
  \<open>al_addresses\<close> maps an address to the index of its slot set in \<open>al_slots\<close>, or to -1 when the
  address has no slots.
\<close>

record accessList =
  al_addresses :: "address \<rightharpoonup> int"
  al_slots :: "hash set list"

definition newAccessList :: accessList where
  "newAccessList = \<lparr>al_addresses = Map.empty, al_slots = []\<rparr>"

definition ContainsAddress :: "accessList \<Rightarrow> address \<Rightarrow> bool" where
  "ContainsAddress al a = (al_addresses al a \<noteq> None)"

text \<open>
  \<open>al.slots[idx]\<close> with a signed index: Go panics on a negative index as well as beyond the end.
\<close>

definition slots_index :: "accessList \<Rightarrow> int \<Rightarrow> (string, hash set) outcome" where
  "slots_index al i = (if i < 0 then Panic else index (al_slots al) (nat i))"

definition al_Contains :: "accessList \<Rightarrow> address \<Rightarrow> hash \<Rightarrow> (string, bool \<times> bool) outcome" where
  "al_Contains al a slot =
     (case al_addresses al a of
        None \<Rightarrow> Ret (False, False)
      | Some idx \<Rightarrow>
          if idx = -1 then Ret (True, False)
          else bind_outcome (slots_index al idx) (\<lambda>m. Ret (True, slot \<in> m)))"

definition AddAddress :: "address \<Rightarrow> accessList \<Rightarrow> bool \<times> accessList" where
  "AddAddress a al =
     (if al_addresses al a \<noteq> None then (False, al)
      else (True, al\<lparr>al_addresses := (al_addresses al)(a \<mapsto> -1)\<rparr>))"

definition AddSlot :: "address \<Rightarrow> hash \<Rightarrow> accessList \<Rightarrow> (string, (bool \<times> bool) \<times> accessList) outcome" where
  "AddSlot a slot al =
     (case al_addresses al a of
        None \<Rightarrow>
          Ret ((True, True),
               al\<lparr>al_addresses := (al_addresses al)(a \<mapsto> int (length (al_slots al))),
                  al_slots := al_slots al @ [{slot}]\<rparr>)
      | Some idx \<Rightarrow>
          if idx = -1 then
            Ret ((False, True),
                 al\<lparr>al_addresses := (al_addresses al)(a \<mapsto> int (length (al_slots al))),
                    al_slots := al_slots al @ [{slot}]\<rparr>)
          else
            bind_outcome (slots_index al idx) (\<lambda>m.
              if slot \<notin> m then
                Ret ((False, True), al\<lparr>al_slots := (al_slots al)[nat idx := insert slot m]\<rparr>)
              else Ret ((False, False), al)))"

definition DeleteSlot :: "address \<Rightarrow> hash \<Rightarrow> accessList \<Rightarrow> (string, accessList) outcome" where
  "DeleteSlot a slot al =
     (case al_addresses al a of
        None \<Rightarrow> Panic
      | Some idx \<Rightarrow>
          bind_outcome (slots_index al idx) (\<lambda>m.
            let m' = m - {slot} in
            if m' = {} then
              bind_outcome (slice (al_slots al) 0 (nat idx)) (\<lambda>sl.
                Ret (al\<lparr>al_slots := sl, al_addresses := (al_addresses al)(a \<mapsto> -1)\<rparr>))
            else Ret (al\<lparr>al_slots := (al_slots al)[nat idx := m']\<rparr>)))"

definition DeleteAddress :: "address \<Rightarrow> accessList \<Rightarrow> accessList" where
  "DeleteAddress a al = al\<lparr>al_addresses := (al_addresses al)(a := None)\<rparr>"

subsection \<open>Representation invariant\<close>

text \<open>
  Every index other than -1 is in range and belongs to one address only, and no slot set in use is
  empty.
\<close>

definition al_ok :: "accessList \<Rightarrow> bool" where
  "al_ok al \<longleftrightarrow>
     (\<forall>a i. al_addresses al a = Some i \<longrightarrow> i = -1 \<or> (0 \<le> i \<and> nat i < length (al_slots al))) \<and>
     (\<forall>a b i. al_addresses al a = Some i \<longrightarrow> al_addresses al b = Some i \<longrightarrow> i \<noteq> -1 \<longrightarrow> a = b) \<and>
     (\<forall>m \<in> set (al_slots al). m \<noteq> {})"

text \<open>What the access list denotes: the warm addresses and the warm slots.\<close>

definition warm_addrs :: "accessList \<Rightarrow> address set" where
  "warm_addrs al = dom (al_addresses al)"

definition warm_slots :: "accessList \<Rightarrow> (address \<times> hash) set" where
  "warm_slots al =
     {(a, k). \<exists>i. al_addresses al a = Some i \<and> 0 \<le> i \<and> nat i < length (al_slots al) \<and> k \<in> al_slots al ! nat i}"

lemma newAccessList_ok [simp]: "al_ok newAccessList"
  by (simp add: al_ok_def newAccessList_def)

lemma newAccessList_warm [simp]: "warm_addrs newAccessList = {}" "warm_slots newAccessList = {}"
  by (auto simp: newAccessList_def warm_addrs_def warm_slots_def)

lemma al_okD:
  assumes "al_ok al" "al_addresses al a = Some i" "i \<noteq> -1"
  shows "0 \<le> i" "nat i < length (al_slots al)" "al_slots al ! nat i \<noteq> {}"
    and "\<And>b. al_addresses al b = Some i \<Longrightarrow> b = a"
proof -
  show 1: "0 \<le> i" "nat i < length (al_slots al)" using assms unfolding al_ok_def by blast+
  show "al_slots al ! nat i \<noteq> {}" using assms(1) nth_mem[OF 1(2)] unfolding al_ok_def by blast
  show "\<And>b. al_addresses al b = Some i \<Longrightarrow> b = a" using assms unfolding al_ok_def by blast
qed

lemma al_ok_slots: "al_ok al \<Longrightarrow> m \<in> set (al_slots al) \<Longrightarrow> m \<noteq> {}"
  unfolding al_ok_def by blast

lemma al_okI:
  assumes "\<And>a i. al_addresses al a = Some i \<Longrightarrow> i \<noteq> -1 \<Longrightarrow> 0 \<le> i \<and> nat i < length (al_slots al)"
    and "\<And>a b i. al_addresses al a = Some i \<Longrightarrow> al_addresses al b = Some i \<Longrightarrow> i \<noteq> -1 \<Longrightarrow> a = b"
    and "\<And>m. m \<in> set (al_slots al) \<Longrightarrow> m \<noteq> {}"
  shows "al_ok al"
  using assms unfolding al_ok_def by blast

lemma slots_index_ok:
  assumes "al_ok al" "al_addresses al a = Some i" "i \<noteq> -1"
  shows "slots_index al i = Ret (al_slots al ! nat i)"
  using al_okD[OF assms] by (simp add: slots_index_def index_def)

lemma al_Contains_correct:
  assumes "al_ok al"
  shows "al_Contains al a slot = Ret (a \<in> warm_addrs al, (a, slot) \<in> warm_slots al)"
proof (cases "al_addresses al a")
  case None
  then show ?thesis by (auto simp: al_Contains_def warm_addrs_def warm_slots_def)
next
  case (Some i)
  show ?thesis
  proof (cases "i = -1")
    case True
    then show ?thesis using Some by (auto simp: al_Contains_def warm_addrs_def warm_slots_def)
  next
    case False
    show ?thesis
      using Some False al_okD(1,2)[OF assms Some False]
      by (auto simp: al_Contains_def warm_addrs_def warm_slots_def slots_index_ok[OF assms Some False])
  qed
qed

lemma AddAddress_correct:
  assumes "al_ok al" "AddAddress a al = (c, al')"
  shows "al_ok al'" "warm_addrs al' = insert a (warm_addrs al)" "warm_slots al' = warm_slots al"
    and "c \<longleftrightarrow> a \<notin> warm_addrs al"
proof -
  show "al_ok al'"
  proof (cases "al_addresses al a")
    case None
    then have al': "al' = al\<lparr>al_addresses := (al_addresses al)(a \<mapsto> -1)\<rparr>"
      using assms(2) by (simp add: AddAddress_def)
    show ?thesis unfolding al'
      by (rule al_okI) (use al_okD[OF assms(1)] al_ok_slots[OF assms(1)] in \<open>auto split: if_splits\<close>)
  qed (use assms in \<open>simp add: AddAddress_def\<close>)
  show "warm_addrs al' = insert a (warm_addrs al)" "c \<longleftrightarrow> a \<notin> warm_addrs al"
    using assms(2) by (auto simp: AddAddress_def warm_addrs_def split: if_splits)
  show "warm_slots al' = warm_slots al"
    using assms(2) by (auto simp: AddAddress_def warm_slots_def split: if_splits)
qed

text \<open>The two ways \<open>AddSlot\<close> changes the list: a first slot, and a further slot of an address.\<close>

lemma AddSlot_first:
  fixes slot :: hash
  assumes ok: "al_ok al" and a: "al_addresses al a = None \<or> al_addresses al a = Some (-1)"
  defines "al' \<equiv> al\<lparr>al_addresses := (al_addresses al)(a \<mapsto> int (length (al_slots al))),
                     al_slots := al_slots al @ [{slot}]\<rparr>"
  shows "AddSlot a slot al = Ret ((a \<notin> warm_addrs al, True), al')"
    and "al_ok al'" "warm_addrs al' = insert a (warm_addrs al)"
    and "warm_slots al' = insert (a, slot) (warm_slots al)"
    and "DeleteSlot a slot al' = Ret (al\<lparr>al_addresses := (al_addresses al)(a \<mapsto> -1)\<rparr>)"
proof -
  show "AddSlot a slot al = Ret ((a \<notin> warm_addrs al, True), al')"
    using a by (auto simp: AddSlot_def al'_def warm_addrs_def)
  have rng: "nat i < length (al_slots al)" if "al_addresses al b = Some i" "i \<noteq> -1" for b i
    using al_okD[OF ok that] by simp
  have fresh: "al_addresses al b \<noteq> Some (int (length (al_slots al)))" for b
    using rng[of b "int (length (al_slots al))"] by auto
  show "al_ok al'"
  proof (rule al_okI)
    show "0 \<le> i \<and> nat i < length (al_slots al')" if "al_addresses al' b = Some i" "i \<noteq> -1" for b i
      using that al_okD(1,2)[OF ok] by (auto simp: al'_def less_Suc_eq split: if_splits)
    show "b = c" if "al_addresses al' b = Some i" "al_addresses al' c = Some i" "i \<noteq> -1" for b c i
      using that fresh al_okD(4)[OF ok, of b i c] by (auto simp: al'_def split: if_splits)
    show "m \<noteq> {}" if "m \<in> set (al_slots al')" for m
      using that al_ok_slots[OF ok] by (auto simp: al'_def)
  qed
  show "warm_addrs al' = insert a (warm_addrs al)" by (simp add: warm_addrs_def al'_def)
  show "warm_slots al' = insert (a, slot) (warm_slots al)"
  proof (rule set_eqI, clarify)
    fix b k
    show "(b, k) \<in> warm_slots al' \<longleftrightarrow> (b, k) \<in> insert (a, slot) (warm_slots al)"
    proof (cases "b = a")
      case True
      then show ?thesis using a by (auto simp: warm_slots_def al'_def)
    next
      case False
      have "nat i < length (al_slots al)" if "al_addresses al b = Some i" "0 \<le> i" for i
        using rng[OF that(1)] that(2) by simp
      then show ?thesis using False by (auto simp: warm_slots_def al'_def nth_append)
    qed
  qed
  show "DeleteSlot a slot al' = Ret (al\<lparr>al_addresses := (al_addresses al)(a \<mapsto> -1)\<rparr>)"
    by (simp add: DeleteSlot_def al'_def slots_index_def index_def slice_def)
qed

lemma AddSlot_further:
  assumes ok: "al_ok al" and a: "al_addresses al a = Some i" "i \<noteq> -1" and new: "slot \<notin> al_slots al ! nat i"
  defines "al' \<equiv> al\<lparr>al_slots := (al_slots al)[nat i := insert slot (al_slots al ! nat i)]\<rparr>"
  shows "AddSlot a slot al = Ret ((False, True), al')"
    and "al_ok al'" "warm_addrs al' = warm_addrs al" "warm_slots al' = insert (a, slot) (warm_slots al)"
    and "DeleteSlot a slot al' = Ret al"
proof -
  note d = al_okD[OF ok a]
  show "AddSlot a slot al = Ret ((False, True), al')"
    using a new by (simp add: AddSlot_def al'_def slots_index_ok[OF ok a])
  show "al_ok al'"
    using ok unfolding al_ok_def al'_def by (auto dest!: set_update_subset_insert[THEN subsetD])
  show "warm_addrs al' = warm_addrs al" by (simp add: warm_addrs_def al'_def)
  have idx: "b = a \<and> j = i" if "al_addresses al b = Some j" "0 \<le> j" "nat j = nat i" for b j
    using d(1,4) that by (metis eq_nat_nat_iff)
  show "warm_slots al' = insert (a, slot) (warm_slots al)"
  proof (rule set_eqI, clarify)
    fix b k
    show "(b, k) \<in> warm_slots al' \<longleftrightarrow> (b, k) \<in> insert (a, slot) (warm_slots al)"
    proof (cases "b = a")
      case True
      then show ?thesis using a d(1,2) by (auto simp: warm_slots_def al'_def)
    next
      case False
      have "nat j \<noteq> nat i" if "al_addresses al b = Some j" "0 \<le> j" for j
        using idx[OF that] False by blast
      then show ?thesis using False by (auto simp: warm_slots_def al'_def)
    qed
  qed
  show "DeleteSlot a slot al' = Ret al"
  proof -
    have "insert slot (al_slots al ! nat i) - {slot} = al_slots al ! nat i" using new by auto
    moreover have "\<not> al_slots al ! nat i \<subseteq> {slot}" using new d(3) by auto
    ultimately show ?thesis
      using d(1,2,3) a(1) by (simp add: DeleteSlot_def al'_def slots_index_def index_def)
  qed
qed

lemma AddSlot_correct:
  assumes ok: "al_ok al"
  shows "\<exists>al'. AddSlot a slot al = Ret ((a \<notin> warm_addrs al, (a, slot) \<notin> warm_slots al), al') \<and> al_ok al' \<and>
      warm_addrs al' = insert a (warm_addrs al) \<and> warm_slots al' = insert (a, slot) (warm_slots al)"
proof (cases "al_addresses al a = None \<or> al_addresses al a = Some (-1)")
  case True
  then have "(a, slot) \<notin> warm_slots al" by (auto simp: warm_slots_def)
  then show ?thesis using AddSlot_first(1,2,3,4)[OF ok True, of slot] by auto
next
  case False
  then obtain i where a: "al_addresses al a = Some i" "i \<noteq> -1" by auto
  note d = al_okD(1,2)[OF ok a]
  have mem: "(a, slot) \<in> warm_slots al \<longleftrightarrow> slot \<in> al_slots al ! nat i"
    using a d by (auto simp: warm_slots_def)
  have in_addrs: "insert a (warm_addrs al) = warm_addrs al" "a \<in> warm_addrs al"
    using a by (auto simp: warm_addrs_def)
  show ?thesis
  proof (cases "slot \<in> al_slots al ! nat i")
    case True
    then have "AddSlot a slot al = Ret ((False, False), al)"
      using a by (simp add: AddSlot_def slots_index_ok[OF ok a])
    then show ?thesis using True mem in_addrs ok by (auto simp: insert_absorb)
  next
    case new: False
    show ?thesis using AddSlot_further(1-4)[OF ok a new] mem new in_addrs by auto
  qed
qed

text \<open>
  The journal deletes what it recorded, newest entry first: the slot when one was added, then the
  address when it was added. The list is then the very list the addition started from.
\<close>

lemma AddSlot_undo:
  assumes ok: "al_ok al" and add: "AddSlot a slot al = Ret ((addrMod, slotMod), al')"
  shows "\<exists>al''. (if slotMod then DeleteSlot a slot al' else Ret al') = Ret al'' \<and>
     (if addrMod then DeleteAddress a al'' else al'') = al"
proof (cases "al_addresses al a = None \<or> al_addresses al a = Some (-1)")
  case True
  note f = AddSlot_first[OF ok True, of slot]
  have "al\<lparr>al_addresses := (al_addresses al)(a \<mapsto> -1)\<rparr> = al" if "a \<in> warm_addrs al"
    using True that by (auto simp: warm_addrs_def fun_upd_idem)
  moreover have "DeleteAddress a (al\<lparr>al_addresses := (al_addresses al)(a \<mapsto> -1)\<rparr>) = al" if "a \<notin> warm_addrs al"
    using that by (auto simp: warm_addrs_def DeleteAddress_def fun_upd_idem domIff)
  ultimately show ?thesis using f(1,5) add by auto
next
  case False
  then obtain i where a: "al_addresses al a = Some i" "i \<noteq> -1" by auto
  show ?thesis
  proof (cases "slot \<in> al_slots al ! nat i")
    case True
    then show ?thesis using add a by (simp add: AddSlot_def slots_index_ok[OF ok a])
  next
    case new: False
    show ?thesis using AddSlot_further(1,5)[OF ok a new] add by auto
  qed
qed

lemma AddAddress_undo: "AddAddress a al = (True, al') \<Longrightarrow> DeleteAddress a al' = al"
  by (auto simp: AddAddress_def DeleteAddress_def fun_upd_idem split: if_splits)

lemma AddAddress_unchanged: "AddAddress a al = (False, al') \<Longrightarrow> al' = al"
  by (auto simp: AddAddress_def split: if_splits)

section \<open>Transient storage\<close>

type_synonym storage = "hash \<rightharpoonup> hash"
type_synonym transientStorage = "address \<rightharpoonup> storage"

text \<open>\<open>m[key]\<close> of a Go map of hashes: the zero hash when the key is absent.\<close>

definition map_get :: "storage \<Rightarrow> hash \<Rightarrow> hash" where
  "map_get m k = (case m k of None \<Rightarrow> 0 | Some v \<Rightarrow> v)"

definition newTransientStorage :: transientStorage where
  "newTransientStorage = Map.empty"

definition transient_Set :: "address \<Rightarrow> hash \<Rightarrow> hash \<Rightarrow> transientStorage \<Rightarrow> transientStorage" where
  "transient_Set addr key v t =
     (let t = (if t addr = None then t(addr \<mapsto> Map.empty) else t) in
      t(addr := map_option (\<lambda>m. m(key \<mapsto> v)) (t addr)))"

definition transient_Get :: "address \<Rightarrow> hash \<Rightarrow> transientStorage \<Rightarrow> hash" where
  "transient_Get addr key t = (case t addr of None \<Rightarrow> 0 | Some m \<Rightarrow> map_get m key)"

lemma transient_Get_new [simp]: "transient_Get a k newTransientStorage = 0"
  by (simp add: transient_Get_def newTransientStorage_def)

lemma transient_Get_Set [simp]:
  "transient_Get a k (transient_Set b l v t) = (if a = b \<and> k = l then v else transient_Get a k t)"
  by (auto simp: transient_Get_def transient_Set_def map_get_def Let_def split: option.splits)

end
