(* ===== verification/State_DB.thy ===== *)
theory State_DB
  imports State_AccessList Rlp_Raw Trie_Ops
begin

text \<open>
  The state database of \<open>core/state\<close>: state objects (\<open>state_object.go\<close>), the journal
  (\<open>journal.go\<close>) and the \<open>StateDB\<close> operations the EVM and the block processor call
  (\<open>statedb.go\<close>, \<open>statedb_arbitrum.go\<close>).

  State objects are pointers in the source. A live object is the one \<open>stateObjects\<close> holds under its
  address, so a method that mutates its receiver is modelled by writing the new object back under that
  address (\<open>setStateObject\<close>); the objects the journal keeps are no longer mutated by anyone. Balances
  are \<open>big.Int\<close>, that is \<open>int\<close>. The metrics and the trie prefetcher, which only preloads nodes, are
  left out.
\<close>

section \<open>Data\<close>

text \<open>\<open>types.StateAccount\<close>: \<open>None\<close> is a nil \<open>Balance\<close> or \<open>CodeHash\<close>.\<close>

record StateAccount =
  acc_Nonce :: uint64
  acc_Balance :: "int option"
  acc_Root :: hash
  acc_CodeHash :: "bytes option"

text \<open>\<open>snapshot.Account\<close>, the slim form: an empty root or code hash stands for the empty one.\<close>

record slimAccount =
  sl_Nonce :: uint64
  sl_Balance :: "int option"
  sl_Root :: bytes
  sl_CodeHash :: bytes

text \<open>
  What a \<open>StateDB\<close> reads from: the flat snapshot (\<open>snapshot.Snapshot\<close>) and the \<open>Database\<close> and
  \<open>Trie\<close> interfaces of \<open>core/state/database.go\<close>, over a type of tries \<open>'t\<close>. Reading a trie is a
  pure function here: the nodes it loads are cached inside the trie and change no later answer. A
  failed call returns a nil value beside the error.
\<close>

record snapshot =
  snap_Account :: "hash \<Rightarrow> string + slimAccount option"
  snap_Storage :: "hash \<Rightarrow> hash \<Rightarrow> string + bytes"

record 't Database =
  Keccak256Hash :: "bytes \<Rightarrow> hash"
  OpenTrie :: "hash \<Rightarrow> string + 't"
  OpenStorageTrie :: "hash \<Rightarrow> hash \<Rightarrow> hash \<Rightarrow> string + 't"
  ContractCode :: "hash \<Rightarrow> hash \<Rightarrow> string + bytes"
  ContractCodeSize :: "hash \<Rightarrow> hash \<Rightarrow> string + int"
  GetAccount :: "'t \<Rightarrow> address \<Rightarrow> string + StateAccount option"
  GetStorage :: "'t \<Rightarrow> address \<Rightarrow> bytes \<Rightarrow> string + bytes"

definition EmptyCodeHash :: "'t Database \<Rightarrow> hash" where
  "EmptyCodeHash db = Keccak256Hash db []"

definition addr_bytes :: "address \<Rightarrow> bytes" where
  "addr_bytes a = map (\<lambda>i. ucast (drop_bit (8 * (19 - i)) a)) [0..<20]"

record 't stateObject =
  so_address :: address
  so_addrHash :: hash
  so_Nonce :: uint64
  so_Balance :: int
  so_Root :: hash
  so_CodeHash :: bytes
  so_trie :: "'t option"
  so_code :: "bytes option"
  originStorage :: storage
  pendingStorage :: storage
  dirtyStorage :: storage
  dirtyCode :: bool
  suicided :: bool
  deleted :: bool

record Log =
  lg_Address :: address
  lg_Topics :: "hash list"
  lg_Data :: bytes
  lg_BlockNumber :: uint64
  lg_TxHash :: hash
  lg_TxIndex :: uint64
  lg_Index :: uint64

datatype 't journalEntry =
    createObjectChange address
  | resetObjectChange "'t stateObject" bool
  | suicideChange address bool int
  | balanceChange address int
  | nonceChange address uint64
  | storageChange address hash hash
  | codeChange address "bytes option" bytes
  | refundChange uint64
  | addLogChange hash
  | addPreimageChange hash
  | touchChange address
  | accessListAddAccountChange address
  | accessListAddSlotChange address hash
  | transientStorageChange address hash hash

record 't journal =
  j_entries :: "'t journalEntry list"
  j_dirties :: "address \<rightharpoonup> int"

record revision =
  rev_id :: int
  rev_journalIndex :: nat
  rev_balanceDelta :: int

record 't StateDB =
  unexpectedBalanceDelta :: int
  sdb_trie :: 't
  originalRoot :: hash
  snap :: "snapshot option"
  snapAccounts :: "hash \<rightharpoonup> bytes"
  snapStorage :: "hash \<rightharpoonup> (hash \<rightharpoonup> bytes)"
  stateObjects :: "address \<rightharpoonup> 't stateObject"
  stateObjectsPending :: "address set"
  stateObjectsDirty :: "address set"
  stateObjectsDestruct :: "address set"
  dbErr :: "string option"
  sdb_refund :: uint64
  thash :: hash
  txIndex :: int
  sdb_logs :: "hash \<rightharpoonup> Log list"
  logSize :: uint64
  sdb_preimages :: "hash \<rightharpoonup> bytes"
  sdb_accessList :: accessList
  sdb_transient :: transientStorage
  sdb_journal :: "'t journal"
  validRevisions :: "revision list"
  nextRevisionId :: int
  deterministic :: bool

section \<open>The journal\<close>

definition newJournal :: "'t journal" where
  "newJournal = \<lparr>j_entries = [], j_dirties = Map.empty\<rparr>"

fun dirtied :: "'t journalEntry \<Rightarrow> address option" where
  "dirtied (createObjectChange a) = Some a"
| "dirtied (resetObjectChange prev pd) = None"
| "dirtied (suicideChange a p b) = Some a"
| "dirtied (balanceChange a p) = Some a"
| "dirtied (nonceChange a p) = Some a"
| "dirtied (storageChange a k p) = Some a"
| "dirtied (codeChange a p h) = Some a"
| "dirtied (refundChange p) = None"
| "dirtied (addLogChange h) = None"
| "dirtied (addPreimageChange h) = None"
| "dirtied (touchChange a) = Some a"
| "dirtied (accessListAddAccountChange a) = None"
| "dirtied (accessListAddSlotChange a s) = None"
| "dirtied (transientStorageChange a k p) = None"

definition dirty_count :: "'t journal \<Rightarrow> address \<Rightarrow> int" where
  "dirty_count j a = (case j_dirties j a of None \<Rightarrow> 0 | Some n \<Rightarrow> n)"

definition journal_dirty :: "address \<Rightarrow> 't journal \<Rightarrow> 't journal" where
  "journal_dirty a j = j\<lparr>j_dirties := (j_dirties j)(a \<mapsto> dirty_count j a + 1)\<rparr>"

definition journal_append :: "'t journalEntry \<Rightarrow> 't journal \<Rightarrow> 't journal" where
  "journal_append e j =
     (let j = j\<lparr>j_entries := j_entries j @ [e]\<rparr> in
      case dirtied e of None \<Rightarrow> j | Some a \<Rightarrow> journal_dirty a j)"

definition journal_length :: "'t journal \<Rightarrow> nat" where
  "journal_length j = length (j_entries j)"

text \<open>\<open>s.journal.append(e)\<close>\<close>

definition append_entry :: "'t journalEntry \<Rightarrow> 't StateDB \<Rightarrow> 't StateDB" where
  "append_entry e s = s\<lparr>sdb_journal := journal_append e (sdb_journal s)\<rparr>"

section \<open>State objects\<close>

definition so_empty :: "'t Database \<Rightarrow> 't stateObject \<Rightarrow> bool" where
  "so_empty db o1 = (so_Nonce o1 = 0 \<and> so_Balance o1 = 0 \<and> so_CodeHash o1 = hash_bytes (EmptyCodeHash db))"

definition newObject :: "'t Database \<Rightarrow> address \<Rightarrow> StateAccount \<Rightarrow> 't stateObject" where
  "newObject db a d =
     \<lparr>so_address = a, so_addrHash = Keccak256Hash db (addr_bytes a),
      so_Nonce = acc_Nonce d,
      so_Balance = (case acc_Balance d of None \<Rightarrow> 0 | Some b \<Rightarrow> b),
      so_Root = (if acc_Root d = 0 then EmptyRootHash else acc_Root d),
      so_CodeHash = (case acc_CodeHash d of None \<Rightarrow> hash_bytes (EmptyCodeHash db) | Some h \<Rightarrow> h),
      so_trie = None, so_code = None,
      originStorage = Map.empty, pendingStorage = Map.empty, dirtyStorage = Map.empty,
      dirtyCode = False, suicided = False, deleted = False\<rparr>"

definition getTrie :: "'t Database \<Rightarrow> hash \<Rightarrow> 't stateObject \<Rightarrow> (string + 't) \<times> 't stateObject" where
  "getTrie db root o1 =
     (case so_trie o1 of
        Some t \<Rightarrow> (Inr t, o1)
      | None \<Rightarrow>
          (case OpenStorageTrie db root (so_addrHash o1) (so_Root o1) of
             Inl e \<Rightarrow> (Inl e, o1)
           | Inr t \<Rightarrow> (Inr t, o1\<lparr>so_trie := Some t\<rparr>)))"

text \<open>The slot as the snapshot holds it, or, without a usable snapshot, as the storage trie does.\<close>

definition read_slot :: "'t Database \<Rightarrow> snapshot option \<Rightarrow> hash \<Rightarrow> 't stateObject \<Rightarrow> hash \<Rightarrow>
    (string + bytes) \<times> 't stateObject" where
  "read_slot db sn root o1 key =
     (case (case sn of None \<Rightarrow> Inl [] | Some s \<Rightarrow>
              snap_Storage s (so_addrHash o1) (Keccak256Hash db (hash_bytes key))) of
        Inr enc \<Rightarrow> (Inr enc, o1)
      | Inl _ \<Rightarrow>
          (case getTrie db root o1 of
             (Inl e, o2) \<Rightarrow> (Inl e, o2)
           | (Inr t, o2) \<Rightarrow> (GetStorage db t (so_address o1) (hash_bytes key), o2)))"

text \<open>
  The stored slot is an RLP string; a malformed one gives the zero value and an error.
  \<open>rlp.Split\<close> does not panic.
\<close>

definition decode_slot :: "bytes \<Rightarrow> hash \<times> string option" where
  "decode_slot enc =
     (if enc = [] then (0, None)
      else case Split enc of
             Ret (k, content, rest) \<Rightarrow> (BytesToHash content, None)
           | _ \<Rightarrow> (0, Some ''rlp''))"

definition obj_GetCommittedState :: "'t Database \<Rightarrow> snapshot option \<Rightarrow> hash \<Rightarrow> bool \<Rightarrow> 't stateObject \<Rightarrow> hash \<Rightarrow>
    hash \<times> 't stateObject \<times> string option" where
  "obj_GetCommittedState db sn root destructed o1 key =
     (case pendingStorage o1 key of Some v \<Rightarrow> (v, o1, None)
      | None \<Rightarrow>
     (case originStorage o1 key of Some v \<Rightarrow> (v, o1, None)
      | None \<Rightarrow>
      if destructed then (0, o1, None)
      else
     (case read_slot db sn root o1 key of
        (Inl e, o2) \<Rightarrow> (0, o2, Some e)
      | (Inr enc, o2) \<Rightarrow>
          (let v = fst (decode_slot enc) in
           (v, o2\<lparr>originStorage := (originStorage o2)(key \<mapsto> v)\<rparr>, snd (decode_slot enc))))))"

definition obj_GetState :: "'t Database \<Rightarrow> snapshot option \<Rightarrow> hash \<Rightarrow> bool \<Rightarrow> 't stateObject \<Rightarrow> hash \<Rightarrow>
    hash \<times> 't stateObject \<times> string option" where
  "obj_GetState db sn root destructed o1 key =
     (case dirtyStorage o1 key of Some v \<Rightarrow> (v, o1, None)
      | None \<Rightarrow> obj_GetCommittedState db sn root destructed o1 key)"

definition obj_Code :: "'t Database \<Rightarrow> 't stateObject \<Rightarrow> bytes option \<times> 't stateObject \<times> string option" where
  "obj_Code db o1 =
     (case so_code o1 of Some c \<Rightarrow> (Some c, o1, None)
      | None \<Rightarrow>
      if so_CodeHash o1 = hash_bytes (EmptyCodeHash db) then (None, o1, None)
      else (case ContractCode db (so_addrHash o1) (BytesToHash (so_CodeHash o1)) of
              Inl e \<Rightarrow> (None, o1\<lparr>so_code := None\<rparr>, Some e)
            | Inr c \<Rightarrow> (Some c, o1\<lparr>so_code := Some c\<rparr>, None)))"

definition obj_CodeSize :: "'t Database \<Rightarrow> 't stateObject \<Rightarrow> int \<times> string option" where
  "obj_CodeSize db o1 =
     (case so_code o1 of Some c \<Rightarrow> (int (length c), None)
      | None \<Rightarrow>
      if so_CodeHash o1 = hash_bytes (EmptyCodeHash db) then (0, None)
      else (case ContractCodeSize db (so_addrHash o1) (BytesToHash (so_CodeHash o1)) of
              Inl e \<Rightarrow> (0, Some e) | Inr n \<Rightarrow> (n, None)))"

definition setBalance :: "int \<Rightarrow> 't stateObject \<Rightarrow> 't stateObject" where
  "setBalance v o1 = o1\<lparr>so_Balance := v\<rparr>"

definition setNonce :: "uint64 \<Rightarrow> 't stateObject \<Rightarrow> 't stateObject" where
  "setNonce v o1 = o1\<lparr>so_Nonce := v\<rparr>"

definition setCode :: "hash \<Rightarrow> bytes option \<Rightarrow> 't stateObject \<Rightarrow> 't stateObject" where
  "setCode h c o1 = o1\<lparr>so_code := c, so_CodeHash := hash_bytes h, dirtyCode := True\<rparr>"

definition setState :: "hash \<Rightarrow> hash \<Rightarrow> 't stateObject \<Rightarrow> 't stateObject" where
  "setState k v o1 = o1\<lparr>dirtyStorage := (dirtyStorage o1)(k \<mapsto> v)\<rparr>"

definition markSuicided :: "'t stateObject \<Rightarrow> 't stateObject" where
  "markSuicided o1 = o1\<lparr>suicided := True\<rparr>"

section \<open>Access to the live objects\<close>

definition setError :: "string option \<Rightarrow> 't StateDB \<Rightarrow> 't StateDB" where
  "setError e s = (if dbErr s = None then s\<lparr>dbErr := e\<rparr> else s)"

definition setStateObject :: "'t stateObject \<Rightarrow> 't StateDB \<Rightarrow> 't StateDB" where
  "setStateObject o1 s = s\<lparr>stateObjects := (stateObjects s)(so_address o1 \<mapsto> o1)\<rparr>"

text \<open>
  The account behind an address when no live object is held: from the snapshot, or from the account
  trie when there is no snapshot or reading it fails.
\<close>

definition load_account :: "'t Database \<Rightarrow> snapshot option \<Rightarrow> 't \<Rightarrow> address \<Rightarrow> string + StateAccount option" where
  "load_account db sn tr a =
     (case (case sn of None \<Rightarrow> Inl [] | Some s \<Rightarrow> snap_Account s (Keccak256Hash db (addr_bytes a))) of
        Inr None \<Rightarrow> Inr None
      | Inr (Some acc) \<Rightarrow>
          Inr (Some \<lparr>acc_Nonce = sl_Nonce acc, acc_Balance = sl_Balance acc,
                     acc_Root = (if BytesToHash (sl_Root acc) = 0 then EmptyRootHash else BytesToHash (sl_Root acc)),
                     acc_CodeHash = Some (if sl_CodeHash acc = [] then hash_bytes (EmptyCodeHash db)
                                          else sl_CodeHash acc)\<rparr>)
      | Inl _ \<Rightarrow> GetAccount db tr a)"

definition getDeletedStateObject :: "'t Database \<Rightarrow> address \<Rightarrow> 't StateDB \<Rightarrow> 't stateObject option \<times> 't StateDB" where
  "getDeletedStateObject db a s =
     (case stateObjects s a of
        Some o1 \<Rightarrow> (Some o1, s)
      | None \<Rightarrow>
          (case load_account db (snap s) (sdb_trie s) a of
             Inl e \<Rightarrow> (None, setError (Some e) s)
           | Inr None \<Rightarrow> (None, s)
           | Inr (Some d) \<Rightarrow> (Some (newObject db a d), setStateObject (newObject db a d) s)))"

definition getStateObject :: "'t Database \<Rightarrow> address \<Rightarrow> 't StateDB \<Rightarrow> 't stateObject option \<times> 't StateDB" where
  "getStateObject db a s =
     (case getDeletedStateObject db a s of
        (Some o1, s') \<Rightarrow> if \<not> deleted o1 then (Some o1, s') else (None, s')
      | (None, s') \<Rightarrow> (None, s'))"

definition createObject :: "'t Database \<Rightarrow> address \<Rightarrow> 't StateDB \<Rightarrow>
    ('t stateObject \<times> 't stateObject option) \<times> 't StateDB" where
  "createObject db a s =
     (let (prev, s) = getDeletedStateObject db a s;
          newobj = newObject db a \<lparr>acc_Nonce = 0, acc_Balance = None, acc_Root = 0, acc_CodeHash = None\<rparr> in
      case prev of
        None \<Rightarrow> ((newobj, None), setStateObject newobj (append_entry (createObjectChange a) s))
      | Some p \<Rightarrow>
          (let prevdestruct = (so_address p \<in> stateObjectsDestruct s);
               s = (if \<not> prevdestruct
                    then s\<lparr>stateObjectsDestruct := insert (so_address p) (stateObjectsDestruct s)\<rparr> else s);
               s = append_entry (resetObjectChange p prevdestruct) s;
               s = setStateObject newobj s in
           ((newobj, if \<not> deleted p then Some p else None), s)))"

definition GetOrNewStateObject :: "'t Database \<Rightarrow> address \<Rightarrow> 't StateDB \<Rightarrow> 't stateObject \<times> 't StateDB" where
  "GetOrNewStateObject db a s =
     (case getStateObject db a s of
        (Some o1, s) \<Rightarrow> (o1, s)
      | (None, s) \<Rightarrow> (let ((newobj, prev), s) = createObject db a s in (newobj, s)))"

definition CreateAccount :: "'t Database \<Rightarrow> address \<Rightarrow> 't StateDB \<Rightarrow> 't StateDB" where
  "CreateAccount db a s =
     (let ((newObj, prev), s) = createObject db a s in
      case prev of None \<Rightarrow> s | Some p \<Rightarrow> setStateObject (setBalance (so_Balance p) newObj) s)"

section \<open>Methods of the live objects\<close>

definition so_destructed :: "'t stateObject \<Rightarrow> 't StateDB \<Rightarrow> bool" where
  "so_destructed o1 s = (so_address o1 \<in> stateObjectsDestruct s)"

definition so_GetState :: "'t Database \<Rightarrow> 't stateObject \<Rightarrow> hash \<Rightarrow> 't StateDB \<Rightarrow> hash \<times> 't stateObject \<times> 't StateDB" where
  "so_GetState db o1 key s =
     (let (v, o1, e) = obj_GetState db (snap s) (originalRoot s) (so_destructed o1 s) o1 key in
      (v, o1, setStateObject o1 (setError e s)))"

definition so_GetCommittedState :: "'t Database \<Rightarrow> 't stateObject \<Rightarrow> hash \<Rightarrow> 't StateDB \<Rightarrow> hash \<times> 't stateObject \<times> 't StateDB" where
  "so_GetCommittedState db o1 key s =
     (let (v, o1, e) = obj_GetCommittedState db (snap s) (originalRoot s) (so_destructed o1 s) o1 key in
      (v, o1, setStateObject o1 (setError e s)))"

definition so_SetState :: "'t Database \<Rightarrow> 't stateObject \<Rightarrow> hash \<Rightarrow> hash \<Rightarrow> 't StateDB \<Rightarrow> 't StateDB" where
  "so_SetState db o1 key v s =
     (let (prev, o1, s) = so_GetState db o1 key s in
      if prev = v then s
      else setStateObject (setState key v o1) (append_entry (storageChange (so_address o1) key prev) s))"

definition so_Code :: "'t Database \<Rightarrow> 't stateObject \<Rightarrow> 't StateDB \<Rightarrow> bytes option \<times> 't stateObject \<times> 't StateDB" where
  "so_Code db o1 s =
     (let (c, o1, e) = obj_Code db o1 in (c, o1, setStateObject o1 (setError e s)))"

definition so_SetCode :: "'t Database \<Rightarrow> 't stateObject \<Rightarrow> hash \<Rightarrow> bytes option \<Rightarrow> 't StateDB \<Rightarrow> 't StateDB" where
  "so_SetCode db o1 codeHash code s =
     (let (prevcode, o1, s) = so_Code db o1 s in
      setStateObject (setCode codeHash code o1)
        (append_entry (codeChange (so_address o1) prevcode (so_CodeHash o1)) s))"

definition so_SetNonce :: "'t stateObject \<Rightarrow> uint64 \<Rightarrow> 't StateDB \<Rightarrow> 't StateDB" where
  "so_SetNonce o1 nonce s =
     setStateObject (setNonce nonce o1) (append_entry (nonceChange (so_address o1) (so_Nonce o1)) s)"

definition so_SetBalance :: "'t stateObject \<Rightarrow> int \<Rightarrow> 't StateDB \<Rightarrow> 't StateDB" where
  "so_SetBalance o1 amount s =
     setStateObject (setBalance amount o1) (append_entry (balanceChange (so_address o1) (so_Balance o1)) s)"

definition ripemd :: address where
  "ripemd = 3"

definition so_touch :: "'t stateObject \<Rightarrow> 't StateDB \<Rightarrow> 't StateDB" where
  "so_touch o1 s =
     (let s = append_entry (touchChange (so_address o1)) s in
      if so_address o1 = ripemd
      then s\<lparr>sdb_journal := journal_dirty (so_address o1) (sdb_journal s)\<rparr> else s)"

definition so_AddBalance :: "'t Database \<Rightarrow> 't stateObject \<Rightarrow> int \<Rightarrow> 't StateDB \<Rightarrow> 't StateDB" where
  "so_AddBalance db o1 amount s =
     (if amount = 0 then (if so_empty db o1 then so_touch o1 s else s)
      else so_SetBalance o1 (so_Balance o1 + amount) s)"

definition so_SubBalance :: "'t stateObject \<Rightarrow> int \<Rightarrow> 't StateDB \<Rightarrow> 't StateDB" where
  "so_SubBalance o1 amount s =
     (if amount = 0 then s else so_SetBalance o1 (so_Balance o1 - amount) s)"

section \<open>Operations of the state database\<close>

definition StateDB_New :: "hash \<Rightarrow> 't Database \<Rightarrow> (hash \<Rightarrow> snapshot option) option \<Rightarrow> string + 't StateDB" where
  "StateDB_New root db snaps =
     (case OpenTrie db root of
        Inl e \<Rightarrow> Inl e
      | Inr tr \<Rightarrow>
          Inr \<lparr>unexpectedBalanceDelta = 0, sdb_trie = tr, originalRoot = root,
               snap = (case snaps of None \<Rightarrow> None | Some f \<Rightarrow> f root),
               snapAccounts = Map.empty, snapStorage = Map.empty,
               stateObjects = Map.empty, stateObjectsPending = {}, stateObjectsDirty = {},
               stateObjectsDestruct = {}, dbErr = None, sdb_refund = 0, thash = 0, txIndex = 0,
               sdb_logs = Map.empty, logSize = 0, sdb_preimages = Map.empty,
               sdb_accessList = newAccessList, sdb_transient = newTransientStorage,
               sdb_journal = newJournal, validRevisions = [], nextRevisionId = 0, deterministic = False\<rparr>)"

definition NewDeterministic :: "hash \<Rightarrow> 't Database \<Rightarrow> string + 't StateDB" where
  "NewDeterministic root db =
     (case StateDB_New root db None of Inl e \<Rightarrow> Inl e | Inr s \<Rightarrow> Inr (s\<lparr>deterministic := True\<rparr>))"

definition AddLog :: "Log \<Rightarrow> 't StateDB \<Rightarrow> 't StateDB" where
  "AddLog l s =
     (let s = append_entry (addLogChange (thash s)) s;
          l = l\<lparr>lg_TxHash := thash s, lg_TxIndex := word_of_int (txIndex s), lg_Index := logSize s\<rparr>;
          old = (case sdb_logs s (thash s) of None \<Rightarrow> [] | Some ls \<Rightarrow> ls) in
      s\<lparr>sdb_logs := (sdb_logs s)(thash s \<mapsto> old @ [l]), logSize := logSize s + 1\<rparr>)"

definition AddPreimage :: "hash \<Rightarrow> bytes \<Rightarrow> 't StateDB \<Rightarrow> 't StateDB" where
  "AddPreimage h pre s =
     (if sdb_preimages s h = None then
        (append_entry (addPreimageChange h) s)\<lparr>sdb_preimages := (sdb_preimages s)(h \<mapsto> pre)\<rparr>
      else s)"

definition AddRefund :: "uint64 \<Rightarrow> 't StateDB \<Rightarrow> 't StateDB" where
  "AddRefund gas s = (append_entry (refundChange (sdb_refund s)) s)\<lparr>sdb_refund := sdb_refund s + gas\<rparr>"

definition SubRefund :: "uint64 \<Rightarrow> ('t StateDB, string, unit) stm" where
  "SubRefund gas s =
     (let s = append_entry (refundChange (sdb_refund s)) s in
      if sdb_refund s < gas then (Panic, s)
      else (Ret (), s\<lparr>sdb_refund := sdb_refund s - gas\<rparr>))"

definition sdb_Exist :: "'t Database \<Rightarrow> address \<Rightarrow> 't StateDB \<Rightarrow> bool \<times> 't StateDB" where
  "sdb_Exist db a s = (case getStateObject db a s of (o1, s) \<Rightarrow> (o1 \<noteq> None, s))"

definition sdb_Empty :: "'t Database \<Rightarrow> address \<Rightarrow> 't StateDB \<Rightarrow> bool \<times> 't StateDB" where
  "sdb_Empty db a s =
     (case getStateObject db a s of (None, s) \<Rightarrow> (True, s) | (Some o1, s) \<Rightarrow> (so_empty db o1, s))"

definition GetBalance :: "'t Database \<Rightarrow> address \<Rightarrow> 't StateDB \<Rightarrow> int \<times> 't StateDB" where
  "GetBalance db a s =
     (case getStateObject db a s of (None, s) \<Rightarrow> (0, s) | (Some o1, s) \<Rightarrow> (so_Balance o1, s))"

definition GetNonce :: "'t Database \<Rightarrow> address \<Rightarrow> 't StateDB \<Rightarrow> uint64 \<times> 't StateDB" where
  "GetNonce db a s =
     (case getStateObject db a s of (None, s) \<Rightarrow> (0, s) | (Some o1, s) \<Rightarrow> (so_Nonce o1, s))"

definition GetCode :: "'t Database \<Rightarrow> address \<Rightarrow> 't StateDB \<Rightarrow> bytes option \<times> 't StateDB" where
  "GetCode db a s =
     (case getStateObject db a s of (None, s) \<Rightarrow> (None, s)
      | (Some o1, s) \<Rightarrow> (case so_Code db o1 s of (c, o2, s) \<Rightarrow> (c, s)))"

definition GetCodeSize :: "'t Database \<Rightarrow> address \<Rightarrow> 't StateDB \<Rightarrow> int \<times> 't StateDB" where
  "GetCodeSize db a s =
     (case getStateObject db a s of (None, s) \<Rightarrow> (0, s)
      | (Some o1, s) \<Rightarrow> (case obj_CodeSize db o1 of (n, e) \<Rightarrow> (n, setError e s)))"

definition GetCodeHash :: "'t Database \<Rightarrow> address \<Rightarrow> 't StateDB \<Rightarrow> hash \<times> 't StateDB" where
  "GetCodeHash db a s =
     (case getStateObject db a s of (None, s) \<Rightarrow> (0, s) | (Some o1, s) \<Rightarrow> (BytesToHash (so_CodeHash o1), s))"

definition GetState :: "'t Database \<Rightarrow> address \<Rightarrow> hash \<Rightarrow> 't StateDB \<Rightarrow> hash \<times> 't StateDB" where
  "GetState db a key s =
     (case getStateObject db a s of (None, s) \<Rightarrow> (0, s)
      | (Some o1, s) \<Rightarrow> (case so_GetState db o1 key s of (v, o2, s) \<Rightarrow> (v, s)))"

definition GetCommittedState :: "'t Database \<Rightarrow> address \<Rightarrow> hash \<Rightarrow> 't StateDB \<Rightarrow> hash \<times> 't StateDB" where
  "GetCommittedState db a key s =
     (case getStateObject db a s of (None, s) \<Rightarrow> (0, s)
      | (Some o1, s) \<Rightarrow> (case so_GetCommittedState db o1 key s of (v, o2, s) \<Rightarrow> (v, s)))"

definition HasSuicided :: "'t Database \<Rightarrow> address \<Rightarrow> 't StateDB \<Rightarrow> bool \<times> 't StateDB" where
  "HasSuicided db a s =
     (case getStateObject db a s of (None, s) \<Rightarrow> (False, s) | (Some o1, s) \<Rightarrow> (suicided o1, s))"

text \<open>\<open>s.unexpectedBalanceDelta.Add(s.unexpectedBalanceDelta, d)\<close>\<close>

definition add_delta :: "int \<Rightarrow> 't StateDB \<Rightarrow> 't StateDB" where
  "add_delta d s = s\<lparr>unexpectedBalanceDelta := unexpectedBalanceDelta s + d\<rparr>"

definition AddBalance :: "'t Database \<Rightarrow> address \<Rightarrow> int \<Rightarrow> 't StateDB \<Rightarrow> 't StateDB" where
  "AddBalance db a amount s =
     (let (o1, s) = GetOrNewStateObject db a s in so_AddBalance db o1 amount (add_delta amount s))"

definition SubBalance :: "'t Database \<Rightarrow> address \<Rightarrow> int \<Rightarrow> 't StateDB \<Rightarrow> 't StateDB" where
  "SubBalance db a amount s =
     (let (o1, s) = GetOrNewStateObject db a s in so_SubBalance o1 amount (add_delta (- amount) s))"

text \<open>A nil amount is \<open>None\<close>.\<close>

definition SetBalance :: "'t Database \<Rightarrow> address \<Rightarrow> int option \<Rightarrow> 't StateDB \<Rightarrow> 't StateDB" where
  "SetBalance db a amount s =
     (let (o1, s) = GetOrNewStateObject db a s;
          amount = (case amount of None \<Rightarrow> 0 | Some v \<Rightarrow> v) in
      so_SetBalance o1 amount (add_delta (- so_Balance o1) (add_delta amount s)))"

definition ExpectBalanceBurn :: "int \<Rightarrow> ('t StateDB, string, unit) stm" where
  "ExpectBalanceBurn amount s = (if amount < 0 then (Panic, s) else (Ret (), add_delta amount s))"

definition sdb_SetNonce :: "'t Database \<Rightarrow> address \<Rightarrow> uint64 \<Rightarrow> 't StateDB \<Rightarrow> 't StateDB" where
  "sdb_SetNonce db a nonce s = (let (o1, s) = GetOrNewStateObject db a s in so_SetNonce o1 nonce s)"

definition sdb_SetCode :: "'t Database \<Rightarrow> address \<Rightarrow> bytes option \<Rightarrow> 't StateDB \<Rightarrow> 't StateDB" where
  "sdb_SetCode db a code s =
     (let (o1, s) = GetOrNewStateObject db a s in
      so_SetCode db o1 (Keccak256Hash db (case code of None \<Rightarrow> [] | Some c \<Rightarrow> c)) code s)"

definition sdb_SetState :: "'t Database \<Rightarrow> address \<Rightarrow> hash \<Rightarrow> hash \<Rightarrow> 't StateDB \<Rightarrow> 't StateDB" where
  "sdb_SetState db a key v s = (let (o1, s) = GetOrNewStateObject db a s in so_SetState db o1 key v s)"

text \<open>
  \<open>SetStorage\<close>, a debugging aid: \<open>storage\<close> lists the map in the order of the iteration. The object the pointer refers to is read
  again for every slot. The account is flagged without a journal entry.
\<close>

definition SetStorage :: "'t Database \<Rightarrow> address \<Rightarrow> (hash \<times> hash) list \<Rightarrow> 't StateDB \<Rightarrow> 't StateDB" where
  "SetStorage db a storage s =
     (let s = s\<lparr>stateObjectsDestruct := insert a (stateObjectsDestruct s)\<rparr>;
          (o1, s) = GetOrNewStateObject db a s in
      fold (\<lambda>(k, v) s. case stateObjects s a of None \<Rightarrow> s | Some o1 \<Rightarrow> so_SetState db o1 k v s) storage s)"

definition Suicide :: "'t Database \<Rightarrow> address \<Rightarrow> 't StateDB \<Rightarrow> bool \<times> 't StateDB" where
  "Suicide db a s =
     (case getStateObject db a s of
        (None, s) \<Rightarrow> (False, s)
      | (Some o1, s) \<Rightarrow>
          (let s = append_entry (suicideChange a (suicided o1) (so_Balance o1)) s;
               s = add_delta (- so_Balance o1) s in
           (True, setStateObject (setBalance 0 (markSuicided o1)) s)))"

definition setTransientState :: "address \<Rightarrow> hash \<Rightarrow> hash \<Rightarrow> 't StateDB \<Rightarrow> 't StateDB" where
  "setTransientState a key v s = s\<lparr>sdb_transient := transient_Set a key v (sdb_transient s)\<rparr>"

definition GetTransientState :: "address \<Rightarrow> hash \<Rightarrow> 't StateDB \<Rightarrow> hash" where
  "GetTransientState a key s = transient_Get a key (sdb_transient s)"

definition SetTransientState :: "address \<Rightarrow> hash \<Rightarrow> hash \<Rightarrow> 't StateDB \<Rightarrow> 't StateDB" where
  "SetTransientState a key v s =
     (let prev = GetTransientState a key s in
      if prev = v then s
      else setTransientState a key v (append_entry (transientStorageChange a key prev) s))"

definition SetTxContext :: "hash \<Rightarrow> int \<Rightarrow> 't StateDB \<Rightarrow> 't StateDB" where
  "SetTxContext h i s = s\<lparr>thash := h, txIndex := i\<rparr>"

definition AddAddressToAccessList :: "address \<Rightarrow> 't StateDB \<Rightarrow> 't StateDB" where
  "AddAddressToAccessList a s =
     (let (c, al) = AddAddress a (sdb_accessList s); s = s\<lparr>sdb_accessList := al\<rparr> in
      if c then append_entry (accessListAddAccountChange a) s else s)"

definition AddSlotToAccessList :: "address \<Rightarrow> hash \<Rightarrow> ('t StateDB, string, unit) stm" where
  "AddSlotToAccessList a slot s =
     (case AddSlot a slot (sdb_accessList s) of
        Ret ((addrMod, slotMod), al) \<Rightarrow>
          (let s = s\<lparr>sdb_accessList := al\<rparr>;
               s = (if addrMod then append_entry (accessListAddAccountChange a) s else s);
               s = (if slotMod then append_entry (accessListAddSlotChange a slot) s else s) in
           (Ret (), s))
      | Fail e \<Rightarrow> (Fail e, s)
      | Panic \<Rightarrow> (Panic, s))"

definition AddressInAccessList :: "address \<Rightarrow> 't StateDB \<Rightarrow> bool" where
  "AddressInAccessList a s = ContainsAddress (sdb_accessList s) a"

definition SlotInAccessList :: "address \<Rightarrow> hash \<Rightarrow> 't StateDB \<Rightarrow> (string, bool \<times> bool) outcome" where
  "SlotInAccessList a slot s = al_Contains (sdb_accessList s) a slot"

section \<open>Snapshots and reverts\<close>

fun entry_revert :: "'t Database \<Rightarrow> 't journalEntry \<Rightarrow> ('t StateDB, string, unit) stm" where
  "entry_revert db (createObjectChange a) s =
     (Ret (), s\<lparr>stateObjects := (stateObjects s)(a := None), stateObjectsDirty := stateObjectsDirty s - {a}\<rparr>)"
| "entry_revert db (resetObjectChange prev prevdestruct) s =
     (Ret (), (let s = setStateObject prev s in
       if \<not> prevdestruct then s\<lparr>stateObjectsDestruct := stateObjectsDestruct s - {so_address prev}\<rparr> else s))"
| "entry_revert db (suicideChange a prev prevbalance) s =
     (case getStateObject db a s of
        (None, s) \<Rightarrow> (Ret (), s)
      | (Some o1, s) \<Rightarrow> (Ret (), setStateObject (setBalance prevbalance (o1\<lparr>suicided := prev\<rparr>)) s))"
| "entry_revert db (balanceChange a prev) s =
     (case getStateObject db a s of
        (None, s) \<Rightarrow> (Panic, s) | (Some o1, s) \<Rightarrow> (Ret (), setStateObject (setBalance prev o1) s))"
| "entry_revert db (nonceChange a prev) s =
     (case getStateObject db a s of
        (None, s) \<Rightarrow> (Panic, s) | (Some o1, s) \<Rightarrow> (Ret (), setStateObject (setNonce prev o1) s))"
| "entry_revert db (storageChange a key prev) s =
     (case getStateObject db a s of
        (None, s) \<Rightarrow> (Panic, s) | (Some o1, s) \<Rightarrow> (Ret (), setStateObject (setState key prev o1) s))"
| "entry_revert db (codeChange a prevcode prevhash) s =
     (case getStateObject db a s of
        (None, s) \<Rightarrow> (Panic, s)
      | (Some o1, s) \<Rightarrow> (Ret (), setStateObject (setCode (BytesToHash prevhash) prevcode o1) s))"
| "entry_revert db (refundChange prev) s = (Ret (), s\<lparr>sdb_refund := prev\<rparr>)"
| "entry_revert db (addLogChange txhash) s =
     (let ls = (case sdb_logs s txhash of None \<Rightarrow> [] | Some ls \<Rightarrow> ls) in
      if length ls = 1 then (Ret (), s\<lparr>sdb_logs := (sdb_logs s)(txhash := None), logSize := logSize s - 1\<rparr>)
      else if ls = [] then (Panic, s)
      else (Ret (), s\<lparr>sdb_logs := (sdb_logs s)(txhash \<mapsto> butlast ls), logSize := logSize s - 1\<rparr>))"
| "entry_revert db (addPreimageChange h) s = (Ret (), s\<lparr>sdb_preimages := (sdb_preimages s)(h := None)\<rparr>)"
| "entry_revert db (touchChange a) s = (Ret (), s)"
| "entry_revert db (accessListAddAccountChange a) s =
     (Ret (), s\<lparr>sdb_accessList := DeleteAddress a (sdb_accessList s)\<rparr>)"
| "entry_revert db (accessListAddSlotChange a slot) s =
     (case DeleteSlot a slot (sdb_accessList s) of
        Ret al \<Rightarrow> (Ret (), s\<lparr>sdb_accessList := al\<rparr>) | Fail e \<Rightarrow> (Fail e, s) | Panic \<Rightarrow> (Panic, s))"
| "entry_revert db (transientStorageChange a key prev) s = (Ret (), setTransientState a key prev s)"

text \<open>The bookkeeping of \<open>dirties\<close> for one reverted entry.\<close>

definition undirty :: "'t journalEntry \<Rightarrow> 't journal \<Rightarrow> 't journal" where
  "undirty e j =
     (case dirtied e of
        None \<Rightarrow> j
      | Some a \<Rightarrow>
          (let n = dirty_count j a - 1 in
           j\<lparr>j_dirties := (j_dirties j)(a := if n = 0 then None else Some n)\<rparr>))"

text \<open>The loop of \<open>journal.revert\<close>, over the entries to undo, newest first.\<close>

primrec revert_entries :: "'t Database \<Rightarrow> 't journalEntry list \<Rightarrow> ('t StateDB, string, unit) stm" where
  "revert_entries db [] = ret_st ()"
| "revert_entries db (e # es) =
     bind_st (entry_revert db e) (\<lambda>_.
     bind_st (modify_st (\<lambda>s. s\<lparr>sdb_journal := undirty e (sdb_journal s)\<rparr>)) (\<lambda>_.
     revert_entries db es))"

definition journal_revert :: "'t Database \<Rightarrow> nat \<Rightarrow> ('t StateDB, string, unit) stm" where
  "journal_revert db n =
     bind_st (\<lambda>s. revert_entries db (rev (drop n (j_entries (sdb_journal s)))) s) (\<lambda>_. \<lambda>s.
       case slice (j_entries (sdb_journal s)) 0 n of
         Ret es \<Rightarrow> (Ret (), s\<lparr>sdb_journal := (sdb_journal s)\<lparr>j_entries := es\<rparr>\<rparr>)
       | Fail e \<Rightarrow> (Fail e, s)
       | Panic \<Rightarrow> (Panic, s))"

definition Snapshot :: "'t StateDB \<Rightarrow> int \<times> 't StateDB" where
  "Snapshot s =
     (let i = nextRevisionId s in
      (i, s\<lparr>nextRevisionId := i + 1,
            validRevisions := validRevisions s @
              [\<lparr>rev_id = i, rev_journalIndex = journal_length (sdb_journal s),
                rev_balanceDelta = unexpectedBalanceDelta s\<rparr>]\<rparr>))"

definition RevertToSnapshot :: "'t Database \<Rightarrow> int \<Rightarrow> ('t StateDB, string, unit) stm" where
  "RevertToSnapshot db revid s =
     (let rs = validRevisions s;
          idx = sort_Search (length rs) (\<lambda>i. rev_id (rs ! i) \<ge> revid) in
      if idx = length rs \<or> rev_id (rs ! idx) \<noteq> revid then (Panic, s)
      else
        bind_st (modify_st (\<lambda>s. s\<lparr>unexpectedBalanceDelta := rev_balanceDelta (rs ! idx)\<rparr>)) (\<lambda>_.
        bind_st (journal_revert db (rev_journalIndex (rs ! idx))) (\<lambda>_.
        modify_st (\<lambda>s. s\<lparr>validRevisions := take idx (validRevisions s)\<rparr>))) s)"

section \<open>End of a transaction\<close>

text \<open>Dirty storage becomes pending.\<close>

definition obj_finalise :: "'t stateObject \<Rightarrow> 't stateObject" where
  "obj_finalise o1 = o1\<lparr>pendingStorage := pendingStorage o1 ++ dirtyStorage o1, dirtyStorage := Map.empty\<rparr>"

text \<open>The body of the loop of \<open>Finalise\<close>, for one dirty address.\<close>

definition Finalise_one :: "'t Database \<Rightarrow> bool \<Rightarrow> address \<Rightarrow> 't StateDB \<Rightarrow> 't StateDB" where
  "Finalise_one db deleteEmptyObjects addr s =
     (case stateObjects s addr of
        None \<Rightarrow> s
      | Some obj \<Rightarrow>
          (let s = (if suicided obj \<or> (deleteEmptyObjects \<and> so_empty db obj) then
                      s\<lparr>stateObjects := (stateObjects s)(addr \<mapsto> obj\<lparr>deleted := True\<rparr>),
                        stateObjectsDestruct := insert (so_address obj) (stateObjectsDestruct s),
                        snapAccounts := (if snap s \<noteq> None then (snapAccounts s)(so_addrHash obj := None) else snapAccounts s),
                        snapStorage := (if snap s \<noteq> None then (snapStorage s)(so_addrHash obj := None) else snapStorage s)\<rparr>
                    else s\<lparr>stateObjects := (stateObjects s)(addr \<mapsto> obj_finalise obj)\<rparr>) in
           s\<lparr>stateObjectsPending := insert addr (stateObjectsPending s),
             stateObjectsDirty := insert addr (stateObjectsDirty s)\<rparr>))"

definition clearJournalAndRefund :: "'t StateDB \<Rightarrow> 't StateDB" where
  "clearJournalAndRefund s =
     (let s = (if j_entries (sdb_journal s) \<noteq> [] then s\<lparr>sdb_journal := newJournal, sdb_refund := 0\<rparr> else s) in
      s\<lparr>validRevisions := []\<rparr>)"

text \<open>
  \<open>Finalise\<close> ranges over \<open>journal.dirties\<close>, in an order Go leaves open: \<open>order\<close> lists the dirty
  addresses in the order of the iteration.
\<close>

definition Finalise :: "'t Database \<Rightarrow> bool \<Rightarrow> address list \<Rightarrow> 't StateDB \<Rightarrow> 't StateDB" where
  "Finalise db deleteEmptyObjects order s = clearJournalAndRefund (fold (Finalise_one db deleteEmptyObjects) order s)"

text \<open>\<open>Prepare\<close>, with the two rules it looks at.\<close>

definition Prepare :: "bool \<Rightarrow> bool \<Rightarrow> address \<Rightarrow> address \<Rightarrow> address option \<Rightarrow> address list \<Rightarrow>
    (address \<times> hash list) list \<Rightarrow> ('t StateDB, string, unit) stm" where
  "Prepare isBerlin isShanghai sender coinbase dst precompiles ls s =
     (let add = (\<lambda>a al. snd (AddAddress a al)) in
      if isBerlin then
        (let al = add sender newAccessList;
             al = (case dst of None \<Rightarrow> al | Some d \<Rightarrow> add d al);
             al = fold add precompiles al in
         case fold (\<lambda>el r. bind_outcome r (\<lambda>al.
                fold (\<lambda>key r. bind_outcome r (\<lambda>al.
                   bind_outcome (AddSlot (fst el) key al) (\<lambda>(c, al'). Ret al'))) (snd el) (Ret (add (fst el) al))))
              ls (Ret al) of
           Ret al \<Rightarrow>
             (Ret (), s\<lparr>sdb_accessList := (if isShanghai then add coinbase al else al),
                       sdb_transient := newTransientStorage\<rparr>)
         | Fail e \<Rightarrow> (Fail e, s) | Panic \<Rightarrow> (Panic, s))
      else (Ret (), s\<lparr>sdb_transient := newTransientStorage\<rparr>))"

text \<open>\<open>statedb_arbitrum.go\<close>\<close>

definition GetCurrentTxLogs :: "'t StateDB \<Rightarrow> Log list" where
  "GetCurrentTxLogs s = (case sdb_logs s (thash s) of None \<Rightarrow> [] | Some ls \<Rightarrow> ls)"

definition GetUnexpectedBalanceDelta :: "'t StateDB \<Rightarrow> int" where
  "GetUnexpectedBalanceDelta s = unexpectedBalanceDelta s"

definition GetSuicides :: "address list \<Rightarrow> 't StateDB \<Rightarrow> address list" where
  "GetSuicides order s =
     filter (\<lambda>a. case stateObjects s a of None \<Rightarrow> False | Some obj \<Rightarrow> suicided obj) order"

end
