(* ===== verification/State_View.thy ===== *)
theory State_View
  imports State_DB Undo_Interface
begin

text \<open>
  What a client of the state database can observe, and that reading never changes it. A \<open>StateDB\<close> caches
  accounts, storage slots and code as they are read, so two states that answer every query alike
  may differ as records; they are compared through their view. The view also carries the effect of
  undoing a journal entry, which the code's \<open>revert\<close> methods are shown to implement.
\<close>

section \<open>Views\<close>

record oview =
  ov_addrHash :: hash
  ov_Nonce :: uint64
  ov_Balance :: int
  ov_Root :: hash
  ov_CodeHash :: bytes
  ov_Code :: "bytes option"
  ov_suicided :: bool
  ov_deleted :: bool
  ov_state :: "hash \<Rightarrow> hash"
  ov_committed :: "hash \<Rightarrow> hash"

definition obj_view :: "'t Database \<Rightarrow> snapshot option \<Rightarrow> hash \<Rightarrow> bool \<Rightarrow> 't stateObject \<Rightarrow> oview" where
  "obj_view db sn root destructed o1 =
     \<lparr>ov_addrHash = so_addrHash o1, ov_Nonce = so_Nonce o1, ov_Balance = so_Balance o1, ov_Root = so_Root o1,
      ov_CodeHash = so_CodeHash o1, ov_Code = fst (obj_Code db o1),
      ov_suicided = suicided o1, ov_deleted = deleted o1,
      ov_state = (\<lambda>k. fst (obj_GetState db sn root destructed o1 k)),
      ov_committed = (\<lambda>k. fst (obj_GetCommittedState db sn root destructed o1 k))\<rparr>"

text \<open>The object an address stands for: the live one, or the one loading the account would create.\<close>

definition base_obj :: "'t Database \<Rightarrow> snapshot option \<Rightarrow> 't \<Rightarrow> address \<Rightarrow> 't stateObject option" where
  "base_obj db sn tr a =
     (case load_account db sn tr a of Inr (Some d) \<Rightarrow> Some (newObject db a d) | _ \<Rightarrow> None)"

definition lookup_obj :: "'t Database \<Rightarrow> 't StateDB \<Rightarrow> address \<Rightarrow> 't stateObject option" where
  "lookup_obj db s a =
     (case stateObjects s a of Some o1 \<Rightarrow> Some o1 | None \<Rightarrow> base_obj db (snap s) (sdb_trie s) a)"

record 't view =
  v_objs :: "address \<Rightarrow> oview option"
  v_destruct :: "address set"
  v_dirty :: "address set"
  v_refund :: uint64
  v_logs :: "hash \<rightharpoonup> Log list"
  v_logSize :: uint64
  v_preimages :: "hash \<rightharpoonup> bytes"
  v_accessList :: accessList
  v_transient :: "address \<Rightarrow> hash \<Rightarrow> hash"
  v_trie :: 't
  v_snap :: "snapshot option"
  v_root :: hash

definition objs_view :: "'t Database \<Rightarrow> 't StateDB \<Rightarrow> address \<Rightarrow> oview option" where
  "objs_view db s a =
     map_option (obj_view db (snap s) (originalRoot s) (a \<in> stateObjectsDestruct s)) (lookup_obj db s a)"

definition view :: "'t Database \<Rightarrow> 't StateDB \<Rightarrow> 't view" where
  "view db s =
     \<lparr>v_objs = objs_view db s, v_destruct = stateObjectsDestruct s, v_dirty = stateObjectsDirty s,
      v_refund = sdb_refund s, v_logs = sdb_logs s, v_logSize = logSize s, v_preimages = sdb_preimages s,
      v_accessList = sdb_accessList s, v_transient = (\<lambda>a k. GetTransientState a k s),
      v_trie = sdb_trie s, v_snap = snap s, v_root = originalRoot s\<rparr>"

text \<open>The effect of undoing an entry on the view; \<open>None\<close> where the code panics.\<close>

definition upd_live :: "address \<Rightarrow> (oview \<Rightarrow> oview) \<Rightarrow> 't view \<Rightarrow> 't view option" where
  "upd_live a f v =
     (case v_objs v a of
        Some o1 \<Rightarrow> if ov_deleted o1 then None else Some (v\<lparr>v_objs := (v_objs v)(a \<mapsto> f o1)\<rparr>)
      | None \<Rightarrow> None)"

text \<open>The code an object shows when it holds \<open>c\<close> in its cache and \<open>h\<close> as its code hash.\<close>

definition code_view :: "'t Database \<Rightarrow> hash \<Rightarrow> bytes \<Rightarrow> bytes option \<Rightarrow> bytes option" where
  "code_view db addrHash h c =
     (case c of Some x \<Rightarrow> Some x
      | None \<Rightarrow> if h = hash_bytes (EmptyCodeHash db) then None
               else (case ContractCode db addrHash (BytesToHash h) of Inl e \<Rightarrow> None | Inr x \<Rightarrow> Some x))"

fun undo :: "'t Database \<Rightarrow> 't journalEntry \<Rightarrow> 't view \<Rightarrow> 't view option" where
  "undo db (createObjectChange a) v =
     Some (v\<lparr>v_objs := (v_objs v)(a := map_option (obj_view db (v_snap v) (v_root v) (a \<in> v_destruct v))
                                         (base_obj db (v_snap v) (v_trie v) a)),
             v_dirty := v_dirty v - {a}\<rparr>)"
| "undo db (resetObjectChange prev prevdestruct) v =
     (let a = so_address prev;
          D = (if prevdestruct then v_destruct v else v_destruct v - {a}) in
      Some (v\<lparr>v_objs := (v_objs v)(a \<mapsto> obj_view db (v_snap v) (v_root v) (a \<in> D) prev), v_destruct := D\<rparr>))"
| "undo db (suicideChange a prev prevbalance) v =
     (case upd_live a (\<lambda>o1. o1\<lparr>ov_suicided := prev, ov_Balance := prevbalance\<rparr>) v of
        None \<Rightarrow> Some v | Some v' \<Rightarrow> Some v')"
| "undo db (balanceChange a prev) v = upd_live a (\<lambda>o1. o1\<lparr>ov_Balance := prev\<rparr>) v"
| "undo db (nonceChange a prev) v = upd_live a (\<lambda>o1. o1\<lparr>ov_Nonce := prev\<rparr>) v"
| "undo db (storageChange a key prev) v = upd_live a (\<lambda>o1. o1\<lparr>ov_state := (ov_state o1)(key := prev)\<rparr>) v"
| "undo db (codeChange a prevcode prevhash) v =
     upd_live a (\<lambda>o1. o1\<lparr>ov_CodeHash := hash_bytes (BytesToHash prevhash),
       ov_Code := code_view db (ov_addrHash o1) (hash_bytes (BytesToHash prevhash)) prevcode\<rparr>) v"
| "undo db (refundChange prev) v = Some (v\<lparr>v_refund := prev\<rparr>)"
| "undo db (addLogChange h) v =
     (case v_logs v h of
        None \<Rightarrow> None
      | Some ls \<Rightarrow>
          if ls = [] then None
          else Some (v\<lparr>v_logs := (v_logs v)(h := if length ls = 1 then None else Some (butlast ls)),
                       v_logSize := v_logSize v - 1\<rparr>))"
| "undo db (addPreimageChange h) v = Some (v\<lparr>v_preimages := (v_preimages v)(h := None)\<rparr>)"
| "undo db (touchChange a) v = Some v"
| "undo db (accessListAddAccountChange a) v = Some (v\<lparr>v_accessList := DeleteAddress a (v_accessList v)\<rparr>)"
| "undo db (accessListAddSlotChange a slot) v =
     (case DeleteSlot a slot (v_accessList v) of
        Ret al \<Rightarrow> Some (v\<lparr>v_accessList := al\<rparr>) | _ \<Rightarrow> None)"
| "undo db (transientStorageChange a key prev) v =
     Some (v\<lparr>v_transient := (v_transient v)(a := (v_transient v a)(key := prev))\<rparr>)"

section \<open>Reads do not change the view\<close>

text \<open>Live objects sit under their own address, and only they are marked dirty.\<close>

definition sdb_wf :: "'t StateDB \<Rightarrow> bool" where
  "sdb_wf s \<longleftrightarrow>
     (\<forall>a o1. stateObjects s a = Some o1 \<longrightarrow> so_address o1 = a) \<and>
     (\<forall>a \<in> stateObjectsDirty s. stateObjects s a \<noteq> None)"

lemma sdb_wf_address: "sdb_wf s \<Longrightarrow> stateObjects s a = Some o1 \<Longrightarrow> so_address o1 = a"
  unfolding sdb_wf_def by blast

lemma view_sel [simp]:
  "v_objs (view db s) = objs_view db s" "v_destruct (view db s) = stateObjectsDestruct s"
  "v_dirty (view db s) = stateObjectsDirty s" "v_refund (view db s) = sdb_refund s"
  "v_logs (view db s) = sdb_logs s" "v_logSize (view db s) = logSize s"
  "v_preimages (view db s) = sdb_preimages s" "v_accessList (view db s) = sdb_accessList s"
  "v_transient (view db s) = (\<lambda>a k. GetTransientState a k s)"
  "v_trie (view db s) = sdb_trie s" "v_snap (view db s) = snap s" "v_root (view db s) = originalRoot s"
  by (simp_all add: view_def)

lemma obj_view_sel [simp]:
  "ov_deleted (obj_view db sn r d o1) = deleted o1" "ov_Balance (obj_view db sn r d o1) = so_Balance o1"
  "ov_suicided (obj_view db sn r d o1) = suicided o1" "ov_Nonce (obj_view db sn r d o1) = so_Nonce o1"
  "ov_CodeHash (obj_view db sn r d o1) = so_CodeHash o1" "ov_addrHash (obj_view db sn r d o1) = so_addrHash o1"
  by (simp_all add: obj_view_def)

text \<open>The object methods that read: the value is the viewed one and the object's view stays.\<close>

lemma getTrie_view:
  "getTrie db root o1 = (r, o2) \<Longrightarrow>
     o2 = o1 \<or> (\<exists>t. so_trie o1 = None \<and> r = Inr t \<and> o2 = o1\<lparr>so_trie := Some t\<rparr>)"
  by (cases "so_trie o1"; cases "OpenStorageTrie db root (so_addrHash o1) (so_Root o1)") (simp_all add: getTrie_def, metis)

lemma getTrie_again: "getTrie db root o1 = (r, o2) \<Longrightarrow> fst (getTrie db root (o2\<lparr>originStorage := m\<rparr>)) = r"
  by (auto simp: getTrie_def split: option.splits sum.splits)

lemma read_slot_cong:
  assumes "fst (getTrie db root o2) = fst (getTrie db root o1)" "so_addrHash o2 = so_addrHash o1"
    "so_address o2 = so_address o1"
  shows "fst (read_slot db sn root o2 key) = fst (read_slot db sn root o1 key)"
  using assms
  by (cases "getTrie db root o1"; cases "getTrie db root o2") (auto simp: read_slot_def split: sum.splits option.splits)

lemma read_slot_obj:
  "read_slot db sn root o1 key = (r, o2) \<Longrightarrow> o2 = o1 \<or> (\<exists>t. so_trie o1 = None \<and> getTrie db root o1 = (Inr t, o2) \<and> o2 = o1\<lparr>so_trie := Some t\<rparr>)"
  by (auto simp: read_slot_def split: option.splits sum.splits prod.splits dest!: getTrie_view)

text \<open>The value of a slot that is neither pending nor cached.\<close>

definition slot_value :: "'t Database \<Rightarrow> snapshot option \<Rightarrow> hash \<Rightarrow> bool \<Rightarrow> 't stateObject \<Rightarrow> hash \<Rightarrow> hash" where
  "slot_value db sn root destructed o1 key =
     (if destructed then 0
      else case fst (read_slot db sn root o1 key) of Inl e \<Rightarrow> 0 | Inr enc \<Rightarrow> fst (decode_slot enc))"

lemma committed_value:
  "fst (obj_GetCommittedState db sn root destructed o1 key) =
     (case pendingStorage o1 key of Some v \<Rightarrow> v
      | None \<Rightarrow> (case originStorage o1 key of Some v \<Rightarrow> v | None \<Rightarrow> slot_value db sn root destructed o1 key))"
  by (auto simp: obj_GetCommittedState_def slot_value_def Let_def split: option.splits sum.splits prod.splits)

lemma state_value:
  "fst (obj_GetState db sn root destructed o1 key) =
     (case dirtyStorage o1 key of Some v \<Rightarrow> v
      | None \<Rightarrow> fst (obj_GetCommittedState db sn root destructed o1 key))"
  by (auto simp: obj_GetState_def split: option.splits)

text \<open>
  A cached object: the trie may have been opened, and slots read from it may have been cached, with
  the value a read gives.
\<close>

definition caches :: "'t Database \<Rightarrow> snapshot option \<Rightarrow> hash \<Rightarrow> bool \<Rightarrow> 't stateObject \<Rightarrow> 't stateObject \<Rightarrow> bool" where
  "caches db sn root destructed o1 o2 \<longleftrightarrow>
     (\<exists>t m. o2 = o1\<lparr>so_trie := t, originStorage := m\<rparr> \<and>
        fst (getTrie db root o2) = fst (getTrie db root o1) \<and>
        (\<forall>k. m k = originStorage o1 k \<or> originStorage o1 k = None \<and> m k = Some (slot_value db sn root destructed o1 k)))"

lemma caches_refl [simp]: "caches db sn root d o1 o1"
  unfolding caches_def by (intro exI[of _ "so_trie o1"] exI[of _ "originStorage o1"]) simp

lemma caches_view:
  assumes "caches db sn root d o1 o2"
  shows "obj_view db sn root d o2 = obj_view db sn root d o1" "so_address o2 = so_address o1"
proof -
  obtain t m where o2: "o2 = o1\<lparr>so_trie := t, originStorage := m\<rparr>"
    and tr: "fst (getTrie db root o2) = fst (getTrie db root o1)"
    and m: "\<And>k. m k = originStorage o1 k \<or> originStorage o1 k = None \<and> m k = Some (slot_value db sn root d o1 k)"
    using assms unfolding caches_def by blast
  show "so_address o2 = so_address o1" by (simp add: o2)
  have sv: "slot_value db sn root d o2 k = slot_value db sn root d o1 k" for k
    using read_slot_cong[OF tr, of sn k] by (simp add: slot_value_def o2)
  have cm: "fst (obj_GetCommittedState db sn root d o2 k) = fst (obj_GetCommittedState db sn root d o1 k)" for k
    using m[of k] unfolding committed_value sv by (auto simp: o2 split: option.splits)
  have "fst (obj_GetState db sn root d o2 k) = fst (obj_GetState db sn root d o1 k)" for k
    unfolding state_value cm by (simp add: o2)
  moreover have "fst (obj_Code db o2) = fst (obj_Code db o1)"
    by (auto simp: obj_Code_def o2 split: option.splits sum.splits)
  ultimately show "obj_view db sn root d o2 = obj_view db sn root d o1"
    using cm by (simp add: obj_view_def o2)
qed

lemma GetCommittedState_caches:
  assumes "obj_GetCommittedState db sn root d o1 key = (v, o2, e)"
  shows "caches db sn root d o1 o2"
proof (cases "pendingStorage o1 key = None \<and> originStorage o1 key = None \<and> \<not> d")
  case False
  then have "o2 = o1" using assms by (auto simp: obj_GetCommittedState_def split: option.splits if_splits)
  then show ?thesis by simp
next
  case True
  obtain r o3 where rs: "read_slot db sn root o1 key = (r, o3)" by fastforce
  have tr: "fst (getTrie db root (o3\<lparr>originStorage := m\<rparr>)) = fst (getTrie db root o1)"
    "o3 = o1\<lparr>so_trie := so_trie o3\<rparr>" for m
    using read_slot_obj[OF rs] getTrie_again[of db root o1] by (auto simp: getTrie_def split: option.splits sum.splits)
  have "o2 = o3 \<or> (\<exists>enc. r = Inr enc \<and> o2 = o3\<lparr>originStorage := (originStorage o3)(key \<mapsto> fst (decode_slot enc))\<rparr>)"
    using assms True rs by (auto simp: obj_GetCommittedState_def Let_def split: sum.splits)
  then show ?thesis
  proof
    assume "o2 = o3"
    then show ?thesis unfolding caches_def
      using tr(1)[of "originStorage o1"] tr(2)
      by (intro exI[of _ "so_trie o3"] exI[of _ "originStorage o1"]) (cases o1, cases o3, simp)
  next
    assume "\<exists>enc. r = Inr enc \<and> o2 = o3\<lparr>originStorage := (originStorage o3)(key \<mapsto> fst (decode_slot enc))\<rparr>"
    then obtain enc where enc: "r = Inr enc" "o2 = o3\<lparr>originStorage := (originStorage o3)(key \<mapsto> fst (decode_slot enc))\<rparr>"
      by blast
    have sv: "slot_value db sn root d o1 key = fst (decode_slot enc)"
      using True rs enc by (simp add: slot_value_def)
    have os: "originStorage o3 = originStorage o1" by (subst tr(2)) simp
    have o2: "o2 = o1\<lparr>so_trie := so_trie o3, originStorage := (originStorage o1)(key \<mapsto> fst (decode_slot enc))\<rparr>"
      unfolding enc(2) os by (subst tr(2)) simp
    have "fst (getTrie db root o2) = fst (getTrie db root o1)" unfolding enc(2) by (rule tr(1))
    then show ?thesis unfolding caches_def using sv True
      by (intro exI[of _ "so_trie o3"] exI[of _ "(originStorage o1)(key \<mapsto> fst (decode_slot enc))"] conjI o2) auto
  qed
qed

lemma GetState_caches:
  assumes "obj_GetState db sn root d o1 key = (v, o2, e)"
  shows "caches db sn root d o1 o2"
  using assms GetCommittedState_caches by (auto simp: obj_GetState_def split: option.splits)

lemma Code_view:
  assumes "obj_Code db o1 = (c, o2, e)"
  shows "obj_view db sn root d o2 = obj_view db sn root d o1" "so_address o2 = so_address o1"
proof -
  obtain x where o2: "o2 = o1\<lparr>so_code := x\<rparr>" "fst (obj_Code db o2) = c"
  proof -
    have "o2 = o1\<lparr>so_code := so_code o2\<rparr>" "fst (obj_Code db o2) = c"
      using assms by (auto simp: obj_Code_def split: option.splits if_splits sum.splits)
    then show ?thesis using that by blast
  qed
  show "so_address o2 = so_address o1" by (simp add: o2)
  have "fst (read_slot db sn root o2 k) = fst (read_slot db sn root o1 k)" for k
    by (rule read_slot_cong) (auto simp: o2 getTrie_def split: option.splits sum.splits)
  then have cm: "fst (obj_GetCommittedState db sn root d o2 k) = fst (obj_GetCommittedState db sn root d o1 k)" for k
    unfolding committed_value slot_value_def by (simp add: o2(1) split: option.split)
  then have "fst (obj_GetState db sn root d o2 k) = fst (obj_GetState db sn root d o1 k)" for k
    unfolding state_value by (simp add: o2(1) split: option.split)
  then show "obj_view db sn root d o2 = obj_view db sn root d o1"
    using cm o2(2) assms by (simp add: obj_view_def o2(1))
qed

section \<open>The state database through its view\<close>

lemma lookup_setStateObject: "lookup_obj db (setStateObject o1 s) = (lookup_obj db s)(so_address o1 \<mapsto> o1)"
  by (rule ext) (simp add: lookup_obj_def setStateObject_def split: option.split)

lemma sdb_fields [simp]:
  "snap (setStateObject o1 s) = snap s" "originalRoot (setStateObject o1 s) = originalRoot s"
  "stateObjectsDestruct (setStateObject o1 s) = stateObjectsDestruct s"
  "stateObjectsDirty (setStateObject o1 s) = stateObjectsDirty s"
  "stateObjects (setStateObject o1 s) = (stateObjects s)(so_address o1 \<mapsto> o1)"
  "sdb_journal (setStateObject o1 s) = sdb_journal s" "sdb_trie (setStateObject o1 s) = sdb_trie s"
  "validRevisions (setStateObject o1 s) = validRevisions s" "nextRevisionId (setStateObject o1 s) = nextRevisionId s"
  "snap (setError e s) = snap s" "originalRoot (setError e s) = originalRoot s"
  "stateObjectsDestruct (setError e s) = stateObjectsDestruct s"
  "stateObjectsDirty (setError e s) = stateObjectsDirty s"
  "stateObjects (setError e s) = stateObjects s" "sdb_journal (setError e s) = sdb_journal s"
  "sdb_trie (setError e s) = sdb_trie s"
  "validRevisions (setError e s) = validRevisions s" "nextRevisionId (setError e s) = nextRevisionId s"
  "snap (append_entry en s) = snap s" "originalRoot (append_entry en s) = originalRoot s"
  "stateObjectsDestruct (append_entry en s) = stateObjectsDestruct s"
  "stateObjectsDirty (append_entry en s) = stateObjectsDirty s"
  "stateObjects (append_entry en s) = stateObjects s" "sdb_trie (append_entry en s) = sdb_trie s"
  "validRevisions (append_entry en s) = validRevisions s" "nextRevisionId (append_entry en s) = nextRevisionId s"
  "stateObjects (add_delta d s) = stateObjects s" "sdb_journal (add_delta d s) = sdb_journal s"
  "validRevisions (add_delta d s) = validRevisions s" "nextRevisionId (add_delta d s) = nextRevisionId s"
  "stateObjectsDirty (add_delta d s) = stateObjectsDirty s"
  by (simp_all add: setStateObject_def setError_def append_entry_def add_delta_def)

lemma j_entries_append [simp]: "j_entries (journal_append e j) = j_entries j @ [e]"
  "j_entries (journal_dirty a j) = j_entries j" "j_entries (undirty e j) = j_entries j"
  by (auto simp: journal_append_def journal_dirty_def undirty_def Let_def split: option.split)

lemma entries_append_entry [simp]:
  "j_entries (sdb_journal (append_entry e s)) = j_entries (sdb_journal s) @ [e]"
  by (simp add: append_entry_def)

text \<open>The view depends on the objects, and is not touched by the bookkeeping fields.\<close>

lemma objs_view_cong:
  "stateObjects s' = stateObjects s \<Longrightarrow> snap s' = snap s \<Longrightarrow> sdb_trie s' = sdb_trie s \<Longrightarrow>
   originalRoot s' = originalRoot s \<Longrightarrow> stateObjectsDestruct s' = stateObjectsDestruct s \<Longrightarrow>
   objs_view db s' = objs_view db s"
  by (rule ext) (simp add: objs_view_def lookup_obj_def split: option.split)

lemma objs_view_setStateObject:
  "objs_view db (setStateObject o1 s) =
     (objs_view db s)(so_address o1 \<mapsto>
        obj_view db (snap s) (originalRoot s) (so_address o1 \<in> stateObjectsDestruct s) o1)"
  by (rule ext) (simp add: objs_view_def lookup_setStateObject)

lemma view_cong:
  assumes "objs_view db s' = objs_view db s"
    and "stateObjectsDestruct s' = stateObjectsDestruct s" "stateObjectsDirty s' = stateObjectsDirty s"
    "sdb_refund s' = sdb_refund s" "sdb_logs s' = sdb_logs s" "logSize s' = logSize s"
    "sdb_preimages s' = sdb_preimages s" "sdb_accessList s' = sdb_accessList s"
    "sdb_transient s' = sdb_transient s" "sdb_trie s' = sdb_trie s" "snap s' = snap s"
    "originalRoot s' = originalRoot s"
  shows "view db s' = view db s"
  using assms by (simp add: view_def GetTransientState_def)

lemma view_setStateObject:
  "view db (setStateObject o1 s) =
     (view db s)\<lparr>v_objs := (objs_view db s)(so_address o1 \<mapsto>
        obj_view db (snap s) (originalRoot s) (so_address o1 \<in> stateObjectsDestruct s) o1)\<rparr>"
  by (simp add: view_def objs_view_setStateObject) (simp add: setStateObject_def GetTransientState_def)

lemma view_bookkeeping [simp]:
  "view db (setError e s) = view db s" "view db (append_entry en s) = view db s"
  "view db (add_delta d s) = view db s" "view db (s\<lparr>sdb_journal := j\<rparr>) = view db s"
  "view db (s\<lparr>validRevisions := r\<rparr>) = view db s" "view db (s\<lparr>unexpectedBalanceDelta := x\<rparr>) = view db s"
  "view db (s\<lparr>nextRevisionId := n\<rparr>) = view db s" "view db (SetTxContext h i s) = view db s"
  by (rule view_cong; (rule objs_view_cong)?; simp add: setError_def append_entry_def add_delta_def SetTxContext_def)+

lemma objs_view_bookkeeping [simp]:
  "objs_view db (setError e s) = objs_view db s" "objs_view db (append_entry en s) = objs_view db s"
  "objs_view db (add_delta d s) = objs_view db s"
  by (rule objs_view_cong; simp add: setError_def append_entry_def add_delta_def)+

lemma wf_bookkeeping [simp]:
  "sdb_wf (setError e s) = sdb_wf s" "sdb_wf (append_entry en s) = sdb_wf s" "sdb_wf (add_delta d s) = sdb_wf s"
  "sdb_wf (s\<lparr>sdb_journal := j\<rparr>) = sdb_wf s" "sdb_wf (s\<lparr>validRevisions := r\<rparr>) = sdb_wf s"
  "sdb_wf (s\<lparr>unexpectedBalanceDelta := x\<rparr>) = sdb_wf s" "sdb_wf (s\<lparr>nextRevisionId := n\<rparr>) = sdb_wf s"
  "sdb_wf (SetTxContext h i s) = sdb_wf s"
  by (simp_all add: sdb_wf_def setError_def append_entry_def add_delta_def SetTxContext_def)

lemma wf_setStateObject [simp]: "sdb_wf s \<Longrightarrow> sdb_wf (setStateObject o1 s)"
  by (auto simp: sdb_wf_def)

text \<open>
  A read: the live objects and the sticky database error may change, nothing else does, and the view
  is the same.
\<close>

definition reads :: "'t Database \<Rightarrow> 't StateDB \<Rightarrow> 't StateDB \<Rightarrow> bool" where
  "reads db s s' \<longleftrightarrow> (\<exists>X e. s' = s\<lparr>stateObjects := X, dbErr := e\<rparr>) \<and> view db s' = view db s \<and> sdb_wf s'"

lemma reads_refl: "sdb_wf s \<Longrightarrow> reads db s s"
  unfolding reads_def by (intro conjI exI[of _ "stateObjects s"] exI[of _ "dbErr s"]) simp_all

lemma reads_trans:
  assumes "reads db s1 s2" "reads db s2 s3"
  shows "reads db s1 s3"
proof -
  obtain X e Y f where "s2 = s1\<lparr>stateObjects := X, dbErr := e\<rparr>" "s3 = s2\<lparr>stateObjects := Y, dbErr := f\<rparr>"
    using assms unfolding reads_def by blast
  then have "s3 = s1\<lparr>stateObjects := Y, dbErr := f\<rparr>" by simp
  moreover have "view db s3 = view db s1" "sdb_wf s3" using assms by (simp_all add: reads_def)
  ultimately show ?thesis unfolding reads_def by blast
qed

lemma readsI:
  "s' = s\<lparr>stateObjects := X, dbErr := e\<rparr> \<Longrightarrow> view db s' = view db s \<Longrightarrow> sdb_wf s' \<Longrightarrow> reads db s s'"
  unfolding reads_def by blast

lemma reads_setError: "sdb_wf s \<Longrightarrow> reads db s (setError e s)"
  by (rule readsI[where X = "stateObjects s" and e = "dbErr (setError e s)"], simp add: setError_def, simp_all)

lemma reads_setStateObject:
  assumes "sdb_wf s" "objs_view db s (so_address o1) =
    Some (obj_view db (snap s) (originalRoot s) (so_address o1 \<in> stateObjectsDestruct s) o1)"
  shows "reads db s (setStateObject o1 s)"
proof -
  have "(objs_view db s)(so_address o1 \<mapsto>
      obj_view db (snap s) (originalRoot s) (so_address o1 \<in> stateObjectsDestruct s) o1) = objs_view db s"
    using assms(2) by (simp add: fun_upd_idem)
  then have "view db (setStateObject o1 s) = view db s" unfolding view_setStateObject by (simp add: view_def)
  then show ?thesis
    using assms(1) by (intro readsI[where X = "(stateObjects s)(so_address o1 \<mapsto> o1)" and e = "dbErr s"])
      (simp add: setStateObject_def, simp_all)
qed

lemma reads_fields:
  assumes "reads db s s'"
  shows "sdb_wf s'" "view db s' = view db s" "objs_view db s' = objs_view db s"
    "snap s' = snap s" "originalRoot s' = originalRoot s" "stateObjectsDestruct s' = stateObjectsDestruct s"
    "sdb_journal s' = sdb_journal s" "validRevisions s' = validRevisions s" "nextRevisionId s' = nextRevisionId s"
    "unexpectedBalanceDelta s' = unexpectedBalanceDelta s" "sdb_trie s' = sdb_trie s"
    "stateObjectsDirty s' = stateObjectsDirty s"
proof -
  show 1: "view db s' = view db s" "sdb_wf s'" using assms by (simp_all add: reads_def)
  show "objs_view db s' = objs_view db s" using arg_cong[OF 1(1), of v_objs] by simp
  obtain X e where "s' = s\<lparr>stateObjects := X, dbErr := e\<rparr>" using assms unfolding reads_def by blast
  then show "snap s' = snap s" "originalRoot s' = originalRoot s" "stateObjectsDestruct s' = stateObjectsDestruct s"
    "sdb_journal s' = sdb_journal s" "validRevisions s' = validRevisions s" "nextRevisionId s' = nextRevisionId s"
    "unexpectedBalanceDelta s' = unexpectedBalanceDelta s" "sdb_trie s' = sdb_trie s"
    "stateObjectsDirty s' = stateObjectsDirty s" by simp_all
qed

lemma newObject_address [simp]: "so_address (newObject db a d) = a" "deleted (newObject db a d) = False"
  by (simp_all add: newObject_def)

lemma lookup_address: "sdb_wf s \<Longrightarrow> lookup_obj db s a = Some o1 \<Longrightarrow> so_address o1 = a"
  by (auto simp: lookup_obj_def base_obj_def split: option.splits sum.splits dest: sdb_wf_address)

lemma getDeletedStateObject_reads:
  assumes "sdb_wf s" "getDeletedStateObject db a s = (r, s')"
  shows "r = lookup_obj db s a" "reads db s s'" "\<And>o1. r = Some o1 \<Longrightarrow> stateObjects s' a = Some o1"
    "r = None \<Longrightarrow> stateObjects s' a = None"
proof -
  show r: "r = lookup_obj db s a"
    using assms(2)
    by (cases "stateObjects s a"; cases "load_account db (snap s) (sdb_trie s) a")
      (auto simp: getDeletedStateObject_def lookup_obj_def base_obj_def split: option.splits)
  show "r = None \<Longrightarrow> stateObjects s' a = None" "\<And>o1. r = Some o1 \<Longrightarrow> stateObjects s' a = Some o1"
    using assms(2) by (cases "stateObjects s a"; auto simp: getDeletedStateObject_def split: option.splits sum.splits)+
  consider "s' = s" | e where "s' = setError e s" | o1 where "r = Some o1" "so_address o1 = a" "s' = setStateObject o1 s"
    using assms(2) newObject_address(1)
    by (cases "stateObjects s a"; cases "load_account db (snap s) (sdb_trie s) a")
      (auto simp: getDeletedStateObject_def split: option.splits)
  then show "reads db s s'"
  proof cases
    case 3
    have "objs_view db s (so_address o1) =
        Some (obj_view db (snap s) (originalRoot s) (so_address o1 \<in> stateObjectsDestruct s) o1)"
      using trans[OF r[symmetric] 3(1)] 3(2) by (simp add: objs_view_def)
    then show ?thesis unfolding 3(3) by (rule reads_setStateObject[OF assms(1)])
  qed (use assms(1) in \<open>simp_all add: reads_refl reads_setError\<close>)
qed

lemma getStateObject_reads:
  assumes "sdb_wf s" "getStateObject db a s = (r, s')"
  shows "reads db s s'"
    and "\<And>o1. r = Some o1 \<Longrightarrow> stateObjects s' a = Some o1 \<and> \<not> deleted o1 \<and> so_address o1 = a \<and>
          objs_view db s a = Some (obj_view db (snap s) (originalRoot s) (a \<in> stateObjectsDestruct s) o1)"
    and "r = None \<Longrightarrow> (case objs_view db s a of None \<Rightarrow> True | Some ov \<Rightarrow> ov_deleted ov)"
proof -
  obtain r1 s1 where g: "getDeletedStateObject db a s = (r1, s1)" by fastforce
  note G = getDeletedStateObject_reads[OF assms(1) g]
  have s': "s' = s1" "r = (case r1 of Some o1 \<Rightarrow> if \<not> deleted o1 then Some o1 else None | None \<Rightarrow> None)"
    using assms(2) g by (auto simp: getStateObject_def split: option.splits if_splits)
  show "reads db s s'" using G(2) s' by simp
  show "stateObjects s' a = Some o1 \<and> \<not> deleted o1 \<and> so_address o1 = a \<and>
      objs_view db s a = Some (obj_view db (snap s) (originalRoot s) (a \<in> stateObjectsDestruct s) o1)" if "r = Some o1" for o1
  proof -
    have o1: "r1 = Some o1" "\<not> deleted o1" using that s' by (auto split: option.splits if_splits)
    have "lookup_obj db s a = Some o1" using G(1) o1 by simp
    then have "so_address o1 = a" by (rule lookup_address[OF assms(1)])
    moreover have "stateObjects s' a = Some o1" using G(3)[OF o1(1)] s' by simp
    ultimately show ?thesis using o1 \<open>lookup_obj db s a = Some o1\<close> by (simp add: objs_view_def)
  qed
  show "case objs_view db s a of None \<Rightarrow> True | Some ov \<Rightarrow> ov_deleted ov" if "r = None"
    using that s' G(1) by (auto simp: objs_view_def split: option.splits if_splits)
qed

end
