(* ===== verification/State_Revert.thy ===== *)
theory State_Revert
  imports State_View
begin

text \<open>
  Snapshots and reverts of the state database. Every mutating operation of \<open>StateDB\<close> extends the
  journal by entries whose undoing gives back the view it started from; \<open>RevertToSnapshot\<close> therefore
  restores what the client could observe when the snapshot was taken.
\<close>

section \<open>The revert methods implement undo\<close>

text \<open>One round of the loop of \<open>journal.revert\<close>.\<close>

definition revert_one :: "'t Database \<Rightarrow> 't journalEntry \<Rightarrow> ('t StateDB, string, unit) stm" where
  "revert_one db e =
     bind_st (entry_revert db e) (\<lambda>_. modify_st (\<lambda>s. s\<lparr>sdb_journal := undirty e (sdb_journal s)\<rparr>))"

lemma bind_st_assoc: "bind_st (bind_st m f) g = bind_st m (\<lambda>x. bind_st (f x) g)"
  by (rule ext) (auto simp: bind_st_def split: outcome.split prod.split)

lemma revert_entries_all: "revert_entries db es = revert_all (revert_one db) es"
  by (induction es) (simp_all add: revert_one_def bind_st_assoc)

lemma obj_Code_value: "fst (obj_Code db o1) = code_view db (so_addrHash o1) (so_CodeHash o1) (so_code o1)"
  by (auto simp: obj_Code_def code_view_def split: option.split sum.split)

text \<open>The effect of a setter of a live object on its view.\<close>

lemma obj_view_setBalance: "obj_view db sn r d (setBalance v o1) = (obj_view db sn r d o1)\<lparr>ov_Balance := v\<rparr>"
  and obj_view_setNonce: "obj_view db sn r d (setNonce n o1) = (obj_view db sn r d o1)\<lparr>ov_Nonce := n\<rparr>"
  and obj_view_suicided: "obj_view db sn r d (o1\<lparr>suicided := b\<rparr>) = (obj_view db sn r d o1)\<lparr>ov_suicided := b\<rparr>"
proof -
  have 1: "slot_value db sn r d (setBalance v o1) k = slot_value db sn r d o1 k"
    "slot_value db sn r d (setNonce n o1) k = slot_value db sn r d o1 k"
    "slot_value db sn r d (o1\<lparr>suicided := b\<rparr>) k = slot_value db sn r d o1 k" for k
    unfolding slot_value_def
    by (subst read_slot_cong[of db r _ o1]; auto simp: setBalance_def setNonce_def getTrie_def split: option.split sum.split)+
  show "obj_view db sn r d (setBalance v o1) = (obj_view db sn r d o1)\<lparr>ov_Balance := v\<rparr>"
    "obj_view db sn r d (setNonce n o1) = (obj_view db sn r d o1)\<lparr>ov_Nonce := n\<rparr>"
    "obj_view db sn r d (o1\<lparr>suicided := b\<rparr>) = (obj_view db sn r d o1)\<lparr>ov_suicided := b\<rparr>"
    unfolding obj_view_def state_value committed_value 1 obj_Code_value
    by (simp_all add: setBalance_def setNonce_def cong: option.case_cong)
qed

lemma obj_view_setState:
  "obj_view db sn r d (setState k v o1) = (obj_view db sn r d o1)\<lparr>ov_state := (ov_state (obj_view db sn r d o1))(k := v)\<rparr>"
proof -
  have 1: "slot_value db sn r d (setState k v o1) key = slot_value db sn r d o1 key" for key
    unfolding slot_value_def
    by (subst read_slot_cong[of db r _ o1]; auto simp: setState_def getTrie_def split: option.split sum.split)
  show ?thesis
    unfolding obj_view_def state_value committed_value 1 obj_Code_value
    by (auto simp: setState_def fun_eq_iff cong: option.case_cong)
qed

lemma obj_view_setCode:
  "obj_view db sn r d (setCode h c o1) =
     (obj_view db sn r d o1)\<lparr>ov_CodeHash := hash_bytes h, ov_Code := code_view db (ov_addrHash (obj_view db sn r d o1)) (hash_bytes h) c\<rparr>"
proof -
  have 1: "slot_value db sn r d (setCode h c o1) key = slot_value db sn r d o1 key" for key
    unfolding slot_value_def
    by (subst read_slot_cong[of db r _ o1]; auto simp: setCode_def getTrie_def split: option.split sum.split)
  show ?thesis
    unfolding obj_view_def state_value committed_value 1 obj_Code_value
    by (simp add: setCode_def cong: option.case_cong)
qed

lemmas obj_view_setters = obj_view_setBalance obj_view_setNonce obj_view_suicided obj_view_setState obj_view_setCode

lemma setter_address [simp]:
  "so_address (setBalance v o1) = so_address o1" "so_address (setNonce n o1) = so_address o1"
  "so_address (setState k w o1) = so_address o1" "so_address (setCode h c o1) = so_address o1"
  "so_address (markSuicided o1) = so_address o1"
  by (simp_all add: setBalance_def setNonce_def setState_def setCode_def markSuicided_def)

text \<open>Writing a changed live object back, seen through the view.\<close>

lemma live_update:
  assumes wf: "sdb_wf s" and g: "getStateObject db a s = (r, s1)"
    and upd: "upd_live a f (view db s) = Some v"
    and h: "\<And>o1. obj_view db (snap s) (originalRoot s) (a \<in> stateObjectsDestruct s) (h o1) =
                f (obj_view db (snap s) (originalRoot s) (a \<in> stateObjectsDestruct s) o1)"
      "\<And>o1. so_address (h o1) = so_address o1"
  shows "\<exists>o1. r = Some o1 \<and> view db (setStateObject (h o1) s1) = v \<and> sdb_wf (setStateObject (h o1) s1)"
proof -
  note G = getStateObject_reads[OF wf g]
  obtain ov where ov: "objs_view db s a = Some ov" "\<not> ov_deleted ov"
    "v = (view db s)\<lparr>v_objs := (objs_view db s)(a \<mapsto> f ov)\<rparr>"
    using upd by (auto simp: upd_live_def split: option.splits if_splits)
  obtain o1 where o1: "r = Some o1" using G(3) ov by (cases r) auto
  note G2 = G(2)[OF o1] and R = reads_fields[OF G(1)]
  have "ov = obj_view db (snap s) (originalRoot s) (a \<in> stateObjectsDestruct s) o1" using G2 ov(1) by simp
  then have "view db (setStateObject (h o1) s1) = v"
    unfolding view_setStateObject R ov(3) using G2 h by simp
  then show ?thesis using o1 R(1) by simp
qed

lemma live_missing:
  assumes wf: "sdb_wf s" and g: "getStateObject db a s = (r, s1)" and upd: "upd_live a f (view db s) = None"
  shows "r = None \<and> view db s1 = view db s \<and> sdb_wf s1"
proof -
  note G = getStateObject_reads[OF wf g]
  have "r = None"
  proof (cases r)
    case (Some o1)
    then show ?thesis using G(2)[OF Some] upd by (auto simp: upd_live_def)
  qed
  then show ?thesis using reads_fields(1,2)[OF G(1)] by simp
qed

lemma view_create_undo:
  "view db (s\<lparr>stateObjects := (stateObjects s)(a := None), stateObjectsDirty := stateObjectsDirty s - {a}\<rparr>) =
     (view db s)\<lparr>v_objs := (objs_view db s)(a := map_option (obj_view db (snap s) (originalRoot s) (a \<in> stateObjectsDestruct s))
                                         (base_obj db (snap s) (sdb_trie s) a)),
             v_dirty := stateObjectsDirty s - {a}\<rparr>"
  by (auto simp: view_def objs_view_def lookup_obj_def GetTransientState_def fun_eq_iff cong: option.case_cong)

lemma view_reset_undo:
  assumes "a = so_address prev" "D = (if pd then stateObjectsDestruct s else stateObjectsDestruct s - {a})"
  shows "view db (let s = setStateObject prev s in
       if \<not> pd then s\<lparr>stateObjectsDestruct := stateObjectsDestruct s - {so_address prev}\<rparr> else s) =
     (view db s)\<lparr>v_objs := (objs_view db s)(a \<mapsto> obj_view db (snap s) (originalRoot s) (a \<in> D) prev),
                 v_destruct := D\<rparr>"
  using assms
  by (auto simp: view_def objs_view_def lookup_obj_def GetTransientState_def setStateObject_def fun_eq_iff
      cong: option.case_cong)

lemma view_field_upd [simp]:
  "view db (s\<lparr>sdb_refund := r\<rparr>) = (view db s)\<lparr>v_refund := r\<rparr>"
  "view db (s\<lparr>sdb_logs := ls, logSize := n\<rparr>) = (view db s)\<lparr>v_logs := ls, v_logSize := n\<rparr>"
  "view db (s\<lparr>sdb_preimages := p\<rparr>) = (view db s)\<lparr>v_preimages := p\<rparr>"
  "view db (s\<lparr>sdb_accessList := al\<rparr>) = (view db s)\<lparr>v_accessList := al\<rparr>"
  "view db (setTransientState a k v s) =
     (view db s)\<lparr>v_transient := (v_transient (view db s))(a := (v_transient (view db s) a)(k := v))\<rparr>"
  by (auto simp: view_def objs_view_def lookup_obj_def GetTransientState_def setTransientState_def fun_eq_iff
      cong: option.case_cong)

lemma wf_field_upd [simp]:
  "sdb_wf (s\<lparr>sdb_refund := r\<rparr>) = sdb_wf s" "sdb_wf (s\<lparr>sdb_logs := ls, logSize := n\<rparr>) = sdb_wf s"
  "sdb_wf (s\<lparr>sdb_preimages := p\<rparr>) = sdb_wf s" "sdb_wf (s\<lparr>sdb_accessList := al\<rparr>) = sdb_wf s"
  "sdb_wf (setTransientState a k v s) = sdb_wf s" "sdb_wf (s\<lparr>stateObjectsDestruct := D\<rparr>) = sdb_wf s"
  by (simp_all add: sdb_wf_def setTransientState_def)

lemma wf_create_undo [simp]:
  "sdb_wf s \<Longrightarrow> sdb_wf (s\<lparr>stateObjects := (stateObjects s)(a := None), stateObjectsDirty := stateObjectsDirty s - {a}\<rparr>)"
  by (auto simp: sdb_wf_def)

text \<open>The entries on a live object all revert the same way.\<close>

lemma live_entry:
  assumes wf: "sdb_wf s" and u: "upd_live a f (view db s) = Some v"
    and e: "entry_revert db e s = (case getStateObject db a s of
        (None, s) \<Rightarrow> (Panic, s) | (Some o1, s) \<Rightarrow> (Ret (), setStateObject (h o1) s))"
    and h: "\<And>sn r d o1. obj_view db sn r d (h o1) = f (obj_view db sn r d o1)" "\<And>o1. so_address (h o1) = so_address o1"
  shows "\<exists>s'. entry_revert db e s = (Ret (), s') \<and> view db s' = v \<and> sdb_wf s'"
proof -
  obtain r s1 where g: "getStateObject db a s = (r, s1)" by fastforce
  show ?thesis using live_update[OF wf g u h] by (auto simp: e g)
qed

lemma entry_revert_undo:
  assumes wf: "sdb_wf s" and u: "undo db e (view db s) = Some v"
  shows "\<exists>s'. entry_revert db e s = (Ret (), s') \<and> view db s' = v \<and> sdb_wf s'"
proof (cases e)
  case (createObjectChange a)
  then show ?thesis using u wf view_create_undo[of db s a] by simp
next
  case (resetObjectChange prev pd)
  then show ?thesis using u wf view_reset_undo[OF refl refl, of db prev s pd] by (auto simp: Let_def)
next
  case (suicideChange a p b)
  obtain r s1 where g: "getStateObject db a s = (r, s1)" by fastforce
  show ?thesis
  proof (cases "upd_live a (\<lambda>o1. o1\<lparr>ov_suicided := p, ov_Balance := b\<rparr>) (view db s)")
    case None
    then show ?thesis using live_missing[OF wf g None] u suicideChange g by simp
  next
    case (Some v')
    have "\<exists>o1. r = Some o1 \<and> view db (setStateObject (setBalance b (o1\<lparr>suicided := p\<rparr>)) s1) = v' \<and>
        sdb_wf (setStateObject (setBalance b (o1\<lparr>suicided := p\<rparr>)) s1)"
      by (rule live_update[OF wf g Some]) (simp_all add: obj_view_setters)
    then show ?thesis using u suicideChange g Some by auto
  qed
next
  case (balanceChange a p)
  show ?thesis
    by (rule live_entry[OF wf, where a = a and h = "setBalance p"]) (use u balanceChange in \<open>simp_all add: obj_view_setters\<close>)
next
  case (nonceChange a p)
  show ?thesis
    by (rule live_entry[OF wf, where a = a and h = "setNonce p"]) (use u nonceChange in \<open>simp_all add: obj_view_setters\<close>)
next
  case (storageChange a k p)
  show ?thesis
    by (rule live_entry[OF wf, where a = a and h = "setState k p"
        and f = "\<lambda>o1. o1\<lparr>ov_state := (ov_state o1)(k := p)\<rparr>"]) (use u storageChange in \<open>simp_all add: obj_view_setters\<close>)
next
  case (codeChange a c h)
  show ?thesis
    by (rule live_entry[OF wf, where a = a and h = "setCode (BytesToHash h) c" and f = "\<lambda>o1. o1\<lparr>ov_CodeHash := hash_bytes (BytesToHash h),
         ov_Code := code_view db (ov_addrHash o1) (hash_bytes (BytesToHash h)) c\<rparr>"])
      (use u codeChange in \<open>simp, simp, simp only: obj_view_setCode, simp\<close>)
next
  case (addLogChange h)
  then show ?thesis using u wf by (auto simp: Let_def split: option.splits if_splits)
next
  case (accessListAddSlotChange a slot)
  then show ?thesis using u wf by (auto split: outcome.splits)
qed (use u wf in auto)

interpretation uj: undo_journal "revert_one db" "undo db" "view db" sdb_wf
proof
  fix s e v
  assume "sdb_wf s" "undo db e (view db s) = Some v"
  from entry_revert_undo[OF this] obtain s' where
    s': "entry_revert db e s = (Ret (), s')" "view db s' = v" "sdb_wf s'" by blast
  show "\<exists>s'. revert_one db e s = (Ret (), s') \<and> view db s' = v \<and> sdb_wf s'"
    using s' by (auto simp: revert_one_def)
qed

section \<open>Every operation can be undone\<close>

abbreviation entries :: "'t StateDB \<Rightarrow> 't journalEntry list" where
  "entries s \<equiv> j_entries (sdb_journal s)"

text \<open>
  What every state keeps: the access list is well formed, no log list is empty, and code hashes are
  32 bytes long.
\<close>

definition view_ok :: "'t view \<Rightarrow> bool" where
  "view_ok v \<longleftrightarrow> al_ok (v_accessList v) \<and> (\<forall>h. v_logs v h \<noteq> Some []) \<and>
     (\<forall>a ov. v_objs v a = Some ov \<longrightarrow> length (ov_CodeHash ov) = 32)"

text \<open>A step of a client: the journal is extended, and revisions stay as they are.\<close>

definition journaled :: "'t Database \<Rightarrow> 't StateDB \<Rightarrow> 't StateDB \<Rightarrow> bool" where
  "journaled db s s' \<longleftrightarrow> extends (undo db) (view db) entries s s' \<and> sdb_wf s' \<and> view_ok (view db s') \<and>
     validRevisions s' = validRevisions s \<and> nextRevisionId s' = nextRevisionId s"

lemma journaled_trans: "journaled db s1 s2 \<Longrightarrow> journaled db s2 s3 \<Longrightarrow> journaled db s1 s3"
  unfolding journaled_def using extends_trans by metis

lemma journaled_refl: "sdb_wf s \<Longrightarrow> view_ok (view db s) \<Longrightarrow> journaled db s s"
  by (simp add: journaled_def)

lemma journaled_reads: "reads db s s' \<Longrightarrow> view_ok (view db s) \<Longrightarrow> journaled db s s'"
  by (simp add: journaled_def reads_fields extends_same)

lemma journaled_one:
  assumes "entries s' = entries s @ [e]" "undo db e (view db s') = Some (view db s)" "sdb_wf s'" "view_ok (view db s')"
    "validRevisions s' = validRevisions s" "nextRevisionId s' = nextRevisionId s"
  shows "journaled db s s'"
  using assms by (simp add: journaled_def extends_one)

lemma journaled_delta:
  "sdb_wf s \<Longrightarrow> view_ok (view db s) \<Longrightarrow> journaled db s (add_delta d s)"
  by (simp add: journaled_def extends_same)

lemma view_ok_upd:
  assumes "view_ok (view db s)" "length (so_CodeHash o1) = 32"
  shows "view_ok (view db (setStateObject o1 s))"
  using assms unfolding view_setStateObject view_ok_def by auto

lemma length_hash_bytes [simp]: "length (hash_bytes h) = 32"
  by (simp add: hash_bytes_def)

lemma view_self [simp]:
  "(view db s)\<lparr>v_objs := objs_view db s\<rparr> = view db s"
  "(view db s)\<lparr>v_objs := objs_view db s, v_dirty := stateObjectsDirty s\<rparr> = view db s"
  "(view db s)\<lparr>v_objs := objs_view db s, v_destruct := stateObjectsDestruct s\<rparr> = view db s"
  "(view db s)\<lparr>v_destruct := stateObjectsDestruct s\<rparr> = view db s"
  "(view db s)\<lparr>v_refund := sdb_refund s\<rparr> = view db s" "(view db s)\<lparr>v_preimages := sdb_preimages s\<rparr> = view db s"
  "(view db s)\<lparr>v_logs := sdb_logs s, v_logSize := logSize s\<rparr> = view db s"
  "(view db s)\<lparr>v_accessList := sdb_accessList s\<rparr> = view db s"
  "(view db s)\<lparr>v_transient := \<lambda>a k. GetTransientState a k s\<rparr> = view db s"
  by (simp_all add: view_def)

text \<open>Changing a live object with an entry that remembers what it was.\<close>

lemma journaled_live:
  assumes wf: "sdb_wf s" "view_ok (view db s)" and o1: "stateObjects s a = Some o1" "\<not> deleted o1"
    and e: "\<And>v v'. upd_live a f v = Some v' \<Longrightarrow> undo db e v = Some v'"
    and h: "so_address o2 = a" "\<not> deleted o2" "length (so_CodeHash o2) = 32"
      "f (obj_view db (snap s) (originalRoot s) (a \<in> stateObjectsDestruct s) o2) =
       obj_view db (snap s) (originalRoot s) (a \<in> stateObjectsDestruct s) o1"
  shows "journaled db s (setStateObject o2 (append_entry e s))"
proof (rule journaled_one)
  have ov: "objs_view db s a = Some (obj_view db (snap s) (originalRoot s) (a \<in> stateObjectsDestruct s) o1)"
    using o1 by (simp add: objs_view_def lookup_obj_def)
  have "upd_live a f (view db (setStateObject o2 (append_entry e s))) =
      Some ((view db s)\<lparr>v_objs := (objs_view db s)(a \<mapsto> obj_view db (snap s) (originalRoot s) (a \<in> stateObjectsDestruct s) o1)\<rparr>)"
    using h unfolding view_setStateObject by (simp add: upd_live_def)
  also have "\<dots> = Some (view db s)" using ov by (simp add: fun_upd_idem)
  finally show "undo db e (view db (setStateObject o2 (append_entry e s))) = Some (view db s)" using e by simp
  show "view_ok (view db (setStateObject o2 (append_entry e s)))" using wf h by (intro view_ok_upd) simp_all
qed (use wf in simp_all)

lemma live_codehash:
  assumes "view_ok (view db s)" "stateObjects s a = Some o1"
  shows "length (so_CodeHash o1) = 32"
proof -
  have "objs_view db s a = Some (obj_view db (snap s) (originalRoot s) (a \<in> stateObjectsDestruct s) o1)"
    using assms(2) by (simp add: objs_view_def lookup_obj_def)
  then show ?thesis using assms(1) unfolding view_ok_def by fastforce
qed

text \<open>Creating an object, over an existing one or not.\<close>

lemma createObject_journaled:
  assumes wf: "sdb_wf s" and ok: "view_ok (view db s)" and c: "createObject db a s = ((o1, prev), s')"
  shows "journaled db s s'" "stateObjects s' a = Some o1"
    "\<And>o2. so_address o2 = a \<Longrightarrow> length (so_CodeHash o2) = 32 \<Longrightarrow> journaled db s (setStateObject o2 s')"
    "o1 = newObject db a \<lparr>acc_Nonce = 0, acc_Balance = None, acc_Root = 0, acc_CodeHash = None\<rparr>"
    "unexpectedBalanceDelta s' = unexpectedBalanceDelta s"
    "prev = (case lookup_obj db s a of Some p \<Rightarrow> if deleted p then None else Some p | None \<Rightarrow> None)"
    "objs_view db s' = (objs_view db s)(a \<mapsto> obj_view db (snap s) (originalRoot s) (a \<in> stateObjectsDestruct s') o1)"
proof -
  define new where "new = newObject db a \<lparr>acc_Nonce = 0, acc_Balance = None, acc_Root = 0, acc_CodeHash = None\<rparr>"
  have new: "so_address new = a" "length (so_CodeHash new) = 32" by (simp_all add: new_def newObject_def)
  obtain p s1 where g: "getDeletedStateObject db a s = (p, s1)" by fastforce
  note G = getDeletedStateObject_reads[OF wf g]
  note R = reads_fields[OF G(2)]
  have ok1: "view_ok (view db s1)" using ok R(2) by simp
  have j0: "journaled db s s1" by (rule journaled_reads[OF G(2) ok])
  have main: "(\<forall>o2. so_address o2 = a \<longrightarrow> length (so_CodeHash o2) = 32 \<longrightarrow> journaled db s (setStateObject o2 s')) \<and>
    stateObjects s' a = Some o1 \<and> o1 = new \<and>
    unexpectedBalanceDelta s' = unexpectedBalanceDelta s \<and>
    prev = (case lookup_obj db s a of Some p \<Rightarrow> if deleted p then None else Some p | None \<Rightarrow> None) \<and>
    objs_view db s' = (objs_view db s)(a \<mapsto> obj_view db (snap s) (originalRoot s) (a \<in> stateObjectsDestruct s') o1)"
  proof (cases p)
    case None
    have s': "s' = setStateObject new (append_entry (createObjectChange a) s1)" "o1 = new" "prev = None"
      using c g None by (auto simp: createObject_def new_def Let_def)
    have none: "stateObjects s1 a = None" "base_obj db (snap s1) (sdb_trie s1) a = None"
      using G(1,4) None R by (auto simp: lookup_obj_def split: option.splits)
    then have d: "a \<notin> stateObjectsDirty s1" using R(1) by (auto simp: sdb_wf_def)
    have "objs_view db s1 a = None" using none by (simp add: objs_view_def lookup_obj_def)
    then have u: "undo db (createObjectChange a) (view db (setStateObject o2 (append_entry (createObjectChange a) s1))) =
        Some (view db s1)" if "so_address o2 = a" for o2
      unfolding view_setStateObject using that none d by (simp add: fun_upd_idem)
    have "journaled db s1 (setStateObject o2 (append_entry (createObjectChange a) s1))"
      if "so_address o2 = a" "length (so_CodeHash o2) = 32" for o2
      by (rule journaled_one[OF _ u]) (use R ok1 that in \<open>simp_all add: view_ok_upd\<close>)
    moreover have "setStateObject o2 s' = setStateObject o2 (append_entry (createObjectChange a) s1)"
      if "so_address o2 = a" for o2 using new that by (simp add: s' setStateObject_def)
    ultimately show ?thesis
      using journaled_trans[OF j0] new G(1) None R s'(2,3)
      by (auto simp: s'(1) objs_view_setStateObject) (simp_all add: setStateObject_def append_entry_def)
  next
    case (Some p1)
    have p1: "lookup_obj db s a = Some p1" "stateObjects s1 a = Some p1" using trans[OF G(1)[symmetric] Some] G(3)[OF Some] by simp_all
    then have addr: "so_address p1 = a" using lookup_address[OF wf] by simp
    define pd where "pd = (a \<in> stateObjectsDestruct s1)"
    define s2 where "s2 = (if \<not> pd then s1\<lparr>stateObjectsDestruct := insert a (stateObjectsDestruct s1)\<rparr> else s1)"
    have s': "s' = setStateObject new (append_entry (resetObjectChange p1 pd) s2)" "o1 = new"
        "prev = (if deleted p1 then None else Some p1)"
      using c g Some addr by (auto simp: createObject_def new_def Let_def s2_def pd_def split: if_splits)
    have s2: "stateObjectsDestruct s2 = insert a (stateObjectsDestruct s1)" "sdb_journal s2 = sdb_journal s1"
      "snap s2 = snap s1" "originalRoot s2 = originalRoot s1" "validRevisions s2 = validRevisions s1"
      "nextRevisionId s2 = nextRevisionId s1" "unexpectedBalanceDelta s2 = unexpectedBalanceDelta s1"
      by (auto simp: s2_def pd_def)
    have v2: "view db s2 = (view db s1)\<lparr>v_objs := (objs_view db s1)(a \<mapsto> obj_view db (snap s1) (originalRoot s1) True p1),
        v_destruct := insert a (stateObjectsDestruct s1)\<rparr>"
      using p1(2) by (auto simp: s2_def pd_def view_def objs_view_def lookup_obj_def GetTransientState_def fun_eq_iff
          cong: option.case_cong)
    have ov: "objs_view db s1 a = Some (obj_view db (snap s1) (originalRoot s1) pd p1)"
      using p1(2) by (simp add: objs_view_def lookup_obj_def pd_def)
    have ov2: "objs_view db s2 = (objs_view db s1)(a \<mapsto> obj_view db (snap s1) (originalRoot s1) True p1)"
      using arg_cong[OF v2, of v_objs] by simp
    have D: "(if pd then insert a (stateObjectsDestruct s1) else insert a (stateObjectsDestruct s1) - {a}) = stateObjectsDestruct s1"
      by (auto simp: pd_def)
    have "(a \<in> stateObjectsDestruct s1) = pd" by (simp add: pd_def)
    then have u: "undo db (resetObjectChange p1 pd) (view db (setStateObject o2 (append_entry (resetObjectChange p1 pd) s2))) =
        Some (view db s1)" if "so_address o2 = a" for o2
      unfolding view_setStateObject using that addr s2 D ov
      by (simp add: v2 ov2 Let_def fun_upd_idem insert_absorb)
    have ok2: "view_ok (view db s2)"
      using ok1 live_codehash[OF ok1 p1(2)] unfolding view_ok_def v2 by auto
    have "journaled db s1 (setStateObject o2 (append_entry (resetObjectChange p1 pd) s2))"
      if "so_address o2 = a" "length (so_CodeHash o2) = 32" for o2
    proof (rule journaled_one[OF _ u[OF that(1)]])
      show "view_ok (view db (setStateObject o2 (append_entry (resetObjectChange p1 pd) s2)))"
        using ok2 that by (intro view_ok_upd) simp_all
      show "sdb_wf (setStateObject o2 (append_entry (resetObjectChange p1 pd) s2))" using R(1) by (simp add: s2_def)
    qed (simp_all add: s2)
    moreover have "setStateObject o2 s' = setStateObject o2 (append_entry (resetObjectChange p1 pd) s2)"
      if "so_address o2 = a" for o2 using new that by (simp add: s' setStateObject_def)
    ultimately show ?thesis
      using journaled_trans[OF j0] new p1(1) R s'(2,3) s2
      by (auto simp: s'(1) objs_view_setStateObject ov2) (simp_all add: setStateObject_def append_entry_def)
  qed
  from main have *: "\<And>o2. so_address o2 = a \<Longrightarrow> length (so_CodeHash o2) = 32 \<Longrightarrow> journaled db s (setStateObject o2 s')"
    and so: "stateObjects s' a = Some o1" "o1 = new" by simp_all
  have "setStateObject new s' = s'" using so new by (simp add: setStateObject_def fun_upd_idem)
  then show "journaled db s s'" using *[OF new] by simp
  show "stateObjects s' a = Some o1" "\<And>o2. so_address o2 = a \<Longrightarrow> length (so_CodeHash o2) = 32 \<Longrightarrow> journaled db s (setStateObject o2 s')"
    by (fact so(1)) (fact *)
  show "o1 = newObject db a \<lparr>acc_Nonce = 0, acc_Balance = None, acc_Root = 0, acc_CodeHash = None\<rparr>"
    "unexpectedBalanceDelta s' = unexpectedBalanceDelta s"
    "prev = (case lookup_obj db s a of Some p \<Rightarrow> if deleted p then None else Some p | None \<Rightarrow> None)"
    "objs_view db s' = (objs_view db s)(a \<mapsto> obj_view db (snap s) (originalRoot s) (a \<in> stateObjectsDestruct s') o1)"
    using main by (simp_all add: new_def)
qed

lemma GetOrNew_journaled:
  assumes wf: "sdb_wf s" and ok: "view_ok (view db s)" and g: "GetOrNewStateObject db a s = (o1, s')"
  shows "journaled db s s'" "stateObjects s' a = Some o1" "\<not> deleted o1" "so_address o1 = a"
    "unexpectedBalanceDelta s' = unexpectedBalanceDelta s"
proof -
  obtain r s1 where g1: "getStateObject db a s = (r, s1)" by fastforce
  note G = getStateObject_reads[OF wf g1]
  note R = reads_fields[OF G(1)]
  have j1: "journaled db s s1" by (rule journaled_reads[OF G(1) ok])
  have "journaled db s s' \<and> stateObjects s' a = Some o1 \<and> \<not> deleted o1 \<and> so_address o1 = a \<and>
    unexpectedBalanceDelta s' = unexpectedBalanceDelta s"
  proof (cases r)
    case (Some o2)
    then show ?thesis using g g1 j1 G(2)[OF Some] R(10) by (simp add: GetOrNewStateObject_def)
  next
    case None
    obtain prev where c: "createObject db a s1 = ((o1, prev), s')"
      using g g1 None by (auto simp: GetOrNewStateObject_def split: prod.splits)
    have "view_ok (view db s1)" using ok R(2) by simp
    note C = createObject_journaled[OF R(1) this c]
    show ?thesis using journaled_trans[OF j1 C(1)] C(2,4,5) R(10) by simp
  qed
  then show "journaled db s s'" "stateObjects s' a = Some o1" "\<not> deleted o1" "so_address o1 = a"
    "unexpectedBalanceDelta s' = unexpectedBalanceDelta s" by simp_all
qed

lemma journaledD:
  "journaled db s s' \<Longrightarrow> sdb_wf s'" "journaled db s s' \<Longrightarrow> view_ok (view db s')"
  by (simp_all add: journaled_def)

lemma setter_fields [simp]:
  "deleted (setBalance v o1) = deleted o1" "deleted (setNonce n o1) = deleted o1" "deleted (setState k w o1) = deleted o1"
  "deleted (setCode h c o1) = deleted o1" "deleted (markSuicided o1) = deleted o1"
  "so_CodeHash (setBalance v o1) = so_CodeHash o1" "so_CodeHash (setNonce n o1) = so_CodeHash o1"
  "so_CodeHash (setState k w o1) = so_CodeHash o1" "so_CodeHash (markSuicided o1) = so_CodeHash o1"
  "so_CodeHash (setCode h c o1) = hash_bytes h"
  by (simp_all add: setBalance_def setNonce_def setState_def setCode_def markSuicided_def)

lemma obj_view_back:
  "(obj_view db sn r d o1)\<lparr>ov_Balance := so_Balance o1\<rparr> = obj_view db sn r d o1"
  "(obj_view db sn r d o1)\<lparr>ov_Nonce := so_Nonce o1\<rparr> = obj_view db sn r d o1"
  "(obj_view db sn r d o1)\<lparr>ov_suicided := suicided o1, ov_Balance := so_Balance o1\<rparr> = obj_view db sn r d o1"
  by (simp_all add: obj_view_def)

lemma markSuicided_view: "obj_view db sn r d (markSuicided o1) = (obj_view db sn r d o1)\<lparr>ov_suicided := True\<rparr>"
  unfolding markSuicided_def by (rule obj_view_suicided)

lemma so_SetBalance_journaled:
  assumes "sdb_wf s" "view_ok (view db s)" "stateObjects s a = Some o1" "\<not> deleted o1" "so_address o1 = a"
  shows "journaled db s (so_SetBalance o1 v s)"
  unfolding so_SetBalance_def
  by (rule journaled_live[OF assms(1-4), where f = "\<lambda>ov. ov\<lparr>ov_Balance := so_Balance o1\<rparr>"])
    (use assms live_codehash[OF assms(2,3)] in \<open>simp_all add: obj_view_setters obj_view_back\<close>)

lemma so_SetNonce_journaled:
  assumes "sdb_wf s" "view_ok (view db s)" "stateObjects s a = Some o1" "\<not> deleted o1" "so_address o1 = a"
  shows "journaled db s (so_SetNonce o1 v s)"
  unfolding so_SetNonce_def
  by (rule journaled_live[OF assms(1-4), where f = "\<lambda>ov. ov\<lparr>ov_Nonce := so_Nonce o1\<rparr>"])
    (use assms live_codehash[OF assms(2,3)] in \<open>simp_all add: obj_view_setters obj_view_back\<close>)

lemma so_touch_journaled:
  assumes "sdb_wf s" "view_ok (view db s)"
  shows "journaled db s (so_touch o1 s)"
  by (rule journaled_one[where e = "touchChange (so_address o1)"]) (use assms in \<open>simp_all add: so_touch_def Let_def\<close>)

lemma so_AddBalance_journaled:
  assumes "sdb_wf s" "view_ok (view db s)" "stateObjects s a = Some o1" "\<not> deleted o1" "so_address o1 = a"
  shows "journaled db s (so_AddBalance db o1 v s)"
  using assms so_SetBalance_journaled[OF assms] by (simp add: so_AddBalance_def so_touch_journaled journaled_refl)

lemma so_SubBalance_journaled:
  assumes "sdb_wf s" "view_ok (view db s)" "stateObjects s a = Some o1" "\<not> deleted o1" "so_address o1 = a"
  shows "journaled db s (so_SubBalance o1 v s)"
  using assms so_SetBalance_journaled[OF assms] by (simp add: so_SubBalance_def journaled_refl)

text \<open>Reading a slot or the code of a live object.\<close>

lemma so_read:
  assumes wf: "sdb_wf s" and o1: "stateObjects s a = Some o1" "so_address o1 = a"
    and v: "obj_view db (snap s) (originalRoot s) (a \<in> stateObjectsDestruct s) o2 =
            obj_view db (snap s) (originalRoot s) (a \<in> stateObjectsDestruct s) o1" "so_address o2 = a"
  shows "reads db s (setStateObject o2 (setError e s))"
proof (rule reads_trans[OF reads_setError[OF wf]])
  have "objs_view db s a = Some (obj_view db (snap s) (originalRoot s) (a \<in> stateObjectsDestruct s) o1)"
    using o1 by (simp add: objs_view_def lookup_obj_def)
  then show "reads db (setError e s) (setStateObject o2 (setError e s))"
    using wf v by (intro reads_setStateObject) simp_all
qed

lemma so_GetState_reads:
  assumes wf: "sdb_wf s" and o1: "stateObjects s a = Some o1" "so_address o1 = a"
    and g: "so_GetState db o1 key s = (v, o2, s')"
  shows "reads db s s'" "stateObjects s' a = Some o2" "so_address o2 = a" "deleted o2 = deleted o1"
    "v = fst (obj_GetState db (snap s) (originalRoot s) (a \<in> stateObjectsDestruct s) o1 key)"
    "\<And>d. d = (a \<in> stateObjectsDestruct s) \<Longrightarrow>
       obj_view db (snap s) (originalRoot s) d o2 = obj_view db (snap s) (originalRoot s) d o1"
proof -
  obtain e where e: "obj_GetState db (snap s) (originalRoot s) (a \<in> stateObjectsDestruct s) o1 key = (v, o2, e)"
    "s' = setStateObject o2 (setError e s)"
    using g o1(2) by (auto simp: so_GetState_def so_destructed_def split: prod.splits)
  note C = caches_view[OF GetState_caches[OF e(1)]]
  show "reads db s s'" unfolding e(2) using wf o1 C by (intro so_read[of s a]) simp_all
  show "stateObjects s' a = Some o2" "so_address o2 = a" using C(2) o1(2) by (simp_all add: e(2))
  show "deleted o2 = deleted o1" using arg_cong[OF C(1), of ov_deleted] by simp
  show "v = fst (obj_GetState db (snap s) (originalRoot s) (a \<in> stateObjectsDestruct s) o1 key)" by (simp add: e)
  show "\<And>d. d = (a \<in> stateObjectsDestruct s) \<Longrightarrow>
       obj_view db (snap s) (originalRoot s) d o2 = obj_view db (snap s) (originalRoot s) d o1" using C(1) by simp
qed

lemma so_GetCommittedState_reads:
  assumes wf: "sdb_wf s" and o1: "stateObjects s a = Some o1" "so_address o1 = a"
    and g: "so_GetCommittedState db o1 key s = (v, o2, s')"
  shows "reads db s s'"
    "v = fst (obj_GetCommittedState db (snap s) (originalRoot s) (a \<in> stateObjectsDestruct s) o1 key)"
proof -
  obtain e where e: "obj_GetCommittedState db (snap s) (originalRoot s) (a \<in> stateObjectsDestruct s) o1 key = (v, o2, e)"
    "s' = setStateObject o2 (setError e s)"
    using g o1(2) by (auto simp: so_GetCommittedState_def so_destructed_def split: prod.splits)
  note C = caches_view[OF GetCommittedState_caches[OF e(1)]]
  show "reads db s s'" unfolding e(2) using wf o1 C by (intro so_read[of s a]) simp_all
  show "v = fst (obj_GetCommittedState db (snap s) (originalRoot s) (a \<in> stateObjectsDestruct s) o1 key)" by (simp add: e)
qed

lemma so_Code_reads:
  assumes wf: "sdb_wf s" and o1: "stateObjects s a = Some o1" "so_address o1 = a"
    and g: "so_Code db o1 s = (c, o2, s')"
  shows "reads db s s'" "stateObjects s' a = Some o2" "so_address o2 = a" "deleted o2 = deleted o1"
    "c = fst (obj_Code db o1)" "\<And>sn r d. obj_view db sn r d o2 = obj_view db sn r d o1"
proof -
  obtain e where e: "obj_Code db o1 = (c, o2, e)" "s' = setStateObject o2 (setError e s)"
    using g by (auto simp: so_Code_def split: prod.splits)
  note C = Code_view[OF e(1)]
  show "reads db s s'" unfolding e(2) using wf o1 C by (intro so_read[of s a]) simp_all
  show "stateObjects s' a = Some o2" "so_address o2 = a" using C(2) o1(2) by (simp_all add: e(2))
  show "deleted o2 = deleted o1" using arg_cong[OF C(1), of ov_deleted] by simp
  show "c = fst (obj_Code db o1)" by (simp add: e)
  show "\<And>sn r d. obj_view db sn r d o2 = obj_view db sn r d o1" using C(1) by simp
qed

lemma so_SetState_journaled:
  assumes wf: "sdb_wf s" and ok: "view_ok (view db s)" and o1: "stateObjects s a = Some o1" "\<not> deleted o1" "so_address o1 = a"
  shows "journaled db s (so_SetState db o1 key v s)"
proof -
  obtain prev o2 s1 where g: "so_GetState db o1 key s = (prev, o2, s1)" by (metis prod_cases3)
  note G = so_GetState_reads[OF wf o1(1,3) g]
  note R = reads_fields[OF G(1)]
  have j1: "journaled db s s1" by (rule journaled_reads[OF G(1) ok])
  show ?thesis
  proof (cases "prev = v")
    case True
    then show ?thesis using j1 g by (simp add: so_SetState_def)
  next
    case False
    have ok1: "view_ok (view db s1)" using ok R(2) by simp
    have prev: "prev = ov_state (obj_view db (snap s1) (originalRoot s1) (a \<in> stateObjectsDestruct s1) o2) key"
      unfolding R G(6)[OF refl] using G(5) by (simp add: obj_view_def)
    have "journaled db s1 (setStateObject (setState key v o2) (append_entry (storageChange (so_address o2) key prev) s1))"
      by (rule journaled_live[OF R(1) ok1 G(2), where f = "\<lambda>ov. ov\<lparr>ov_state := (ov_state ov)(key := prev)\<rparr>"])
        (use G(3,4) o1 live_codehash[OF ok1 G(2)] prev in \<open>simp_all add: obj_view_setState\<close>)
    then show ?thesis using journaled_trans[OF j1] g False by (simp add: so_SetState_def)
  qed
qed

lemma code_view_idem: "code_view db ah h (code_view db ah h c) = code_view db ah h c"
  by (simp add: code_view_def split: option.split sum.split)

lemma so_SetCode_journaled:
  assumes wf: "sdb_wf s" and ok: "view_ok (view db s)" and o1: "stateObjects s a = Some o1" "\<not> deleted o1" "so_address o1 = a"
  shows "journaled db s (so_SetCode db o1 h c s)"
proof -
  obtain prev o2 s1 where g: "so_Code db o1 s = (prev, o2, s1)" by (metis prod_cases3)
  note G = so_Code_reads[OF wf o1(1,3) g]
  note R = reads_fields[OF G(1)]
  have j1: "journaled db s s1" by (rule journaled_reads[OF G(1) ok])
  have ok1: "view_ok (view db s1)" using ok R(2) by simp
  have len: "length (so_CodeHash o2) = 32" by (rule live_codehash[OF ok1 G(2)])
  have view_o2: "so_CodeHash o2 = so_CodeHash o1" "so_addrHash o2 = so_addrHash o1" "fst (obj_Code db o2) = fst (obj_Code db o1)"
    using arg_cong[OF G(6), of ov_CodeHash] arg_cong[OF G(6), of ov_addrHash] arg_cong[OF G(6), of ov_Code]
    by (simp_all add: obj_view_def)
  have prev: "code_view db (so_addrHash o2) (so_CodeHash o2) prev = fst (obj_Code db o2)"
    unfolding G(5) view_o2 by (simp add: obj_Code_value code_view_idem)
  have "journaled db s1 (setStateObject (setCode h c o2) (append_entry (codeChange (so_address o2) prev (so_CodeHash o2)) s1))"
    by (rule journaled_live[OF R(1) ok1 G(2), where f = "\<lambda>o1. o1\<lparr>ov_CodeHash := hash_bytes (BytesToHash (so_CodeHash o2)),
         ov_Code := code_view db (ov_addrHash o1) (hash_bytes (BytesToHash (so_CodeHash o2))) prev\<rparr>"])
      (use G(3,4) o1 prev in \<open>simp_all add: obj_view_setCode hash_bytes_BytesToHash[OF len]\<close>, simp add: obj_view_def)
  then show ?thesis using journaled_trans[OF j1] g by (simp add: so_SetCode_def)
qed

text \<open>The operations of the state database that extend the journal.\<close>

lemma GetOrNew_then:
  assumes wf: "sdb_wf s" and ok: "view_ok (view db s)"
    and f: "\<And>s o1. sdb_wf s \<Longrightarrow> view_ok (view db s) \<Longrightarrow> stateObjects s a = Some o1 \<Longrightarrow> \<not> deleted o1 \<Longrightarrow>
              so_address o1 = a \<Longrightarrow> journaled db s (f o1 s)"
  shows "journaled db s (let (o1, s) = GetOrNewStateObject db a s in f o1 s)"
proof -
  obtain o1 s1 where g: "GetOrNewStateObject db a s = (o1, s1)" by fastforce
  note G = GetOrNew_journaled[OF wf ok g]
  show ?thesis using journaled_trans[OF G(1) f[OF journaledD[OF G(1)] G(2-4)]] g by simp
qed

lemma journaled_from_delta: "journaled db (add_delta d s) s' \<Longrightarrow> journaled db s s'"
  by (simp add: journaled_def extends_def)

lemma AddBalance_journaled:
  assumes "sdb_wf s" "view_ok (view db s)"
  shows "journaled db s (AddBalance db a v s)"
  unfolding AddBalance_def
  by (rule GetOrNew_then[OF assms], rule journaled_from_delta, rule so_AddBalance_journaled) simp_all

lemma SubBalance_journaled:
  assumes "sdb_wf s" "view_ok (view db s)"
  shows "journaled db s (SubBalance db a v s)"
  unfolding SubBalance_def
  by (rule GetOrNew_then[OF assms], rule journaled_from_delta, rule so_SubBalance_journaled) simp_all

lemma SetBalance_journaled:
  assumes "sdb_wf s" "view_ok (view db s)"
  shows "journaled db s (SetBalance db a v s)"
proof -
  have "journaled db s (let (o1, s) = GetOrNewStateObject db a s in
      so_SetBalance o1 (case v of None \<Rightarrow> 0 | Some v \<Rightarrow> v) (add_delta (- so_Balance o1) (add_delta (case v of None \<Rightarrow> 0 | Some v \<Rightarrow> v) s)))"
    by (rule GetOrNew_then[OF assms], rule journaled_from_delta, rule journaled_from_delta, rule so_SetBalance_journaled)
      simp_all
  then show ?thesis by (simp add: SetBalance_def Let_def)
qed

lemma SetNonce_journaled: "sdb_wf s \<Longrightarrow> view_ok (view db s) \<Longrightarrow> journaled db s (sdb_SetNonce db a v s)"
  unfolding sdb_SetNonce_def by (rule GetOrNew_then; (rule so_SetNonce_journaled)?; assumption)

lemma SetCode_journaled: "sdb_wf s \<Longrightarrow> view_ok (view db s) \<Longrightarrow> journaled db s (sdb_SetCode db a c s)"
  unfolding sdb_SetCode_def by (rule GetOrNew_then; (rule so_SetCode_journaled)?; assumption)

lemma SetState_journaled: "sdb_wf s \<Longrightarrow> view_ok (view db s) \<Longrightarrow> journaled db s (sdb_SetState db a k v s)"
  unfolding sdb_SetState_def by (rule GetOrNew_then; (rule so_SetState_journaled)?; assumption)

lemma CreateAccount_journaled:
  assumes "sdb_wf s" "view_ok (view db s)"
  shows "journaled db s (CreateAccount db a s)"
proof -
  obtain o1 prev s' where c: "createObject db a s = ((o1, prev), s')" by (metis prod.exhaust)
  note C = createObject_journaled[OF assms c]
  have "so_address (setBalance b o1) = a" "length (so_CodeHash (setBalance b o1)) = 32" for b
    by (simp_all add: C(4) newObject_def)
  then show ?thesis using C(1,3) c by (simp add: CreateAccount_def split: option.split)
qed

lemma Suicide_journaled:
  assumes wf: "sdb_wf s" and ok: "view_ok (view db s)"
  shows "journaled db s (snd (Suicide db a s))"
proof -
  obtain r s1 where g: "getStateObject db a s = (r, s1)" by fastforce
  note G = getStateObject_reads[OF wf g]
  note R = reads_fields[OF G(1)]
  have j: "journaled db s s1" by (rule journaled_reads[OF G(1) ok])
  show ?thesis
  proof (cases r)
    case None
    then show ?thesis using j g by (simp add: Suicide_def)
  next
    case (Some o1)
    note G2 = G(2)[OF Some]
    have ok1: "view_ok (view db s1)" using ok R(2) by simp
    let ?e = "suicideChange a (suicided o1) (so_Balance o1)" and ?o = "setBalance 0 (markSuicided o1)"
    have "journaled db s1 (setStateObject ?o (append_entry ?e s1))"
      by (rule journaled_live[OF R(1) ok1 conjunct1[OF G2] conjunct1[OF conjunct2[OF G2]],
            where f = "\<lambda>ov. ov\<lparr>ov_suicided := suicided o1, ov_Balance := so_Balance o1\<rparr>"])
        (use G2 live_codehash[OF ok1] in \<open>auto simp: obj_view_setters markSuicided_view obj_view_back\<close>)
    then have "journaled db s1 (setStateObject ?o (add_delta (- so_Balance o1) (append_entry ?e s1)))"
    proof -
      assume 1: "journaled db s1 (setStateObject ?o (append_entry ?e s1))"
      have "setStateObject ?o (add_delta (- so_Balance o1) (append_entry ?e s1)) =
        add_delta (- so_Balance o1) (setStateObject ?o (append_entry ?e s1))"
        by (simp add: setStateObject_def add_delta_def append_entry_def)
      then show ?thesis using journaled_trans[OF 1 journaled_delta[OF journaledD[OF 1]]] by simp
    qed
    then show ?thesis using journaled_trans[OF j] g Some by (simp add: Suicide_def Let_def)
  qed
qed

text \<open>Entries that do not concern objects.\<close>

lemma view_ok_fields [simp]:
  "view_ok (v\<lparr>v_refund := r\<rparr>) = view_ok v" "view_ok (v\<lparr>v_preimages := p\<rparr>) = view_ok v"
  "view_ok (v\<lparr>v_transient := t\<rparr>) = view_ok v"
  by (simp_all add: view_ok_def)

lemma journaled_other:
  assumes "sdb_wf s" "entries s' = entries s @ [e]" "stateObjects s' = stateObjects s" "stateObjectsDirty s' = stateObjectsDirty s"
    "undo db e (view db s') = Some (view db s)" "view_ok (view db s')"
    "validRevisions s' = validRevisions s" "nextRevisionId s' = nextRevisionId s"
  shows "journaled db s s'"
  by (rule journaled_one[OF assms(2,5)]) (use assms in \<open>simp_all add: sdb_wf_def\<close>)

lemma AddLog_journaled:
  assumes wf: "sdb_wf s" and ok: "view_ok (view db s)"
  shows "journaled db s (AddLog l s)"
proof -
  define old where "old = (case sdb_logs s (thash s) of None \<Rightarrow> [] | Some ls \<Rightarrow> ls)"
  define l' where "l' = l\<lparr>lg_TxHash := thash s, lg_TxIndex := word_of_int (txIndex s), lg_Index := logSize s\<rparr>"
  define s1 where "s1 = append_entry (addLogChange (thash s)) s"
  have al: "AddLog l s = s1\<lparr>sdb_logs := (sdb_logs s)(thash s \<mapsto> old @ [l']), logSize := logSize s + 1\<rparr>"
    by (simp add: AddLog_def old_def l'_def s1_def Let_def append_entry_def)
  have v: "view db (AddLog l s) = (view db s)\<lparr>v_logs := (sdb_logs s)(thash s \<mapsto> old @ [l']), v_logSize := logSize s + 1\<rparr>"
    unfolding al by (simp add: s1_def)
  have old: "sdb_logs s (thash s) = (if old = [] then None else Some old)"
    using ok by (auto simp: view_ok_def old_def split: option.splits)
  show ?thesis
  proof (rule journaled_other[OF wf])
    show "undo db (addLogChange (thash s)) (view db (AddLog l s)) = Some (view db s)"
      unfolding v using old by (auto simp: fun_upd_idem)
    show "view_ok (view db (AddLog l s))" unfolding v using ok by (simp add: view_ok_def)
  qed (simp_all add: al s1_def)
qed

lemma AddPreimage_journaled:
  assumes "sdb_wf s" "view_ok (view db s)"
  shows "journaled db s (AddPreimage h p s)"
proof (cases "sdb_preimages s h")
  case None
  show ?thesis
  proof (rule journaled_other[OF assms(1)])
    have v: "view db (AddPreimage h p s) = (view db s)\<lparr>v_preimages := (sdb_preimages s)(h \<mapsto> p)\<rparr>"
      using None by (simp add: AddPreimage_def)
    show "undo db (addPreimageChange h) (view db (AddPreimage h p s)) = Some (view db s)"
      unfolding v using None by (simp add: fun_upd_idem)
    show "view_ok (view db (AddPreimage h p s))" unfolding v using assms by simp
  qed (use None in \<open>simp_all add: AddPreimage_def\<close>)
next
  case (Some x)
  then show ?thesis using assms by (simp add: AddPreimage_def journaled_refl)
qed

lemma refund_journaled:
  assumes "sdb_wf s" "view_ok (view db s)"
  shows "journaled db s ((append_entry (refundChange (sdb_refund s)) s)\<lparr>sdb_refund := r\<rparr>)"
  by (rule journaled_other[OF assms(1), where e = "refundChange (sdb_refund s)"])
    (use assms in simp_all)

lemma AddRefund_journaled: "sdb_wf s \<Longrightarrow> view_ok (view db s) \<Longrightarrow> journaled db s (AddRefund g s)"
  by (simp add: AddRefund_def refund_journaled)

lemma SubRefund_journaled:
  "sdb_wf s \<Longrightarrow> view_ok (view db s) \<Longrightarrow> SubRefund g s = (Ret (), s') \<Longrightarrow> journaled db s s'"
  using refund_journaled[of s db "sdb_refund s - g"]
  by (auto simp: SubRefund_def Let_def append_entry_def split: if_splits)

lemma SetTransientState_journaled:
  assumes "sdb_wf s" "view_ok (view db s)"
  shows "journaled db s (SetTransientState a k v s)"
proof (cases "GetTransientState a k s = v")
  case False
  let ?e = "transientStorageChange a k (GetTransientState a k s)"
  have s': "SetTransientState a k v s = setTransientState a k v (append_entry ?e s)"
    using False by (simp add: SetTransientState_def Let_def)
  show ?thesis unfolding s'
  proof (rule journaled_other[OF assms(1), where e = ?e])
    show "undo db ?e (view db (setTransientState a k v (append_entry ?e s))) = Some (view db s)"
      by (simp add: fun_upd_idem)
    show "view_ok (view db (setTransientState a k v (append_entry ?e s)))" using assms by simp
  qed (simp_all add: setTransientState_def)
qed (use assms in \<open>simp add: SetTransientState_def journaled_refl\<close>)

lemma AddAddressToAccessList_journaled:
  assumes wf: "sdb_wf s" and ok: "view_ok (view db s)"
  shows "journaled db s (AddAddressToAccessList a s)"
proof -
  obtain c al where aa: "AddAddress a (sdb_accessList s) = (c, al)" by fastforce
  have alok: "al_ok (sdb_accessList s)" using ok by (simp add: view_ok_def)
  note A = AddAddress_correct[OF alok aa]
  show ?thesis
  proof (cases c)
    case True
    let ?s = "append_entry (accessListAddAccountChange a) (s\<lparr>sdb_accessList := al\<rparr>)"
    have "journaled db s ?s"
    proof (rule journaled_other[OF wf])
      show "undo db (accessListAddAccountChange a) (view db ?s) = Some (view db s)"
        using AddAddress_undo[of a "sdb_accessList s" al] aa True by simp
      show "view_ok (view db ?s)" using ok A(1) by (simp add: view_ok_def)
    qed simp_all
    then show ?thesis using aa True by (simp add: AddAddressToAccessList_def)
  next
    case False
    then have "al = sdb_accessList s" using AddAddress_unchanged aa by simp
    then show ?thesis using aa False wf ok by (simp add: AddAddressToAccessList_def journaled_refl)
  qed
qed

lemma AddSlotToAccessList_journaled:
  assumes wf: "sdb_wf s" and ok: "view_ok (view db s)"
  shows "\<exists>s'. AddSlotToAccessList a slot s = (Ret (), s') \<and> journaled db s s'"
proof -
  have alok: "al_ok (sdb_accessList s)" using ok by (simp add: view_ok_def)
  obtain am sm al where aa: "AddSlot a slot (sdb_accessList s) = Ret ((am, sm), al)" "al_ok al"
    using AddSlot_correct[OF alok, of a slot] by blast
  obtain al2 where al2: "(if sm then DeleteSlot a slot al else Ret al) = Ret al2"
    "(if am then DeleteAddress a al2 else al2) = sdb_accessList s"
    using AddSlot_undo[OF alok aa(1)] by blast
  define s1 where "s1 = s\<lparr>sdb_accessList := al\<rparr>"
  define s2 where "s2 = (if am then append_entry (accessListAddAccountChange a) s1 else s1)"
  define s3 where "s3 = (if sm then append_entry (accessListAddSlotChange a slot) s2 else s2)"
  have r: "AddSlotToAccessList a slot s = (Ret (), s3)"
    using aa by (simp add: AddSlotToAccessList_def Let_def s1_def s2_def s3_def)
  have v: "view db s3 = (view db s)\<lparr>v_accessList := al\<rparr>" by (simp add: s1_def s2_def s3_def)
  let ?es = "(if am then [accessListAddAccountChange a] else []) @ (if sm then [accessListAddSlotChange a slot] else [])"
  have "undo_all (undo db) (rev ?es) (view db s3) = Some (view db s)"
    unfolding v using al2 by (cases am; cases sm) simp_all
  moreover have "entries s3 = entries s @ ?es" by (simp add: s1_def s2_def s3_def)
  ultimately have "extends (undo db) (view db) entries s s3" unfolding extends_def by blast
  moreover have "sdb_wf s3" using wf by (simp add: s1_def s2_def s3_def)
  moreover have "view_ok (view db s3)" unfolding v using ok aa(2) by (simp add: view_ok_def)
  moreover have "validRevisions s3 = validRevisions s" "nextRevisionId s3 = nextRevisionId s"
    by (simp_all add: s1_def s2_def s3_def)
  ultimately have "journaled db s s3" by (simp add: journaled_def)
  then show ?thesis using r by blast
qed

section \<open>Sequences of operations\<close>

text \<open>
  The queries and the operations whose changes a snapshot covers, with \<open>Finalise\<close>, which ends the transaction and its snapshots.
  \<open>Prepare\<close>, which starts a transaction, and the debugging aid \<open>SetStorage\<close> change the state without a journal entry and are
  left out.
\<close>

datatype op =
    AddBalance_op address int | SubBalance_op address int | SetBalance_op address "int option" | ExpectBalanceBurn_op int
  | SetNonce_op address uint64 | SetCode_op address "bytes option" | SetState_op address hash hash
  | SetTransientState_op address hash hash | Suicide_op address | CreateAccount_op address
  | AddLog_op Log | AddPreimage_op hash bytes | AddRefund_op uint64 | SubRefund_op uint64
  | AddAddress_op address | AddSlot_op address hash | SetTxContext_op hash int
  | Exist_op address | Empty_op address | GetBalance_op address | GetNonce_op address | GetCode_op address
  | GetCodeSize_op address | GetCodeHash_op address | GetState_op address hash | GetCommittedState_op address hash
  | HasSuicided_op address | Snapshot_op | RevertToSnapshot_op int | Finalise_op bool "address list"

fun exec :: "'t Database \<Rightarrow> op \<Rightarrow> ('t StateDB, string, unit) stm" where
  "exec db (AddBalance_op a v) s = (Ret (), AddBalance db a v s)"
| "exec db (SubBalance_op a v) s = (Ret (), SubBalance db a v s)"
| "exec db (SetBalance_op a v) s = (Ret (), SetBalance db a v s)"
| "exec db (ExpectBalanceBurn_op v) s = ExpectBalanceBurn v s"
| "exec db (SetNonce_op a n) s = (Ret (), sdb_SetNonce db a n s)"
| "exec db (SetCode_op a c) s = (Ret (), sdb_SetCode db a c s)"
| "exec db (SetState_op a k v) s = (Ret (), sdb_SetState db a k v s)"
| "exec db (SetTransientState_op a k v) s = (Ret (), SetTransientState a k v s)"
| "exec db (Suicide_op a) s = (Ret (), snd (Suicide db a s))"
| "exec db (CreateAccount_op a) s = (Ret (), CreateAccount db a s)"
| "exec db (AddLog_op l) s = (Ret (), AddLog l s)"
| "exec db (AddPreimage_op h p) s = (Ret (), AddPreimage h p s)"
| "exec db (AddRefund_op g) s = (Ret (), AddRefund g s)"
| "exec db (SubRefund_op g) s = SubRefund g s"
| "exec db (AddAddress_op a) s = (Ret (), AddAddressToAccessList a s)"
| "exec db (AddSlot_op a k) s = AddSlotToAccessList a k s"
| "exec db (SetTxContext_op h i) s = (Ret (), SetTxContext h i s)"
| "exec db (Exist_op a) s = (Ret (), snd (sdb_Exist db a s))"
| "exec db (Empty_op a) s = (Ret (), snd (sdb_Empty db a s))"
| "exec db (GetBalance_op a) s = (Ret (), snd (GetBalance db a s))"
| "exec db (GetNonce_op a) s = (Ret (), snd (GetNonce db a s))"
| "exec db (GetCode_op a) s = (Ret (), snd (GetCode db a s))"
| "exec db (GetCodeSize_op a) s = (Ret (), snd (GetCodeSize db a s))"
| "exec db (GetCodeHash_op a) s = (Ret (), snd (GetCodeHash db a s))"
| "exec db (GetState_op a k) s = (Ret (), snd (GetState db a k s))"
| "exec db (GetCommittedState_op a k) s = (Ret (), snd (GetCommittedState db a k s))"
| "exec db (HasSuicided_op a) s = (Ret (), snd (HasSuicided db a s))"
| "exec db Snapshot_op s = (Ret (), snd (Snapshot s))"
| "exec db (RevertToSnapshot_op i) s = RevertToSnapshot db i s"
| "exec db (Finalise_op d order) s = (Ret (), Finalise db d order s)"

primrec exec_ops :: "'t Database \<Rightarrow> op list \<Rightarrow> ('t StateDB, string, unit) stm" where
  "exec_ops db [] = ret_st ()"
| "exec_ops db (x # xs) = bind_st (exec db x) (\<lambda>_. exec_ops db xs)"

text \<open>The queries only read.\<close>

lemma query_reads:
  assumes "sdb_wf s"
  shows "reads db s (snd (sdb_Exist db a s))" "reads db s (snd (sdb_Empty db a s))" "reads db s (snd (GetBalance db a s))"
    "reads db s (snd (GetNonce db a s))" "reads db s (snd (GetCode db a s))" "reads db s (snd (GetCodeSize db a s))"
    "reads db s (snd (GetCodeHash db a s))" "reads db s (snd (GetState db a k s))"
    "reads db s (snd (GetCommittedState db a k s))" "reads db s (snd (HasSuicided db a s))"
proof -
  obtain r s1 where g: "getStateObject db a s = (r, s1)" by fastforce
  note G = getStateObject_reads[OF assms g]
  note R = reads_fields[OF G(1)]
  show "reads db s (snd (sdb_Exist db a s))" "reads db s (snd (sdb_Empty db a s))" "reads db s (snd (GetBalance db a s))"
    "reads db s (snd (GetNonce db a s))" "reads db s (snd (GetCodeHash db a s))" "reads db s (snd (HasSuicided db a s))"
    using G(1) g
    by (simp_all add: sdb_Exist_def sdb_Empty_def GetBalance_def GetNonce_def GetCodeHash_def HasSuicided_def split: option.split)
  show "reads db s (snd (GetCodeSize db a s))"
    using G(1) g reads_trans[OF G(1) reads_setError[OF R(1)]]
    by (simp add: GetCodeSize_def split: option.split prod.split)
  show "reads db s (snd (GetCode db a s))"
    using G(1) g reads_trans[OF G(1)] so_Code_reads(1)[OF R(1)] G(2)
    by (auto simp: GetCode_def split: option.split prod.split)
  show "reads db s (snd (GetState db a k s))"
    using G(1) g reads_trans[OF G(1)] so_GetState_reads(1)[OF R(1)] G(2)
    by (auto simp: GetState_def split: option.split prod.split)
  show "reads db s (snd (GetCommittedState db a k s))"
    using G(1) g reads_trans[OF G(1)] so_GetCommittedState_reads(1)[OF R(1)] G(2)
    by (auto simp: GetCommittedState_def split: option.split prod.split)
qed

lemma exec_journaled:
  assumes wf: "sdb_wf s" and ok: "view_ok (view db s)" and e: "exec db x s = (Ret (), s')"
    and x: "x \<noteq> Snapshot_op" "\<And>i. x \<noteq> RevertToSnapshot_op i" "\<And>d order. x \<noteq> Finalise_op d order"
  shows "journaled db s s'"
proof (cases x)
  case (ExpectBalanceBurn_op v)
  then show ?thesis using e journaled_delta[OF wf ok, of v] by (auto simp: ExpectBalanceBurn_def split: if_splits)
next
  case (SubRefund_op g)
  then show ?thesis using e SubRefund_journaled[OF wf ok] by simp
next
  case (AddSlot_op a k)
  then show ?thesis using e AddSlotToAccessList_journaled[OF wf ok, of a k] by auto
next
  case (SetTxContext_op h i)
  have "journaled db s (SetTxContext h i s)"
    using wf ok by (simp add: journaled_def extends_def) (simp add: SetTxContext_def)
  then show ?thesis using e SetTxContext_op by simp
qed (use e x wf ok AddBalance_journaled[OF wf ok] SubBalance_journaled[OF wf ok] SetBalance_journaled[OF wf ok]
    SetNonce_journaled[OF wf ok] SetCode_journaled[OF wf ok] SetState_journaled[OF wf ok]
    SetTransientState_journaled[OF wf ok] Suicide_journaled[OF wf ok] CreateAccount_journaled[OF wf ok]
    AddLog_journaled[OF wf ok] AddPreimage_journaled[OF wf ok] AddRefund_journaled[OF wf ok]
    AddAddressToAccessList_journaled[OF wf ok] query_reads[OF wf, of db, THEN journaled_reads, OF ok] in auto)

end
