(* ===== verification/State_Snapshot.thy ===== *)
theory State_Snapshot
  imports State_Revert
begin

text \<open>
  The snapshot mechanism of \<open>StateDB\<close>: the invariant that ties the revision stack to the journal, kept by
  every operation, and what \<open>RevertToSnapshot\<close> does from it.
\<close>

section \<open>The revision invariant\<close>

definition rev_view :: "'t Database \<Rightarrow> 't StateDB \<Rightarrow> revision \<Rightarrow> 't view option" where
  "rev_view db s r = view_at (undo db) (view db) entries (rev_journalIndex r) s"

definition revisions_ok :: "'t StateDB \<Rightarrow> bool" where
  "revisions_ok s \<longleftrightarrow>
     sorted_wrt (<) (map rev_id (validRevisions s)) \<and> sorted (map rev_journalIndex (validRevisions s)) \<and>
     (\<forall>r \<in> set (validRevisions s). rev_id r < nextRevisionId s \<and> rev_journalIndex r \<le> length (entries s))"

definition sdb_inv :: "'t Database \<Rightarrow> 't StateDB \<Rightarrow> bool" where
  "sdb_inv db s \<longleftrightarrow> sdb_wf s \<and> view_ok (view db s) \<and> revisions_ok s \<and>
     (\<forall>r \<in> set (validRevisions s). \<exists>v. rev_view db s r = Some v \<and> view_ok v)"

lemma sdb_inv_wf: "sdb_inv db s \<Longrightarrow> sdb_wf s" and sdb_inv_view: "sdb_inv db s \<Longrightarrow> view_ok (view db s)"
  by (simp_all add: sdb_inv_def)

lemma journaled_extends: "journaled db s s' \<Longrightarrow> extends (undo db) (view db) entries s s'"
  by (simp add: journaled_def)

lemma extends_length: "extends u vw en s s' \<Longrightarrow> length (en s) \<le> length (en s')"
  by (auto simp: extends_def)

lemma rev_view_journaled:
  "journaled db s s' \<Longrightarrow> rev_journalIndex r \<le> length (entries s) \<Longrightarrow> rev_view db s' r = rev_view db s r"
  unfolding rev_view_def by (rule view_at_extends[OF journaled_extends])

lemma sdb_inv_journaled:
  assumes "sdb_inv db s" "journaled db s s'"
  shows "sdb_inv db s'"
proof -
  have r: "validRevisions s' = validRevisions s" "nextRevisionId s' = nextRevisionId s"
    using assms(2) by (simp_all add: journaled_def)
  have len: "length (entries s) \<le> length (entries s')" by (rule extends_length[OF journaled_extends[OF assms(2)]])
  have ro: "revisions_ok s" using assms(1) by (simp add: sdb_inv_def)
  then have "revisions_ok s'" using r len by (fastforce simp: revisions_ok_def)
  moreover have "\<exists>v. rev_view db s' q = Some v \<and> view_ok v" if "q \<in> set (validRevisions s')" for q
  proof -
    have "q \<in> set (validRevisions s)" "rev_journalIndex q \<le> length (entries s)"
      using that r ro by (simp_all add: revisions_ok_def)
    then show ?thesis using rev_view_journaled[OF assms(2)] assms(1) by (simp add: sdb_inv_def)
  qed
  ultimately show ?thesis using journaledD[OF assms(2)] by (simp add: sdb_inv_def)
qed

lemma sdb_inv_Snapshot:
  assumes "sdb_inv db s"
  shows "sdb_inv db (snd (Snapshot s))"
proof -
  have ro: "revisions_ok s" using assms by (simp add: sdb_inv_def)
  have v: "view db (snd (Snapshot s)) = view db s" "sdb_wf (snd (Snapshot s)) = sdb_wf s"
    "entries (snd (Snapshot s)) = entries s"
    by (rule view_cong; (rule objs_view_cong)?; simp add: Snapshot_def Let_def)
      (simp_all add: Snapshot_def Let_def sdb_wf_def)
  have rv: "rev_view db (snd (Snapshot s)) r = rev_view db s r" for r
    by (simp add: rev_view_def view_at_def v)
  have "revisions_ok (snd (Snapshot s))"
    using ro by (auto simp: revisions_ok_def Snapshot_def Let_def journal_length_def sorted_append sorted_wrt_append)
  moreover have "\<exists>v. rev_view db (snd (Snapshot s)) r = Some v \<and> view_ok v" if "r \<in> set (validRevisions (snd (Snapshot s)))" for r
  proof -
    have "r \<in> set (validRevisions s) \<or> rev_journalIndex r = length (entries s)"
      using that by (auto simp: Snapshot_def Let_def journal_length_def)
    then show ?thesis using assms rv view_at_now[of "undo db" "view db" entries s]
      by (auto simp: sdb_inv_def rev_view_def)
  qed
  ultimately show ?thesis using assms by (simp add: sdb_inv_def v)
qed

section \<open>Reverting\<close>

lemma setError_delta [simp]: "unexpectedBalanceDelta (setError e s) = unexpectedBalanceDelta s"
  and setStateObject_delta [simp]: "unexpectedBalanceDelta (setStateObject o1 s) = unexpectedBalanceDelta s"
  by (simp_all add: setError_def setStateObject_def)

lemma getStateObject_fields:
  assumes "getStateObject db a s = (r, s')"
  shows "sdb_journal s' = sdb_journal s" "validRevisions s' = validRevisions s" "nextRevisionId s' = nextRevisionId s"
    "unexpectedBalanceDelta s' = unexpectedBalanceDelta s"
  using assms
  by (auto simp: getStateObject_def getDeletedStateObject_def split: option.splits sum.splits if_splits)

lemma entry_revert_fields:
  assumes "entry_revert db e s = (r, s')"
  shows "sdb_journal s' = sdb_journal s" "validRevisions s' = validRevisions s" "nextRevisionId s' = nextRevisionId s"
    "unexpectedBalanceDelta s' = unexpectedBalanceDelta s"
proof -
  have "sdb_journal s' = sdb_journal s \<and> validRevisions s' = validRevisions s \<and> nextRevisionId s' = nextRevisionId s \<and>
    unexpectedBalanceDelta s' = unexpectedBalanceDelta s"
    using assms getStateObject_fields[of db]
    by (cases e) (auto simp: Let_def setTransientState_def split: prod.splits option.splits if_splits outcome.splits)
  then show "sdb_journal s' = sdb_journal s" "validRevisions s' = validRevisions s" "nextRevisionId s' = nextRevisionId s"
    "unexpectedBalanceDelta s' = unexpectedBalanceDelta s" by simp_all
qed

lemma revert_all_fields:
  assumes "revert_all (revert_one db) es s = (Ret (), s')"
  shows "entries s' = entries s \<and> validRevisions s' = validRevisions s \<and> nextRevisionId s' = nextRevisionId s \<and>
    unexpectedBalanceDelta s' = unexpectedBalanceDelta s"
  using assms
proof (induction es arbitrary: s)
  case Nil
  then show ?case by simp
next
  case (Cons e es)
  obtain r s1 where e: "entry_revert db e s = (r, s1)" by fastforce
  have r: "r = Ret ()" using Cons.prems e by (cases r) (simp_all add: revert_one_def bind_st_def)
  define s2 where "s2 = s1\<lparr>sdb_journal := undirty e (sdb_journal s1)\<rparr>"
  have "revert_one db e s = (Ret (), s2)" using e r by (simp add: revert_one_def s2_def)
  then have "revert_all (revert_one db) es s2 = (Ret (), s')" using Cons.prems by simp
  from Cons.IH[OF this] show ?case using entry_revert_fields[OF e] by (simp add: s2_def)
qed

lemma sort_Search_id:
  assumes "sorted_wrt (<) (map rev_id rs)" "i < length rs"
  shows "sort_Search (length rs) (\<lambda>k. rev_id (rs ! k) \<ge> rev_id (rs ! i)) = i"
proof -
  let ?f = "\<lambda>k. rev_id (rs ! k) \<ge> rev_id (rs ! i)"
  have lt: "rev_id (rs ! k) < rev_id (rs ! l)" if "k < l" "l < length rs" for k l
    using assms(1) that by (simp add: sorted_wrt_iff_nth_less)
  have mono: "?f l" if "k \<le> l" "l < length rs" "?f k" for k l
    using lt[of k l] that by (cases "k = l") auto
  let ?j = "sort_Search (length rs) ?f"
  have S: "\<And>k. k < ?j \<Longrightarrow> \<not> ?f k" "?j < length rs \<Longrightarrow> ?f ?j"
    using search_loop_spec[of 0 "length rs" ?f, OF le0 mono] by (simp_all add: sort_Search_def)
  have "\<not> i < ?j" using S(1)[of i] by auto
  moreover have "\<not> ?j < i" using S(2) lt[of ?j i] assms(2) by fastforce
  ultimately show ?thesis by simp
qed

lemma RevertToSnapshot_restores:
  assumes inv: "sdb_inv db s" and i: "i < length (validRevisions s)"
  defines "r \<equiv> validRevisions s ! i"
  shows "\<exists>s'. RevertToSnapshot db (rev_id r) s = (Ret (), s') \<and> rev_view db s r = Some (view db s') \<and>
     entries s' = take (rev_journalIndex r) (entries s) \<and> validRevisions s' = take i (validRevisions s) \<and>
     nextRevisionId s' = nextRevisionId s \<and> unexpectedBalanceDelta s' = rev_balanceDelta r \<and> sdb_inv db s'"
proof -
  have ro: "revisions_ok s" and wf: "sdb_wf s" using inv by (simp_all add: sdb_inv_def)
  have rin: "r \<in> set (validRevisions s)" using i by (simp add: r_def)
  then have len: "rev_journalIndex r \<le> length (entries s)" using ro by (simp add: revisions_ok_def)
  obtain v where v: "rev_view db s r = Some v" "view_ok v" using inv rin by (auto simp: sdb_inv_def)
  define s0 where "s0 = s\<lparr>unexpectedBalanceDelta := rev_balanceDelta r\<rparr>"
  have "undo_all (undo db) (rev (drop (rev_journalIndex r) (entries s0))) (view db s0) = Some v"
    using v(1) by (simp add: rev_view_def view_at_def s0_def)
  moreover have "sdb_wf s0" using wf by (simp add: s0_def)
  ultimately obtain s1 where
    s1: "revert_all (revert_one db) (rev (drop (rev_journalIndex r) (entries s0))) s0 = (Ret (), s1)" "view db s1 = v" "sdb_wf s1"
    using uj.revert_all_undo by blast
  note F = revert_all_fields[OF s1(1)]
  define s2 where "s2 = s1\<lparr>sdb_journal := (sdb_journal s1)\<lparr>j_entries := take (rev_journalIndex r) (entries s)\<rparr>\<rparr>"
  define s' where "s' = s2\<lparr>validRevisions := take i (validRevisions s)\<rparr>"
  have jr: "journal_revert db (rev_journalIndex r) s0 = (Ret (), s2)"
    using s1(1) F len by (simp add: journal_revert_def revert_entries_all slice_def s2_def s0_def)
  have "sort_Search (length (validRevisions s)) (\<lambda>k. rev_id (validRevisions s ! k) \<ge> rev_id r) = i"
    unfolding r_def using ro i by (intro sort_Search_id) (simp_all add: revisions_ok_def)
  then have run: "RevertToSnapshot db (rev_id r) s = (Ret (), s')"
    using i jr F by (simp add: RevertToSnapshot_def Let_def r_def[symmetric] s0_def[symmetric] s'_def)
      (simp add: s2_def s0_def)
  have fields: "entries s' = take (rev_journalIndex r) (entries s)" "validRevisions s' = take i (validRevisions s)"
    "nextRevisionId s' = nextRevisionId s" "unexpectedBalanceDelta s' = rev_balanceDelta r" "view db s' = v" "sdb_wf s'"
    using F s1 by (simp_all add: s'_def s2_def s0_def)
  have le: "rev_journalIndex q \<le> rev_journalIndex r" if q: "q \<in> set (take i (validRevisions s))" for q
  proof -
    obtain k where "k < i" "q = validRevisions s ! k" using q i by (auto simp: in_set_conv_nth)
    moreover have "sorted (map rev_journalIndex (validRevisions s))" using ro by (simp add: revisions_ok_def)
    ultimately show ?thesis using i sorted_nth_mono[of "map rev_journalIndex (validRevisions s)" k i] by (simp add: r_def)
  qed
  have rv: "rev_view db s' q = rev_view db s q" if "q \<in> set (take i (validRevisions s))" for q
    unfolding rev_view_def
    by (rule view_at_truncate[where m = "rev_journalIndex r"])
      (use le[OF that] len v(1) fields in \<open>simp_all add: rev_view_def\<close>)
  have "revisions_ok s'"
  proof -
    have "sorted_wrt (<) (map rev_id (take i (validRevisions s)))" "sorted (map rev_journalIndex (take i (validRevisions s)))"
      using ro by (simp_all add: revisions_ok_def take_map[symmetric] sorted_wrt_take)
    then show ?thesis using ro le len fields
      by (fastforce simp: revisions_ok_def dest: in_set_takeD)
  qed
  moreover have "\<exists>v. rev_view db s' q = Some v \<and> view_ok v" if "q \<in> set (validRevisions s')" for q
    using rv[of q] that fields(2) inv by (auto simp: sdb_inv_def dest: in_set_takeD)
  ultimately have "sdb_inv db s'" using fields v by (simp add: sdb_inv_def)
  then show ?thesis using run fields v by blast
qed

lemma RevertToSnapshot_invalid:
  assumes "i \<notin> rev_id ` set (validRevisions s)"
  shows "RevertToSnapshot db i s = (Panic, s)"
proof -
  let ?rs = "validRevisions s"
  let ?j = "sort_Search (length ?rs) (\<lambda>k. rev_id (?rs ! k) \<ge> i)"
  have "?j \<le> length ?rs"
  proof -
    have "search_loop f k n \<le> max k n" for f k n
      by (induction f k n rule: search_loop.induct) (subst search_loop.simps, auto simp: Let_def)
    from this[of _ 0 "length ?rs"] show ?thesis by (simp add: sort_Search_def)
  qed
  then have "?j = length ?rs \<or> rev_id (?rs ! ?j) \<noteq> i" using assms by (auto simp: image_iff) (metis le_neq_implies_less nth_mem)
  then show ?thesis by (simp add: RevertToSnapshot_def Let_def)
qed

section \<open>Every operation keeps the invariant\<close>

lemma view_ok_lookup:
  "view_ok (view db s) \<longleftrightarrow> al_ok (sdb_accessList s) \<and> (\<forall>h. sdb_logs s h \<noteq> Some []) \<and>
     (\<forall>a o1. lookup_obj db s a = Some o1 \<longrightarrow> length (so_CodeHash o1) = 32)"
proof -
  have "(\<forall>a ov. objs_view db s a = Some ov \<longrightarrow> length (ov_CodeHash ov) = 32) \<longleftrightarrow>
      (\<forall>a o1. lookup_obj db s a = Some o1 \<longrightarrow> length (so_CodeHash o1) = 32)"
    by (simp add: objs_view_def) (metis obj_view_sel(5))
  then show ?thesis by (simp add: view_ok_def)
qed

lemma Finalise_one_keeps:
  assumes "sdb_wf s" "view_ok (view db s)"
  shows "sdb_wf (Finalise_one db d a s) \<and> view_ok (view db (Finalise_one db d a s))"
proof (cases "stateObjects s a")
  case None
  then show ?thesis using assms by (simp add: Finalise_one_def)
next
  case (Some o1)
  define o2 where "o2 = (if suicided o1 \<or> d \<and> so_empty db o1 then o1\<lparr>deleted := True\<rparr> else obj_finalise o1)"
  have o2: "so_address o2 = so_address o1" "so_CodeHash o2 = so_CodeHash o1" by (simp_all add: o2_def obj_finalise_def)
  define s' where "s' = Finalise_one db d a s"
  have s': "stateObjects s' = (stateObjects s)(a \<mapsto> o2)" "stateObjectsDirty s' = insert a (stateObjectsDirty s)"
    "snap s' = snap s" "sdb_trie s' = sdb_trie s" "sdb_accessList s' = sdb_accessList s" "sdb_logs s' = sdb_logs s"
    using Some by (simp_all add: s'_def Finalise_one_def o2_def Let_def)
  have lk: "lookup_obj db s' b = (if b = a then Some o2 else lookup_obj db s b)" for b
    using s' by (simp add: lookup_obj_def split: option.split)
  have "length (so_CodeHash o1) = 32" by (rule live_codehash[OF assms(2) Some])
  then have "view_ok (view db s')" using assms(2) o2 s' unfolding view_ok_lookup lk by simp
  moreover have "sdb_wf s'" using assms(1) Some o2 s' by (auto simp: sdb_wf_def)
  ultimately show ?thesis by (simp add: s'_def)
qed

lemma Finalise_inv:
  assumes "sdb_inv db s"
  shows "sdb_inv db (Finalise db d order s)"
proof -
  define s1 where "s1 = fold (Finalise_one db d) order s"
  have "sdb_wf s1 \<and> view_ok (view db s1)"
    unfolding s1_def using sdb_inv_wf[OF assms] sdb_inv_view[OF assms]
    by (induction order arbitrary: s) (simp_all add: Finalise_one_keeps)
  then have "sdb_wf (clearJournalAndRefund s1) \<and> view_ok (view db (clearJournalAndRefund s1))"
  proof -
    have "stateObjects (clearJournalAndRefund s1) = stateObjects s1" "stateObjectsDirty (clearJournalAndRefund s1) = stateObjectsDirty s1"
      "lookup_obj db (clearJournalAndRefund s1) = lookup_obj db s1"
      "sdb_accessList (clearJournalAndRefund s1) = sdb_accessList s1" "sdb_logs (clearJournalAndRefund s1) = sdb_logs s1"
      by (auto simp: clearJournalAndRefund_def Let_def lookup_obj_def fun_eq_iff cong: option.case_cong)
    moreover assume "sdb_wf s1 \<and> view_ok (view db s1)"
    ultimately show ?thesis unfolding view_ok_lookup sdb_wf_def by simp
  qed
  moreover have "validRevisions (clearJournalAndRefund s1) = []" by (simp add: clearJournalAndRefund_def Let_def)
  ultimately show ?thesis by (simp add: sdb_inv_def Finalise_def revisions_ok_def s1_def)
qed

lemma exec_inv:
  assumes "sdb_inv db s" "exec db x s = (Ret (), s')"
  shows "sdb_inv db s'"
proof -
  consider "x = Snapshot_op" | i where "x = RevertToSnapshot_op i" | d order where "x = Finalise_op d order"
    | "x \<noteq> Snapshot_op" "\<And>i. x \<noteq> RevertToSnapshot_op i" "\<And>d order. x \<noteq> Finalise_op d order" by blast
  then show ?thesis
  proof cases
    case 1
    then show ?thesis using assms sdb_inv_Snapshot by auto
  next
    case (2 i)
    then have r: "RevertToSnapshot db i s = (Ret (), s')" using assms(2) by simp
    then have "i \<in> rev_id ` set (validRevisions s)" using RevertToSnapshot_invalid[of i s db] by fastforce
    then obtain k where "k < length (validRevisions s)" "i = rev_id (validRevisions s ! k)"
      by (auto simp: in_set_conv_nth)
    then show ?thesis using RevertToSnapshot_restores[OF assms(1), of k] r by auto
  next
    case (3 d order)
    then show ?thesis using assms Finalise_inv by auto
  next
    case 4
    show ?thesis
      using exec_journaled[OF sdb_inv_wf[OF assms(1)] sdb_inv_view[OF assms(1)] assms(2) 4] sdb_inv_journaled[OF assms(1)]
      by simp
  qed
qed

lemma bind_st_Ret:
  "bind_st m f s = (Ret y, s') \<longleftrightarrow> (\<exists>x s1. m s = (Ret x, s1) \<and> f x s1 = (Ret y, s'))"
  by (cases "m s"; cases "fst (m s)") (auto simp: bind_st_def)

lemma exec_ops_inv:
  assumes "sdb_inv db s" "exec_ops db xs s = (Ret (), s')"
  shows "sdb_inv db s'"
  using assms by (induction xs arbitrary: s) (auto simp: bind_st_Ret dest: exec_inv)

text \<open>
  The databases the state is opened on: account code hashes are 32 bytes long (empty ones are left out
  in the slim form).
\<close>

definition db_ok :: "'t Database \<Rightarrow> (hash \<Rightarrow> snapshot option) option \<Rightarrow> bool" where
  "db_ok db snaps \<longleftrightarrow>
     (\<forall>tr a d h. GetAccount db tr a = Inr (Some d) \<longrightarrow> acc_CodeHash d = Some h \<longrightarrow> length h = 32) \<and>
     (\<forall>f root sn x acc. snaps = Some f \<longrightarrow> f root = Some sn \<longrightarrow> snap_Account sn x = Inr (Some acc) \<longrightarrow>
        length (sl_CodeHash acc) \<in> {0, 32})"

lemma StateDB_New_inv:
  assumes "db_ok db snaps" "StateDB_New root db snaps = Inr s"
  shows "sdb_inv db s"
proof -
  obtain tr where s: "snap s = (case snaps of None \<Rightarrow> None | Some f \<Rightarrow> f root)" "sdb_trie s = tr"
    "stateObjects s = Map.empty" "stateObjectsDirty s = {}" "validRevisions s = []" "sdb_accessList s = newAccessList"
    "sdb_logs s = Map.empty"
    using assms(2) by (auto simp: StateDB_New_def split: sum.splits)
  have acc: "\<And>tr a d h. GetAccount db tr a = Inr (Some d) \<Longrightarrow> acc_CodeHash d = Some h \<Longrightarrow> length h = 32"
    and slim: "\<And>f root sn x acc. snaps = Some f \<Longrightarrow> f root = Some sn \<Longrightarrow> snap_Account sn x = Inr (Some acc) \<Longrightarrow>
        length (sl_CodeHash acc) \<in> {0, 32}"
    using assms(1) unfolding db_ok_def by blast+
  have "length h = 32" if "load_account db (snap s) tr a = Inr (Some d)" "acc_CodeHash d = Some h" for a d h
    using that acc[of tr a d h] slim unfolding load_account_def s(1)
    by (fastforce split: option.splits sum.splits if_splits)
  then have "length (so_CodeHash o1) = 32" if "lookup_obj db s a = Some o1" for a o1
    using that s by (auto simp: lookup_obj_def base_obj_def newObject_def split: option.splits sum.splits)
  then have "view_ok (view db s)" unfolding view_ok_lookup by (simp add: s)
  then show ?thesis using s by (simp add: sdb_inv_def sdb_wf_def revisions_ok_def)
qed

section \<open>What a revert restores\<close>

text \<open>
  \<open>s\<close> remembers the snapshot \<open>r\<close> taken in \<open>s0\<close>: while its id is valid, the revisions and the journal
  below it are those of \<open>s0\<close>, and undoing the rest gives the view of \<open>s0\<close>.
\<close>

definition remembers :: "'t Database \<Rightarrow> 't StateDB \<Rightarrow> revision \<Rightarrow> 't StateDB \<Rightarrow> bool" where
  "remembers db s0 r s \<longleftrightarrow> rev_id r < nextRevisionId s \<and>
     (rev_id r \<in> rev_id ` set (validRevisions s) \<longrightarrow>
       (\<exists>rest. validRevisions s = validRevisions s0 @ r # rest) \<and>
       take (rev_journalIndex r) (entries s) = entries s0 \<and> rev_view db s r = Some (view db s0))"

lemma sorted_ids_split:
  assumes "sorted_wrt (<) (map rev_id (xs @ r # ys))" "k < length (xs @ r # ys)" "rev_id r \<in> rev_id ` set (take k (xs @ r # ys))"
  shows "length xs < k"
proof (rule ccontr)
  assume "\<not> length xs < k"
  then have "set (take k (xs @ r # ys)) \<subseteq> set xs" by (auto dest: in_set_takeD)
  then obtain q where "q \<in> set xs" "rev_id q = rev_id r" using assms(3) by (metis (no_types, opaque_lifting) imageE subsetD)
  then show False using assms(1) by (auto simp: sorted_wrt_append)
qed

lemma exec_remembers:
  assumes inv: "sdb_inv db s" and rem: "remembers db s0 r s" and e: "exec db x s = (Ret (), s')"
    and idx: "rev_journalIndex r = length (entries s0)"
  shows "remembers db s0 r s'"
proof -
  consider "x = Snapshot_op" | i where "x = RevertToSnapshot_op i" | d order where "x = Finalise_op d order"
    | "x \<noteq> Snapshot_op" "\<And>i. x \<noteq> RevertToSnapshot_op i" "\<And>d order. x \<noteq> Finalise_op d order" by blast
  then show ?thesis
  proof cases
    case 1
    then have s': "s' = snd (Snapshot s)" using e by simp
    have "rev_view db s' r = rev_view db s r" "entries s' = entries s"
      by (simp_all add: s' Snapshot_def Let_def rev_view_def view_at_def)
    then show ?thesis using rem by (auto simp: remembers_def s' Snapshot_def Let_def)
  next
    case (2 i)
    then have run: "RevertToSnapshot db i s = (Ret (), s')" using e by simp
    then have "i \<in> rev_id ` set (validRevisions s)" using RevertToSnapshot_invalid[of i s db] by fastforce
    then obtain k where k: "k < length (validRevisions s)" "i = rev_id (validRevisions s ! k)"
      by (auto simp: in_set_conv_nth)
    define q where "q = validRevisions s ! k"
    have R: "rev_view db s q = Some (view db s')" "entries s' = take (rev_journalIndex q) (entries s)"
      "validRevisions s' = take k (validRevisions s)" "nextRevisionId s' = nextRevisionId s"
      using RevertToSnapshot_restores[OF inv k(1)] run k(2) by (auto simp: q_def)
    have ro: "revisions_ok s" using inv by (simp add: sdb_inv_def)
    have "(\<exists>rest. validRevisions s' = validRevisions s0 @ r # rest) \<and>
       take (rev_journalIndex r) (entries s') = entries s0 \<and> rev_view db s' r = Some (view db s0)"
      if valid: "rev_id r \<in> rev_id ` set (validRevisions s')"
    proof -
      have "rev_id r \<in> rev_id ` set (validRevisions s)" using valid R(3) by (auto dest: in_set_takeD)
      then obtain rest where rest: "validRevisions s = validRevisions s0 @ r # rest"
        and t: "take (rev_journalIndex r) (entries s) = entries s0" "rev_view db s r = Some (view db s0)"
        using rem by (auto simp: remembers_def)
      have kl: "length (validRevisions s0) < k"
        by (rule sorted_ids_split[of _ r rest]) (use ro rest k valid R(3) in \<open>auto simp: revisions_ok_def\<close>)
      have le: "rev_journalIndex r \<le> rev_journalIndex q" "rev_journalIndex q \<le> length (entries s)"
      proof -
        have "sorted (map rev_journalIndex (validRevisions s))" using ro by (simp add: revisions_ok_def)
        from sorted_nth_mono[OF this, of "length (validRevisions s0)" k]
        show "rev_journalIndex r \<le> rev_journalIndex q" using kl k(1) rest by (simp add: q_def nth_append)
        show "rev_journalIndex q \<le> length (entries s)" using ro nth_mem[OF k(1)] by (simp add: revisions_ok_def q_def)
      qed
      have "rev_view db s' r = rev_view db s r"
        unfolding rev_view_def
        by (rule view_at_truncate[where m = "rev_journalIndex q"]) (use le R in \<open>simp_all add: rev_view_def\<close>)
      moreover have "\<exists>rest. validRevisions s' = validRevisions s0 @ r # rest"
        using kl rest R(3) by (cases "k - length (validRevisions s0)") auto
      ultimately show ?thesis using t R(2) le by (simp add: min_def)
    qed
    then show ?thesis using rem R(4) by (auto simp: remembers_def)
  next
    case (3 d order)
    have nr: "nextRevisionId (Finalise_one db d a s) = nextRevisionId s" for a s
      by (simp add: Finalise_one_def Let_def split: option.split)
    have "nextRevisionId (fold (Finalise_one db d) order s) = nextRevisionId s"
      by (induction order arbitrary: s) (simp_all add: nr)
    then show ?thesis using 3 e rem by (auto simp: remembers_def Finalise_def clearJournalAndRefund_def Let_def)
  next
    case 4
    have j: "journaled db s s'"
      by (rule exec_journaled[OF sdb_inv_wf[OF inv] sdb_inv_view[OF inv] e 4])
    obtain es where es: "entries s' = entries s @ es" using journaled_extends[OF j] by (auto simp: extends_def)
    have same: "validRevisions s' = validRevisions s" "nextRevisionId s' = nextRevisionId s"
      using j by (simp_all add: journaled_def)
    have ro: "revisions_ok s" using inv by (simp add: sdb_inv_def)
    have "rev_journalIndex r \<le> length (entries s)" if "rev_id r \<in> rev_id ` set (validRevisions s)"
      using that rem ro by (auto simp: remembers_def revisions_ok_def)
    then show ?thesis using rem same es rev_view_journaled[OF j] by (auto simp: remembers_def)
  qed
qed

lemma exec_ops_remembers:
  assumes "sdb_inv db s" "remembers db s0 r s" "exec_ops db xs s = (Ret (), s')" "rev_journalIndex r = length (entries s0)"
  shows "remembers db s0 r s'"
  using assms(1-3)
  by (induction xs arbitrary: s) (auto simp: bind_st_Ret dest: exec_inv exec_remembers[OF _ _ _ assms(4)])

section \<open>Properties\<close>

text \<open>
  What the state database answers; \<open>GetCodeSize\<close>, which may ask the database for a size where \<open>GetCode\<close> asks it for the code,
  is a question of its own.
\<close>

record answers =
  an_Exist :: "address \<Rightarrow> bool"
  an_Empty :: "address \<Rightarrow> bool"
  an_Balance :: "address \<Rightarrow> int"
  an_Nonce :: "address \<Rightarrow> uint64"
  an_Code :: "address \<Rightarrow> bytes option"
  an_CodeHash :: "address \<Rightarrow> hash"
  an_State :: "address \<Rightarrow> hash \<Rightarrow> hash"
  an_CommittedState :: "address \<Rightarrow> hash \<Rightarrow> hash"
  an_HasSuicided :: "address \<Rightarrow> bool"
  an_TransientState :: "address \<Rightarrow> hash \<Rightarrow> hash"
  an_AddressInAccessList :: "address \<Rightarrow> bool"
  an_SlotInAccessList :: "address \<Rightarrow> hash \<Rightarrow> (string, bool \<times> bool) outcome"
  an_Refund :: uint64
  an_Logs :: "hash \<rightharpoonup> Log list"
  an_Preimages :: "hash \<rightharpoonup> bytes"

definition answers_of :: "'t Database \<Rightarrow> 't StateDB \<Rightarrow> answers" where
  "answers_of db s =
     \<lparr>an_Exist = (\<lambda>a. fst (sdb_Exist db a s)), an_Empty = (\<lambda>a. fst (sdb_Empty db a s)),
      an_Balance = (\<lambda>a. fst (GetBalance db a s)), an_Nonce = (\<lambda>a. fst (GetNonce db a s)),
      an_Code = (\<lambda>a. fst (GetCode db a s)), an_CodeHash = (\<lambda>a. fst (GetCodeHash db a s)),
      an_State = (\<lambda>a k. fst (GetState db a k s)), an_CommittedState = (\<lambda>a k. fst (GetCommittedState db a k s)),
      an_HasSuicided = (\<lambda>a. fst (HasSuicided db a s)), an_TransientState = (\<lambda>a k. GetTransientState a k s),
      an_AddressInAccessList = (\<lambda>a. AddressInAccessList a s), an_SlotInAccessList = (\<lambda>a k. SlotInAccessList a k s),
      an_Refund = sdb_refund s, an_Logs = sdb_logs s, an_Preimages = sdb_preimages s\<rparr>"

text \<open>The answers are a function of the view.\<close>

definition live_view :: "'t view \<Rightarrow> address \<Rightarrow> oview option" where
  "live_view v a = (case v_objs v a of Some ov \<Rightarrow> if ov_deleted ov then None else Some ov | None \<Rightarrow> None)"

definition ov_empty :: "'t Database \<Rightarrow> oview \<Rightarrow> bool" where
  "ov_empty db ov = (ov_Nonce ov = 0 \<and> ov_Balance ov = 0 \<and> ov_CodeHash ov = hash_bytes (EmptyCodeHash db))"

lemma query_values:
  assumes "sdb_wf s"
  shows "fst (sdb_Exist db a s) = (live_view (view db s) a \<noteq> None)"
    "fst (sdb_Empty db a s) = (case live_view (view db s) a of None \<Rightarrow> True | Some ov \<Rightarrow> ov_empty db ov)"
    "fst (GetBalance db a s) = (case live_view (view db s) a of None \<Rightarrow> 0 | Some ov \<Rightarrow> ov_Balance ov)"
    "fst (GetNonce db a s) = (case live_view (view db s) a of None \<Rightarrow> 0 | Some ov \<Rightarrow> ov_Nonce ov)"
    "fst (GetCode db a s) = (case live_view (view db s) a of None \<Rightarrow> None | Some ov \<Rightarrow> ov_Code ov)"
    "fst (GetCodeHash db a s) = (case live_view (view db s) a of None \<Rightarrow> 0 | Some ov \<Rightarrow> BytesToHash (ov_CodeHash ov))"
    "fst (GetState db a k s) = (case live_view (view db s) a of None \<Rightarrow> 0 | Some ov \<Rightarrow> ov_state ov k)"
    "fst (GetCommittedState db a k s) = (case live_view (view db s) a of None \<Rightarrow> 0 | Some ov \<Rightarrow> ov_committed ov k)"
    "fst (HasSuicided db a s) = (case live_view (view db s) a of None \<Rightarrow> False | Some ov \<Rightarrow> ov_suicided ov)"
proof -
  obtain r s1 where g: "getStateObject db a s = (r, s1)" by fastforce
  note G = getStateObject_reads[OF assms g]
  note R = reads_fields[OF G(1)]
  have none: "live_view (view db s) a = None" if "r = None"
    using G(3)[OF that] by (auto simp: live_view_def split: option.splits)
  have some: "live_view (view db s) a = Some (obj_view db (snap s) (originalRoot s) (a \<in> stateObjectsDestruct s) o1)"
    if "r = Some o1" for o1 using G(2)[OF that] by (simp add: live_view_def)
  have st: "fst (so_GetState db o1 k s1) = ov_state (obj_view db (snap s) (originalRoot s) (a \<in> stateObjectsDestruct s) o1) k"
    "fst (so_GetCommittedState db o1 k s1) = ov_committed (obj_view db (snap s) (originalRoot s) (a \<in> stateObjectsDestruct s) o1) k"
    "fst (so_Code db o1 s1) = ov_Code (obj_view db (snap s) (originalRoot s) (a \<in> stateObjectsDestruct s) o1)"
    if "r = Some o1" for o1
  proof -
    have o1: "stateObjects s1 a = Some o1" "so_address o1 = a" using G(2)[OF that] by simp_all
    show "fst (so_GetState db o1 k s1) = ov_state (obj_view db (snap s) (originalRoot s) (a \<in> stateObjectsDestruct s) o1) k"
      using so_GetState_reads(5)[OF R(1) o1, of db k] R by (cases "so_GetState db o1 k s1") (simp add: obj_view_def)
    show "fst (so_GetCommittedState db o1 k s1) = ov_committed (obj_view db (snap s) (originalRoot s) (a \<in> stateObjectsDestruct s) o1) k"
      using so_GetCommittedState_reads(2)[OF R(1) o1, of db k] R by (cases "so_GetCommittedState db o1 k s1") (simp add: obj_view_def)
    show "fst (so_Code db o1 s1) = ov_Code (obj_view db (snap s) (originalRoot s) (a \<in> stateObjectsDestruct s) o1)"
      using so_Code_reads(5)[OF R(1) o1, of db] by (cases "so_Code db o1 s1") (simp add: obj_view_def)
  qed
  note defs = sdb_Exist_def sdb_Empty_def GetBalance_def GetNonce_def GetCodeHash_def HasSuicided_def
  show "fst (sdb_Exist db a s) = (live_view (view db s) a \<noteq> None)"
    "fst (sdb_Empty db a s) = (case live_view (view db s) a of None \<Rightarrow> True | Some ov \<Rightarrow> ov_empty db ov)"
    "fst (GetBalance db a s) = (case live_view (view db s) a of None \<Rightarrow> 0 | Some ov \<Rightarrow> ov_Balance ov)"
    "fst (GetNonce db a s) = (case live_view (view db s) a of None \<Rightarrow> 0 | Some ov \<Rightarrow> ov_Nonce ov)"
    "fst (GetCodeHash db a s) = (case live_view (view db s) a of None \<Rightarrow> 0 | Some ov \<Rightarrow> BytesToHash (ov_CodeHash ov))"
    "fst (HasSuicided db a s) = (case live_view (view db s) a of None \<Rightarrow> False | Some ov \<Rightarrow> ov_suicided ov)"
    using g none some by (cases r; simp add: defs so_empty_def ov_empty_def)+
  show "fst (GetCode db a s) = (case live_view (view db s) a of None \<Rightarrow> None | Some ov \<Rightarrow> ov_Code ov)"
    using g none some st(3) by (cases r) (auto simp: GetCode_def split: prod.split)
  show "fst (GetState db a k s) = (case live_view (view db s) a of None \<Rightarrow> 0 | Some ov \<Rightarrow> ov_state ov k)"
    using g none some st(1) by (cases r) (auto simp: GetState_def split: prod.split)
  show "fst (GetCommittedState db a k s) = (case live_view (view db s) a of None \<Rightarrow> 0 | Some ov \<Rightarrow> ov_committed ov k)"
    using g none some st(2) by (cases r) (auto simp: GetCommittedState_def split: prod.split)
qed

text \<open>
  What \<open>GetCodeSize\<close> relies on in the database: the size it reports is the length of the code it returns, 0 where it has none
  (\<open>cachingDB.ContractCodeSize\<close> loads the code unless its size is cached).
\<close>

definition code_sizes_ok :: "'t Database \<Rightarrow> bool" where
  "code_sizes_ok db \<longleftrightarrow> (\<forall>a h. (case ContractCodeSize db a h of Inl e \<Rightarrow> 0 | Inr n \<Rightarrow> n)
     = (case ContractCode db a h of Inl e \<Rightarrow> 0 | Inr c \<Rightarrow> int (length c)))"

lemma obj_CodeSize_Code:
  assumes "code_sizes_ok db"
  shows "fst (obj_CodeSize db o1) = (case fst (obj_Code db o1) of None \<Rightarrow> 0 | Some c \<Rightarrow> int (length c))"
proof -
  have "(case ContractCodeSize db (so_addrHash o1) (BytesToHash (so_CodeHash o1)) of Inl e \<Rightarrow> 0 | Inr n \<Rightarrow> n)
     = (case ContractCode db (so_addrHash o1) (BytesToHash (so_CodeHash o1)) of Inl e \<Rightarrow> 0 | Inr c \<Rightarrow> int (length c))"
    using assms unfolding code_sizes_ok_def by blast
  then show ?thesis by (auto simp: obj_CodeSize_def obj_Code_def split: option.split sum.splits)
qed

lemma GetCodeSize_view:
  assumes "sdb_wf s" "code_sizes_ok db"
  shows "fst (GetCodeSize db a s) =
    (case live_view (view db s) a of None \<Rightarrow> 0 | Some ov \<Rightarrow> (case ov_Code ov of None \<Rightarrow> 0 | Some c \<Rightarrow> int (length c)))"
proof -
  obtain r s1 where g: "getStateObject db a s = (r, s1)" by fastforce
  note G = getStateObject_reads[OF assms(1) g]
  show ?thesis
  proof (cases r)
    case None
    then show ?thesis using G(3) g by (auto simp: GetCodeSize_def live_view_def split: option.splits)
  next
    case (Some o1)
    then have "live_view (view db s) a = Some (obj_view db (snap s) (originalRoot s) (a \<in> stateObjectsDestruct s) o1)"
      using G(2)[OF Some] by (simp add: live_view_def)
    then show ?thesis
      using g Some obj_CodeSize_Code[OF assms(2), of o1]
      by (cases "obj_CodeSize db o1") (simp add: GetCodeSize_def obj_view_def)
  qed
qed

lemma answers_view:
  assumes "sdb_wf s" "sdb_wf s'" "view db s = view db s'"
  shows "answers_of db s = answers_of db s'"
proof -
  have "GetTransientState a k s = GetTransientState a k s'" for a k
    using arg_cong[OF assms(3), of v_transient] by (simp add: fun_eq_iff)
  moreover have "sdb_accessList s = sdb_accessList s'" "sdb_refund s = sdb_refund s'" "sdb_logs s = sdb_logs s'"
    "sdb_preimages s = sdb_preimages s'"
    using arg_cong[OF assms(3), of v_accessList] arg_cong[OF assms(3), of v_refund] arg_cong[OF assms(3), of v_logs]
      arg_cong[OF assms(3), of v_preimages] by simp_all
  ultimately show ?thesis
    by (simp add: answers_of_def query_values[OF assms(1)] query_values[OF assms(2)] assms(3)
        AddressInAccessList_def SlotInAccessList_def)
qed

lemma snapshot_revert:
  assumes inv: "sdb_inv db s0" and sn: "Snapshot s0 = (i, s1)" and ops: "exec_ops db ops s1 = (Ret (), s2)"
    and valid: "i \<in> rev_id ` set (validRevisions s2)"
  shows "\<exists>s3. RevertToSnapshot db i s2 = (Ret (), s3) \<and> view db s3 = view db s0 \<and> sdb_inv db s3 \<and>
     entries s3 = entries s0 \<and> validRevisions s3 = validRevisions s0 \<and>
     unexpectedBalanceDelta s3 = unexpectedBalanceDelta s0"
proof -
  define r where "r = \<lparr>rev_id = i, rev_journalIndex = length (entries s0), rev_balanceDelta = unexpectedBalanceDelta s0\<rparr>"
  have s1: "validRevisions s1 = validRevisions s0 @ [r]" "entries s1 = entries s0" "nextRevisionId s1 = i + 1"
    and v1: "view db s1 = view db s0"
    using sn by (auto simp: Snapshot_def Let_def r_def journal_length_def)
  have inv1: "sdb_inv db s1" using sdb_inv_Snapshot[OF inv] sn by simp
  have "remembers db s0 r s1"
    using s1 v1 view_at_now[of "undo db" "view db" entries s1]
    by (simp add: remembers_def r_def rev_view_def)
  then have rem: "remembers db s0 r s2"
    by (rule exec_ops_remembers[OF inv1 _ ops]) (simp add: r_def)
  have inv2: "sdb_inv db s2" by (rule exec_ops_inv[OF inv1 ops])
  have ri: "rev_id r = i" by (simp add: r_def)
  obtain rest where rest: "validRevisions s2 = validRevisions s0 @ r # rest"
    and t: "take (rev_journalIndex r) (entries s2) = entries s0" "rev_view db s2 r = Some (view db s0)"
    using rem valid by (auto simp: remembers_def ri)
  let ?k = "length (validRevisions s0)"
  have k: "?k < length (validRevisions s2)" "validRevisions s2 ! ?k = r" by (simp_all add: rest)
  obtain s3 where "RevertToSnapshot db i s2 = (Ret (), s3)" "rev_view db s2 r = Some (view db s3)"
    "entries s3 = take (rev_journalIndex r) (entries s2)" "validRevisions s3 = take ?k (validRevisions s2)"
    "unexpectedBalanceDelta s3 = rev_balanceDelta r" "sdb_inv db s3"
    using RevertToSnapshot_restores[OF inv2 k(1)] unfolding k(2) ri by blast
  then show ?thesis using t rest by (auto simp: r_def)
qed


text \<open>C26. \<open>RevertToSnapshot\<close> panics exactly on the ids that are not in the revision stack: with any other id it
  returns normally, and the revisions it leaves are the ones below that id.\<close>

theorem RevertToSnapshot_panic:
  assumes "db_ok db snaps" "StateDB_New root db snaps = Inr init" "exec_ops db ops init = (Ret (), s)"
  shows "(fst (RevertToSnapshot db i s) = Panic \<longleftrightarrow> i \<notin> rev_id ` set (validRevisions s)) \<and>
    (i \<in> rev_id ` set (validRevisions s) \<longrightarrow> (\<exists>s' k. RevertToSnapshot db i s = (Ret (), s') \<and>
       k < length (validRevisions s) \<and> rev_id (validRevisions s ! k) = i \<and> validRevisions s' = take k (validRevisions s)))"
proof -
  have inv: "sdb_inv db s" by (rule exec_ops_inv[OF StateDB_New_inv[OF assms(1,2)] assms(3)])
  show ?thesis
  proof (cases "i \<in> rev_id ` set (validRevisions s)")
    case True
    then obtain k where k: "k < length (validRevisions s)" "rev_id (validRevisions s ! k) = i"
      by (auto simp: in_set_conv_nth)
    then obtain s' where "RevertToSnapshot db i s = (Ret (), s')" "validRevisions s' = take k (validRevisions s)"
      using RevertToSnapshot_restores[OF inv k(1)] by blast
    then show ?thesis using True k by auto
  next
    case False
    then show ?thesis using RevertToSnapshot_invalid[OF False] by simp
  qed
qed

text \<open>An empty database, for the witnesses: no accounts, no code, every read succeeds.\<close>

definition empty_db :: "unit Database" where
  "empty_db = \<lparr>Keccak256Hash = (\<lambda>b. word_of_nat (length b)), OpenTrie = (\<lambda>r. Inr ()),
     OpenStorageTrie = (\<lambda>r a b. Inr ()), ContractCode = (\<lambda>a h. Inl ''not found''),
     ContractCodeSize = (\<lambda>a h. Inl ''not found''), GetAccount = (\<lambda>t a. Inr None), GetStorage = (\<lambda>t a k. Inr [])\<rparr>"

definition empty_state :: "unit StateDB" where
  "empty_state = (case StateDB_New 0 empty_db None of Inr s \<Rightarrow> s)"

lemma empty_db_ok: "db_ok empty_db None" "StateDB_New 0 empty_db None = Inr empty_state"
  by (simp_all add: db_ok_def empty_db_def empty_state_def StateDB_New_def)

lemmas sdb_eval = AddBalance_def SubBalance_def SetBalance_def sdb_SetNonce_def GetOrNewStateObject_def getStateObject_def
  getDeletedStateObject_def createObject_def CreateAccount_def load_account_def so_AddBalance_def so_SetBalance_def
  so_SetNonce_def setStateObject_def append_entry_def journal_append_def journal_dirty_def dirty_count_def add_delta_def
  setBalance_def setNonce_def newObject_def Snapshot_def journal_length_def RevertToSnapshot_def journal_revert_def
  sort_Search_def search_loop.simps slice_def undirty_def newJournal_def AddRefund_def SubRefund_def bind_st_def
  modify_st_def ret_st_def Let_def

text \<open>A run with a nested snapshot that is reverted.\<close>

definition sample_ops :: "op list" where
  "sample_ops = [AddBalance_op 1 5, Snapshot_op, SetNonce_op 1 7, RevertToSnapshot_op 1, AddRefund_op 3]"

lemma sample_run:
  "\<exists>s2. exec_ops empty_db sample_ops (snd (Snapshot empty_state)) = (Ret (), s2) \<and> 0 \<in> rev_id ` set (validRevisions s2) \<and>
     sdb_refund s2 = 3"
  by (simp add: sample_ops_def empty_state_def StateDB_New_def empty_db_def sdb_eval)


text \<open>
  \<open>SetStorage\<close> is not undone: an account whose slot reads 7 in the trie reads 0 after a snapshot, a \<open>SetStorage\<close> and the revert.
\<close>

definition slot_db :: "unit Database" where
  "slot_db = empty_db\<lparr>GetStorage := (\<lambda>t a k. Inr [7]),
     GetAccount := (\<lambda>t a. Inr (Some \<lparr>acc_Nonce = 1, acc_Balance = Some 0, acc_Root = 0, acc_CodeHash = Some []\<rparr>))\<rparr>"

lemma SetStorage_survives_revert:
  "\<exists>s3. StateDB_New 0 slot_db None = Inr empty_state \<and> fst (GetState slot_db 1 0 empty_state) = 7 \<and>
     RevertToSnapshot slot_db 0 (SetStorage slot_db 1 [] (snd (Snapshot empty_state))) = (Ret (), s3) \<and>
     fst (GetState slot_db 1 0 s3) = 0"
proof -
  have "Split [7] = Ret (Byte_Kind, [7], [])" by (simp add: Split_eq_Ret go_slice_def)
  then have d: "fst (decode_slot [7]) = 7" by (simp add: decode_slot_def BytesToHash_def be_nat_def)
  show ?thesis
    by (simp add: slot_db_def empty_state_def StateDB_New_def empty_db_def sdb_eval SetStorage_def GetState_def so_GetState_def
        obj_GetState_def obj_GetCommittedState_def so_destructed_def read_slot_def getTrie_def setError_def d)
qed

theorem RevertToSnapshot_panic_witness:
  "fst (RevertToSnapshot empty_db 7 empty_state) = Panic"
  using RevertToSnapshot_panic[OF empty_db_ok, of "[]" empty_state 7]
  by (simp add: empty_state_def StateDB_New_def empty_db_def)

end
