(* ===== verification/State_Balance.thy ===== *)
theory State_Balance
  imports State_Snapshot
begin

text \<open>
  Accounting properties of the state database: the Arbitrum balance delta against the sum of all balances, the
  dirty counters of the journal, and what \<open>Finalise\<close> does at the end of a transaction.
\<close>

section \<open>The balance delta\<close>

definition bal :: "'t Database \<Rightarrow> 't StateDB \<Rightarrow> address \<Rightarrow> int" where
  "bal db s a = (case live_view (view db s) a of None \<Rightarrow> 0 | Some ov \<Rightarrow> ov_Balance ov)"

text \<open>The sum of all balances: there are finitely many addresses.\<close>

definition vtotal :: "'t view \<Rightarrow> int" where
  "vtotal v = (\<Sum>a \<in> (UNIV :: address set). case live_view v a of None \<Rightarrow> 0 | Some ov \<Rightarrow> ov_Balance ov)"

definition TotalBalance :: "'t Database \<Rightarrow> 't StateDB \<Rightarrow> int" where
  "TotalBalance db s = (\<Sum>a \<in> (UNIV :: address set). fst (GetBalance db a s))"

lemma TotalBalance_view: "sdb_wf s \<Longrightarrow> TotalBalance db s = vtotal (view db s)"
  by (simp add: TotalBalance_def vtotal_def query_values)

lemma vtotal_bal: "vtotal (view db s) = (\<Sum>a \<in> UNIV. bal db s a)"
  by (simp add: vtotal_def bal_def)

lemma sum_upd:
  fixes f :: "address \<Rightarrow> int"
  shows "(\<Sum>x \<in> UNIV. (f(a := y)) x) = (\<Sum>x \<in> UNIV. f x) - f a + y"
proof -
  have "(\<Sum>x \<in> UNIV. g x) = g a + (\<Sum>x \<in> UNIV - {a}. g x)" for g :: "address \<Rightarrow> int"
    by (rule sum.remove) simp_all
  from this[of f] this[of "f(a := y)"] show ?thesis by simp
qed

definition drift :: "'t Database \<Rightarrow> 't StateDB \<Rightarrow> int" where
  "drift db s = unexpectedBalanceDelta s - vtotal (view db s)"

lemma bal_view: "view db s' = view db s \<Longrightarrow> bal db s' = bal db s"
  by (rule ext) (simp add: bal_def)

lemma bal_setStateObject:
  "bal db (setStateObject o1 s) = (bal db s)(so_address o1 := if deleted o1 then 0 else so_Balance o1)"
  by (rule ext) (simp add: bal_def live_view_def view_setStateObject)

lemma bal_live: "stateObjects s a = Some o1 \<Longrightarrow> \<not> deleted o1 \<Longrightarrow> bal db s a = so_Balance o1"
  by (simp add: bal_def live_view_def objs_view_def lookup_obj_def)

lemma bal_bookkeeping [simp]:
  "bal db (append_entry e s) = bal db s" "bal db (add_delta d s) = bal db s" "bal db (setError e' s) = bal db s"
  by (rule bal_view, simp)+

text \<open>\<open>pays db a v s s'\<close>: the balance of \<open>a\<close>, and with it the balance delta, grows by \<open>v\<close>; every other balance is unchanged.\<close>

definition pays :: "'t Database \<Rightarrow> address \<Rightarrow> int \<Rightarrow> 't StateDB \<Rightarrow> 't StateDB \<Rightarrow> bool" where
  "pays db a v s s' \<longleftrightarrow> bal db s' = (bal db s)(a := bal db s a + v) \<and> unexpectedBalanceDelta s' = unexpectedBalanceDelta s + v"

lemma pays_drift: "pays db a v s s' \<Longrightarrow> drift db s' = drift db s"
  by (simp only: pays_def drift_def vtotal_bal sum_upd)

lemma pays_nothing: "pays db a 0 s s' \<longleftrightarrow> bal db s' = bal db s \<and> unexpectedBalanceDelta s' = unexpectedBalanceDelta s"
  by (simp add: pays_def)

lemma pays_reads: "reads db s s' \<Longrightarrow> pays db a 0 s s'"
  unfolding pays_nothing by (intro conjI bal_view reads_fields(2) reads_fields(10))

lemma pays_after: "bal db s1 = bal db s \<Longrightarrow> unexpectedBalanceDelta s1 = unexpectedBalanceDelta s \<Longrightarrow> pays db a v s1 s' \<Longrightarrow> pays db a v s s'"
  by (simp add: pays_def)

lemma GetOrNew_bal:
  assumes "sdb_wf s" "view_ok (view db s)" "GetOrNewStateObject db a s = (o1, s')"
  shows "bal db s' = bal db s" "unexpectedBalanceDelta s' = unexpectedBalanceDelta s"
proof -
  show "unexpectedBalanceDelta s' = unexpectedBalanceDelta s" by (rule GetOrNew_journaled(5)[OF assms])
  obtain r s1 where g1: "getStateObject db a s = (r, s1)" by fastforce
  note G = getStateObject_reads[OF assms(1) g1]
  note R = reads_fields[OF G(1)]
  show "bal db s' = bal db s"
  proof (cases r)
    case (Some o2)
    then show ?thesis using assms(3) g1 bal_view[OF R(2)] by (simp add: GetOrNewStateObject_def)
  next
    case None
    obtain prev where c: "createObject db a s1 = ((o1, prev), s')"
      using assms(3) g1 None by (auto simp: GetOrNewStateObject_def split: prod.splits)
    have "view_ok (view db s1)" using assms(2) R(2) by simp
    note C = createObject_journaled[OF R(1) this c]
    have zero: "bal db s a = 0" using G(3)[OF None] by (auto simp: bal_def live_view_def split: option.splits)
    have "so_Balance o1 = 0" "\<not> deleted o1" unfolding C(4) by (simp_all add: newObject_def)
    then have "bal db s' = (bal db s)(a := 0)"
      using C(7) R by (auto simp: fun_eq_iff bal_def live_view_def)
    then show ?thesis using zero by (simp add: fun_upd_idem)
  qed
qed

text \<open>The methods of a live object.\<close>

lemma live_bal_set:
  assumes "stateObjects s a = Some o1" "\<not> deleted o1" "so_address o2 = a" "\<not> deleted o2"
  shows "bal db (setStateObject o2 (append_entry e s)) = (bal db s)(a := so_Balance o2)"
  using assms by (simp add: bal_setStateObject)

lemma live_bal_same:
  assumes "stateObjects s a = Some o1" "\<not> deleted o1" "so_address o2 = a" "\<not> deleted o2" "so_Balance o2 = so_Balance o1"
  shows "pays db b 0 s (setStateObject o2 (append_entry e s))"
  unfolding pays_nothing live_bal_set[OF assms(1-4)] using bal_live[OF assms(1,2), of db] assms(5)
  by (simp add: fun_upd_idem append_entry_def)

lemma setter_balance [simp]:
  "so_Balance (setNonce n o1) = so_Balance o1" "so_Balance (setState k v o1) = so_Balance o1"
  "so_Balance (setCode h c o1) = so_Balance o1" "so_Balance (setBalance b o1) = b"
  by (simp_all add: setNonce_def setState_def setCode_def setBalance_def)

lemma append_entry_delta [simp]: "unexpectedBalanceDelta (append_entry e s) = unexpectedBalanceDelta s"
  and add_delta_delta [simp]: "unexpectedBalanceDelta (add_delta d s) = unexpectedBalanceDelta s + d"
  by (simp_all add: append_entry_def add_delta_def)

lemma so_SetBalance_pays:
  assumes "stateObjects s a = Some o1" "\<not> deleted o1" "so_address o1 = a" "x = so_Balance o1 + v"
  shows "pays db a v s (so_SetBalance o1 x (add_delta v s))"
  using assms bal_live[OF assms(1,2), of db] by (simp add: pays_def so_SetBalance_def bal_setStateObject)

lemma so_touch_pays: "pays db b 0 s (so_touch o1 s)"
  unfolding pays_nothing by (rule conjI, rule bal_view) (simp_all add: so_touch_def Let_def)

lemma add_delta_0 [simp]: "add_delta 0 s = s"
  by (simp add: add_delta_def)

lemma GetOrNew_pays:
  assumes wf: "sdb_wf s" and ok: "view_ok (view db s)"
    and f: "\<And>s o1. sdb_wf s \<Longrightarrow> view_ok (view db s) \<Longrightarrow> stateObjects s a = Some o1 \<Longrightarrow> \<not> deleted o1 \<Longrightarrow> so_address o1 = a \<Longrightarrow>
      pays db b v s (f o1 s)"
  shows "pays db b v s (let (o1, s) = GetOrNewStateObject db a s in f o1 s)"
proof -
  obtain o1 s1 where g: "GetOrNewStateObject db a s = (o1, s1)" by fastforce
  note G = GetOrNew_journaled[OF wf ok g]
  have "pays db b v s1 (f o1 s1)" by (rule f[OF journaledD[OF G(1)] G(2-4)])
  then have "pays db b v s (f o1 s1)" by (rule pays_after[OF GetOrNew_bal[OF wf ok g]])
  then show ?thesis by (simp add: g)
qed

lemma AddBalance_pays:
  assumes "sdb_wf s" "view_ok (view db s)"
  shows "pays db a v s (AddBalance db a v s)"
  unfolding AddBalance_def
proof (rule GetOrNew_pays[OF assms])
  fix s :: "'a StateDB" and o1
  assume o1: "stateObjects s a = Some o1" "\<not> deleted o1" "so_address o1 = a"
  show "pays db a v s (so_AddBalance db o1 v (add_delta v s))"
    using so_SetBalance_pays[OF o1, of "so_Balance o1 + v" v db] so_touch_pays[of db a s o1]
      pays_nothing[of db a s s] by (auto simp: so_AddBalance_def)
qed

lemma SubBalance_pays:
  assumes "sdb_wf s" "view_ok (view db s)"
  shows "pays db a (- v) s (SubBalance db a v s)"
  unfolding SubBalance_def
proof (rule GetOrNew_pays[OF assms])
  fix s :: "'a StateDB" and o1
  assume o1: "stateObjects s a = Some o1" "\<not> deleted o1" "so_address o1 = a"
  show "pays db a (- v) s (so_SubBalance o1 v (add_delta (- v) s))"
    using so_SetBalance_pays[OF o1, of "so_Balance o1 - v" "- v" db] pays_nothing[of db a s s] by (auto simp: so_SubBalance_def)
qed

lemma SetBalance_drift:
  assumes "sdb_wf s" "view_ok (view db s)"
  shows "drift db (SetBalance db a v s) = drift db s"
proof -
  let ?v = "case v of None \<Rightarrow> 0 | Some v \<Rightarrow> v"
  have "pays db a (?v - bal db s a) s (let (o1, s) = GetOrNewStateObject db a s in
      so_SetBalance o1 ?v (add_delta (- so_Balance o1) (add_delta ?v s)))"
  proof -
    obtain o1 s1 where g: "GetOrNewStateObject db a s = (o1, s1)" by fastforce
    note G = GetOrNew_journaled[OF assms g]
    have d: "add_delta (- so_Balance o1) (add_delta ?v s1) = add_delta (?v - so_Balance o1) s1" by (simp add: add_delta_def)
    have "bal db s a = so_Balance o1" using bal_live[OF G(2,3), of db] GetOrNew_bal(1)[OF assms g] by simp
    then have "pays db a (?v - bal db s a) s1 (so_SetBalance o1 ?v (add_delta (?v - so_Balance o1) s1))"
      using so_SetBalance_pays[OF G(2-4), of ?v "?v - so_Balance o1" db] by simp
    then show ?thesis unfolding g Let_def prod.case d by (rule pays_after[OF GetOrNew_bal[OF assms g]])
  qed
  then show ?thesis by (simp add: SetBalance_def Let_def pays_drift)
qed

lemma SetNonce_pays:
  assumes "sdb_wf s" "view_ok (view db s)"
  shows "pays db b 0 s (sdb_SetNonce db a v s)"
  unfolding sdb_SetNonce_def
  by (rule GetOrNew_pays[OF assms]) (simp add: so_SetNonce_def live_bal_same)

lemma SetState_pays:
  assumes "sdb_wf s" "view_ok (view db s)"
  shows "pays db b 0 s (sdb_SetState db a k v s)"
  unfolding sdb_SetState_def
proof (rule GetOrNew_pays[OF assms])
  fix s :: "'a StateDB" and o1
  assume s: "sdb_wf s" "stateObjects s a = Some o1" "\<not> deleted o1" "so_address o1 = a"
  obtain prev o2 s1 where g: "so_GetState db o1 k s = (prev, o2, s1)" by (metis prod_cases3)
  note G = so_GetState_reads[OF s(1,2,4) g]
  have "pays db b 0 s1 (setStateObject (setState k v o2) (append_entry (storageChange (so_address o2) k prev) s1))"
    by (rule live_bal_same[OF G(2)]) (use G s in simp_all)
  then show "pays db b 0 s (so_SetState db o1 k v s)"
    using pays_reads[OF G(1), of b] g by (simp add: so_SetState_def pays_nothing)
qed

lemma SetCode_pays:
  assumes "sdb_wf s" "view_ok (view db s)"
  shows "pays db b 0 s (sdb_SetCode db a c s)"
  unfolding sdb_SetCode_def
proof (rule GetOrNew_pays[OF assms])
  fix s :: "'a StateDB" and o1
  assume s: "sdb_wf s" "stateObjects s a = Some o1" "\<not> deleted o1" "so_address o1 = a"
  obtain prev o2 s1 where g: "so_Code db o1 s = (prev, o2, s1)" by (metis prod_cases3)
  note G = so_Code_reads[OF s(1,2,4) g]
  have "pays db b 0 s1 (setStateObject (setCode (Keccak256Hash db (case c of None \<Rightarrow> [] | Some c \<Rightarrow> c)) c o2)
      (append_entry (codeChange (so_address o2) prev (so_CodeHash o2)) s1))"
    by (rule live_bal_same[OF G(2)]) (use G s in simp_all)
  then show "pays db b 0 s (so_SetCode db o1 (Keccak256Hash db (case c of None \<Rightarrow> [] | Some c \<Rightarrow> c)) c s)"
    using pays_reads[OF G(1), of b] g by (simp add: so_SetCode_def pays_nothing)
qed

lemma CreateAccount_pays:
  assumes "sdb_wf s" "view_ok (view db s)"
  shows "pays db b 0 s (CreateAccount db a s)"
proof -
  obtain o1 prev s' where c: "createObject db a s = ((o1, prev), s')" by (metis prod.exhaust)
  note C = createObject_journaled[OF assms c]
  have o1: "so_Balance o1 = 0" "\<not> deleted o1" "so_address o1 = a" unfolding C(4) by (simp_all add: newObject_def)
  have b': "bal db s' = (bal db s)(a := 0)" using C(7) o1 by (auto simp: fun_eq_iff bal_def live_view_def)
  show ?thesis
  proof (cases prev)
    case None
    have "bal db s a = 0"
      using C(6) None by (auto simp: bal_def live_view_def objs_view_def split: option.splits if_splits)
    then have "bal db s' = bal db s" using b' by (simp add: fun_upd_idem)
    then show ?thesis using C(5) c None by (simp add: CreateAccount_def pays_nothing)
  next
    case (Some p)
    have p: "bal db s a = so_Balance p"
      using C(6) Some by (auto simp: bal_def live_view_def objs_view_def split: option.splits if_splits)
    have "bal db (setStateObject (setBalance (so_Balance p) o1) s') = bal db s"
      using b' o1 p by (simp add: bal_setStateObject fun_upd_idem)
    then show ?thesis using C(5) c Some by (simp add: CreateAccount_def pays_nothing)
  qed
qed

lemma Suicide_pays:
  assumes "sdb_wf s"
  shows "pays db a (- bal db s a) s (snd (Suicide db a s))"
proof -
  obtain r s1 where g: "getStateObject db a s = (r, s1)" by fastforce
  note G = getStateObject_reads[OF assms g]
  note R = reads_fields[OF G(1)]
  show ?thesis
  proof (cases r)
    case None
    have "bal db s a = 0" using G(3)[OF None] by (auto simp: bal_def live_view_def split: option.splits)
    then show ?thesis using pays_reads[OF G(1), of a] g None by (simp add: Suicide_def)
  next
    case (Some o1)
    note o1 = G(2)[OF Some]
    let ?s = "setStateObject (setBalance 0 (markSuicided o1))
        (add_delta (- so_Balance o1) (append_entry (suicideChange a (suicided o1) (so_Balance o1)) s1))"
    have "bal db s1 a = so_Balance o1" using o1 bal_live[of s1 a o1 db] by simp
    then have "pays db a (- bal db s1 a) s1 ?s" using o1 by (simp add: pays_def bal_setStateObject)
    then have "pays db a (- bal db s a) s ?s"
      using pays_after[OF bal_view[OF R(2)]] pays_reads[OF G(1), of a] by (simp add: pays_nothing)
    then show ?thesis using g Some by (simp add: Suicide_def Let_def)
  qed
qed

lemma pays_objs:
  assumes "stateObjects s' = stateObjects s" "snap s' = snap s" "sdb_trie s' = sdb_trie s"
    "originalRoot s' = originalRoot s" "stateObjectsDestruct s' = stateObjectsDestruct s"
    "unexpectedBalanceDelta s' = unexpectedBalanceDelta s"
  shows "pays db b 0 s s'"
proof -
  have "objs_view db s' = objs_view db s" by (rule objs_view_cong) (use assms in simp_all)
  then show ?thesis unfolding pays_nothing using assms(6) by (simp add: fun_eq_iff bal_def live_view_def)
qed

lemma SubRefund_pays: "SubRefund g s = (Ret (), s') \<Longrightarrow> pays db b 0 s s'"
  by (rule pays_objs) (auto simp: SubRefund_def Let_def append_entry_def split: if_splits)

lemma AddSlot_pays: "AddSlotToAccessList a k s = (Ret (), s') \<Longrightarrow> pays db b 0 s s'"
  by (rule pays_objs)
    (auto simp: AddSlotToAccessList_def Let_def append_entry_def split: outcome.splits prod.splits if_splits)

lemma other_pays:
  "pays db b 0 s (AddLog l s)" "pays db b 0 s (AddPreimage h p s)" "pays db b 0 s (AddRefund g s)"
  "pays db b 0 s (SetTransientState a k v s)" "pays db b 0 s (AddAddressToAccessList a s)"
  "pays db b 0 s (SetTxContext h i s)" "pays db b 0 s (snd (Snapshot s))"
  by (rule pays_objs; simp add: AddLog_def AddPreimage_def AddRefund_def SetTransientState_def AddAddressToAccessList_def
      SetTxContext_def setTransientState_def Snapshot_def Let_def append_entry_def split: prod.split)+

text \<open>The operations that move no ether.\<close>

fun moves_ether :: "op \<Rightarrow> bool" where
  "moves_ether (AddBalance_op a v) = True"
| "moves_ether (SubBalance_op a v) = True"
| "moves_ether (SetBalance_op a x) = True"
| "moves_ether (Suicide_op a) = True"
| "moves_ether (ExpectBalanceBurn_op v) = True"
| "moves_ether (RevertToSnapshot_op i) = True"
| "moves_ether (Finalise_op d order) = True"
| "moves_ether _ = False"

lemma exec_pays_nothing:
  assumes wf: "sdb_wf s" and ok: "view_ok (view db s)" and e: "exec db x s = (Ret (), s')" and x: "\<not> moves_ether x"
  shows "pays db b 0 s s'"
proof (cases x)
  case (SubRefund_op g)
  then show ?thesis using e SubRefund_pays by simp
next
  case (AddSlot_op a k)
  then show ?thesis using e AddSlot_pays by simp
qed (use e x SetNonce_pays[OF wf ok] SetCode_pays[OF wf ok] SetState_pays[OF wf ok] CreateAccount_pays[OF wf ok] other_pays[of db b]
    query_reads[OF wf, of db, THEN pays_reads] in auto)

text \<open>The operations that neither burn, revert, nor end the transaction.\<close>

lemma exec_drift:
  assumes wf: "sdb_wf s" and ok: "view_ok (view db s)" and e: "exec db x s = (Ret (), s')"
    and x: "\<And>i. x \<noteq> RevertToSnapshot_op i" "\<And>d order. x \<noteq> Finalise_op d order" "\<And>v. x \<noteq> ExpectBalanceBurn_op v"
  shows "drift db s' = drift db s"
proof (cases "moves_ether x")
  case True
  then show ?thesis
    using e x AddBalance_pays[OF wf ok, THEN pays_drift] SubBalance_pays[OF wf ok, THEN pays_drift] SetBalance_drift[OF wf ok]
      Suicide_pays[OF wf, THEN pays_drift] by (cases x) auto
qed (use pays_drift[OF exec_pays_nothing[OF wf ok e]] in simp)

text \<open>The same constant for the current state and for every snapshot it can be reverted to.\<close>

definition tracks_delta :: "'t Database \<Rightarrow> int \<Rightarrow> 't StateDB \<Rightarrow> bool" where
  "tracks_delta db c s \<longleftrightarrow> drift db s = c \<and>
     (\<forall>r \<in> set (validRevisions s). \<exists>v. rev_view db s r = Some v \<and> rev_balanceDelta r - vtotal v = c)"

fun no_burn :: "op \<Rightarrow> bool" where
  "no_burn (ExpectBalanceBurn_op v) = False"
| "no_burn (Finalise_op d order) = False"
| "no_burn _ = True"

lemma exec_tracks_delta:
  assumes inv: "sdb_inv db s" and tr: "tracks_delta db c s" and e: "exec db x s = (Ret (), s')" and nb: "no_burn x"
  shows "tracks_delta db c s'"
proof -
  consider "x = Snapshot_op" | i where "x = RevertToSnapshot_op i"
    | "x \<noteq> Snapshot_op" "\<And>i. x \<noteq> RevertToSnapshot_op i" "\<And>d order. x \<noteq> Finalise_op d order" "\<And>v. x \<noteq> ExpectBalanceBurn_op v"
    using nb no_burn.simps(1,2) by blast
  then show ?thesis
  proof cases
    case 1
    then have s': "s' = snd (Snapshot s)" using e by simp
    have v: "view db s' = view db s" "entries s' = entries s" "unexpectedBalanceDelta s' = unexpectedBalanceDelta s"
      by (simp_all add: s' Snapshot_def Let_def)
    have rv: "rev_view db s' r = rev_view db s r" for r using v by (simp add: rev_view_def view_at_def)
    have "\<exists>w. rev_view db s' r = Some w \<and> rev_balanceDelta r - vtotal w = c" if r: "r \<in> set (validRevisions s')" for r
    proof -
      consider "r \<in> set (validRevisions s)"
        | "rev_journalIndex r = length (entries s)" "rev_balanceDelta r = unexpectedBalanceDelta s"
        using r by (auto simp: s' Snapshot_def Let_def journal_length_def)
      then show ?thesis
      proof cases
        case 1
        then show ?thesis using tr rv by (simp add: tracks_delta_def)
      next
        case 2
        then have "rev_view db s r = Some (view db s)"
          using view_at_now[of "undo db" "view db" entries s] by (simp add: rev_view_def)
        then show ?thesis using 2 tr rv by (simp add: tracks_delta_def drift_def)
      qed
    qed
    then show ?thesis using tr v by (simp add: tracks_delta_def drift_def)
  next
    case (2 i)
    then have run: "RevertToSnapshot db i s = (Ret (), s')" using e by simp
    then have "i \<in> rev_id ` set (validRevisions s)" using RevertToSnapshot_invalid[of i s db] by fastforce
    then obtain k where k: "k < length (validRevisions s)" "i = rev_id (validRevisions s ! k)" by (auto simp: in_set_conv_nth)
    define q where "q = validRevisions s ! k"
    have R: "rev_view db s q = Some (view db s')" "entries s' = take (rev_journalIndex q) (entries s)"
      "validRevisions s' = take k (validRevisions s)" "unexpectedBalanceDelta s' = rev_balanceDelta q"
      using RevertToSnapshot_restores[OF inv k(1)] run k(2) by (auto simp: q_def)
    have qin: "q \<in> set (validRevisions s)" using k by (simp add: q_def)
    have ro: "revisions_ok s" using inv by (simp add: sdb_inv_def)
    have "rev_view db s' r = rev_view db s r" if r: "r \<in> set (take k (validRevisions s))" for r
      unfolding rev_view_def
    proof (rule view_at_truncate[where m = "rev_journalIndex q"])
      obtain l where "l < k" "r = validRevisions s ! l" using r k by (auto simp: in_set_conv_nth)
      moreover have "sorted (map rev_journalIndex (validRevisions s))" using ro by (simp add: revisions_ok_def)
      ultimately show "rev_journalIndex r \<le> rev_journalIndex q"
        using k sorted_nth_mono[of "map rev_journalIndex (validRevisions s)" l k] by (simp add: q_def)
      show "rev_journalIndex q \<le> length (entries s)" using ro qin by (simp add: revisions_ok_def)
    qed (use R in \<open>simp_all add: rev_view_def\<close>)
    moreover have "drift db s' = c" using tr qin R by (auto simp: tracks_delta_def drift_def)
    ultimately show ?thesis using tr R(3) by (auto simp: tracks_delta_def dest: in_set_takeD)
  next
    case 3
    have j: "journaled db s s'"
      by (rule exec_journaled[OF sdb_inv_wf[OF inv] sdb_inv_view[OF inv] e 3(1-3)])
    have "drift db s' = drift db s" by (rule exec_drift[OF sdb_inv_wf[OF inv] sdb_inv_view[OF inv] e 3(2-4)])
    moreover have "validRevisions s' = validRevisions s" using j by (simp add: journaled_def)
    moreover have "rev_view db s' r = rev_view db s r" if "r \<in> set (validRevisions s)" for r
      using rev_view_journaled[OF j] that inv by (simp add: sdb_inv_def revisions_ok_def)
    ultimately show ?thesis using tr by (simp add: tracks_delta_def)
  qed
qed

lemma exec_ops_tracks_delta:
  assumes "sdb_inv db s" "tracks_delta db c s" "exec_ops db xs s = (Ret (), s')" "list_all no_burn xs"
  shows "tracks_delta db c s'"
  using assms by (induction xs arbitrary: s) (auto simp: bind_st_Ret dest: exec_inv exec_tracks_delta)



end
