(* ===== verification/State_Finalise.thy ===== *)
theory State_Finalise
  imports State_Balance "HOL-Library.Multiset"
begin

text \<open>
  The bookkeeping that leads from a transaction to the tries: the dirty counters of the journal, and
  \<open>Finalise\<close>, which removes self-destructed and empty accounts and turns dirty storage into pending storage.
\<close>

section \<open>The dirty counters\<close>

definition entry_count :: "'t journalEntry list \<Rightarrow> address \<Rightarrow> nat" where
  "entry_count es a = length (filter (\<lambda>e. dirtied e = Some a) es)"

text \<open>
  \<open>dirties\<close> counts the entries of each address. The RIPEMD precompile is the exception the source makes: touching
  it counts twice, and the second count survives a revert.
\<close>

definition counts :: "'t journalEntry list \<Rightarrow> 't journal \<Rightarrow> bool" where
  "counts es j \<longleftrightarrow> (\<forall>a. a \<noteq> ripemd \<longrightarrow>
     j_dirties j a = (if entry_count es a = 0 then None else Some (int (entry_count es a))))"

lemma entry_count_append [simp]: "entry_count (es @ fs) a = entry_count es a + entry_count fs a"
  by (simp add: entry_count_def)

lemma entry_count_single [simp]: "entry_count [e] a = (if dirtied e = Some a then 1 else 0)" "entry_count [] a = 0"
  by (simp_all add: entry_count_def)

lemma counts_append: "counts (j_entries j) j \<Longrightarrow> counts (j_entries (journal_append e j)) (journal_append e j)"
  by (auto simp: counts_def journal_append_def journal_dirty_def dirty_count_def Let_def split: option.split)

lemma counts_ripemd: "counts (j_entries j) j \<Longrightarrow> counts (j_entries (journal_dirty ripemd j)) (journal_dirty ripemd j)"
  by (auto simp: counts_def journal_dirty_def)

lemma counts_undirty: "counts (es @ [e]) j \<Longrightarrow> counts es (undirty e j)"
  by (auto simp: counts_def undirty_def dirty_count_def Let_def split: option.split)

abbreviation sdb_counts :: "'t StateDB \<Rightarrow> bool" where
  "sdb_counts s \<equiv> counts (entries s) (sdb_journal s)"

lemma counts_append_entry: "sdb_counts s \<Longrightarrow> sdb_counts (append_entry e s)"
  unfolding append_entry_def using counts_append by simp

lemma counts_journal: "sdb_journal s' = sdb_journal s \<Longrightarrow> sdb_counts s \<Longrightarrow> sdb_counts s'"
  by simp

lemma getDeletedStateObject_journal: "getDeletedStateObject db a s = (r, s') \<Longrightarrow> sdb_journal s' = sdb_journal s"
  by (auto simp: getDeletedStateObject_def split: option.splits sum.splits)

lemma counts_createObject:
  assumes "sdb_counts s" "createObject db a s = (r, s')"
  shows "sdb_counts s'"
proof -
  obtain p s1 where g: "getDeletedStateObject db a s = (p, s1)" by fastforce
  have "sdb_counts s1" using assms(1) getDeletedStateObject_journal[OF g] by simp
  then have 1: "sdb_counts (append_entry e (s1\<lparr>stateObjectsDestruct := D\<rparr>))" "sdb_counts (append_entry e s1)" for e D
    using counts_append_entry[of "s1\<lparr>stateObjectsDestruct := D\<rparr>" e] counts_append_entry[of s1 e] by simp_all
  show ?thesis using assms(2) g 1 by (cases p) (auto simp: createObject_def Let_def split: if_splits)
qed

lemma counts_GetOrNew:
  assumes "sdb_counts s" "GetOrNewStateObject db a s = (o1, s')"
  shows "sdb_counts s'"
proof -
  obtain r s1 where g: "getStateObject db a s = (r, s1)" by fastforce
  have 1: "sdb_counts s1" using assms(1) getStateObject_fields(1)[OF g] by simp
  show ?thesis
  proof (cases r)
    case None
    obtain n p where "createObject db a s1 = ((n, p), s')"
      using assms(2) g None by (auto simp: GetOrNewStateObject_def split: prod.splits)
    then show ?thesis using counts_createObject[OF 1] by blast
  qed (use assms(2) g 1 in \<open>simp add: GetOrNewStateObject_def\<close>)
qed

lemma so_read_journal:
  "so_GetState db o1 k s = (v, o2, s') \<Longrightarrow> sdb_journal s' = sdb_journal s"
  "so_GetCommittedState db o1 k s = (v, o2, s') \<Longrightarrow> sdb_journal s' = sdb_journal s"
  "so_Code db o1 s = (c, o2, s') \<Longrightarrow> sdb_journal s' = sdb_journal s"
  by (auto simp: so_GetState_def so_GetCommittedState_def so_Code_def split: prod.splits)

text \<open>The methods of live objects append at most one entry and the extra count of RIPEMD.\<close>

lemma counts_methods:
  assumes "sdb_counts s"
  shows "sdb_counts (so_SetBalance o1 v s)" "sdb_counts (so_SetNonce o1 n s)" "sdb_counts (so_SetState db o1 k w s)"
    "sdb_counts (so_SetCode db o1 h c s)" "sdb_counts (so_AddBalance db o1 v s)" "sdb_counts (so_SubBalance o1 v s)"
proof -
  have setObj: "sdb_counts (setStateObject o2 (append_entry e s1))" if "sdb_journal s1 = sdb_journal s" for o2 e s1
    using counts_append_entry[OF counts_journal[OF that assms], of e] by simp
  show 1: "sdb_counts (so_SetBalance o1 v s)" for v using setObj by (simp add: so_SetBalance_def)
  show "sdb_counts (so_SetNonce o1 n s)" using setObj by (simp add: so_SetNonce_def)
  show "sdb_counts (so_SetState db o1 k w s)"
    using assms so_read_journal(1)[of db o1 k s] setObj by (auto simp: so_SetState_def Let_def split: prod.split)
  show "sdb_counts (so_SetCode db o1 h c s)"
    using so_read_journal(3)[of db o1 s] setObj by (auto simp: so_SetCode_def Let_def split: prod.split)
  have "sdb_counts (so_touch o1 s)"
    using counts_append_entry[OF assms, of "touchChange (so_address o1)"] counts_ripemd[of "sdb_journal (append_entry (touchChange ripemd) s)"]
    by (cases "so_address o1 = ripemd") (simp_all add: so_touch_def Let_def)
  then show "sdb_counts (so_AddBalance db o1 v s)" "sdb_counts (so_SubBalance o1 v s)"
    using assms 1 by (simp_all add: so_AddBalance_def so_SubBalance_def)
qed

lemma counts_GetOrNew_then:
  assumes "sdb_counts s" "\<And>o1 s. sdb_counts s \<Longrightarrow> sdb_counts (f o1 s)"
  shows "sdb_counts (let (o1, s) = GetOrNewStateObject db a s in f o1 s)"
  using counts_GetOrNew[OF assms(1)] assms(2) by (auto split: prod.split)

lemma counts_revert_all:
  assumes "revert_all (revert_one db) (rev es) s = (Ret (), s')" "counts (fs @ es) (sdb_journal s)"
  shows "counts fs (sdb_journal s')"
  using assms
proof (induction es arbitrary: s rule: rev_induct)
  case Nil
  then show ?case by simp
next
  case (snoc e es)
  obtain r s1 where e: "entry_revert db e s = (r, s1)" by fastforce
  have r: "r = Ret ()" using snoc.prems(1) e by (cases r) (simp_all add: revert_one_def bind_st_def)
  define s2 where "s2 = s1\<lparr>sdb_journal := undirty e (sdb_journal s1)\<rparr>"
  have one: "revert_one db e s = (Ret (), s2)" using e r by (simp add: revert_one_def s2_def)
  have "revert_all (revert_one db) (rev es) s2 = (Ret (), s')" using snoc.prems(1) one by simp
  moreover have "counts (fs @ es) (sdb_journal s2)"
    using counts_undirty[of "fs @ es" e] snoc.prems(2) entry_revert_fields(1)[OF e] by (simp add: s2_def)
  ultimately show ?case by (rule snoc.IH)
qed

lemma counts_revert:
  assumes "sdb_counts s" "RevertToSnapshot db i s = (Ret (), s')"
  shows "sdb_counts s'"
proof -
  define n where "n = rev_journalIndex (validRevisions s ! sort_Search (length (validRevisions s)) (\<lambda>k. rev_id (validRevisions s ! k) \<ge> i))"
  obtain b s1 where jr: "journal_revert db n (s\<lparr>unexpectedBalanceDelta := b\<rparr>) = (Ret (), s1)" "sdb_journal s' = sdb_journal s1"
    using assms(2) unfolding RevertToSnapshot_def Let_def n_def[symmetric]
    by (auto simp: bind_st_Ret split: if_splits)
  obtain s2 where s2: "revert_all (revert_one db) (rev (drop n (entries s))) (s\<lparr>unexpectedBalanceDelta := b\<rparr>) = (Ret (), s2)"
    and s1: "n \<le> length (entries s2)" "sdb_journal s1 = (sdb_journal s2)\<lparr>j_entries := take n (entries s2)\<rparr>"
    using jr(1) by (auto simp: journal_revert_def bind_st_Ret revert_entries_all slice_def split: outcome.splits if_splits)
  have "entries s2 = entries s" using revert_all_fields[OF s2] by simp
  moreover have "counts (take n (entries s)) (sdb_journal s2)"
    by (rule counts_revert_all[OF s2]) (use assms(1) in simp)
  ultimately show ?thesis unfolding jr(2) s1(2) by (simp add: counts_def)
qed

lemma counts_Suicide: "sdb_counts s \<Longrightarrow> sdb_counts (snd (Suicide db a s))"
proof -
  assume c: "sdb_counts s"
  obtain r s1 where g: "getStateObject db a s = (r, s1)" by fastforce
  have "sdb_counts s1" using c getStateObject_fields(1)[OF g] by simp
  then show ?thesis using g counts_append_entry[of s1]
    by (cases r) (simp_all add: Suicide_def Let_def)
qed

lemma counts_query:
  "sdb_journal (snd (sdb_Exist db a s)) = sdb_journal s" "sdb_journal (snd (sdb_Empty db a s)) = sdb_journal s"
  "sdb_journal (snd (GetBalance db a s)) = sdb_journal s" "sdb_journal (snd (GetNonce db a s)) = sdb_journal s"
  "sdb_journal (snd (GetCode db a s)) = sdb_journal s" "sdb_journal (snd (GetCodeSize db a s)) = sdb_journal s"
  "sdb_journal (snd (GetCodeHash db a s)) = sdb_journal s" "sdb_journal (snd (GetState db a k s)) = sdb_journal s"
  "sdb_journal (snd (GetCommittedState db a k s)) = sdb_journal s" "sdb_journal (snd (HasSuicided db a s)) = sdb_journal s"
proof -
  obtain r s1 where g: "getStateObject db a s = (r, s1)" by fastforce
  note j = getStateObject_fields(1)[OF g]
  show "sdb_journal (snd (sdb_Exist db a s)) = sdb_journal s" "sdb_journal (snd (sdb_Empty db a s)) = sdb_journal s"
    "sdb_journal (snd (GetBalance db a s)) = sdb_journal s" "sdb_journal (snd (GetNonce db a s)) = sdb_journal s"
    "sdb_journal (snd (GetCodeSize db a s)) = sdb_journal s"
    "sdb_journal (snd (GetCodeHash db a s)) = sdb_journal s" "sdb_journal (snd (HasSuicided db a s)) = sdb_journal s"
    using g j by (cases r; simp add: sdb_Exist_def sdb_Empty_def GetBalance_def GetNonce_def GetCodeSize_def
        GetCodeHash_def HasSuicided_def split: prod.split)+
  show "sdb_journal (snd (GetCode db a s)) = sdb_journal s" "sdb_journal (snd (GetState db a k s)) = sdb_journal s"
    "sdb_journal (snd (GetCommittedState db a k s)) = sdb_journal s"
    using g j so_read_journal(1)[of db _ _ s1] so_read_journal(2)[of db _ _ s1] so_read_journal(3)[of db _ s1]
    by (cases r; force simp: GetCode_def GetState_def GetCommittedState_def split: prod.split)+
qed

lemma counts_Finalise:
  assumes "sdb_counts s"
  shows "sdb_counts (Finalise db d order s)"
proof -
  have "sdb_journal (Finalise_one db d a s) = sdb_journal s" for a s
    by (simp add: Finalise_one_def Let_def split: option.split)
  then have "sdb_journal (fold (Finalise_one db d) order s) = sdb_journal s"
    by (induction order arbitrary: s) simp_all
  then show ?thesis using assms
    by (simp add: Finalise_def clearJournalAndRefund_def Let_def newJournal_def) (simp add: counts_def)
qed

lemma exec_counts:
  assumes c: "sdb_counts s" and e: "exec db x s = (Ret (), s')"
  shows "sdb_counts s'"
proof (cases x)
  case (AddBalance_op a v)
  have "sdb_counts (AddBalance db a v s)"
    unfolding AddBalance_def by (rule counts_GetOrNew_then[OF c]) (simp add: counts_methods(5))
  then show ?thesis using e AddBalance_op by simp
next
  case (SubBalance_op a v)
  have "sdb_counts (SubBalance db a v s)"
    unfolding SubBalance_def by (rule counts_GetOrNew_then[OF c]) (simp add: counts_methods(6))
  then show ?thesis using e SubBalance_op by simp
next
  case (SetBalance_op a v)
  have "sdb_counts (let (o1, s) = GetOrNewStateObject db a s in
      so_SetBalance o1 (case v of None \<Rightarrow> 0 | Some v \<Rightarrow> v) (add_delta (- so_Balance o1) (add_delta (case v of None \<Rightarrow> 0 | Some v \<Rightarrow> v) s)))"
    by (rule counts_GetOrNew_then[OF c]) (simp add: counts_methods(1))
  then show ?thesis using e SetBalance_op by (simp add: SetBalance_def Let_def)
next
  case (SetNonce_op a n)
  have "sdb_counts (sdb_SetNonce db a n s)"
    unfolding sdb_SetNonce_def by (rule counts_GetOrNew_then[OF c]) (rule counts_methods(2))
  then show ?thesis using e SetNonce_op by simp
next
  case (SetCode_op a code)
  have "sdb_counts (sdb_SetCode db a code s)"
    unfolding sdb_SetCode_def by (rule counts_GetOrNew_then[OF c]) (rule counts_methods(4))
  then show ?thesis using e SetCode_op by simp
next
  case (SetState_op a k v)
  have "sdb_counts (sdb_SetState db a k v s)"
    unfolding sdb_SetState_def by (rule counts_GetOrNew_then[OF c]) (rule counts_methods(3))
  then show ?thesis using e SetState_op by simp
next
  case (CreateAccount_op a)
  have "sdb_counts (CreateAccount db a s)"
    using counts_createObject[OF c, of db a] by (auto simp: CreateAccount_def split: prod.split option.split)
  then show ?thesis using e CreateAccount_op by simp
next
  case (RevertToSnapshot_op i)
  then show ?thesis using e counts_revert[OF c] by simp
next
  case (AddSlot_op a k)
  then obtain am sm al where "AddSlot a k (sdb_accessList s) = Ret ((am, sm), al)"
    using e by (auto simp: AddSlotToAccessList_def split: outcome.splits)
  then have s': "s' = (if sm then append_entry (accessListAddSlotChange a k) else (\<lambda>s. s))
      ((if am then append_entry (accessListAddAccountChange a) else (\<lambda>s. s)) (s\<lparr>sdb_accessList := al\<rparr>))"
    using e AddSlot_op by (auto simp: AddSlotToAccessList_def Let_def)
  have "sdb_counts ((if b then append_entry en else (\<lambda>s. s)) s1)" if "sdb_counts s1" for b en s1
    using that counts_append_entry[of s1 en] by (cases b) simp_all
  from this[OF this, of "s\<lparr>sdb_accessList := al\<rparr>"] show ?thesis unfolding s' using c by simp
qed (use e c counts_Suicide[OF c] counts_query[of db] counts_Finalise[OF c] counts_append_entry[OF c] in
    \<open>auto simp: ExpectBalanceBurn_def SubRefund_def AddLog_def AddPreimage_def AddRefund_def SetTransientState_def
      AddAddressToAccessList_def SetTxContext_def setTransientState_def Snapshot_def Let_def append_entry_def split: if_splits prod.splits\<close>)

lemma exec_ops_counts:
  assumes "sdb_counts s" "exec_ops db xs s = (Ret (), s')"
  shows "sdb_counts s'"
  using assms by (induction xs arbitrary: s) (auto simp: bind_st_Ret dest: exec_counts)

text \<open>C27. The dirty counters: in every state reached from a new state database, through any operations, nested
  reverts included, \<open>journal.dirties\<close> holds exactly the addresses that the journal's entries dirty, each with
  the number of its entries. Only the RIPEMD precompile may be counted more often, on purpose.\<close>

theorem dirties_exact:
  assumes "StateDB_New root db snaps = Inr init" "exec_ops db ops init = (Ret (), s)" "a \<noteq> ripemd"
  shows "j_dirties (sdb_journal s) a =
    (let n = length (filter (\<lambda>e. dirtied e = Some a) (j_entries (sdb_journal s))) in
     if n = 0 then None else Some (int n))"
proof -
  have "sdb_counts init" using assms(1) by (auto simp: StateDB_New_def counts_def newJournal_def split: sum.splits)
  then have "sdb_counts s" by (rule exec_ops_counts[OF _ assms(2)])
  then show ?thesis using assms(3) by (simp add: counts_def entry_count_def Let_def)
qed

theorem dirties_exact_witness:
  "\<exists>s. exec_ops empty_db [AddBalance_op 1 5] empty_state = (Ret (), s) \<and> j_dirties (sdb_journal s) 1 = Some 2"
proof -
  have "\<exists>s. exec_ops empty_db [AddBalance_op 1 5] empty_state = (Ret (), s) \<and>
      j_entries (sdb_journal s) = [createObjectChange 1, balanceChange 1 0]"
    by (simp add: empty_state_def StateDB_New_def empty_db_def sdb_eval)
  then obtain s where s: "exec_ops empty_db [AddBalance_op 1 5] empty_state = (Ret (), s)"
    "j_entries (sdb_journal s) = [createObjectChange 1, balanceChange 1 0]" by blast
  then have "j_dirties (sdb_journal s) 1 = Some 2"
    using dirties_exact[OF empty_db_ok(2) s(1), of 1] by (simp add: ripemd_def Let_def)
  then show ?thesis using s(1) by blast
qed

section \<open>Finalise\<close>

text \<open>The fate of one object.\<close>

definition doomed :: "'t Database \<Rightarrow> bool \<Rightarrow> 't stateObject \<Rightarrow> bool" where
  "doomed db d o1 = (suicided o1 \<or> (d \<and> so_empty db o1))"

definition fate :: "'t Database \<Rightarrow> bool \<Rightarrow> 't stateObject \<Rightarrow> 't stateObject" where
  "fate db d o1 = (if doomed db d o1 then o1\<lparr>deleted := True\<rparr> else obj_finalise o1)"

definition killed :: "'t Database \<Rightarrow> bool \<Rightarrow> 't stateObject option \<Rightarrow> 't stateObject set" where
  "killed db d x = {o1. x = Some o1 \<and> doomed db d o1}"

lemma killed_simps: "killed db d None = {}" "killed db d (Some o1) = (if doomed db d o1 then {o1} else {})"
  by (auto simp: killed_def)

lemma map_del_restrict: "m(k := None) = m |` (- {k})"
  by (auto simp: restrict_map_def fun_eq_iff)

lemma restrict_map_UNIV [simp]: "m |` UNIV = m"
  by (simp add: restrict_map_def)

lemma Finalise_one_eq:
  "Finalise_one db d a s =
     s\<lparr>stateObjects := (stateObjects s)(a := map_option (fate db d) (stateObjects s a)),
       stateObjectsDestruct := stateObjectsDestruct s \<union> so_address ` killed db d (stateObjects s a),
       snapAccounts := snapAccounts s |` (- {h. snap s \<noteq> None \<and> h \<in> so_addrHash ` killed db d (stateObjects s a)}),
       snapStorage := snapStorage s |` (- {h. snap s \<noteq> None \<and> h \<in> so_addrHash ` killed db d (stateObjects s a)}),
       stateObjectsPending := stateObjectsPending s \<union> {x. x = a \<and> stateObjects s a \<noteq> None},
       stateObjectsDirty := stateObjectsDirty s \<union> {x. x = a \<and> stateObjects s a \<noteq> None}\<rparr>"
proof (cases "stateObjects s a")
  case None
  then show ?thesis by (simp add: Finalise_one_def killed_simps fun_upd_idem)
next
  case (Some o1)
  show ?thesis
  proof (cases "suicided o1 \<or> d \<and> so_empty db o1")
    case True
    then have "doomed db d o1" by (simp add: doomed_def)
    then show ?thesis using Some True
      by (cases "snap s") (simp_all add: Finalise_one_def killed_simps fate_def map_del_restrict)
  next
    case False
    then have "\<not> doomed db d o1" by (simp add: doomed_def)
    then show ?thesis using Some False by (auto simp: Finalise_one_def killed_simps fate_def)
  qed
qed

text \<open>The iteration order of Go's map does not matter.\<close>

lemma Finalise_one_commute: "Finalise_one db d a \<circ> Finalise_one db d b = Finalise_one db d b \<circ> Finalise_one db d a"
proof (rule ext, cases "a = b")
  fix s
  assume "a \<noteq> b"
  then show "(Finalise_one db d a \<circ> Finalise_one db d b) s = (Finalise_one db d b \<circ> Finalise_one db d a) s"
    by (simp add: Finalise_one_eq fun_upd_twist Un_ac Int_ac)
qed simp

text \<open>C28. \<open>Finalise\<close> is deterministic: it ranges over a Go map, and every iteration order gives the same state.\<close>

theorem Finalise_order:
  assumes "distinct order" "distinct order'" "set order = set order'"
  shows "Finalise db d order s = Finalise db d order' s"
proof -
  have "mset order = mset order'" using assms by (simp add: set_eq_iff_mset_eq_distinct)
  then have "fold (Finalise_one db d) order = fold (Finalise_one db d) order'"
    by (intro fold_multiset_equiv Finalise_one_commute)
  then show ?thesis by (simp add: Finalise_def)
qed

theorem Finalise_order_witness:
  "let s = AddBalance empty_db 2 0 (AddBalance empty_db 1 5 empty_state) in
     Finalise empty_db True [1, 2] s = Finalise empty_db True [2, 1] s"
  unfolding Let_def by (rule Finalise_order) auto

lemma Finalise_one_fields:
  "stateObjects (Finalise_one db d a s) = (stateObjects s)(a := map_option (fate db d) (stateObjects s a))"
  "snap (Finalise_one db d a s) = snap s" "sdb_trie (Finalise_one db d a s) = sdb_trie s"
  "originalRoot (Finalise_one db d a s) = originalRoot s"
  "stateObjectsDestruct (Finalise_one db d a s) = stateObjectsDestruct s \<union>
     (case stateObjects s a of Some o1 \<Rightarrow> if doomed db d o1 then {so_address o1} else {} | None \<Rightarrow> {})"
  by (auto simp: Finalise_one_eq killed_def split: option.split)

lemma fold_Finalise:
  fixes db :: "'t Database" and s :: "'t StateDB" and d :: bool
  assumes "distinct order" "sdb_wf s"
  defines "s' \<equiv> fold (Finalise_one db d) order s"
  shows "stateObjects s' a = (if a \<in> set order then map_option (fate db d) (stateObjects s a) else stateObjects s a)"
    "snap s' = snap s" "sdb_trie s' = sdb_trie s" "originalRoot s' = originalRoot s"
    "a \<in> stateObjectsDestruct s' \<longleftrightarrow> a \<in> stateObjectsDestruct s \<or>
       (a \<in> set order \<and> (\<exists>o1. stateObjects s a = Some o1 \<and> doomed db d o1))"
proof -
  have fa: "so_address (fate db d o1) = so_address o1" for o1 by (simp add: fate_def obj_finalise_def)
  have "(stateObjects s' a = (if a \<in> set order then map_option (fate db d) (stateObjects s a) else stateObjects s a)) \<and>
    snap s' = snap s \<and> sdb_trie s' = sdb_trie s \<and> originalRoot s' = originalRoot s \<and>
    (a \<in> stateObjectsDestruct s' \<longleftrightarrow> a \<in> stateObjectsDestruct s \<or>
       (a \<in> set order \<and> (\<exists>o1. stateObjects s a = Some o1 \<and> doomed db d o1)))"
    using assms(1,2) unfolding s'_def
  proof (induction order arbitrary: s)
    case (Cons b order)
    let ?s = "Finalise_one db d b s"
    have addr: "\<And>o1. stateObjects s b = Some o1 \<Longrightarrow> so_address o1 = b" using sdb_wf_address[OF Cons.prems(2)] .
    have "sdb_wf ?s"
      using Cons.prems(2) addr by (auto simp: sdb_wf_def Finalise_one_def Let_def obj_finalise_def split: option.split)
    note IH = Cons.IH[OF _ this]
    show ?case using IH Cons.prems(1) addr by (auto simp: Finalise_one_fields split: option.splits if_splits)
  qed simp
  then show "stateObjects s' a = (if a \<in> set order then map_option (fate db d) (stateObjects s a) else stateObjects s a)"
    "snap s' = snap s" "sdb_trie s' = sdb_trie s" "originalRoot s' = originalRoot s"
    "a \<in> stateObjectsDestruct s' \<longleftrightarrow> a \<in> stateObjectsDestruct s \<or>
       (a \<in> set order \<and> (\<exists>o1. stateObjects s a = Some o1 \<and> doomed db d o1))" by simp_all
qed

lemma obj_view_finalise:
  "obj_view db sn r dd (obj_finalise o1) = (obj_view db sn r dd o1)\<lparr>ov_committed := ov_state (obj_view db sn r dd o1)\<rparr>"
proof -
  have 1: "slot_value db sn r dd (obj_finalise o1) k = slot_value db sn r dd o1 k" for k
    unfolding slot_value_def
    by (subst read_slot_cong[of db r _ o1]; auto simp: obj_finalise_def getTrie_def split: option.split sum.split)
  show ?thesis
    unfolding obj_view_def state_value committed_value 1 obj_Code_value
    by (auto simp: obj_finalise_def fun_eq_iff map_add_def split: option.split)
qed

lemma Finalise_view:
  fixes db :: "'t Database" and s :: "'t StateDB" and d :: bool
  assumes "distinct order" "sdb_wf s"
  defines "s' \<equiv> Finalise db d order s"
  shows "live_view (view db s') a =
    (if a \<in> set order \<and> stateObjects s a \<noteq> None then
       (if doomed db d (the (stateObjects s a)) then None
        else map_option (\<lambda>ov. ov\<lparr>ov_committed := ov_state ov\<rparr>) (live_view (view db s) a))
     else live_view (view db s) a)"
proof -
  define s1 where "s1 = fold (Finalise_one db d) order s"
  note F = fold_Finalise[OF assms(1,2), where db = db and d = d, folded s1_def]
  have c: "stateObjects s' = stateObjects s1" "snap s' = snap s1" "sdb_trie s' = sdb_trie s1"
    "originalRoot s' = originalRoot s1" "stateObjectsDestruct s' = stateObjectsDestruct s1"
    by (simp_all add: s'_def Finalise_def s1_def clearJournalAndRefund_def Let_def)
  have ov: "objs_view db s' = objs_view db s1" by (rule objs_view_cong[OF c])
  show ?thesis
  proof (cases "a \<in> set order \<and> stateObjects s a \<noteq> None")
    case True
    then obtain o1 where o1: "stateObjects s a = Some o1" "a \<in> set order" by blast
    show ?thesis
    proof (cases "doomed db d o1")
      case True
      then show ?thesis
        using o1 F(1)[of a] by (simp add: live_view_def ov objs_view_def lookup_obj_def fate_def)
    next
      case False
      then have "a \<in> stateObjectsDestruct s1 \<longleftrightarrow> a \<in> stateObjectsDestruct s" using F(5)[of a] o1 by auto
      then show ?thesis
        using o1 False F(1)[of a] F(2-4)
        by (simp add: live_view_def ov objs_view_def lookup_obj_def fate_def obj_view_finalise)
    qed
  next
    case False
    then have "a \<in> stateObjectsDestruct s1 \<longleftrightarrow> a \<in> stateObjectsDestruct s" using F(5)[of a] by auto
    moreover have "stateObjects s1 a = stateObjects s a" using False F(1)[of a] by auto
    ultimately have "objs_view db s' a = objs_view db s a"
      using F(2-4) by (simp add: ov objs_view_def lookup_obj_def split: option.split)
    then show ?thesis using False by (auto simp: live_view_def)
  qed
qed

lemma Finalise_live:
  fixes db :: "'t Database" and s :: "'t StateDB" and d :: bool
  assumes inv: "sdb_inv db s" and "distinct order"
  defines "s' \<equiv> Finalise db d order s"
    and "gone \<equiv> (\<lambda>a. a \<in> set order \<and> (\<exists>o1. stateObjects s a = Some o1 \<and> (suicided o1 \<or> (d \<and> so_empty db o1))))"
  shows "fst (sdb_Exist db a s') = (fst (sdb_Exist db a s) \<and> \<not> gone a)"
    "\<not> gone a \<Longrightarrow> fst (GetBalance db a s') = fst (GetBalance db a s) \<and> fst (GetNonce db a s') = fst (GetNonce db a s) \<and>
       fst (GetCode db a s') = fst (GetCode db a s) \<and> fst (GetState db a k s') = fst (GetState db a k s)"
    "\<not> gone a \<Longrightarrow> a \<in> set order \<Longrightarrow> stateObjects s a \<noteq> None \<Longrightarrow>
       fst (GetCommittedState db a k s') = fst (GetState db a k s)"
proof -
  have wf: "sdb_wf s" and wf': "sdb_wf s'" using sdb_inv_wf[OF inv] sdb_inv_wf[OF Finalise_inv[OF inv]] by (simp_all add: s'_def)
  note V = Finalise_view[OF assms(2) wf, where db = db and d = d and a = a, folded s'_def]
  have g: "gone a \<longleftrightarrow> a \<in> set order \<and> stateObjects s a \<noteq> None \<and> doomed db d (the (stateObjects s a))"
    by (auto simp: gone_def doomed_def)
  show "fst (sdb_Exist db a s') = (fst (sdb_Exist db a s) \<and> \<not> gone a)"
    unfolding query_values[OF wf] query_values[OF wf'] V g by auto
  show "fst (GetBalance db a s') = fst (GetBalance db a s) \<and> fst (GetNonce db a s') = fst (GetNonce db a s) \<and>
       fst (GetCode db a s') = fst (GetCode db a s) \<and> fst (GetState db a k s') = fst (GetState db a k s)" if "\<not> gone a"
    unfolding query_values[OF wf] query_values[OF wf'] V using that g by (auto split: option.split)
  show "fst (GetCommittedState db a k s') = fst (GetState db a k s)" if "\<not> gone a" "a \<in> set order" "stateObjects s a \<noteq> None"
    unfolding query_values[OF wf] query_values[OF wf'] V using that g by (auto split: option.split)
qed

text \<open>C10. The end of a transaction: \<open>Finalise\<close> deletes exactly the dirty accounts that self-destructed or, when asked
  to, that are empty. Every other account keeps its balance, nonce, code and storage, and the storage
  of a dirty account becomes its committed storage; the snapshots of the transaction become invalid.\<close>

theorem Finalise_correct:
  assumes "db_ok db snaps" "StateDB_New root db snaps = Inr init" "exec_ops db ops init = (Ret (), s)"
    and "distinct order" "set order = dom (j_dirties (sdb_journal s))"
    and gone: "gone \<longleftrightarrow> a \<in> dom (j_dirties (sdb_journal s)) \<and>
      (\<exists>o1. stateObjects s a = Some o1 \<and> (suicided o1 \<or> (d \<and> so_empty db o1)))"
  shows "fst (sdb_Exist db a (Finalise db d order s)) = (fst (sdb_Exist db a s) \<and> \<not> gone) \<and>
    (\<not> gone \<longrightarrow>
       fst (GetBalance db a (Finalise db d order s)) = fst (GetBalance db a s) \<and>
       fst (GetNonce db a (Finalise db d order s)) = fst (GetNonce db a s) \<and>
       fst (GetCode db a (Finalise db d order s)) = fst (GetCode db a s) \<and>
       fst (GetState db a k (Finalise db d order s)) = fst (GetState db a k s) \<and>
       (a \<in> dom (j_dirties (sdb_journal s)) \<and> stateObjects s a \<noteq> None \<longrightarrow>
          fst (GetCommittedState db a k (Finalise db d order s)) = fst (GetState db a k s))) \<and>
    validRevisions (Finalise db d order s) = [] \<and> j_entries (sdb_journal (Finalise db d order s)) = []"
proof -
  have inv: "sdb_inv db s" by (rule exec_ops_inv[OF StateDB_New_inv[OF assms(1,2)] assms(3)])
  note L = Finalise_live[OF inv assms(4), where d = d, unfolded assms(5)]
  have "validRevisions (Finalise db d order s) = []" "j_entries (sdb_journal (Finalise db d order s)) = []"
    by (simp_all add: Finalise_def clearJournalAndRefund_def Let_def newJournal_def)
  then show ?thesis using L(1)[of a] L(2)[of a k] L(3)[of a k] gone by blast
qed

theorem Finalise_correct_witness:
  "\<exists>s. exec_ops empty_db [AddBalance_op 1 5] empty_state = (Ret (), s) \<and>
     fst (GetBalance empty_db 1 (Finalise empty_db True [1] s)) = 5"
proof -
  have "\<exists>s. exec_ops empty_db [AddBalance_op 1 5] empty_state = (Ret (), s) \<and>
      dom (j_dirties (sdb_journal s)) = {1} \<and> fst (GetBalance empty_db 1 s) = 5 \<and>
      (\<exists>o1. stateObjects s 1 = Some o1 \<and> \<not> suicided o1 \<and> so_Balance o1 = 5)"
    by (simp add: empty_state_def StateDB_New_def empty_db_def sdb_eval GetBalance_def)
  then obtain s o1 where s: "exec_ops empty_db [AddBalance_op 1 5] empty_state = (Ret (), s)"
    "dom (j_dirties (sdb_journal s)) = {1}" "fst (GetBalance empty_db 1 s) = 5"
    "stateObjects s 1 = Some o1" "\<not> suicided o1" "so_Balance o1 = 5" by blast
  have "fst (GetBalance empty_db 1 (Finalise empty_db True [1] s)) = 5"
    using Finalise_correct[OF empty_db_ok s(1), of "[1]" False 1 True 0] s by (simp add: so_empty_def)
  then show ?thesis using s(1) by blast
qed

section \<open>The start of a transaction\<close>

text \<open>What an access list denotes, kept as a triple through a sequence of additions.\<close>

definition warm :: "accessList \<Rightarrow> address set \<Rightarrow> (address \<times> hash) set \<Rightarrow> bool" where
  "warm al A S \<longleftrightarrow> al_ok al \<and> warm_addrs al = A \<and> warm_slots al = S"

lemma warm_AddAddress: "warm al A S \<Longrightarrow> warm (snd (AddAddress a al)) (insert a A) S"
  using AddAddress_correct[of al a] by (cases "AddAddress a al") (simp add: warm_def)

lemma warm_AddAddresses: "warm al A S \<Longrightarrow> warm (fold (\<lambda>a al. snd (AddAddress a al)) xs al) (set xs \<union> A) S"
proof (induction xs arbitrary: al A)
  case (Cons x xs)
  from Cons.IH[OF warm_AddAddress[OF Cons.prems, of x]] show ?case by simp
qed simp

lemma warm_AddSlot:
  "warm al A S \<Longrightarrow> \<exists>c al'. AddSlot a k al = Ret (c, al') \<and> warm al' (insert a A) (insert (a, k) S)"
  using AddSlot_correct[of al a k] by (auto simp: warm_def)

lemma warm_AddSlots:
  "warm al A S \<Longrightarrow> a \<in> A \<Longrightarrow>
   \<exists>al'. fold (\<lambda>key r. bind_outcome r (\<lambda>al. bind_outcome (AddSlot a key al) (\<lambda>(c, al'). Ret al'))) ks (Ret al) = Ret al' \<and>
     warm al' A ((\<lambda>k. (a, k)) ` set ks \<union> S)"
proof (induction ks arbitrary: al S)
  case (Cons k ks)
  obtain c al1 where 1: "AddSlot a k al = Ret (c, al1)" "warm al1 A (insert (a, k) S)"
    using warm_AddSlot[OF Cons.prems(1), of a k] Cons.prems(2) by (auto simp: insert_absorb)
  from Cons.IH[OF 1(2) Cons.prems(2)] show ?case using 1(1) by simp
qed simp

lemma warm_list:
  "warm al A S \<Longrightarrow>
   \<exists>al'. fold (\<lambda>el r. bind_outcome r (\<lambda>al. fold (\<lambda>key r. bind_outcome r (\<lambda>al.
            bind_outcome (AddSlot (fst el) key al) (\<lambda>(c, al'). Ret al'))) (snd el) (Ret (snd (AddAddress (fst el) al)))))
         ls (Ret al) = Ret al' \<and>
     warm al' (fst ` set ls \<union> A) ({(a, k). \<exists>ks. (a, ks) \<in> set ls \<and> k \<in> set ks} \<union> S)"
proof (induction ls arbitrary: al A S)
  case (Cons el ls)
  obtain a ks where el: "el = (a, ks)" by fastforce
  obtain al1 where 1: "fold (\<lambda>key r. bind_outcome r (\<lambda>al. bind_outcome (AddSlot a key al) (\<lambda>(c, al'). Ret al'))) ks
      (Ret (snd (AddAddress a al))) = Ret al1" "warm al1 (insert a A) ((\<lambda>k. (a, k)) ` set ks \<union> S)"
    using warm_AddSlots[OF warm_AddAddress[OF Cons.prems, of a], of a ks] by auto
  obtain al2 where 2: "fold (\<lambda>el r. bind_outcome r (\<lambda>al. fold (\<lambda>key r. bind_outcome r (\<lambda>al.
            bind_outcome (AddSlot (fst el) key al) (\<lambda>(c, al'). Ret al'))) (snd el) (Ret (snd (AddAddress (fst el) al)))))
         ls (Ret al1) = Ret al2"
    "warm al2 (fst ` set ls \<union> insert a A) ({(a, k). \<exists>ks. (a, ks) \<in> set ls \<and> k \<in> set ks} \<union> ((\<lambda>k. (a, k)) ` set ks \<union> S))"
    using Cons.IH[OF 1(2)] by blast
  have "fst ` set (el # ls) \<union> A = fst ` set ls \<union> insert a A" by (auto simp: el)
  moreover have "{(a, k). \<exists>ks. (a, ks) \<in> set (el # ls) \<and> k \<in> set ks} \<union> S =
      {(a, k). \<exists>ks. (a, ks) \<in> set ls \<and> k \<in> set ks} \<union> ((\<lambda>k. (a, k)) ` set ks \<union> S)" by (auto simp: el)
  ultimately show ?case using 1(1) 2 by (simp add: el)
qed simp

text \<open>C29. The access list at the start of a transaction: under the Berlin rules \<open>Prepare\<close> never panics and leaves
  an access list that holds exactly the sender, the recipient, the precompiles, the entries of the
  transaction's list and, from Shanghai on, the coinbase; the warm slots are those of the transaction's
  list. Leftovers of earlier transactions are gone, from the transient storage too.\<close>

theorem Prepare_correct:
  "\<exists>s'. Prepare True sh sender coinbase dst pre ls s = (Ret (), s') \<and>
     (\<forall>a. AddressInAccessList a s' \<longleftrightarrow>
        a = sender \<or> dst = Some a \<or> a \<in> set pre \<or> a \<in> fst ` set ls \<or> (sh \<and> a = coinbase)) \<and>
     (\<forall>a k. SlotInAccessList a k s' =
        Ret (AddressInAccessList a s', \<exists>ks. (a, ks) \<in> set ls \<and> k \<in> set ks)) \<and>
     (\<forall>a k. GetTransientState a k s' = 0)"
proof -
  let ?add = "\<lambda>a al. snd (AddAddress a al)"
  define al0 where "al0 = fold ?add pre (case dst of None \<Rightarrow> ?add sender newAccessList | Some d \<Rightarrow> ?add d (?add sender newAccessList))"
  have "warm newAccessList {} {}" by (simp add: warm_def)
  from warm_AddAddress[OF this, of sender] have "warm (?add sender newAccessList) {sender} {}" by simp
  then have "warm (case dst of None \<Rightarrow> ?add sender newAccessList | Some d \<Rightarrow> ?add d (?add sender newAccessList))
      (set_option dst \<union> {sender}) {}"
    using warm_AddAddress[of "?add sender newAccessList" "{sender}" "{}"] by (cases dst) (simp_all add: insert_commute)
  from warm_AddAddresses[OF this, of pre] have 0: "warm al0 (set pre \<union> (set_option dst \<union> {sender})) {}" by (simp add: al0_def)
  obtain al1 where 1: "fold (\<lambda>el r. bind_outcome r (\<lambda>al. fold (\<lambda>key r. bind_outcome r (\<lambda>al.
            bind_outcome (AddSlot (fst el) key al) (\<lambda>(c, al'). Ret al'))) (snd el) (Ret (?add (fst el) al))))
         ls (Ret al0) = Ret al1"
    "warm al1 (fst ` set ls \<union> (set pre \<union> (set_option dst \<union> {sender}))) {(a, k). \<exists>ks. (a, ks) \<in> set ls \<and> k \<in> set ks}"
    using warm_list[OF 0, of ls] by auto
  define al2 where "al2 = (if sh then ?add coinbase al1 else al1)"
  have w2: "warm al2 ((if sh then {coinbase} else {}) \<union> (fst ` set ls \<union> (set pre \<union> (set_option dst \<union> {sender}))))
      {(a, k). \<exists>ks. (a, ks) \<in> set ls \<and> k \<in> set ks}"
    using 1(2) warm_AddAddress[OF 1(2), of coinbase] by (simp add: al2_def insert_commute)
  define s' where "s' = s\<lparr>sdb_accessList := al2, sdb_transient := newTransientStorage\<rparr>"
  have p: "Prepare True sh sender coinbase dst pre ls s = (Ret (), s')"
    unfolding Prepare_def Let_def al0_def[symmetric] 1(1) by (simp add: s'_def al2_def)
  have ai: "AddressInAccessList a s' \<longleftrightarrow> a \<in> warm_addrs al2" for a
    by (auto simp: AddressInAccessList_def ContainsAddress_def warm_addrs_def s'_def)
  have "SlotInAccessList a k s' = Ret (a \<in> warm_addrs al2, (a, k) \<in> warm_slots al2)" for a k
    using w2 al_Contains_correct by (simp add: SlotInAccessList_def s'_def warm_def)
  moreover have "GetTransientState a k s' = 0" for a k by (simp add: GetTransientState_def s'_def)
  ultimately show ?thesis
    using p w2 by (intro exI[of _ s'] conjI allI) (auto simp: ai warm_def split: if_splits)
qed

end
