(* ===== verification/Chain_Config.thy ===== *)
theory Chain_Config
  imports Prelude
begin

text \<open>
  The chain configuration of \<open>params/config.go\<close> and \<open>params/config_arbitrum.go\<close>: which forks are active
  at a block, the check that the forks of a configuration are in order (\<open>CheckConfigForkOrder\<close>) and the
  check that a new configuration does not change the past (\<open>CheckCompatible\<close>). Block numbers are
  \<open>big.Int\<close> (\<open>int\<close>), timestamps are 64-bit words, a nil pointer is \<open>None\<close>.
\<close>

section \<open>Configuration and fork activation\<close>

record ArbitrumChainParams =
  EnableArbOS :: bool
  AllowDebugPrecompiles :: bool
  DataAvailabilityCommittee :: bool
  InitialArbOSVersion :: uint64
  InitialChainOwner :: address
  GenesisBlockNum :: uint64
  arb_MaxCodeSize :: uint64
  arb_MaxInitCodeSize :: uint64

record ChainConfig =
  ChainID :: "int option"
  HomesteadBlock :: "int option"
  DAOForkBlock :: "int option"
  DAOForkSupport :: bool
  EIP150Block :: "int option"
  EIP155Block :: "int option"
  EIP158Block :: "int option"
  ByzantiumBlock :: "int option"
  ConstantinopleBlock :: "int option"
  PetersburgBlock :: "int option"
  IstanbulBlock :: "int option"
  MuirGlacierBlock :: "int option"
  BerlinBlock :: "int option"
  LondonBlock :: "int option"
  ArrowGlacierBlock :: "int option"
  GrayGlacierBlock :: "int option"
  MergeNetsplitBlock :: "int option"
  ShanghaiTime :: "uint64 option"
  CancunTime :: "uint64 option"
  PragueTime :: "uint64 option"
  TerminalTotalDifficulty :: "int option"
  TerminalTotalDifficultyPassed :: bool
  arb_params :: ArbitrumChainParams

definition isBlockForked :: "int option \<Rightarrow> int option \<Rightarrow> bool" where
  "isBlockForked s head = (case (s, head) of (Some s, Some h) \<Rightarrow> s \<le> h | _ \<Rightarrow> False)"

definition isTimestampForked :: "uint64 option \<Rightarrow> uint64 \<Rightarrow> bool" where
  "isTimestampForked s head = (case s of None \<Rightarrow> False | Some s \<Rightarrow> s \<le> head)"

definition configBlockEqual :: "int option \<Rightarrow> int option \<Rightarrow> bool" where
  "configBlockEqual x y = (case x of None \<Rightarrow> y = None | Some a \<Rightarrow> (case y of None \<Rightarrow> False | Some b \<Rightarrow> a = b))"

definition configTimestampEqual :: "uint64 option \<Rightarrow> uint64 option \<Rightarrow> bool" where
  "configTimestampEqual x y = (case x of None \<Rightarrow> y = None | Some a \<Rightarrow> (case y of None \<Rightarrow> False | Some b \<Rightarrow> a = b))"

definition isForkBlockIncompatible :: "int option \<Rightarrow> int option \<Rightarrow> int \<Rightarrow> bool" where
  "isForkBlockIncompatible s1 s2 head =
     ((isBlockForked s1 (Some head) \<or> isBlockForked s2 (Some head)) \<and> \<not> configBlockEqual s1 s2)"

definition isForkTimestampIncompatible :: "uint64 option \<Rightarrow> uint64 option \<Rightarrow> uint64 \<Rightarrow> bool" where
  "isForkTimestampIncompatible s1 s2 head =
     ((isTimestampForked s1 head \<or> isTimestampForked s2 head) \<and> \<not> configTimestampEqual s1 s2)"

definition IsArbitrum :: "ChainConfig \<Rightarrow> bool" where
  "IsArbitrum c = EnableArbOS (arb_params c)"

definition IsArbitrumNitro :: "ChainConfig \<Rightarrow> int \<Rightarrow> bool" where
  "IsArbitrumNitro c num =
     (IsArbitrum c \<and> isBlockForked (Some (uint (GenesisBlockNum (arb_params c)))) (Some num))"

definition params_MaxCodeSize :: uint64 where
  "params_MaxCodeSize = 24576"

definition MaxCodeSize :: "ChainConfig \<Rightarrow> uint64" where
  "MaxCodeSize c = (if arb_MaxCodeSize (arb_params c) = 0 then params_MaxCodeSize else arb_MaxCodeSize (arb_params c))"

definition MaxInitCodeSize :: "ChainConfig \<Rightarrow> uint64" where
  "MaxInitCodeSize c =
     (if arb_MaxInitCodeSize (arb_params c) = 0 then MaxCodeSize c * 2 else arb_MaxInitCodeSize (arb_params c))"

definition DebugMode :: "ChainConfig \<Rightarrow> bool" where
  "DebugMode c = AllowDebugPrecompiles (arb_params c)"

definition IsHomestead :: "ChainConfig \<Rightarrow> int \<Rightarrow> bool" where
  "IsHomestead c num = isBlockForked (HomesteadBlock c) (Some num)"

definition IsDAOFork :: "ChainConfig \<Rightarrow> int \<Rightarrow> bool" where
  "IsDAOFork c num = isBlockForked (DAOForkBlock c) (Some num)"

definition IsEIP150 :: "ChainConfig \<Rightarrow> int \<Rightarrow> bool" where
  "IsEIP150 c num = isBlockForked (EIP150Block c) (Some num)"

definition IsEIP155 :: "ChainConfig \<Rightarrow> int \<Rightarrow> bool" where
  "IsEIP155 c num = isBlockForked (EIP155Block c) (Some num)"

definition IsEIP158 :: "ChainConfig \<Rightarrow> int \<Rightarrow> bool" where
  "IsEIP158 c num = isBlockForked (EIP158Block c) (Some num)"

definition IsByzantium :: "ChainConfig \<Rightarrow> int \<Rightarrow> bool" where
  "IsByzantium c num = isBlockForked (ByzantiumBlock c) (Some num)"

definition IsConstantinople :: "ChainConfig \<Rightarrow> int \<Rightarrow> bool" where
  "IsConstantinople c num = isBlockForked (ConstantinopleBlock c) (Some num)"

definition IsMuirGlacier :: "ChainConfig \<Rightarrow> int \<Rightarrow> bool" where
  "IsMuirGlacier c num = isBlockForked (MuirGlacierBlock c) (Some num)"

definition IsPetersburg :: "ChainConfig \<Rightarrow> int \<Rightarrow> bool" where
  "IsPetersburg c num =
     (isBlockForked (PetersburgBlock c) (Some num)
      \<or> PetersburgBlock c = None \<and> isBlockForked (ConstantinopleBlock c) (Some num))"

definition IsIstanbul :: "ChainConfig \<Rightarrow> int \<Rightarrow> bool" where
  "IsIstanbul c num = isBlockForked (IstanbulBlock c) (Some num)"

definition IsBerlin :: "ChainConfig \<Rightarrow> int \<Rightarrow> bool" where
  "IsBerlin c num = isBlockForked (BerlinBlock c) (Some num)"

definition IsLondon :: "ChainConfig \<Rightarrow> int \<Rightarrow> bool" where
  "IsLondon c num =
     (if IsArbitrum c then isBlockForked (Some (uint (GenesisBlockNum (arb_params c)))) (Some num)
      else isBlockForked (LondonBlock c) (Some num))"

definition IsArrowGlacier :: "ChainConfig \<Rightarrow> int \<Rightarrow> bool" where
  "IsArrowGlacier c num = isBlockForked (ArrowGlacierBlock c) (Some num)"

definition IsGrayGlacier :: "ChainConfig \<Rightarrow> int \<Rightarrow> bool" where
  "IsGrayGlacier c num = isBlockForked (GrayGlacierBlock c) (Some num)"

definition IsTerminalPoWBlock :: "ChainConfig \<Rightarrow> int \<Rightarrow> int \<Rightarrow> bool" where
  "IsTerminalPoWBlock c parentTotalDiff totalDiff =
     (case TerminalTotalDifficulty c of None \<Rightarrow> False | Some ttd \<Rightarrow> parentTotalDiff < ttd \<and> totalDiff \<ge> ttd)"

definition IsShanghai :: "ChainConfig \<Rightarrow> int \<Rightarrow> uint64 \<Rightarrow> uint64 \<Rightarrow> bool" where
  "IsShanghai c num time currentArbosVersion =
     (if IsArbitrum c then currentArbosVersion \<ge> 11
      else IsLondon c num \<and> isTimestampForked (ShanghaiTime c) time)"

definition IsCancun :: "ChainConfig \<Rightarrow> int \<Rightarrow> uint64 \<Rightarrow> bool" where
  "IsCancun c num time = (IsLondon c num \<and> isTimestampForked (CancunTime c) time)"

definition IsPrague :: "ChainConfig \<Rightarrow> int \<Rightarrow> uint64 \<Rightarrow> bool" where
  "IsPrague c num time = (IsLondon c num \<and> isTimestampForked (PragueTime c) time)"

record Rules =
  r_IsArbitrum :: bool
  r_ChainID :: int
  r_IsHomestead :: bool
  r_IsEIP150 :: bool
  r_IsEIP155 :: bool
  r_IsEIP158 :: bool
  r_IsByzantium :: bool
  r_IsConstantinople :: bool
  r_IsPetersburg :: bool
  r_IsIstanbul :: bool
  r_IsBerlin :: bool
  r_IsLondon :: bool
  r_IsMerge :: bool
  r_IsShanghai :: bool
  r_IsCancun :: bool
  r_IsPrague :: bool

definition config_Rules :: "ChainConfig \<Rightarrow> int \<Rightarrow> bool \<Rightarrow> uint64 \<Rightarrow> uint64 \<Rightarrow> Rules" where
  "config_Rules c num isMerge timestamp currentArbosVersion =
     \<lparr>r_IsArbitrum = IsArbitrum c,
      r_ChainID = (case ChainID c of None \<Rightarrow> 0 | Some i \<Rightarrow> i),
      r_IsHomestead = IsHomestead c num,
      r_IsEIP150 = IsEIP150 c num,
      r_IsEIP155 = IsEIP155 c num,
      r_IsEIP158 = IsEIP158 c num,
      r_IsByzantium = IsByzantium c num,
      r_IsConstantinople = IsConstantinople c num,
      r_IsPetersburg = IsPetersburg c num,
      r_IsIstanbul = IsIstanbul c num,
      r_IsBerlin = IsBerlin c num,
      r_IsLondon = IsLondon c num,
      r_IsMerge = isMerge,
      r_IsShanghai = IsShanghai c num timestamp currentArbosVersion,
      r_IsCancun = IsCancun c num timestamp,
      r_IsPrague = IsPrague c num timestamp\<rparr>"

section \<open>The order of the forks\<close>

record fork =
  fork_name :: string
  fork_block :: "int option"
  fork_timestamp :: "uint64 option"
  fork_optional :: bool

definition fork_set :: "fork \<Rightarrow> bool" where
  "fork_set f \<longleftrightarrow> fork_block f \<noteq> None \<or> fork_timestamp f \<noteq> None"

definition block_fork :: "string \<Rightarrow> int option \<Rightarrow> bool \<Rightarrow> fork" where
  "block_fork n b opt = \<lparr>fork_name = n, fork_block = b, fork_timestamp = None, fork_optional = opt\<rparr>"

definition time_fork :: "string \<Rightarrow> uint64 option \<Rightarrow> bool \<Rightarrow> fork" where
  "time_fork n t opt = \<lparr>fork_name = n, fork_block = None, fork_timestamp = t, fork_optional = opt\<rparr>"

definition config_forks :: "ChainConfig \<Rightarrow> fork list" where
  "config_forks c =
    [block_fork ''homesteadBlock'' (HomesteadBlock c) False,
     block_fork ''daoForkBlock'' (DAOForkBlock c) True,
     block_fork ''eip150Block'' (EIP150Block c) False,
     block_fork ''eip155Block'' (EIP155Block c) False,
     block_fork ''eip158Block'' (EIP158Block c) False,
     block_fork ''byzantiumBlock'' (ByzantiumBlock c) False,
     block_fork ''constantinopleBlock'' (ConstantinopleBlock c) False,
     block_fork ''petersburgBlock'' (PetersburgBlock c) False,
     block_fork ''istanbulBlock'' (IstanbulBlock c) False,
     block_fork ''muirGlacierBlock'' (MuirGlacierBlock c) True,
     block_fork ''berlinBlock'' (BerlinBlock c) False,
     block_fork ''londonBlock'' (LondonBlock c) False,
     block_fork ''arrowGlacierBlock'' (ArrowGlacierBlock c) True,
     block_fork ''grayGlacierBlock'' (GrayGlacierBlock c) True,
     block_fork ''mergeNetsplitBlock'' (MergeNetsplitBlock c) True,
     time_fork ''shanghaiTime'' (ShanghaiTime c) False,
     time_fork ''cancunTime'' (CancunTime c) True,
     time_fork ''pragueTime'' (PragueTime c) True]"

datatype order_error =
    NotEnabled string string
  | BlockOrder string int string int
  | TimeOrder string uint64 string uint64
  | RevertedToBlock string string

text \<open>
  One round of the switch: what \<open>lastFork\<close> and \<open>cur\<close> give. The two dereferences of the second case
  are of pointers that are not nil there, since a fork has a block or a timestamp and not both.
\<close>

definition check_fork :: "fork \<Rightarrow> fork \<Rightarrow> order_error option" where
  "check_fork lastFork cur =
     (if fork_block lastFork = None \<and> fork_timestamp lastFork = None
         \<and> (fork_block cur \<noteq> None \<or> fork_timestamp cur \<noteq> None)
      then Some (NotEnabled (fork_name lastFork) (fork_name cur))
      else if fork_block lastFork \<noteq> None \<and> fork_block cur \<noteq> None
              \<or> fork_timestamp lastFork \<noteq> None \<and> fork_timestamp cur \<noteq> None
      then (if fork_block lastFork \<noteq> None \<and> the (fork_block lastFork) > the (fork_block cur)
            then Some (BlockOrder (fork_name lastFork) (the (fork_block lastFork)) (fork_name cur) (the (fork_block cur)))
            else if fork_timestamp lastFork \<noteq> None \<and> the (fork_timestamp lastFork) > the (fork_timestamp cur)
            then Some (TimeOrder (fork_name lastFork) (the (fork_timestamp lastFork)) (fork_name cur) (the (fork_timestamp cur)))
            else if fork_timestamp lastFork \<noteq> None \<and> fork_block cur \<noteq> None
            then Some (RevertedToBlock (fork_name lastFork) (fork_name cur))
            else None)
      else None)"

text \<open>The loop; \<open>lastFork\<close> is \<open>None\<close> before the first round (\<open>lastFork.name == ""\<close>).\<close>

fun check_forks :: "fork option \<Rightarrow> fork list \<Rightarrow> order_error option" where
  "check_forks lastFork [] = None"
| "check_forks lastFork (cur # forks) =
     (case (case lastFork of None \<Rightarrow> None | Some l \<Rightarrow> check_fork l cur) of
        Some e \<Rightarrow> Some e
      | None \<Rightarrow> check_forks (if \<not> fork_optional cur \<or> fork_set cur then Some cur else lastFork) forks)"

definition CheckConfigForkOrder :: "ChainConfig \<Rightarrow> order_error option" where
  "CheckConfigForkOrder c = check_forks None (config_forks c)"

section \<open>Compatibility of configurations\<close>

record ConfigCompatError =
  What :: string
  StoredBlock :: "int option"
  NewBlock :: "int option"
  StoredTime :: "uint64 option"
  NewTime :: "uint64 option"
  RewindToBlock :: uint64
  RewindToTime :: uint64

definition newBlockCompatError :: "string \<Rightarrow> int option \<Rightarrow> int option \<Rightarrow> ConfigCompatError" where
  "newBlockCompatError what storedblock newblock =
     (let rew = (case storedblock of None \<Rightarrow> newblock
                 | Some s \<Rightarrow> (case newblock of None \<Rightarrow> storedblock
                              | Some n \<Rightarrow> if s < n then storedblock else newblock)) in
      \<lparr>What = what, StoredBlock = storedblock, NewBlock = newblock, StoredTime = None, NewTime = None,
       RewindToBlock = (case rew of None \<Rightarrow> 0 | Some r \<Rightarrow> if r > 0 then word_of_int r - 1 else 0),
       RewindToTime = 0\<rparr>)"

definition newTimestampCompatError :: "string \<Rightarrow> uint64 option \<Rightarrow> uint64 option \<Rightarrow> ConfigCompatError" where
  "newTimestampCompatError what storedtime newtime =
     (let rew = (case storedtime of None \<Rightarrow> newtime
                 | Some s \<Rightarrow> (case newtime of None \<Rightarrow> storedtime
                              | Some n \<Rightarrow> if s < n then storedtime else newtime)) in
      \<lparr>What = what, StoredBlock = None, NewBlock = None, StoredTime = storedtime, NewTime = newtime,
       RewindToBlock = 0,
       RewindToTime = (case rew of None \<Rightarrow> 0 | Some r \<Rightarrow> r - 1)\<rparr>)"

definition checkArbitrumCompatible :: "ChainConfig \<Rightarrow> ChainConfig \<Rightarrow> int \<Rightarrow> ConfigCompatError option" where
  "checkArbitrumCompatible c newcfg head =
     (if IsArbitrum c \<noteq> IsArbitrum newcfg then Some (newBlockCompatError ''isArbitrum'' (Some 0) (Some 0))
      else if \<not> IsArbitrum c then None
      else
       (let cArb = arb_params c; newArb = arb_params newcfg in
        if GenesisBlockNum cArb \<noteq> GenesisBlockNum newArb
        then Some (newBlockCompatError ''genesisblocknum''
               (Some (uint (GenesisBlockNum cArb))) (Some (uint (GenesisBlockNum newArb))))
        else None))"

text \<open>
  \<open>block_check\<close> and \<open>time_check\<close> are the test and return that \<open>checkCompatible\<close> repeats for every fork;
  \<open>orelse\<close> falls through to the next test.
\<close>

definition block_check :: "string \<Rightarrow> int option \<Rightarrow> int option \<Rightarrow> int \<Rightarrow> ConfigCompatError option" where
  "block_check what s n head = (if isForkBlockIncompatible s n head then Some (newBlockCompatError what s n) else None)"

definition time_check :: "string \<Rightarrow> uint64 option \<Rightarrow> uint64 option \<Rightarrow> uint64 \<Rightarrow> ConfigCompatError option" where
  "time_check what s n head = (if isForkTimestampIncompatible s n head then Some (newTimestampCompatError what s n) else None)"

fun first_error :: "'e option list \<Rightarrow> 'e option" where
  "first_error [] = None"
| "first_error (Some e # es) = Some e"
| "first_error (None # es) = first_error es"

definition block_checks :: "ChainConfig \<Rightarrow> ChainConfig \<Rightarrow> int \<Rightarrow> ConfigCompatError option list" where
  "block_checks c newcfg headNumber =
    [block_check ''Homestead fork block'' (HomesteadBlock c) (HomesteadBlock newcfg) headNumber,
     block_check ''DAO fork block'' (DAOForkBlock c) (DAOForkBlock newcfg) headNumber,
     (if IsDAOFork c headNumber \<and> DAOForkSupport c \<noteq> DAOForkSupport newcfg
      then Some (newBlockCompatError ''DAO fork support flag'' (DAOForkBlock c) (DAOForkBlock newcfg)) else None),
     block_check ''EIP150 fork block'' (EIP150Block c) (EIP150Block newcfg) headNumber,
     block_check ''EIP155 fork block'' (EIP155Block c) (EIP155Block newcfg) headNumber,
     block_check ''EIP158 fork block'' (EIP158Block c) (EIP158Block newcfg) headNumber,
     (if IsEIP158 c headNumber \<and> \<not> configBlockEqual (ChainID c) (ChainID newcfg)
      then Some (newBlockCompatError ''EIP158 chain ID'' (EIP158Block c) (EIP158Block newcfg)) else None),
     checkArbitrumCompatible c newcfg headNumber,
     block_check ''Byzantium fork block'' (ByzantiumBlock c) (ByzantiumBlock newcfg) headNumber,
     block_check ''Constantinople fork block'' (ConstantinopleBlock c) (ConstantinopleBlock newcfg) headNumber,
     (if isForkBlockIncompatible (PetersburgBlock c) (PetersburgBlock newcfg) headNumber
         \<and> isForkBlockIncompatible (ConstantinopleBlock c) (PetersburgBlock newcfg) headNumber
      then Some (newBlockCompatError ''Petersburg fork block'' (PetersburgBlock c) (PetersburgBlock newcfg)) else None),
     block_check ''Istanbul fork block'' (IstanbulBlock c) (IstanbulBlock newcfg) headNumber,
     block_check ''Muir Glacier fork block'' (MuirGlacierBlock c) (MuirGlacierBlock newcfg) headNumber,
     block_check ''Berlin fork block'' (BerlinBlock c) (BerlinBlock newcfg) headNumber,
     block_check ''London fork block'' (LondonBlock c) (LondonBlock newcfg) headNumber,
     block_check ''Arrow Glacier fork block'' (ArrowGlacierBlock c) (ArrowGlacierBlock newcfg) headNumber,
     block_check ''Gray Glacier fork block'' (GrayGlacierBlock c) (GrayGlacierBlock newcfg) headNumber,
     block_check ''Merge netsplit fork block'' (MergeNetsplitBlock c) (MergeNetsplitBlock newcfg) headNumber]"

definition time_checks :: "ChainConfig \<Rightarrow> ChainConfig \<Rightarrow> uint64 \<Rightarrow> ConfigCompatError option list" where
  "time_checks c newcfg headTimestamp =
    [time_check ''Shanghai fork timestamp'' (ShanghaiTime c) (ShanghaiTime newcfg) headTimestamp,
     time_check ''Cancun fork timestamp'' (CancunTime c) (CancunTime newcfg) headTimestamp,
     time_check ''Prague fork timestamp'' (PragueTime c) (PragueTime newcfg) headTimestamp]"

definition checkCompatible :: "ChainConfig \<Rightarrow> ChainConfig \<Rightarrow> int \<Rightarrow> uint64 \<Rightarrow> ConfigCompatError option" where
  "checkCompatible c newcfg headNumber headTimestamp =
     first_error (block_checks c newcfg headNumber @ time_checks c newcfg headTimestamp)"

text \<open>\<open>None\<close> is a loop that does not end; the inner option is the returned pointer.\<close>

partial_function (option) CheckCompatible_loop ::
  "ChainConfig \<Rightarrow> ChainConfig \<Rightarrow> ConfigCompatError option \<Rightarrow> int \<Rightarrow> uint64 \<Rightarrow> ConfigCompatError option option" where
  "CheckCompatible_loop c newcfg lasterr bhead btime =
     (case checkCompatible c newcfg bhead btime of
        None \<Rightarrow> Some lasterr
      | Some err \<Rightarrow>
          if lasterr \<noteq> None \<and> RewindToBlock err = RewindToBlock (the lasterr)
             \<and> RewindToTime err = RewindToTime (the lasterr)
          then Some lasterr
          else if RewindToTime err > 0
          then CheckCompatible_loop c newcfg (Some err) bhead (RewindToTime err)
          else CheckCompatible_loop c newcfg (Some err) (uint (RewindToBlock err)) btime)"

definition CheckCompatible :: "ChainConfig \<Rightarrow> ChainConfig \<Rightarrow> uint64 \<Rightarrow> uint64 \<Rightarrow> ConfigCompatError option option" where
  "CheckCompatible c newcfg height time = CheckCompatible_loop c newcfg None (uint height) time"

section \<open>Order of the forks: what an accepted configuration guarantees\<close>

text \<open>A fork has a block or a timestamp, and no block-numbered fork follows one with a timestamp.\<close>

definition forks_wf :: "fork list \<Rightarrow> bool" where
  "forks_wf fs \<longleftrightarrow> (\<forall>f\<in>set fs. fork_block f = None \<or> fork_timestamp f = None)
     \<and> sorted_wrt (\<lambda>x y. fork_timestamp x \<noteq> None \<longrightarrow> fork_block y = None) fs"

definition fork_le :: "fork \<Rightarrow> fork \<Rightarrow> bool" where
  "fork_le x y \<longleftrightarrow> fork_set x
     \<and> (\<forall>a b. fork_block x = Some a \<longrightarrow> fork_block y = Some b \<longrightarrow> a \<le> b)
     \<and> (\<forall>a b. fork_timestamp x = Some a \<longrightarrow> fork_timestamp y = Some b \<longrightarrow> a \<le> b)"

lemma check_fork_None: "check_fork l cur = None \<Longrightarrow> fork_set cur \<Longrightarrow> fork_le l cur"
  by (auto simp: check_fork_def fork_le_def fork_set_def split: if_splits)

lemma fork_le_trans:
  assumes "fork_le x y" "fork_le y z" "forks_wf [x, y, z]"
  shows "fork_le x z"
  using assms by (auto simp: fork_le_def forks_wf_def fork_set_def)

lemma forks_wf_sub: "forks_wf (x # y # fs) \<Longrightarrow> forks_wf (x # fs)" "forks_wf (x # y # fs) \<Longrightarrow> forks_wf (y # fs)"
  by (auto simp: forks_wf_def)

lemma check_forks_le:
  "check_forks (Some l) fs = None \<Longrightarrow> forks_wf (l # fs) \<Longrightarrow> f \<in> set fs \<Longrightarrow> fork_set f \<Longrightarrow> fork_le l f"
proof (induction fs arbitrary: l)
  case Nil
  then show ?case by simp
next
  case (Cons cur fs)
  have cur: "check_fork l cur = None"
    and rest: "check_forks (if \<not> fork_optional cur \<or> fork_set cur then Some cur else Some l) fs = None"
    using Cons.prems(1) by (auto split: option.splits)
  show ?case
  proof (cases "f = cur")
    case True
    then show ?thesis using check_fork_None[OF cur] Cons.prems(4) by simp
  next
    case False
    then have f: "f \<in> set fs" using Cons.prems(3) by simp
    show ?thesis
    proof (cases "\<not> fork_optional cur \<or> fork_set cur")
      case True
      then have *: "fork_le cur f" using Cons.IH[of cur] rest forks_wf_sub(2)[OF Cons.prems(2)] f Cons.prems(4) by simp
      then have "fork_le l cur" using check_fork_None[OF cur] by (simp add: fork_le_def)
      moreover have "forks_wf [l, cur, f]" using Cons.prems(2) f by (auto simp: forks_wf_def)
      ultimately show ?thesis using * fork_le_trans by blast
    next
      case False
      then show ?thesis using Cons.IH[of l] rest forks_wf_sub(1)[OF Cons.prems(2)] f Cons.prems(4) by simp
    qed
  qed
qed

lemma check_forks_suffix:
  "check_forks l (xs @ x # ys) = None \<Longrightarrow> \<not> fork_optional x \<or> fork_set x \<Longrightarrow> check_forks (Some x) ys = None"
  by (induction xs arbitrary: l) (auto split: option.splits)

lemma check_forks_nth_le:
  assumes "check_forks None fs = None" "forks_wf fs" "i < j" "j < length fs"
    and "fork_set (fs ! j)" "\<not> fork_optional (fs ! i) \<or> fork_set (fs ! i)"
  shows "fork_le (fs ! i) (fs ! j)"
proof -
  have split: "fs = take i fs @ fs ! i # drop (Suc i) fs" using assms(3,4) by (simp add: id_take_nth_drop)
  have "check_forks (Some (fs ! i)) (drop (Suc i) fs) = None"
    using check_forks_suffix[of None "take i fs" "fs ! i" "drop (Suc i) fs"] assms(1,6) split by simp
  moreover have "forks_wf (fs ! i # drop (Suc i) fs)"
  proof -
    have "forks_wf (take i fs @ fs ! i # drop (Suc i) fs)" using assms(2) by (simp only: split[symmetric])
    then show ?thesis by (auto simp: forks_wf_def sorted_wrt_append)
  qed
  moreover have "fs ! j \<in> set (drop (Suc i) fs)"
    using assms(3,4) nth_mem[of "j - Suc i" "drop (Suc i) fs"] by simp
  ultimately show ?thesis using check_forks_le assms(5) by blast
qed

lemma config_forks_wf: "forks_wf (config_forks c)"
  by (simp add: forks_wf_def config_forks_def block_fork_def time_fork_def)

lemmas config_forks_le = check_forks_nth_le[OF _ config_forks_wf, folded CheckConfigForkOrder_def]

lemma config_forks_length: "length (config_forks c) = 18"
  by (simp add: config_forks_def)

lemma fork_le_active:
  "fork_le x y \<Longrightarrow> fork_block y = Some b \<Longrightarrow> fork_timestamp x = None \<Longrightarrow> b \<le> n \<Longrightarrow> isBlockForked (fork_block x) (Some n)"
  by (auto simp: fork_le_def fork_set_def isBlockForked_def)

text \<open>For two block forks of the list: the later one is not active before the earlier one.\<close>

lemma config_forks_active:
  assumes "CheckConfigForkOrder c = None" "i < j" "j < 15"
    and "\<not> fork_optional (config_forks c ! i) \<or> fork_set (config_forks c ! i)"
    and "isBlockForked (fork_block (config_forks c ! j)) (Some n)"
  shows "isBlockForked (fork_block (config_forks c ! i)) (Some n)"
proof -
  obtain b where b: "fork_block (config_forks c ! j) = Some b" "b \<le> n"
    using assms(5) by (auto simp: isBlockForked_def split: option.splits)
  have "fork_le (config_forks c ! i) (config_forks c ! j)"
    using config_forks_le[OF assms(1,2)] assms(3,4) b by (simp add: config_forks_length fork_set_def)
  moreover have "fork_timestamp (config_forks c ! i) = None"
  proof -
    have "\<forall>k\<in>set [0..<15]. fork_timestamp (config_forks c ! k) = None"
      by (simp add: config_forks_def block_fork_def upt_rec)
    then show ?thesis using assms(2,3) by simp
  qed
  ultimately show ?thesis using fork_le_active b by blast
qed

text \<open>C32. In a configuration that \<open>CheckConfigForkOrder\<close> accepts, the forks become active in their order: at every
  block, a mandatory fork is active whenever a later block fork is, Petersburg included, the optional forks take part
  once they are scheduled, and the forks by timestamp follow London and one another.\<close>

theorem CheckConfigForkOrder_rules:
  assumes "CheckConfigForkOrder c = None"
  shows "(isBlockForked (LondonBlock c) (Some n) \<longrightarrow> IsBerlin c n) \<and> (IsBerlin c n \<longrightarrow> IsIstanbul c n)
    \<and> (IsIstanbul c n \<longrightarrow> IsPetersburg c n) \<and> (IsPetersburg c n \<longrightarrow> IsConstantinople c n)
    \<and> (IsConstantinople c n \<longrightarrow> IsByzantium c n) \<and> (IsByzantium c n \<longrightarrow> IsEIP158 c n)
    \<and> (IsEIP158 c n \<longrightarrow> IsEIP155 c n) \<and> (IsEIP155 c n \<longrightarrow> IsEIP150 c n) \<and> (IsEIP150 c n \<longrightarrow> IsHomestead c n)
    \<and> (IsEIP150 c n \<and> DAOForkBlock c \<noteq> None \<longrightarrow> IsDAOFork c n)
    \<and> (IsBerlin c n \<and> MuirGlacierBlock c \<noteq> None \<longrightarrow> IsMuirGlacier c n)
    \<and> (IsArrowGlacier c n \<longrightarrow> isBlockForked (LondonBlock c) (Some n))
    \<and> (IsGrayGlacier c n \<and> ArrowGlacierBlock c \<noteq> None \<longrightarrow> IsArrowGlacier c n)
    \<and> (ShanghaiTime c \<noteq> None \<longrightarrow> LondonBlock c \<noteq> None)
    \<and> (isTimestampForked (CancunTime c) t \<longrightarrow> isTimestampForked (ShanghaiTime c) t)
    \<and> (isTimestampForked (PragueTime c) t \<and> CancunTime c \<noteq> None \<longrightarrow> isTimestampForked (CancunTime c) t)"
proof -
  note A = config_forks_active[OF assms, where n = n]
  note L = config_forks_le[OF assms]
  note D = config_forks_def block_fork_def time_fork_def fork_set_def fork_le_def
  have 1: "isBlockForked (LondonBlock c) (Some n) \<longrightarrow> IsBerlin c n" using A[of 10 11] by (simp add: D IsBerlin_def)
  have 2: "IsBerlin c n \<longrightarrow> IsIstanbul c n" using A[of 8 10] by (simp add: D IsBerlin_def IsIstanbul_def)
  have 3: "IsIstanbul c n \<longrightarrow> IsPetersburg c n" using A[of 7 8] by (simp add: D IsPetersburg_def IsIstanbul_def)
  have 4: "IsPetersburg c n \<longrightarrow> IsConstantinople c n" using A[of 6 7] by (auto simp: D IsPetersburg_def IsConstantinople_def)
  have 5: "IsConstantinople c n \<longrightarrow> IsByzantium c n" using A[of 5 6] by (simp add: D IsByzantium_def IsConstantinople_def)
  have 6: "IsByzantium c n \<longrightarrow> IsEIP158 c n" using A[of 4 5] by (simp add: D IsByzantium_def IsEIP158_def)
  have 7: "IsEIP158 c n \<longrightarrow> IsEIP155 c n" using A[of 3 4] by (simp add: D IsEIP155_def IsEIP158_def)
  have 8: "IsEIP155 c n \<longrightarrow> IsEIP150 c n" using A[of 2 3] by (simp add: D IsEIP155_def IsEIP150_def)
  have 9: "IsEIP150 c n \<longrightarrow> IsHomestead c n" using A[of 0 2] by (simp add: D IsHomestead_def IsEIP150_def)
  have 10: "IsEIP150 c n \<and> DAOForkBlock c \<noteq> None \<longrightarrow> IsDAOFork c n" using A[of 1 2] by (simp add: D IsDAOFork_def IsEIP150_def)
  have 11: "IsBerlin c n \<and> MuirGlacierBlock c \<noteq> None \<longrightarrow> IsMuirGlacier c n" using A[of 9 10] by (simp add: D IsBerlin_def IsMuirGlacier_def)
  have 12: "IsArrowGlacier c n \<longrightarrow> isBlockForked (LondonBlock c) (Some n)" using A[of 11 12] by (simp add: D IsArrowGlacier_def)
  have 13: "IsGrayGlacier c n \<and> ArrowGlacierBlock c \<noteq> None \<longrightarrow> IsArrowGlacier c n" using A[of 12 13] by (simp add: D IsArrowGlacier_def IsGrayGlacier_def)
  have 14: "ShanghaiTime c \<noteq> None \<longrightarrow> LondonBlock c \<noteq> None" using L[of 11 15] by (auto simp: D)
  have 15: "isTimestampForked (CancunTime c) t \<longrightarrow> isTimestampForked (ShanghaiTime c) t"
    using L[of 15 16] by (auto simp: D isTimestampForked_def split: option.splits)
  have 16: "isTimestampForked (PragueTime c) t \<and> CancunTime c \<noteq> None \<longrightarrow> isTimestampForked (CancunTime c) t"
    using L[of 16 17] by (auto simp: D isTimestampForked_def split: option.splits)
  from 1 2 3 4 5 6 7 8 9 10 11 12 13 14 15 16 show ?thesis by simp
qed

text \<open>The main network's forks up to Shanghai, the base of the concrete instances below.\<close>

definition no_arbitrum :: ArbitrumChainParams where
  "no_arbitrum = \<lparr>EnableArbOS = False, AllowDebugPrecompiles = False, DataAvailabilityCommittee = False,
     InitialArbOSVersion = 0, InitialChainOwner = 0, GenesisBlockNum = 0, arb_MaxCodeSize = 0, arb_MaxInitCodeSize = 0\<rparr>"

definition MainnetChainConfig :: ChainConfig where
  "MainnetChainConfig =
     \<lparr>ChainID = Some 1, HomesteadBlock = Some 1150000, DAOForkBlock = Some 1920000, DAOForkSupport = True,
      EIP150Block = Some 2463000, EIP155Block = Some 2675000, EIP158Block = Some 2675000,
      ByzantiumBlock = Some 4370000, ConstantinopleBlock = Some 7280000, PetersburgBlock = Some 7280000,
      IstanbulBlock = Some 9069000, MuirGlacierBlock = Some 9200000, BerlinBlock = Some 12244000,
      LondonBlock = Some 12965000, ArrowGlacierBlock = Some 13773000, GrayGlacierBlock = Some 15050000,
      MergeNetsplitBlock = None, ShanghaiTime = Some 1681338455, CancunTime = None, PragueTime = None,
      TerminalTotalDifficulty = Some 58750000000000000000000, TerminalTotalDifficultyPassed = True,
      arb_params = no_arbitrum\<rparr>"

lemma MainnetChainConfig_ordered: "CheckConfigForkOrder MainnetChainConfig = None"
  by (simp add: CheckConfigForkOrder_def config_forks_def MainnetChainConfig_def block_fork_def time_fork_def
      check_fork_def fork_set_def)

theorem CheckConfigForkOrder_rules_witness:
  "CheckConfigForkOrder MainnetChainConfig = None \<and> IsBerlin MainnetChainConfig 13000000
   \<and> IsPetersburg MainnetChainConfig 13000000"
  using CheckConfigForkOrder_rules[OF MainnetChainConfig_ordered, of 13000000 0] MainnetChainConfig_ordered
  by (simp add: MainnetChainConfig_def isBlockForked_def)

section \<open>Compatibility: the search for the rewind point\<close>

lemma first_error_None: "first_error es = None \<longleftrightarrow> (\<forall>e\<in>set es. e = None)"
  by (induction es rule: first_error.induct) auto

lemma first_error_Some: "first_error es = Some e \<Longrightarrow> Some e \<in> set es"
  by (induction es rule: first_error.induct) auto

lemma checkCompatible_None:
  "checkCompatible c n h t = None \<longleftrightarrow> (\<forall>e\<in>set (block_checks c n h). e = None) \<and> (\<forall>e\<in>set (time_checks c n t). e = None)"
  by (auto simp: checkCompatible_def first_error_None)

lemma checkCompatible_cases:
  assumes "checkCompatible c n h t = Some e"
  obtains (block) "Some e \<in> set (block_checks c n h)" | (time) "Some e \<in> set (time_checks c n t)"
  using first_error_Some[OF assms[unfolded checkCompatible_def]] by auto

text \<open>
  The hypotheses under which the search ends: the Arbitrum genesis block is not changed, and no fork is
  scheduled at timestamp 0 (its rewind point would be one below 0) or 1 (its rewind point 0 is taken for a block's).
\<close>

definition same_genesis :: "ChainConfig \<Rightarrow> ChainConfig \<Rightarrow> bool" where
  "same_genesis c n \<longleftrightarrow>
     (IsArbitrum c \<and> IsArbitrum n \<longrightarrow> GenesisBlockNum (arb_params c) = GenesisBlockNum (arb_params n))"

definition positive_times :: "ChainConfig \<Rightarrow> bool" where
  "positive_times c \<longleftrightarrow> (\<forall>t\<in>{0, 1}. ShanghaiTime c \<noteq> Some t \<and> CancunTime c \<noteq> Some t \<and> PragueTime c \<noteq> Some t)"

definition rewinds_block :: "int \<Rightarrow> ConfigCompatError \<Rightarrow> bool" where
  "rewinds_block h e \<longleftrightarrow> RewindToTime e = 0 \<and> (uint (RewindToBlock e) < h \<or> RewindToBlock e = 0)"

definition rewinds_time :: "uint64 \<Rightarrow> ConfigCompatError \<Rightarrow> bool" where
  "rewinds_time t e \<longleftrightarrow> RewindToBlock e = 0 \<and> RewindToTime e < t"

lemma uint_pred_of_int:
  assumes "0 < s" "s < 2 ^ 64"
  shows "uint (word_of_int s - 1 :: uint64) = s - 1"
proof -
  have "(word_of_int s - 1 :: uint64) = word_of_int (s - 1)" by simp
  then show ?thesis using assms by (simp add: uint_word_of_int_eq take_bit_int_eq_self del: of_int_diff)
qed

lemma newBlockCompatError_rewinds:
  assumes "isBlockForked s (Some h) \<or> isBlockForked n (Some h)" "h < 2 ^ 64"
  shows "rewinds_block h (newBlockCompatError w s n)"
  using assms
  by (auto simp: rewinds_block_def newBlockCompatError_def isBlockForked_def Let_def uint_pred_of_int
      split: option.splits if_splits)

lemma word_pred_less: "r \<noteq> 0 \<Longrightarrow> r \<le> t \<Longrightarrow> r - 1 < (t :: uint64)"
proof -
  assume "r \<noteq> 0" "r \<le> t"
  moreover from this(1) have "unat (r - 1) < unat r" by (rule measure_unat)
  ultimately show ?thesis by (simp add: word_less_nat_alt word_le_nat_alt)
qed

lemma newTimestampCompatError_rewinds:
  assumes "isTimestampForked s t \<or> isTimestampForked n t" "s \<noteq> Some 0" "n \<noteq> Some 0"
  shows "rewinds_time t (newTimestampCompatError w s n)"
  using assms
  by (auto simp: rewinds_time_def newTimestampCompatError_def isTimestampForked_def Let_def
      intro!: word_pred_less split: option.splits if_splits)

lemma block_check_rewinds: "block_check w s n h = Some e \<Longrightarrow> h < 2 ^ 64 \<Longrightarrow> rewinds_block h e"
  by (auto simp: block_check_def isForkBlockIncompatible_def intro!: newBlockCompatError_rewinds split: if_splits)

lemma time_check_rewinds:
  "time_check w s n t = Some e \<Longrightarrow> s \<noteq> Some 0 \<Longrightarrow> n \<noteq> Some 0 \<Longrightarrow> rewinds_time t e"
  by (auto simp: time_check_def isForkTimestampIncompatible_def intro!: newTimestampCompatError_rewinds split: if_splits)

lemma checkArbitrumCompatible_rewinds:
  "checkArbitrumCompatible c n h = Some e \<Longrightarrow> same_genesis c n \<Longrightarrow> rewinds_block h e"
  by (auto simp: checkArbitrumCompatible_def same_genesis_def newBlockCompatError_def rewinds_block_def Let_def split: if_splits)

lemma block_checks_rewinds:
  assumes "Some e \<in> set (block_checks c n h)" "same_genesis c n" "h < 2 ^ 64"
  shows "rewinds_block h e"
proof -
  have B: "Some e = block_check w s s' h \<Longrightarrow> rewinds_block h e" for w s s'
    using block_check_rewinds[OF _ assms(3)] by metis
  have A: "Some e = checkArbitrumCompatible c n h \<Longrightarrow> rewinds_block h e"
    using checkArbitrumCompatible_rewinds[OF _ assms(2)] by metis
  have D: "isBlockForked s (Some h) \<or> isBlockForked s' (Some h) \<Longrightarrow> e = newBlockCompatError w s s' \<Longrightarrow> rewinds_block h e" for w s s'
    using newBlockCompatError_rewinds[OF _ assms(3)] by metis
  have C: "Some e = (if b then Some (newBlockCompatError w s s') else None) \<Longrightarrow>
      (b \<Longrightarrow> isBlockForked s (Some h) \<or> isBlockForked s' (Some h)) \<Longrightarrow> rewinds_block h e" for b w s s'
    using D[of s s' w] by (cases b) simp_all
  show ?thesis
    by (insert assms(1)[unfolded block_checks_def list.set], elim insertE emptyE; (erule B | erule A | (erule C, auto simp: IsDAOFork_def IsEIP158_def isForkBlockIncompatible_def)))
qed

lemma time_checks_rewinds:
  assumes "Some e \<in> set (time_checks c n t)" "positive_times c" "positive_times n"
  shows "rewinds_time t e"
  using assms unfolding time_checks_def positive_times_def
  by (auto dest!: time_check_rewinds[OF sym])

section \<open>Compatibility: conflicts and their points\<close>

definition block_conflict :: "ChainConfig \<Rightarrow> ChainConfig \<Rightarrow> int \<Rightarrow> bool" where
  "block_conflict c n h \<longleftrightarrow> (\<exists>x\<in>set (block_checks c n h). x \<noteq> None)"

definition time_conflict :: "ChainConfig \<Rightarrow> ChainConfig \<Rightarrow> uint64 \<Rightarrow> bool" where
  "time_conflict c n t \<longleftrightarrow> (\<exists>x\<in>set (time_checks c n t). x \<noteq> None)"

lemma checkCompatible_conflict: "checkCompatible c n h t = None \<longleftrightarrow> \<not> block_conflict c n h \<and> \<not> time_conflict c n t"
  by (auto simp: checkCompatible_None block_conflict_def time_conflict_def)

lemma first_error_check:
  "(block_check w s s' h = None) = (\<not> isForkBlockIncompatible s s' h)"
  "(time_check w x x' t = None) = (\<not> isForkTimestampIncompatible x x' t)"
  "((if b then Some err else None) = None) = (\<not> b)"
  by (simp_all add: block_check_def time_check_def)

lemma configBlockEqual_iff [simp]: "configBlockEqual x y \<longleftrightarrow> x = y"
  by (auto simp: configBlockEqual_def split: option.splits)

lemma isForkBlockIncompatible_mono: "isForkBlockIncompatible s n h \<Longrightarrow> h \<le> k \<Longrightarrow> isForkBlockIncompatible s n k"
  by (auto simp: isForkBlockIncompatible_def isBlockForked_def split: option.splits)

lemma isBlockForked_mono: "isBlockForked s (Some h) \<Longrightarrow> h \<le> k \<Longrightarrow> isBlockForked s (Some k)"
  by (auto simp: isBlockForked_def split: option.splits)

lemma block_conflict_mono:
  assumes "block_conflict c n h" "h \<le> k"
  shows "block_conflict c n k"
proof -
  have I: "isForkBlockIncompatible x y h \<Longrightarrow> isForkBlockIncompatible x y k" for x y
    using isForkBlockIncompatible_mono assms(2) by blast
  have F: "isBlockForked x (Some h) \<Longrightarrow> isBlockForked x (Some k)" for x using isBlockForked_mono assms(2) by blast
  have A: "checkArbitrumCompatible c n h = checkArbitrumCompatible c n k" by (simp add: checkArbitrumCompatible_def)
  show ?thesis
    using assms(1) I F unfolding block_conflict_def block_checks_def list.set bex_simps first_error_check A IsDAOFork_def IsEIP158_def
    by blast
qed

text \<open>One of the two blocks of a fork, active at the head, lies at most one above the point reported for it.\<close>

lemma newBlockCompatError_point:
  assumes "isBlockForked s (Some h) \<or> isBlockForked n (Some h)" "h < 2 ^ 64"
  obtains m where "m \<le> uint (RewindToBlock (newBlockCompatError w s n)) + 1" "s = Some m \<or> n = Some m"
proof -
  have "\<exists>m. m \<le> uint (RewindToBlock (newBlockCompatError w s n)) + 1 \<and> (s = Some m \<or> n = Some m)"
    using assms by (auto simp: newBlockCompatError_def isBlockForked_def Let_def uint_pred_of_int
        conj_disj_distribL ex_disj_distrib split: option.splits if_splits)
  then show thesis using that by blast
qed

text \<open>Constantinople is not scheduled after Petersburg.\<close>

definition petersburg_last :: "ChainConfig \<Rightarrow> bool" where
  "petersburg_last c \<longleftrightarrow> (\<forall>p. PetersburgBlock c = Some p \<longrightarrow> (\<exists>q\<le>p. ConstantinopleBlock c = Some q))"

lemma CheckConfigForkOrder_petersburg_last: "CheckConfigForkOrder c = None \<Longrightarrow> petersburg_last c"
  using config_forks_le[of c 6 7]
  by (auto simp: petersburg_last_def config_forks_def block_fork_def fork_le_def fork_set_def)

lemma block_checks_tight:
  assumes "Some e \<in> set (block_checks c n h)" "petersburg_last c" "h < 2 ^ 64"
  shows "block_conflict c n (uint (RewindToBlock e) + 1)"
proof -
  define K where "K = uint (RewindToBlock e) + 1"
  have B: "isForkBlockIncompatible x y K" if "isForkBlockIncompatible x y h" "e = newBlockCompatError w x y" for w x y
  proof (rule newBlockCompatError_point[of x h y w])
    fix m assume m: "m \<le> uint (RewindToBlock (newBlockCompatError w x y)) + 1" "x = Some m \<or> y = Some m"
    then have "isForkBlockIncompatible x y m" using that(1) by (auto simp: isForkBlockIncompatible_def isBlockForked_def)
    then show ?thesis using isForkBlockIncompatible_mono m(1) that(2) K_def by blast
  qed (use that(1) assms(3) in \<open>auto simp: isForkBlockIncompatible_def\<close>)
  have check: "isForkBlockIncompatible x y K" if "Some e = block_check w x y h" for w x y
    using that B[of x y w] by (simp add: block_check_def split: if_splits)
  have flag: "b \<and> (isBlockForked x (Some K) \<or> isForkBlockIncompatible x y K)"
    if "Some e = (if isBlockForked x (Some h) \<and> b then Some (newBlockCompatError w x y) else None)" for b w x y
  proof (cases "x = y")
    case False
    then have "isForkBlockIncompatible x y h" using that by (simp add: isForkBlockIncompatible_def split: if_splits)
    then show ?thesis using B[of x y w] that by (simp split: if_splits)
  next
    case True
    show ?thesis
    proof (rule newBlockCompatError_point[of x h y w])
      fix m assume m: "m \<le> uint (RewindToBlock (newBlockCompatError w x y)) + 1" "x = Some m \<or> y = Some m"
      then have "isBlockForked x (Some m)" using True by (auto simp: isBlockForked_def)
      then show ?thesis using isBlockForked_mono[of x m K] m(1) that by (simp add: K_def split: if_splits)
    qed (use that assms(3) in \<open>auto split: if_splits\<close>)
  qed
  have petersburg: "isForkBlockIncompatible (PetersburgBlock c) y K \<and> isForkBlockIncompatible (ConstantinopleBlock c) y K"
    if "Some e = (if isForkBlockIncompatible (PetersburgBlock c) y h \<and> isForkBlockIncompatible (ConstantinopleBlock c) y h
        then Some (newBlockCompatError w (PetersburgBlock c) y) else None)" for w y
  proof (rule newBlockCompatError_point[of "PetersburgBlock c" h y w])
    fix m assume m: "m \<le> uint (RewindToBlock (newBlockCompatError w (PetersburgBlock c) y)) + 1" "PetersburgBlock c = Some m \<or> y = Some m"
    then have "isForkBlockIncompatible (ConstantinopleBlock c) y m"
      using that assms(2) by (auto simp: isForkBlockIncompatible_def isBlockForked_def petersburg_last_def split: if_splits)
    then show ?thesis
      using isForkBlockIncompatible_mono[of _ y m K] m(1) that B[of "PetersburgBlock c" y w] by (simp add: K_def split: if_splits)
  qed (use that assms(3) in \<open>auto simp: isForkBlockIncompatible_def split: if_splits\<close>)
  have arbitrum: "checkArbitrumCompatible c n K \<noteq> None" if "Some e = checkArbitrumCompatible c n h"
    using that by (simp add: checkArbitrumCompatible_def Let_def split: if_splits)
  have "block_conflict c n K"
    unfolding block_conflict_def block_checks_def list.set bex_simps first_error_check IsDAOFork_def IsEIP158_def
    by (insert assms(1)[unfolded block_checks_def list.set IsDAOFork_def IsEIP158_def], elim insertE emptyE;
        (drule check | drule arbitrum | drule petersburg | drule flag); auto)
  then show ?thesis by (simp add: K_def)
qed

lemma time_checks_tight:
  assumes "Some e \<in> set (time_checks c n t)"
  shows "time_conflict c n (RewindToTime e + 1)"
proof -
  have "isForkTimestampIncompatible x y (RewindToTime e + 1)" if "Some e = time_check w x y t" for w x y
    using that by (auto simp: time_check_def isForkTimestampIncompatible_def newTimestampCompatError_def isTimestampForked_def
        configTimestampEqual_def Let_def split: option.splits if_splits)
  then show ?thesis
    using assms unfolding time_conflict_def time_checks_def list.set bex_simps first_error_check by blast
qed

text \<open>
  What the returned error promises. A point in time is the last without conflicts of the forks by timestamp. A block is the last
  without conflicts of the forks by block number, with one exception: it is the genesis block where these conflicts exist at
  every head.
\<close>

definition rewind_resolves :: "ChainConfig \<Rightarrow> ChainConfig \<Rightarrow> ConfigCompatError \<Rightarrow> bool" where
  "rewind_resolves c n e \<longleftrightarrow>
     (if RewindToTime e > 0 then \<not> time_conflict c n (RewindToTime e) \<and> time_conflict c n (RewindToTime e + 1)
      else block_conflict c n (uint (RewindToBlock e) + 1) \<and>
        (\<not> block_conflict c n (uint (RewindToBlock e)) \<or> RewindToBlock e = 0 \<and> (\<forall>h\<ge>0. block_conflict c n h)))"

text \<open>The error the search holds has its point at the head, and the next head has a conflict.\<close>

definition last_at :: "ChainConfig \<Rightarrow> ChainConfig \<Rightarrow> ConfigCompatError option \<Rightarrow> int \<Rightarrow> uint64 \<Rightarrow> bool" where
  "last_at c n lasterr h t \<longleftrightarrow> (\<forall>e. lasterr = Some e \<longrightarrow>
     (if RewindToTime e > 0 then t = RewindToTime e \<and> time_conflict c n (t + 1)
      else h = uint (RewindToBlock e) \<and> block_conflict c n (h + 1)))"

lemma checkCompatible_rewinds:
  assumes "same_genesis c n" "petersburg_last c" "positive_times c" "positive_times n" "h < 2 ^ 64" "checkCompatible c n h t = Some e"
  shows "rewinds_block h e \<and> block_conflict c n h \<and> block_conflict c n (uint (RewindToBlock e) + 1)
    \<or> rewinds_time t e \<and> time_conflict c n (RewindToTime e + 1) \<and> 0 < RewindToTime e"
proof (rule checkCompatible_cases[OF assms(6)])
  assume e: "Some e \<in> set (block_checks c n h)"
  then have "block_conflict c n h" by (auto simp: block_conflict_def)
  then show ?thesis using block_checks_rewinds[OF e assms(1,5)] block_checks_tight[OF e assms(2,5)] by blast
next
  assume e: "Some e \<in> set (time_checks c n t)"
  have "0 < RewindToTime e" if "Some e = time_check w x y t" "x \<notin> {Some 0, Some 1}" "y \<notin> {Some 0, Some 1}" for w x y
    using that by (auto simp: time_check_def isForkTimestampIncompatible_def newTimestampCompatError_def isTimestampForked_def
        Let_def word_gt_0 split: option.splits if_splits)
  then have "0 < RewindToTime e"
    using e assms(3,4) unfolding time_checks_def list.set positive_times_def by (elim insertE emptyE) blast+
  then show ?thesis using time_checks_rewinds[OF e assms(3,4)] time_checks_tight[OF e] by blast
qed

lemma CheckCompatible_loop_spec:
  assumes "same_genesis c n" "petersburg_last c" "positive_times c" "positive_times n"
  shows "0 \<le> h \<Longrightarrow> h < 2 ^ 64 \<Longrightarrow> last_at c n lasterr h t \<Longrightarrow>
    \<exists>r. CheckCompatible_loop c n lasterr h t = Some r \<and> (lasterr \<noteq> None \<longrightarrow> r \<noteq> None)
      \<and> (\<forall>e. r = Some e \<longrightarrow> rewind_resolves c n e)"
proof (induction "nat h + unat t" arbitrary: lasterr h t rule: less_induct)
  case less
  have genesis: "block_conflict c n 0 \<Longrightarrow> \<forall>h\<ge>0. block_conflict c n h" using block_conflict_mono by blast
  show ?case
  proof (cases "checkCompatible c n h t")
    case None
    then have "rewind_resolves c n e" if "lasterr = Some e" for e
      using less.prems(3) that by (auto simp: checkCompatible_conflict rewind_resolves_def last_at_def split: if_splits)
    then show ?thesis using None by (subst CheckCompatible_loop.simps) simp
  next
    case (Some err)
    note kind = checkCompatible_rewinds[OF assms less.prems(2) Some]
    show ?thesis
    proof (cases "lasterr \<noteq> None \<and> RewindToBlock err = RewindToBlock (the lasterr) \<and> RewindToTime err = RewindToTime (the lasterr)")
      case True
      then obtain e where e: "lasterr = Some e" "RewindToBlock err = RewindToBlock e" "RewindToTime err = RewindToTime e" by auto
      have "rewind_resolves c n e"
        using kind less.prems(3) e genesis
        by (auto simp: rewinds_block_def rewinds_time_def rewind_resolves_def last_at_def split: if_splits)
      then show ?thesis using Some True e by (subst CheckCompatible_loop.simps) simp
    next
      case go: False
      consider (time) "0 < RewindToTime err" "RewindToTime err < t" "time_conflict c n (RewindToTime err + 1)"
        | (down) "RewindToTime err = 0" "uint (RewindToBlock err) < h" "block_conflict c n (uint (RewindToBlock err) + 1)"
        | (stay) "RewindToTime err = 0" "h = 0" "RewindToBlock err = 0" "block_conflict c n 0" "block_conflict c n 1"
        using kind less.prems(1) by (cases "h = 0") (auto simp: rewinds_block_def rewinds_time_def word_gt_0)
      then show ?thesis
      proof cases
        case time
        then have "nat h + unat (RewindToTime err) < nat h + unat t" by (simp add: word_less_nat_alt)
        from less.hyps[OF this less.prems(1,2), of "Some err"] time
        show ?thesis using Some go by (subst CheckCompatible_loop.simps) (auto simp: last_at_def)
      next
        case down
        then have "nat (uint (RewindToBlock err)) + unat t < nat h + unat t" using less.prems(1) by (simp only: nat_less_eq_zless[OF uint_ge_0] add_less_cancel_right)
        from less.hyps[OF this, of "Some err"] down less.prems(2)
        show ?thesis using Some go by (subst CheckCompatible_loop.simps) (auto simp: last_at_def)
      next
        case stay
        have "CheckCompatible_loop c n (Some err) 0 t = Some (Some err)"
          using Some stay by (subst CheckCompatible_loop.simps) simp
        then show ?thesis
          using Some go stay genesis by (subst CheckCompatible_loop.simps) (auto simp: rewind_resolves_def)
      qed
    qed
  qed
qed

lemma CheckCompatible_loop_keeps_error:
  "CheckCompatible_loop c n lasterr h t = Some r \<Longrightarrow> lasterr \<noteq> None \<Longrightarrow> r \<noteq> None"
  by (induction rule: CheckCompatible_loop.raw_induct[rotated, consumes 1, case_names step])
     (auto split: option.splits if_splits)

lemma CheckCompatible_nil_iff:
  "CheckCompatible c n height time = Some None \<longleftrightarrow> checkCompatible c n (uint height) time = None"
  unfolding CheckCompatible_def
  by (subst CheckCompatible_loop.simps) (auto split: option.splits dest: CheckCompatible_loop_keeps_error)

text \<open>C31. For a stored configuration with its forks in order, a new one with the same Arbitrum genesis block and no fork at
  timestamp 0 or 1, \<open>CheckCompatible\<close> ends. It returns nil exactly when no fork conflicts at the head, and otherwise an error
  with the right rewind point: a timestamp is the last one without a conflict of the forks by timestamp; a block is the last
  one without a conflict of the forks by block number, or the genesis block when such a conflict (a chain that changes between
  Arbitrum and Ethereum, a fork moved at block 0) exists at every block and no rewind resolves it.\<close>

theorem CheckCompatible_terminates:
  assumes "CheckConfigForkOrder c = None" "same_genesis c newcfg" "positive_times c" "positive_times newcfg"
  shows "\<exists>r. CheckCompatible c newcfg height time = Some r
     \<and> (r = None \<longleftrightarrow> checkCompatible c newcfg (uint height) time = None)
     \<and> (\<forall>e. r = Some e \<longrightarrow> rewind_resolves c newcfg e)"
proof -
  obtain r where r: "CheckCompatible c newcfg height time = Some r" "\<forall>e. r = Some e \<longrightarrow> rewind_resolves c newcfg e"
    using CheckCompatible_loop_spec[OF assms(2) CheckConfigForkOrder_petersburg_last[OF assms(1)] assms(3,4), of "uint height" None time]
      uint_bounded[of height] by (auto simp: CheckCompatible_def last_at_def)
  then show ?thesis using CheckCompatible_nil_iff[of c newcfg height time] by auto
qed

text \<open>A fork moved in the past, and a chain that becomes an Arbitrum chain: the second conflict exists at every block.\<close>

theorem CheckCompatible_terminates_witness:
  "(\<exists>e. CheckCompatible MainnetChainConfig (MainnetChainConfig\<lparr>BerlinBlock := Some 12000000\<rparr>) 13000000 0 = Some (Some e)
     \<and> rewind_resolves MainnetChainConfig (MainnetChainConfig\<lparr>BerlinBlock := Some 12000000\<rparr>) e)
   \<and> (\<exists>e. CheckCompatible MainnetChainConfig (MainnetChainConfig\<lparr>arb_params := no_arbitrum\<lparr>EnableArbOS := True\<rparr>\<rparr>) 13000000 0 = Some (Some e)
     \<and> rewind_resolves MainnetChainConfig (MainnetChainConfig\<lparr>arb_params := no_arbitrum\<lparr>EnableArbOS := True\<rparr>\<rparr>) e)"
proof -
  let ?n = "MainnetChainConfig\<lparr>BerlinBlock := Some 12000000\<rparr>"
  let ?a = "MainnetChainConfig\<lparr>arb_params := no_arbitrum\<lparr>EnableArbOS := True\<rparr>\<rparr>"
  have "checkCompatible MainnetChainConfig n (uint (13000000 :: uint64)) 0 \<noteq> None" if "n = ?n \<or> n = ?a" for n
    using that by (elim disjE) (simp_all add: checkCompatible_def MainnetChainConfig_def block_checks_def block_check_def
        isForkBlockIncompatible_def isBlockForked_def IsDAOFork_def IsEIP158_def checkArbitrumCompatible_def IsArbitrum_def no_arbitrum_def)
  moreover have "same_genesis MainnetChainConfig n" "positive_times MainnetChainConfig" "positive_times n" if "n = ?n \<or> n = ?a" for n
    using that by (elim disjE; simp add: same_genesis_def positive_times_def MainnetChainConfig_def IsArbitrum_def no_arbitrum_def)+
  ultimately show ?thesis
    using CheckCompatible_terminates[OF MainnetChainConfig_ordered, of ?n 13000000 0]
      CheckCompatible_terminates[OF MainnetChainConfig_ordered, of ?a 13000000 0] by (metis option.exhaust)
qed

section \<open>Compatibility: the past keeps its rules\<close>

lemma block_compatible_past:
  "\<not> isForkBlockIncompatible s s' head \<Longrightarrow> num \<le> head \<Longrightarrow> isBlockForked s (Some num) = isBlockForked s' (Some num)"
  by (auto simp: isForkBlockIncompatible_def isBlockForked_def configBlockEqual_def split: option.splits)

lemma time_compatible_past:
  "\<not> isForkTimestampIncompatible s s' head \<Longrightarrow> t \<le> head \<Longrightarrow> isTimestampForked s t = isTimestampForked s' t"
  by (auto simp: isForkTimestampIncompatible_def isTimestampForked_def configTimestampEqual_def split: option.splits)

text \<open>C30. What a configuration that \<open>CheckCompatible\<close> accepts keeps of the past. At every block and time up to the head
  all rules other than Petersburg's and the chain id are those of the stored configuration. Petersburg's rule is kept when its
  block is not rescheduled, and when a block left nil is set to Constantinople's; the chain id is kept once EIP-158 is
  active at the head, and the DAO fork with its support flag once that fork is.\<close>

theorem CheckCompatible_keeps_past:
  assumes "CheckCompatible c newcfg height time = Some None" "num \<le> uint height" "t \<le> time"
  shows "(config_Rules newcfg num m t v)\<lparr>r_ChainID := 0, r_IsPetersburg := False\<rparr>
       = (config_Rules c num m t v)\<lparr>r_ChainID := 0, r_IsPetersburg := False\<rparr>
    \<and> (PetersburgBlock newcfg = PetersburgBlock c \<or> PetersburgBlock c = None \<and> PetersburgBlock newcfg = ConstantinopleBlock c
         \<longrightarrow> IsPetersburg newcfg num = IsPetersburg c num)
    \<and> (IsEIP158 c (uint height) \<longrightarrow> ChainID newcfg = ChainID c)
    \<and> (IsDAOFork c num = IsDAOFork newcfg num) \<and> (IsDAOFork c (uint height) \<longrightarrow> DAOForkSupport c = DAOForkSupport newcfg)"
proof -
  have "checkCompatible c newcfg (uint height) time = None" using assms(1) by (simp add: CheckCompatible_nil_iff)
  then have B: "\<forall>e\<in>set (block_checks c newcfg (uint height)). e = None"
    and T: "\<forall>e\<in>set (time_checks c newcfg time). e = None" by (auto simp: checkCompatible_None)
  note P = block_compatible_past[OF _ assms(2)] and Q = time_compatible_past[OF _ assms(3)]
  from B have A: "IsArbitrum c = IsArbitrum newcfg"
    "IsArbitrum c \<Longrightarrow> GenesisBlockNum (arb_params c) = GenesisBlockNum (arb_params newcfg)"
    by (auto simp: block_checks_def checkArbitrumCompatible_def Let_def split: if_splits)
  have F: "IsHomestead c num = IsHomestead newcfg num" "IsDAOFork c num = IsDAOFork newcfg num"
    "IsEIP150 c num = IsEIP150 newcfg num" "IsEIP155 c num = IsEIP155 newcfg num" "IsEIP158 c num = IsEIP158 newcfg num"
    "IsByzantium c num = IsByzantium newcfg num" "IsConstantinople c num = IsConstantinople newcfg num"
    "IsIstanbul c num = IsIstanbul newcfg num" "IsBerlin c num = IsBerlin newcfg num"
    "isBlockForked (LondonBlock c) (Some num) = isBlockForked (LondonBlock newcfg) (Some num)"
    using B unfolding IsHomestead_def IsDAOFork_def IsEIP150_def IsEIP155_def IsEIP158_def IsByzantium_def
      IsConstantinople_def IsIstanbul_def IsBerlin_def
    by (intro P; simp add: block_checks_def first_error_check)+
  have S: "isTimestampForked (ShanghaiTime c) t = isTimestampForked (ShanghaiTime newcfg) t"
    "isTimestampForked (CancunTime c) t = isTimestampForked (CancunTime newcfg) t"
    "isTimestampForked (PragueTime c) t = isTimestampForked (PragueTime newcfg) t"
    using T by (intro Q; simp add: time_checks_def first_error_check)+
  have L: "IsLondon c num = IsLondon newcfg num" using A F(10) by (simp add: IsLondon_def)
  have E: "config_Rules newcfg num m t v\<lparr>r_ChainID := 0, r_IsPetersburg := False\<rparr>
       = config_Rules c num m t v\<lparr>r_ChainID := 0, r_IsPetersburg := False\<rparr>"
    using A F S L by (simp add: config_Rules_def IsShanghai_def IsCancun_def IsPrague_def)
  have "IsEIP158 c (uint height) \<longrightarrow> ChainID newcfg = ChainID c"
    using B by (simp add: block_checks_def split: if_splits)
  moreover have "IsDAOFork c (uint height) \<longrightarrow> DAOForkSupport c = DAOForkSupport newcfg"
    using B by (simp add: block_checks_def split: if_splits)
  moreover have "PetersburgBlock newcfg = PetersburgBlock c \<or> PetersburgBlock c = None \<and> PetersburgBlock newcfg = ConstantinopleBlock c
      \<longrightarrow> IsPetersburg newcfg num = IsPetersburg c num"
    using F(7) by (auto simp: IsPetersburg_def IsConstantinople_def isBlockForked_def split: option.splits)
  ultimately show ?thesis using E F(2) by blast
qed

theorem CheckCompatible_keeps_past_witness:
  "IsBerlin (MainnetChainConfig\<lparr>CancunTime := Some 2000000000\<rparr>) 12244000 = IsBerlin MainnetChainConfig 12244000
   \<and> CheckCompatible MainnetChainConfig (MainnetChainConfig\<lparr>CancunTime := Some 2000000000\<rparr>) 17000000 1700000000 = Some None"
proof -
  let ?n = "MainnetChainConfig\<lparr>CancunTime := Some 2000000000\<rparr>"
  have "checkCompatible MainnetChainConfig ?n (uint (17000000 :: uint64)) 1700000000 = None"
    by (simp add: checkCompatible_def MainnetChainConfig_def block_checks_def time_checks_def block_check_def time_check_def
        isForkBlockIncompatible_def isForkTimestampIncompatible_def configTimestampEqual_def isTimestampForked_def
        isBlockForked_def IsDAOFork_def IsEIP158_def checkArbitrumCompatible_def IsArbitrum_def no_arbitrum_def)
  then have ok: "CheckCompatible MainnetChainConfig ?n 17000000 1700000000 = Some None" by (simp add: CheckCompatible_nil_iff)
  show ?thesis
    using CheckCompatible_keeps_past[OF ok, of 12244000 0 False 0] ok by (simp add: config_Rules_def)
qed

text \<open>
  What the hypotheses leave out. A Petersburg block that the stored configuration leaves nil (active with
  Constantinople) can be moved beyond the head, although Petersburg has been active:
\<close>

lemma CheckCompatible_moves_Petersburg:
  assumes "c = MainnetChainConfig\<lparr>PetersburgBlock := None\<rparr>" "n = MainnetChainConfig\<lparr>PetersburgBlock := Some 9000000\<rparr>"
  shows "CheckCompatible c n 8000000 0 = Some None \<and> IsPetersburg c 7500000 \<and> \<not> IsPetersburg n 7500000"
  by (simp add: assms CheckCompatible_nil_iff checkCompatible_def MainnetChainConfig_def block_checks_def time_checks_def
      block_check_def time_check_def isForkBlockIncompatible_def isForkTimestampIncompatible_def configTimestampEqual_def
      isTimestampForked_def isBlockForked_def IsDAOFork_def IsEIP158_def checkArbitrumCompatible_def IsArbitrum_def
      no_arbitrum_def IsPetersburg_def)

text \<open>
  The Arbitrum genesis check looks at no head and can rewind upwards: the search then alternates
  between a fork below the genesis block and the genesis block and never ends.
\<close>

definition arb_config :: "int \<Rightarrow> uint64 \<Rightarrow> ChainConfig" where
  "arb_config homestead genesis = MainnetChainConfig\<lparr>HomesteadBlock := Some homestead,
     arb_params := no_arbitrum\<lparr>EnableArbOS := True, GenesisBlockNum := genesis\<rparr>\<rparr>"

lemma CheckCompatible_diverges:
  "CheckCompatible (arb_config 5 10) (arb_config 7 20) 3 0 = None"
proof -
  define c where "c = arb_config 5 10"
  define n where "n = arb_config 7 20"
  define eh where "eh = newBlockCompatError ''Homestead fork block'' (Some 5) (Some 7)"
  define eg where "eg = newBlockCompatError ''genesisblocknum'' (Some 10) (Some 20)"
  have g: "checkCompatible c n h 0 = Some eg" if "h < 5" for h
    using that by (simp add: c_def n_def eg_def arb_config_def checkCompatible_def MainnetChainConfig_def block_checks_def block_check_def
      isForkBlockIncompatible_def isBlockForked_def IsDAOFork_def IsEIP158_def checkArbitrumCompatible_def IsArbitrum_def no_arbitrum_def)
  have h: "checkCompatible c n 9 0 = Some eh"
    by (simp add: c_def n_def eh_def arb_config_def checkCompatible_def MainnetChainConfig_def block_checks_def block_check_def
      isForkBlockIncompatible_def isBlockForked_def)
  have r: "RewindToBlock eg = 9" "RewindToBlock eh = 4" "RewindToTime eg = 0" "RewindToTime eh = 0"
    by (simp_all add: eg_def eh_def newBlockCompatError_def)
  have cyc: "\<not> (c' = c \<and> n' = n \<and> t = 0 \<and> (l = Some eg \<and> k = 9 \<or> l = Some eh \<and> k = 4))"
    if "CheckCompatible_loop c' n' l k t = Some y" for c' n' l k t y
    using that
    by (induction rule: CheckCompatible_loop.raw_induct[rotated, consumes 1, case_names step])
       (auto simp: g h r; blast)
  have "CheckCompatible_loop c n (Some eg) 9 0 = None" using cyc[of c n "Some eg" 9 0] by (cases "CheckCompatible_loop c n (Some eg) 9 0") simp_all
  then have "CheckCompatible c n 3 0 = None"
    unfolding CheckCompatible_def by (subst CheckCompatible_loop.simps) (simp add: g r)
  then show ?thesis by (simp add: c_def n_def)
qed

text \<open>
  A conflict at timestamp 0 is reported with the largest timestamp as its rewind point, and when a block fork and a
  later time fork conflict, only the later point is reported.
\<close>

lemma CheckCompatible_time_wraps:
  "RewindToTime (newTimestampCompatError w (Some 0) n) = - 1"
  by (simp add: newTimestampCompatError_def word_gt_0 split: option.split)

lemma CheckCompatible_reports_later_point:
  assumes "n = MainnetChainConfig\<lparr>LondonBlock := Some 12000000, ShanghaiTime := Some 1600000000\<rparr>"
  shows "CheckCompatible MainnetChainConfig n 17000000 1700000000 =
     Some (Some (newTimestampCompatError ''Shanghai fork timestamp'' (ShanghaiTime MainnetChainConfig) (ShanghaiTime n)))"
proof -
  note E = checkCompatible_def MainnetChainConfig_def block_checks_def time_checks_def
      block_check_def time_check_def isForkBlockIncompatible_def isForkTimestampIncompatible_def configTimestampEqual_def
      isTimestampForked_def isBlockForked_def IsDAOFork_def IsEIP158_def checkArbitrumCompatible_def IsArbitrum_def
      no_arbitrum_def newTimestampCompatError_def newBlockCompatError_def
  define eb where "eb = newBlockCompatError ''London fork block'' (Some 12965000) (Some 12000000)"
  define et where "et = newTimestampCompatError ''Shanghai fork timestamp'' (Some 1681338455) (Some 1600000000)"
  have 1: "checkCompatible MainnetChainConfig n 17000000 1700000000 = Some eb" by (simp add: assms eb_def E)
  have 2: "checkCompatible MainnetChainConfig n 11999999 1700000000 = Some et" by (simp add: assms et_def E)
  have 3: "checkCompatible MainnetChainConfig n 11999999 1599999999 = None" by (simp add: assms E)
  have r: "RewindToBlock eb = 11999999" "RewindToTime eb = 0" "RewindToBlock et = 0" "RewindToTime et = 1599999999"
    by (simp_all add: eb_def et_def E)
  have "CheckCompatible_loop MainnetChainConfig n (Some et) 11999999 1599999999 = Some (Some et)"
    by (subst CheckCompatible_loop.simps) (simp add: 3)
  then have "CheckCompatible_loop MainnetChainConfig n (Some eb) 11999999 1700000000 = Some (Some et)"
    by (subst CheckCompatible_loop.simps) (simp add: 2 r)
  then have "CheckCompatible MainnetChainConfig n 17000000 1700000000 = Some (Some et)"
    unfolding CheckCompatible_def by (subst CheckCompatible_loop.simps) (simp add: 1 r)
  then show ?thesis by (simp add: et_def assms MainnetChainConfig_def)
qed

end
