(* ===== verification/Consensus_Misc.thy ===== *)
theory Consensus_Misc
  imports Chain_Config Complex_Main
begin

text \<open>
  The fee and gas-limit rules of \<open>consensus/misc\<close>: EIP-1559 base fees (\<open>eip1559.go\<close>), the gas-limit
  bound (\<open>gaslimit.go\<close>), the blob fee of EIP-4844 (\<open>eip4844.go\<close>) and the DAO fork header rule
  (\<open>dao.go\<close>). \<open>big.Int\<close> is \<open>int\<close>; gas amounts are 64-bit words and wrap.
\<close>

section \<open>Headers and constants\<close>

text \<open>The fields of \<open>types.Header\<close> the rules look at; a nil \<open>BaseFee\<close> is \<open>None\<close>.\<close>

record Header =
  hd_Number :: int
  hd_GasLimit :: uint64
  hd_GasUsed :: uint64
  hd_BaseFee :: "int option"
  hd_Extra :: bytes

definition ElasticityMultiplier :: uint64 where
  "ElasticityMultiplier = 2"

definition BaseFeeChangeDenominator :: uint64 where
  "BaseFeeChangeDenominator = 8"

definition InitialBaseFee :: int where
  "InitialBaseFee = 1000000000"

definition GasLimitBoundDivisor :: uint64 where
  "GasLimitBoundDivisor = 1024"

definition MinGasLimit :: uint64 where
  "MinGasLimit = 5000"

text \<open>\<open>big.Int.Div\<close> is Euclidean division and panics on a zero divisor.\<close>

definition ediv :: "int \<Rightarrow> int \<Rightarrow> int" where
  "ediv x y = (if y < 0 then - (x div (- y)) else x div y)"

definition big_Div :: "int \<Rightarrow> int \<Rightarrow> (string, int) outcome" where
  "big_Div x y = (if y = 0 then Panic else Ret (ediv x y))"

definition BigMax :: "int \<Rightarrow> int \<Rightarrow> int" where
  "BigMax x y = (if x < y then y else x)"

section \<open>Base fee\<close>

definition CalcBaseFee :: "ChainConfig \<Rightarrow> Header \<Rightarrow> (string, int) outcome" where
  "CalcBaseFee config parent =
     (if \<not> IsLondon config (hd_Number parent) then Ret InitialBaseFee
      else
       (let parentGasTarget = hd_GasLimit parent div ElasticityMultiplier in
        case hd_BaseFee parent of
          None \<Rightarrow> Panic
        | Some fee \<Rightarrow>
            if hd_GasUsed parent = parentGasTarget then Ret fee
            else if hd_GasUsed parent > parentGasTarget then
              bind_outcome (big_Div (uint (hd_GasUsed parent - parentGasTarget) * fee) (uint parentGasTarget)) (\<lambda>num.
              bind_outcome (big_Div num (uint BaseFeeChangeDenominator)) (\<lambda>num.
                Ret (fee + BigMax num 1)))
            else
              bind_outcome (big_Div (uint (parentGasTarget - hd_GasUsed parent) * fee) (uint parentGasTarget)) (\<lambda>num.
              bind_outcome (big_Div num (uint BaseFeeChangeDenominator)) (\<lambda>num.
                Ret (BigMax (fee - num) 0)))))"

definition VerifyGaslimit :: "uint64 \<Rightarrow> uint64 \<Rightarrow> (string, unit) outcome" where
  "VerifyGaslimit parentGasLimit headerGasLimit =
     (let diff = parentGasLimit - headerGasLimit;
          diff = (if sint diff < 0 then - diff else diff);
          limit = parentGasLimit div GasLimitBoundDivisor in
      if diff \<ge> limit then Fail ''invalid gas limit''
      else if headerGasLimit < MinGasLimit then Fail ''invalid gas limit below 5000''
      else Ret ())"

definition VerifyEip1559Header :: "ChainConfig \<Rightarrow> Header \<Rightarrow> Header \<Rightarrow> (string, unit) outcome" where
  "VerifyEip1559Header config parent header =
     (let parentGasLimit = (if \<not> IsLondon config (hd_Number parent)
                            then hd_GasLimit parent * ElasticityMultiplier else hd_GasLimit parent) in
      bind_outcome (VerifyGaslimit parentGasLimit (hd_GasLimit header)) (\<lambda>_.
        case hd_BaseFee header of
          None \<Rightarrow> Fail ''header is missing baseFee''
        | Some fee \<Rightarrow>
            bind_outcome (CalcBaseFee config parent) (\<lambda>expected.
              if fee \<noteq> expected then Fail ''invalid baseFee'' else Ret ())))"

section \<open>Blob fee\<close>

partial_function (option) fakeExponential_loop :: "int \<Rightarrow> int \<Rightarrow> nat \<Rightarrow> int \<Rightarrow> int \<Rightarrow> int option" where
  "fakeExponential_loop numerator denominator i accum output =
     (if accum > 0 then
        fakeExponential_loop numerator denominator (i + 1)
          (ediv (ediv (accum * numerator) denominator) (int i)) (output + accum)
      else Some output)"

text \<open>
  \<open>None\<close> is a loop that does not end. With a zero denominator the loop is not entered, so the
  divisions in it have non-zero divisors; the one after it panics.
\<close>

definition fakeExponential :: "int \<Rightarrow> int \<Rightarrow> int \<Rightarrow> (string, int) outcome option" where
  "fakeExponential factor numerator denominator =
     (case fakeExponential_loop numerator denominator 1 (factor * denominator) 0 of
        None \<Rightarrow> None | Some output \<Rightarrow> Some (big_Div output denominator))"

definition BlobTxMinDataGasprice :: int where
  "BlobTxMinDataGasprice = 1"

definition BlobTxDataGaspriceUpdateFraction :: int where
  "BlobTxDataGaspriceUpdateFraction = 2225652"

definition CalcBlobFee :: "int option \<Rightarrow> (string, int) outcome option" where
  "CalcBlobFee excessDataGas =
     (case excessDataGas of
        None \<Rightarrow> Some (Ret BlobTxMinDataGasprice)
      | Some x \<Rightarrow> fakeExponential BlobTxMinDataGasprice x BlobTxDataGaspriceUpdateFraction)"

section \<open>DAO fork\<close>

definition DAOForkBlockExtra :: bytes where
  "DAOForkBlockExtra = [0x64, 0x61, 0x6f, 0x2d, 0x68, 0x61, 0x72, 0x64, 0x2d, 0x66, 0x6f, 0x72, 0x6b]"

definition DAOForkExtraRange :: int where
  "DAOForkExtraRange = 10"

datatype dao_error = ErrBadProDAOExtra | ErrBadNoDAOExtra

definition VerifyDAOHeaderExtraData :: "ChainConfig \<Rightarrow> Header \<Rightarrow> (dao_error, unit) outcome" where
  "VerifyDAOHeaderExtraData config header =
     (case DAOForkBlock config of
        None \<Rightarrow> Ret ()
      | Some forkBlock \<Rightarrow>
          (let limit = forkBlock + DAOForkExtraRange in
           if hd_Number header < forkBlock \<or> hd_Number header \<ge> limit then Ret ()
           else if DAOForkSupport config then
             (if hd_Extra header \<noteq> DAOForkBlockExtra then Fail ErrBadProDAOExtra else Ret ())
           else (if hd_Extra header = DAOForkBlockExtra then Fail ErrBadNoDAOExtra else Ret ())))"

section \<open>Lemmas\<close>

lemma big_Div_pos: "0 < y \<Longrightarrow> big_Div x y = Ret (x div y)"
  by (simp add: big_Div_def ediv_def)

lemma uint_div2: "uint (w div ElasticityMultiplier) = uint w div 2"
  by (simp add: ElasticityMultiplier_def uint_div)

lemma zdiv_less_of_less_mult: "x < a * y \<Longrightarrow> 0 < y \<Longrightarrow> x div y < (a :: int)"
proof (rule ccontr)
  assume h: "x < a * y" "0 < y" "\<not> x div y < a"
  then have "a * y \<le> x div y * y" by (intro mult_right_mono) auto
  also have "\<dots> \<le> x" using h(2) by (simp add: minus_mod_eq_div_mult [symmetric])
  finally show False using h(1) by simp
qed

text \<open>The loop of \<open>fakeExponential\<close> ends: from \<open>i\<close> above \<open>numerator / denominator\<close> on, the term shrinks.\<close>

lemma fakeExponential_step_less:
  fixes a n d :: int
  assumes "0 < a" "0 \<le> n" "0 < d" "n < int i * d"
  shows "ediv (ediv (a * n) d) (int i) < a" "0 \<le> ediv (ediv (a * n) d) (int i)"
proof -
  have i: "0 < int i" using assms by (cases i) auto
  have E: "ediv (ediv (a * n) d) (int i) = a * n div (d * int i)" using assms(3) i by (simp add: ediv_def zdiv_zmult2_eq)
  also have "\<dots> < a"
  proof -
    have "a * n < a * (d * int i)" using assms by (simp add: mult.commute)
    then show ?thesis using assms(3) i by (intro zdiv_less_of_less_mult) auto
  qed
  finally show "ediv (ediv (a * n) d) (int i) < a" .
  show "0 \<le> ediv (ediv (a * n) d) (int i)" using assms i by (simp add: E pos_imp_zdiv_nonneg_iff)
qed

lemma fakeExponential_loop_ends:
  fixes n d :: int
  assumes "0 \<le> n" "0 < d" "1 \<le> i"
  shows "\<exists>r. fakeExponential_loop n d i a out = Some r"
proof -
  have late: "\<exists>r. fakeExponential_loop n d i a out = Some r" if "n < int i * d" for i a out
    using that
  proof (induction "nat a" arbitrary: i a out rule: less_induct)
    case less
    show ?case
    proof (cases "0 < a")
      case True
      note S = fakeExponential_step_less[OF True assms(1,2) less.prems]
      have "n < int (i + 1) * d" using less.prems assms(2) by (simp add: distrib_right)
      then have "\<exists>r. fakeExponential_loop n d (i + 1) (ediv (ediv (a * n) d) (int i)) (out + a) = Some r"
        using less.hyps S True by simp
      then show ?thesis using True by (subst fakeExponential_loop.simps) simp
    next
      case False
      then show ?thesis by (subst fakeExponential_loop.simps) simp
    qed
  qed
  show ?thesis
    using assms(3)
  proof (induction "nat (n div d + 1) - i" arbitrary: i a out rule: less_induct)
    case less
    show ?case
    proof (cases "n < int i * d")
      case True
      then show ?thesis by (rule late)
    next
      case False
      then have "int i \<le> n div d" using zdiv_mono1[of "int i * d" n d] assms(2) by simp
      then have "nat (n div d + 1) - (i + 1) < nat (n div d + 1) - i" by linarith
      from less.hyps[OF this] have "\<exists>r. fakeExponential_loop n d (i + 1) (ediv (ediv (a * n) d) (int i)) (out + a) = Some r" by simp
      then show ?thesis by (subst fakeExponential_loop.simps) simp
    qed
  qed
qed

text \<open>Terms and sum stay below the terms and partial sums of the series of \<open>factor * exp\<close>.\<close>

lemma fakeExponential_loop_bound:
  fixes n d :: int and x F :: real
  assumes "fakeExponential_loop n d i a out = Some r"
    and "0 \<le> n" "0 < d" "x = n / d" "1 \<le> i" "0 \<le> F"
    and "real_of_int a \<le> F * x ^ (i - 1) / fact (i - 1)"
    and "real_of_int out \<le> (\<Sum>k<i - 1. F * x ^ k / fact k)"
  shows "real_of_int r \<le> F * exp x \<and> out \<le> r"
  using assms
proof (induction rule: fakeExponential_loop.raw_induct[rotated, consumes 1, case_names 1])
  case (1 loop n d i a out r)
  have x0: "0 \<le> x" using "1.prems" by simp
  show ?case
  proof (cases "0 < a")
    case True
    have i: "0 < int i" using "1.prems" by simp
    let ?a = "ediv (ediv (a * n) d) (int i)"
    have L: "loop n d (i + 1) ?a (out + a) = Some r" using "1.hyps" True by simp
    have "real_of_int ?a = real_of_int (a * n div (d * int i))"
      using "1.prems"(2) i by (simp add: ediv_def zdiv_zmult2_eq)
    also have "\<dots> \<le> real_of_int (a * n) / real_of_int (d * int i)" by (rule real_of_int_div4)
    also have "\<dots> = a * x / i" using "1.prems"(3) by simp
    also have "\<dots> \<le> (F * x ^ (i - 1) / fact (i - 1)) * x / i"
      using "1.prems"(6) x0 by (intro divide_right_mono mult_right_mono) auto
    also have "\<dots> = F * x ^ i / fact i" using "1.prems"(4)
      by (cases i) (simp_all add: fact_Suc mult.commute)
    finally have A: "real_of_int ?a \<le> F * x ^ i / fact i" .
    have S: "real_of_int (out + a) \<le> (\<Sum>k<i. F * x ^ k / fact k)"
      using "1.prems"(4,6,7) by (cases i) auto
    show ?thesis using "1.IH"[OF L "1.prems"(1,2,3) _ "1.prems"(5)] A S True by simp
  next
    case False
    then have r: "r = out" using "1.hyps" by simp
    have "(\<Sum>k<i - 1. F * x ^ k / fact k) = F * (\<Sum>k<i - 1. x ^ k / fact k)"
      by (simp add: sum_distrib_left)
    also have "\<dots> \<le> F * exp x"
    proof (rule mult_left_mono[OF _ "1.prems"(5)])
      have "(\<lambda>k. x ^ k / fact k) sums exp x" using exp_converges[of x] by (simp add: divide_inverse_commute)
      then show "(\<Sum>k<i - 1. x ^ k / fact k) \<le> exp x"
        using sum_le_suminf[of "\<lambda>k. x ^ k / fact k" "{..<i - 1}"] x0
        by (simp add: sums_iff)
    qed
    finally show ?thesis using "1.prems"(7) r by simp
  qed
qed

lemma fakeExponential_bounds:
  assumes "0 \<le> factor" "0 \<le> numerator" "0 < denominator"
  obtains r where "fakeExponential factor numerator denominator = Some (Ret r)"
    "factor \<le> r" "real_of_int r \<le> factor * exp (numerator / denominator)"
proof -
  obtain s where L: "fakeExponential_loop numerator denominator 1 (factor * denominator) 0 = Some s"
    using fakeExponential_loop_ends[OF assms(2,3), of 1] by auto
  have U: "real_of_int s \<le> real_of_int (factor * denominator) * exp (numerator / denominator)"
    using fakeExponential_loop_bound[OF L assms(2,3) refl, of "real_of_int (factor * denominator)"] assms(1,3) by simp
  have lo: "factor * denominator \<le> s"
  proof (cases "factor = 0")
    case True
    then show ?thesis using fakeExponential_loop_bound[OF L assms(2,3) refl, of "real_of_int (factor * denominator)"] by simp
  next
    case False
    then have pos: "0 < factor * denominator" using assms by simp
    let ?a = "ediv (ediv (factor * denominator * numerator) denominator) (int 1)"
    have L2: "fakeExponential_loop numerator denominator 2 ?a (factor * denominator) = Some s"
      using L pos by (subst (asm) fakeExponential_loop.simps) (simp add: numeral_2_eq_2)
    have "ediv (ediv (factor * denominator * numerator) denominator) (int 1) = factor * numerator"
      using assms(3) by (simp add: ediv_def mult.assoc mult.left_commute[of factor denominator])
    then have A: "real_of_int ?a \<le> real_of_int (factor * denominator) * (numerator / denominator)"
      using assms(3) by simp
    show ?thesis
      using fakeExponential_loop_bound[OF L2 assms(2,3) refl, of "real_of_int (factor * denominator)"] A assms(1,3) by simp
  qed
  have "factor \<le> s div denominator" using zdiv_mono1[OF lo assms(3)] assms(3) by simp
  moreover have "real_of_int (s div denominator) \<le> factor * exp (numerator / denominator)"
  proof -
    have "real_of_int (s div denominator) \<le> real_of_int s / denominator" by (rule real_of_int_div4)
    also have "\<dots> \<le> real_of_int (factor * denominator) * exp (numerator / denominator) / denominator"
      using U assms(3) by (intro divide_right_mono) auto
    finally show ?thesis using assms(3) by simp
  qed
  ultimately show thesis
    using that[of "s div denominator"] L assms(3) by (simp add: fakeExponential_def big_Div_pos)
qed

text \<open>C34. \<open>fakeExponential\<close> ends for every non-negative numerator and positive denominator, and its result
  lies between \<open>factor\<close> and \<open>factor\<close> times the exponential of the quotient.\<close>

theorem fakeExponential_correct:
  assumes "0 \<le> factor" "0 \<le> numerator" "0 < denominator"
  shows "\<exists>r. fakeExponential factor numerator denominator = Some (Ret r) \<and> factor \<le> r
           \<and> real_of_int r \<le> factor * exp (numerator / denominator)"
  using fakeExponential_bounds[OF assms] by metis

theorem fakeExponential_correct_witness:
  "\<exists>r. fakeExponential 1 7 2 = Some (Ret r) \<and> 1 \<le> r \<and> real_of_int r \<le> exp (7 / 2)"
  using fakeExponential_correct[of 1 7 2] by simp

section \<open>Bounds of the base fee\<close>

lemma scaled_div:
  fixes b :: int
  assumes "0 \<le> b" "0 \<le> u" "u \<le> t" "0 < t"
  shows "u * b div t div 8 \<le> b div 8" "0 \<le> u * b div t div 8"
proof -
  have "u * b \<le> t * b" using assms by (intro mult_right_mono) auto
  then have "u * b div t \<le> b" using zdiv_mono1[of "u * b" "t * b" t] assms by simp
  then show "u * b div t div 8 \<le> b div 8" by (rule zdiv_mono1) simp
  show "0 \<le> u * b div t div 8" using assms by (simp add: pos_imp_zdiv_nonneg_iff)
qed

lemma CalcBaseFee_value:
  assumes "IsLondon config (hd_Number parent)" "hd_BaseFee parent = Some b" "2 \<le> uint (hd_GasLimit parent)"
  defines "t \<equiv> uint (hd_GasLimit parent) div 2" and "u \<equiv> uint (hd_GasUsed parent)"
  shows "CalcBaseFee config parent = Ret (if u = t then b
           else if u > t then b + max ((u - t) * b div t div 8) 1
           else max (b - (t - u) * b div t div 8) 0)"
proof -
  have T: "uint (hd_GasLimit parent div ElasticityMultiplier) = t" by (simp add: uint_div2 t_def)
  have t0: "0 < t" using assms(3) by (simp add: t_def)
  have d: "uint BaseFeeChangeDenominator = 8" by (simp add: BaseFeeChangeDenominator_def)
  have M: "BigMax x y = max x y" for x y by (simp add: BigMax_def max_def)
  have eq: "hd_GasUsed parent = hd_GasLimit parent div ElasticityMultiplier \<longleftrightarrow> u = t"
    by (simp add: T[symmetric] u_def word_uint_eq_iff)
  have lt: "hd_GasUsed parent > hd_GasLimit parent div ElasticityMultiplier \<longleftrightarrow> u > t"
    by (simp add: T[symmetric] u_def word_less_def)
  have s1: "uint (hd_GasUsed parent - hd_GasLimit parent div ElasticityMultiplier) = u - t" if "t < u"
    using that T by (subst uint_sub_if') (simp add: u_def)
  have s2: "uint (hd_GasLimit parent div ElasticityMultiplier - hd_GasUsed parent) = t - u" if "u < t"
    using that T by (subst uint_sub_if') (simp add: u_def)
  show ?thesis
    using assms(1,2) t0
    by (auto simp: CalcBaseFee_def Let_def eq lt s1 s2 T d M big_Div_pos)
qed

text \<open>C33. The base fee moves by at most an eighth, and by at least one wei upwards: for a London parent with an
  even gas limit, a base fee, and no more gas used than its limit, \<open>CalcBaseFee\<close> returns, the fee is never
  negative, it rises exactly above the target, it does not rise below it, and a full or an empty block moves it by the
  full eighth.\<close>

theorem CalcBaseFee_bounds:
  assumes "IsLondon config (hd_Number parent)" "hd_BaseFee parent = Some b" "0 \<le> b"
    and "2 \<le> uint (hd_GasLimit parent)" "even (uint (hd_GasLimit parent))"
    and "hd_GasUsed parent \<le> hd_GasLimit parent"
  shows "\<exists>r. CalcBaseFee config parent = Ret r \<and> 0 \<le> r \<and> \<bar>r - b\<bar> \<le> max 1 (b div 8)
     \<and> (uint (hd_GasUsed parent) * 2 = uint (hd_GasLimit parent) \<longrightarrow> r = b)
     \<and> (uint (hd_GasUsed parent) * 2 > uint (hd_GasLimit parent) \<longrightarrow> r > b)
     \<and> (uint (hd_GasUsed parent) * 2 < uint (hd_GasLimit parent) \<longrightarrow> r \<le> b)
     \<and> (hd_GasUsed parent = hd_GasLimit parent \<longrightarrow> r = b + max 1 (b div 8))
     \<and> (hd_GasUsed parent = 0 \<longrightarrow> r = b - b div 8)"
proof -
  define t where "t = uint (hd_GasLimit parent) div 2"
  define u where "u = uint (hd_GasUsed parent)"
  have L: "uint (hd_GasLimit parent) = 2 * t" using assms(5) by (simp add: t_def)
  have t0: "0 < t" using assms(4) by (simp add: t_def)
  have u: "0 \<le> u" "u \<le> 2 * t" using assms(6) L by (simp_all add: u_def word_le_def)
  have full: "hd_GasUsed parent = hd_GasLimit parent \<longleftrightarrow> u = 2 * t" and none: "hd_GasUsed parent = 0 \<longleftrightarrow> u = 0"
    using L by (simp_all add: u_def word_uint_eq_iff)
  note V = CalcBaseFee_value[OF assms(1,2,4), folded t_def u_def]
  have b8: "0 \<le> b div 8" "b div 8 \<le> b" using assms(3) by simp_all
  consider "u = t" | "t < u" | "u < t" by linarith
  then show ?thesis
  proof cases
    case 1
    then show ?thesis using V t0 assms(3) b8 full none L by (simp add: u_def[symmetric])
  next
    case 2
    note D = scaled_div[of b "u - t" t, OF assms(3) _ _ t0]
    have "u = 2 * t \<Longrightarrow> (u - t) * b div t div 8 = b div 8" using t0 by simp
    then show ?thesis using V 2 D u t0 assms(3) b8 full none L by (simp add: u_def[symmetric] max_def)
  next
    case 3
    note D = scaled_div[of b "t - u" t, OF assms(3) _ _ t0]
    have "u = 0 \<Longrightarrow> (t - u) * b div t div 8 = b div 8" using t0 by simp
    then show ?thesis using V 3 D u t0 assms(3) b8 full none L by (simp add: u_def[symmetric] max_def)
  qed
qed

text \<open>The parent of the block the witness looks at: a full block at the largest base fee step.\<close>

definition sample_parent :: Header where
  "sample_parent = \<lparr>hd_Number = 12965000, hd_GasLimit = 30000000, hd_GasUsed = 30000000,
     hd_BaseFee = Some 1000, hd_Extra = []\<rparr>"

theorem CalcBaseFee_bounds_witness:
  "CalcBaseFee MainnetChainConfig sample_parent = Ret 1125"
  using CalcBaseFee_bounds[of MainnetChainConfig sample_parent 1000]
  by (simp add: MainnetChainConfig_def no_arbitrum_def IsArbitrum_def sample_parent_def IsLondon_def isBlockForked_def)

section \<open>The gas limit\<close>

lemma sint64_neg_iff: "sint (w :: uint64) < 0 \<longleftrightarrow> 2 ^ 63 \<le> uint w"
proof -
  have "sint w = (uint w + 2 ^ 63) mod 2 ^ 64 - 2 ^ 63"
    using int_word_sint[of "uint w", where 'a = 64] by simp
  moreover have B: "0 \<le> uint w" "uint w < 2 ^ 64" using uint_bounded[of w] by simp_all
  moreover have "(uint w + 2 ^ 63) mod 2 ^ 64 = uint w - 2 ^ 63" if "2 ^ 63 \<le> uint w"
  proof -
    have "(uint w + 2 ^ 63) mod 2 ^ 64 = (uint w - 2 ^ 63 + 2 ^ 64) mod 2 ^ 64" by (simp add: add.commute)
    also have "\<dots> = (uint w - 2 ^ 63) mod 2 ^ 64" by (rule mod_add_self2)
    also have "\<dots> = uint w - 2 ^ 63" using that B by (intro mod_pos_pos_trivial) simp_all
    finally show ?thesis .
  qed
  moreover have "(uint w + 2 ^ 63) mod 2 ^ 64 = uint w + 2 ^ 63" if "uint w < 2 ^ 63"
    using that by (intro mod_pos_pos_trivial) simp_all
  ultimately show ?thesis by (cases "2 ^ 63 \<le> uint w") simp_all
qed

lemma word64_abs_diff:
  fixes p h :: uint64
  assumes "uint p < 2 ^ 63" "uint h < 2 ^ 63"
  shows "uint (if sint (p - h) < 0 then - (p - h) else p - h) = \<bar>uint p - uint h\<bar>"
proof (cases "uint h \<le> uint p")
  case True
  then have U: "uint (p - h) = uint p - uint h" by (simp add: uint_sub_if')
  then have "\<not> sint (p - h) < 0" using assms uint_ge_0[of h] unfolding sint64_neg_iff by linarith
  then show ?thesis using U True by simp
next
  case False
  have "uint (p - h) = uint p - uint h + 2 ^ 64" using False by (simp add: uint_sub_if')
  then have "sint (p - h) < 0" using assms uint_ge_0[of p] by (simp add: sint64_neg_iff, linarith)
  moreover have "uint (h - p) = uint h - uint p" using False by (simp add: uint_sub_if')
  ultimately show ?thesis using False by simp
qed

lemma VerifyGaslimit_iff:
  assumes "uint p < 2 ^ 63" "uint h < 2 ^ 63"
  shows "VerifyGaslimit p h = Ret () \<longleftrightarrow>
           \<bar>uint p - uint h\<bar> < uint p div 1024 \<and> 5000 \<le> uint h"
  using word64_abs_diff[OF assms]
  by (auto simp: VerifyGaslimit_def Let_def word_le_def word_less_def uint_div
      GasLimitBoundDivisor_def MinGasLimit_def not_le)

text \<open>C35. A header is accepted by \<open>VerifyEip1559Header\<close> exactly when its gas limit is within 1/1024 of the
  parent's (twice the parent's at the fork block) and at least 5000, and its base fee is the one that
  \<open>CalcBaseFee\<close> gives; gas limits are below \<open>2 ^ 62\<close>.\<close>

theorem VerifyEip1559Header_accepts:
  assumes "uint (hd_GasLimit parent) < 2 ^ 62" "uint (hd_GasLimit header) < 2 ^ 63"
  shows "VerifyEip1559Header config parent header = Ret () \<longleftrightarrow>
     (let l = (if IsLondon config (hd_Number parent) then 1 else 2) * uint (hd_GasLimit parent) in
      \<bar>l - uint (hd_GasLimit header)\<bar> < l div 1024 \<and> 5000 \<le> uint (hd_GasLimit header)
      \<and> (\<exists>fee. hd_BaseFee header = Some fee \<and> CalcBaseFee config parent = Ret fee))"
proof -
  define l where "l = (if \<not> IsLondon config (hd_Number parent)
                       then hd_GasLimit parent * ElasticityMultiplier else hd_GasLimit parent)"
  have l: "uint l = (if IsLondon config (hd_Number parent) then 1 else 2) * uint (hd_GasLimit parent)"
    using assms(1) by (simp add: l_def ElasticityMultiplier_def uint_word_ariths(3) mod_pos_pos_trivial)
  have "VerifyEip1559Header config parent header = Ret () \<longleftrightarrow>
     VerifyGaslimit l (hd_GasLimit header) = Ret ()
     \<and> (\<exists>fee. hd_BaseFee header = Some fee \<and> CalcBaseFee config parent = Ret fee)"
    by (cases "VerifyGaslimit l (hd_GasLimit header)"; cases "CalcBaseFee config parent")
       (auto simp: VerifyEip1559Header_def Let_def l_def[symmetric] split: option.split if_splits)
  moreover have "uint l < 2 ^ 63" using assms(1) l by simp
  ultimately show ?thesis using VerifyGaslimit_iff[OF _ assms(2), of l] l by (simp add: Let_def)
qed

theorem VerifyEip1559Header_accepts_witness:
  "VerifyEip1559Header MainnetChainConfig sample_parent (sample_parent\<lparr>hd_Number := 12965001, hd_BaseFee := Some 1125\<rparr>) = Ret ()
   \<and> VerifyEip1559Header MainnetChainConfig sample_parent (sample_parent\<lparr>hd_Number := 12965001\<rparr>) \<noteq> Ret ()"
  using VerifyEip1559Header_accepts[of sample_parent "sample_parent\<lparr>hd_Number := 12965001, hd_BaseFee := Some 1125\<rparr>" MainnetChainConfig]
    VerifyEip1559Header_accepts[of sample_parent "sample_parent\<lparr>hd_Number := 12965001\<rparr>" MainnetChainConfig]
  by (simp add: MainnetChainConfig_def no_arbitrum_def IsArbitrum_def sample_parent_def IsLondon_def isBlockForked_def CalcBaseFee_def big_Div_def
      ediv_def ElasticityMultiplier_def BaseFeeChangeDenominator_def BigMax_def Let_def)

text \<open>
  Above \<open>2 ^ 63\<close> the subtraction of the \<open>int64\<close> values wraps, and the rule measures the distance modulo
  \<open>2 ^ 64\<close>: the smallest limit is accepted after the largest one. The callers refuse limits from
  \<open>2 ^ 63\<close> on before they get here.
\<close>

lemma VerifyGaslimit_wraps: "VerifyGaslimit (2 ^ 64 - 1) 5000 = Ret ()"
  by (simp add: VerifyGaslimit_def Let_def GasLimitBoundDivisor_def MinGasLimit_def sint64_neg_iff word_le_def)

section \<open>The DAO fork header\<close>

lemma VerifyDAOHeaderExtraData_iff:
  "VerifyDAOHeaderExtraData config header = Ret () \<longleftrightarrow>
     (\<forall>f. DAOForkBlock config = Some f \<longrightarrow> f \<le> hd_Number header \<longrightarrow> hd_Number header < f + 10 \<longrightarrow>
       (hd_Extra header = DAOForkBlockExtra \<longleftrightarrow> DAOForkSupport config))"
  by (auto simp: VerifyDAOHeaderExtraData_def Let_def DAOForkExtraRange_def split: option.split)

end
