(* ===== verification/Vm_Analysis.thy ===== *)
theory Vm_Analysis
  imports Prelude
begin

text \<open>
  The jump destination analysis of \<open>core/vm/analysis.go\<close>: the bit vector that marks the bytes of a
  contract's code that are arguments of PUSH instructions. Positions are naturals: Go's \<open>uint64\<close>
  counter stays below the length of the code plus 32, and a slice is shorter than \<open>2 ^ 63\<close>.
\<close>

section \<open>The bit vector\<close>

type_synonym bitvec = bytes

definition PUSH1 :: byte where
  "PUSH1 = 0x60"

definition set2BitsMask :: "16 word" where "set2BitsMask = 0b11"
definition set3BitsMask :: "16 word" where "set3BitsMask = 0b111"
definition set4BitsMask :: "16 word" where "set4BitsMask = 0b1111"
definition set5BitsMask :: "16 word" where "set5BitsMask = 0b11111"
definition set6BitsMask :: "16 word" where "set6BitsMask = 0b111111"
definition set7BitsMask :: "16 word" where "set7BitsMask = 0b1111111"

text \<open>\<open>bits[i] |= x\<close> and \<open>bits[i] = x\<close>\<close>

definition or_at :: "bitvec \<Rightarrow> nat \<Rightarrow> byte \<Rightarrow> (string, bitvec) outcome" where
  "or_at bits i x = (if i < length bits then Ret (bits[i := bits ! i OR x]) else Panic)"

definition put_at :: "bitvec \<Rightarrow> nat \<Rightarrow> byte \<Rightarrow> (string, bitvec) outcome" where
  "put_at bits i x = (if i < length bits then Ret (bits[i := x]) else Panic)"

definition set1 :: "bitvec \<Rightarrow> nat \<Rightarrow> (string, bitvec) outcome" where
  "set1 bits pos = or_at bits (pos div 8) (push_bit (pos mod 8) 1)"

definition setN :: "bitvec \<Rightarrow> 16 word \<Rightarrow> nat \<Rightarrow> (string, bitvec) outcome" where
  "setN bits flag pos =
     (let a = push_bit (pos mod 8) flag in
      bind_outcome (or_at bits (pos div 8) (ucast a)) (\<lambda>bits.
        let b = ucast (drop_bit 8 a) in
        if b \<noteq> 0 then put_at bits (pos div 8 + 1) b else Ret bits))"

definition set8 :: "bitvec \<Rightarrow> nat \<Rightarrow> (string, bitvec) outcome" where
  "set8 bits pos =
     (let a = push_bit (pos mod 8) 0xFF in
      bind_outcome (or_at bits (pos div 8) a) (\<lambda>bits.
        put_at bits (pos div 8 + 1) (NOT a)))"

definition set16 :: "bitvec \<Rightarrow> nat \<Rightarrow> (string, bitvec) outcome" where
  "set16 bits pos =
     (let a = push_bit (pos mod 8) 0xFF in
      bind_outcome (or_at bits (pos div 8) a) (\<lambda>bits.
      bind_outcome (put_at bits (pos div 8 + 1) 0xFF) (\<lambda>bits.
        put_at bits (pos div 8 + 2) (NOT a))))"

definition codeSegment :: "bitvec \<Rightarrow> nat \<Rightarrow> (string, bool) outcome" where
  "codeSegment bits pos = bind_outcome (index bits (pos div 8)) (\<lambda>b. Ret (drop_bit (pos mod 8) b AND 1 = 0))"

section \<open>The analysis\<close>

text \<open>The two inner loops, with \<open>numbits\<close> and the position they leave.\<close>

fun push16_loop :: "bitvec \<Rightarrow> nat \<Rightarrow> nat \<Rightarrow> (string, bitvec \<times> nat \<times> nat) outcome" where
  "push16_loop bits numbits pc =
     (if numbits \<ge> 16 then bind_outcome (set16 bits pc) (\<lambda>bits. push16_loop bits (numbits - 16) (pc + 16))
      else Ret (bits, numbits, pc))"

fun push8_loop :: "bitvec \<Rightarrow> nat \<Rightarrow> nat \<Rightarrow> (string, bitvec \<times> nat \<times> nat) outcome" where
  "push8_loop bits numbits pc =
     (if numbits \<ge> 8 then bind_outcome (set8 bits pc) (\<lambda>bits. push8_loop bits (numbits - 8) (pc + 8))
      else Ret (bits, numbits, pc))"

definition push_rest :: "bitvec \<Rightarrow> nat \<Rightarrow> nat \<Rightarrow> (string, bitvec \<times> nat) outcome" where
  "push_rest bits numbits pc =
     (if numbits = 1 then bind_outcome (set1 bits pc) (\<lambda>bits. Ret (bits, pc + 1))
      else if numbits = 2 then bind_outcome (setN bits set2BitsMask pc) (\<lambda>bits. Ret (bits, pc + 2))
      else if numbits = 3 then bind_outcome (setN bits set3BitsMask pc) (\<lambda>bits. Ret (bits, pc + 3))
      else if numbits = 4 then bind_outcome (setN bits set4BitsMask pc) (\<lambda>bits. Ret (bits, pc + 4))
      else if numbits = 5 then bind_outcome (setN bits set5BitsMask pc) (\<lambda>bits. Ret (bits, pc + 5))
      else if numbits = 6 then bind_outcome (setN bits set6BitsMask pc) (\<lambda>bits. Ret (bits, pc + 6))
      else if numbits = 7 then bind_outcome (setN bits set7BitsMask pc) (\<lambda>bits. Ret (bits, pc + 7))
      else Ret (bits, pc))"

text \<open>The body for a PUSH instruction whose argument starts at \<open>pc\<close>.\<close>

definition push_mark :: "bitvec \<Rightarrow> byte \<Rightarrow> nat \<Rightarrow> (string, bitvec \<times> nat) outcome" where
  "push_mark bits op pc =
     (let numbits = unat (op - PUSH1 + 1) in
      bind_outcome
        (if numbits \<ge> 8
         then bind_outcome (push16_loop bits numbits pc) (\<lambda>(bits, numbits, pc). push8_loop bits numbits pc)
         else Ret (bits, numbits, pc))
        (\<lambda>(bits, numbits, pc). push_rest bits numbits pc))"

text \<open>
  The outer loop. The position grows by at least one in every round, which the fuel (the length of the
  code) makes a structural recursion: it never runs out, as the correctness theorem shows.
\<close>

fun codeBitmap_loop :: "nat \<Rightarrow> bytes \<Rightarrow> bitvec \<Rightarrow> nat \<Rightarrow> (string, bitvec) outcome" where
  "codeBitmap_loop 0 code bits pc = (if pc < length code then Fail ''out of fuel'' else Ret bits)"
| "codeBitmap_loop (Suc fuel) code bits pc =
     (if pc < length code then
        let op = code ! pc; pc = pc + 1 in
        if sint op < sint PUSH1 then codeBitmap_loop fuel code bits pc
        else bind_outcome (push_mark bits op pc) (\<lambda>(bits, pc). codeBitmap_loop fuel code bits pc)
      else Ret bits)"

definition codeBitmapInternal :: "bytes \<Rightarrow> bitvec \<Rightarrow> (string, bitvec) outcome" where
  "codeBitmapInternal code bits = codeBitmap_loop (length code) code bits 0"

definition codeBitmap :: "bytes \<Rightarrow> (string, bitvec) outcome" where
  "codeBitmap code = codeBitmapInternal code (replicate (length code div 8 + 1 + 4) 0)"

section \<open>Reference: instruction boundaries\<close>

text \<open>The length of the argument of an instruction: PUSH1 to PUSH32 are 0x60 to 0x7f.\<close>

definition push_size :: "byte \<Rightarrow> nat" where
  "push_size op = (if 0x60 \<le> op \<and> op \<le> 0x7f then unat op - 0x5f else 0)"

text \<open>The positions at which an instruction starts when the code is decoded from its beginning.\<close>

inductive instr_start :: "bytes \<Rightarrow> nat \<Rightarrow> bool" for code where
  start: "instr_start code 0"
| step: "instr_start code pc \<Longrightarrow> pc < length code \<Longrightarrow> instr_start code (pc + 1 + push_size (code ! pc))"

section \<open>Setting a range of bits\<close>

definition bit_at :: "bitvec \<Rightarrow> nat \<Rightarrow> bool" where
  "bit_at bits q \<longleftrightarrow> q div 8 < length bits \<and> bit (bits ! (q div 8)) (q mod 8)"

text \<open>\<open>marks f n\<close>: the setter \<open>f\<close> marks the \<open>n\<close> positions from \<open>pos\<close> on, when nothing is marked there or later.\<close>

definition marked :: "bitvec \<Rightarrow> nat \<Rightarrow> nat \<Rightarrow> bitvec \<Rightarrow> bool" where
  "marked bits pos n bits' \<longleftrightarrow> length bits' = length bits
     \<and> (\<forall>q. bit_at bits' q \<longleftrightarrow> bit_at bits q \<or> pos \<le> q \<and> q < pos + n)"

definition clear_from :: "bitvec \<Rightarrow> nat \<Rightarrow> bool" where
  "clear_from bits pos \<longleftrightarrow> (\<forall>q\<ge>pos. \<not> bit_at bits q)"

lemma clear_from_byte:
  assumes "clear_from bits pos" "pos div 8 < j" "j < length bits"
  shows "bits ! j = 0"
proof (rule bit_eqI)
  fix i assume "possible_bit TYPE(byte) i"
  then have i: "i < 8" by simp
  have "pos \<le> 8 * j + i" using assms(2) by linarith
  then have "\<not> bit_at bits (8 * j + i)" using assms(1) by (simp add: clear_from_def)
  then show "bit (bits ! j) i = bit 0 i" using i assms(3) by (simp add: bit_at_def)
qed

lemma bit_at_split: "i < 8 \<Longrightarrow> bit_at bits (8 * a + i) \<longleftrightarrow> a < length bits \<and> bit (bits ! a) i"
  by (simp add: bit_at_def)

text \<open>Ranges byte by byte: \<open>pos = 8 * b + k\<close>, \<open>q = 8 * a + i\<close>.\<close>

lemma markedI:
  assumes "length bits' = length bits"
    and "\<And>a i. a < length bits \<Longrightarrow> i < 8 \<Longrightarrow>
      bit (bits' ! a) i \<longleftrightarrow> bit (bits ! a) i \<or> pos \<le> 8 * a + i \<and> 8 * a + i < pos + n"
    and "pos + n \<le> 8 * length bits"
  shows "marked bits pos n bits'"
  unfolding marked_def
proof (intro conjI allI)
  fix q :: nat
  define a i where "a = q div 8" and "i = q mod 8"
  then have q: "q = 8 * a + i" "i < 8" by simp_all
  show "bit_at bits' q \<longleftrightarrow> bit_at bits q \<or> pos \<le> q \<and> q < pos + n"
    using assms q by (cases "a < length bits") (auto simp: bit_at_split)
qed (rule assms(1))

lemma byte_range:
  fixes a b i k n :: nat
  assumes "i < 8" "k < 8" "n \<le> 16"
  shows "8 * b + k \<le> 8 * a + i \<and> 8 * a + i < 8 * b + k + n \<longleftrightarrow>
     a = b \<and> k \<le> i \<and> i < k + n \<or> a = b + 1 \<and> i + 8 < k + n \<or> a = b + 2 \<and> i + 16 < k + n"
  (is "?l \<longleftrightarrow> ?r")
proof
  assume l: ?l
  then have "b \<le> a" "a \<le> b + 2" using assms by linarith+
  then consider "a = b" | "a = b + 1" | "a = b + 2" by linarith
  then show ?r using l assms by cases simp_all
qed (use assms in auto)

lemma bit_full_byte: "bit (push_bit k (0xFF :: byte)) i \<longleftrightarrow> k \<le> i \<and> i < 8"
proof -
  have "bit (push_bit k (mask 8 :: byte)) i \<longleftrightarrow> k \<le> i \<and> i < 8" by (auto simp: bit_push_bit_iff bit_mask_iff)
  moreover have "(mask 8 :: byte) = 0xFF" by (simp add: mask_eq_exp_minus_1)
  ultimately show ?thesis by simp
qed

lemma bit_full_byte0: "bit (0xFF :: byte) i \<longleftrightarrow> i < 8"
  using bit_full_byte[of 0 i] by simp

lemma set1_marked:
  assumes "pos < 8 * length bits"
  obtains bits' where "set1 bits pos = Ret bits'" "marked bits pos 1 bits'"
proof -
  define b k where "b = pos div 8" and "k = pos mod 8"
  have p: "pos = 8 * b + k" "k < 8" "b < length bits" using assms by (simp_all add: b_def k_def)
  let ?b = "bits[b := bits ! b OR push_bit k 1]"
  have "marked bits pos 1 ?b"
  proof (rule markedI)
    fix a i :: nat assume "a < length bits" "i < 8"
    then show "bit (?b ! a) i \<longleftrightarrow> bit (bits ! a) i \<or> pos \<le> 8 * a + i \<and> 8 * a + i < pos + 1"
      using p by (cases "a = b") (auto simp: bit_simps)
  qed (use p in auto)
  moreover have "set1 bits pos = Ret ?b" using p by (simp add: set1_def or_at_def b_def k_def)
  ultimately show thesis by (rule that[rotated])
qed

lemma set8_marked:
  assumes "clear_from bits pos" "pos div 8 + 1 < length bits"
  obtains bits' where "set8 bits pos = Ret bits'" "marked bits pos 8 bits'"
proof -
  define b k where "b = pos div 8" and "k = pos mod 8"
  have p: "pos = 8 * b + k" "k < 8" "b + 1 < length bits" using assms by (simp_all add: b_def k_def)
  have z: "bits ! (b + 1) = 0" using clear_from_byte[OF assms(1)] p(3) by (simp add: b_def)
  let ?b = "bits[b := bits ! b OR push_bit k 0xFF, b + 1 := NOT (push_bit k 0xFF)]"
  have "marked bits pos 8 ?b"
  proof (rule markedI)
    fix a i :: nat assume ai: "a < length bits" "i < 8"
    consider "a = b" | "a = b + 1" | "a \<noteq> b" "a \<noteq> b + 1" by blast
    then have "bit (?b ! a) i \<longleftrightarrow> bit (bits ! a) i \<or> a = b \<and> k \<le> i \<or> a = b + 1 \<and> i < k"
    proof cases
      case 1
      then show ?thesis using p(3) ai by (simp add: bit_or_iff bit_full_byte)
    next
      case 2
      then show ?thesis using p(3) ai z by (simp add: bit_not_iff bit_full_byte not_le)
    next
      case 3
      then show ?thesis by simp
    qed
    then show "bit (?b ! a) i \<longleftrightarrow> bit (bits ! a) i \<or> pos \<le> 8 * a + i \<and> 8 * a + i < pos + 8"
      unfolding p(1) using byte_range[OF ai(2) p(2), of 8 b a] p(2) ai(2) by auto
  qed (use p in auto)
  moreover have "set8 bits pos = Ret ?b" using p by (simp add: set8_def or_at_def put_at_def Let_def b_def k_def)
  ultimately show thesis by (rule that[rotated])
qed

lemma set16_marked:
  assumes "clear_from bits pos" "pos div 8 + 2 < length bits"
  obtains bits' where "set16 bits pos = Ret bits'" "marked bits pos 16 bits'"
proof -
  define b k where "b = pos div 8" and "k = pos mod 8"
  have p: "pos = 8 * b + k" "k < 8" "b + 2 < length bits" using assms by (simp_all add: b_def k_def)
  have z: "bits ! (b + 1) = 0" "bits ! (b + 2) = 0" using clear_from_byte[OF assms(1)] p(3) by (simp_all add: b_def)
  let ?b = "bits[b := bits ! b OR push_bit k 0xFF, b + 1 := 0xFF, b + 2 := NOT (push_bit k 0xFF)]"
  have "marked bits pos 16 ?b"
  proof (rule markedI)
    fix a i :: nat assume ai: "a < length bits" "i < 8"
    consider "a = b" | "a = b + 1" | "a = b + 2" | "a \<noteq> b" "a \<noteq> b + 1" "a \<noteq> b + 2" by blast
    then have "bit (?b ! a) i \<longleftrightarrow> bit (bits ! a) i \<or> a = b \<and> k \<le> i \<or> a = b + 1 \<or> a = b + 2 \<and> i < k"
    proof cases
      case 1
      then show ?thesis using p(3) ai by (simp add: bit_or_iff bit_full_byte)
    next
      case 2
      then have "?b ! a = 0xFF" using p(3) by simp
      then show ?thesis using 2 bit_full_byte0[of i] ai by (simp only:) simp
    next
      case 3
      then show ?thesis using p(3) ai z by (simp add: bit_not_iff bit_full_byte not_le)
    next
      case 4
      then show ?thesis by simp
    qed
    then show "bit (?b ! a) i \<longleftrightarrow> bit (bits ! a) i \<or> pos \<le> 8 * a + i \<and> 8 * a + i < pos + 16"
      unfolding p(1) using byte_range[OF ai(2) p(2), of 16 b a] p(2) ai(2) by auto
  qed (use p in auto)
  moreover have "set16 bits pos = Ret ?b" using p by (simp add: set16_def or_at_def put_at_def Let_def b_def k_def)
  ultimately show thesis by (rule that[rotated])
qed

lemma setN_marked:
  assumes "clear_from bits pos" "pos div 8 + 1 < length bits" "flag = mask n" "n < 8"
  obtains bits' where "setN bits flag pos = Ret bits'" "marked bits pos n bits'"
proof -
  define b k where "b = pos div 8" and "k = pos mod 8"
  have p: "pos = 8 * b + k" "k < 8" "b + 1 < length bits" using assms by (simp_all add: b_def k_def)
  have z: "bits ! (b + 1) = 0" using clear_from_byte[OF assms(1)] p(3) by (simp add: b_def)
  have n16: "n < 16" using assms(4) by simp
  define lo where "lo = (ucast (push_bit k flag) :: byte)"
  define hi where "hi = (ucast (drop_bit 8 (push_bit k flag)) :: byte)"
  have lo: "bit lo i \<longleftrightarrow> k \<le> i \<and> i < k + n" if "i < 8" for i
    using that assms(3,4) p(2) by (auto simp: lo_def bit_simps)
  have hi: "bit hi i \<longleftrightarrow> i + 8 < k + n" if "i < 8" for i
    using that assms(3,4) p(2) by (auto simp: hi_def bit_simps)
  let ?b = "bits[b := bits ! b OR lo, b + 1 := hi]"
  have "marked bits pos n ?b"
  proof (rule markedI)
    fix a i :: nat assume ai: "a < length bits" "i < 8"
    consider "a = b" | "a = b + 1" | "a \<noteq> b" "a \<noteq> b + 1" by blast
    then show "bit (?b ! a) i \<longleftrightarrow> bit (bits ! a) i \<or> pos \<le> 8 * a + i \<and> 8 * a + i < pos + n"
      using p(3) ai z unfolding p(1) byte_range[OF ai(2) p(2) less_imp_le[OF n16]]
      by cases (use p(2) assms(4) in \<open>auto simp: bit_or_iff lo hi\<close>)
  qed (use p assms(4) in auto)
  moreover have "setN bits flag pos = Ret ?b"
  proof (cases "hi = 0")
    case True
    have "bits[b := bits ! b OR lo, b + 1 := 0] = bits[b := bits ! b OR lo]"
      using z p(3) by (intro nth_equalityI) (auto simp: nth_list_update)
    then show ?thesis
      using p True by (simp add: setN_def or_at_def put_at_def Let_def b_def[symmetric] k_def[symmetric] lo_def[symmetric] hi_def[symmetric])
  next
    case False
    then show ?thesis
      using p by (simp add: setN_def or_at_def put_at_def Let_def b_def[symmetric] k_def[symmetric] lo_def[symmetric] hi_def[symmetric])
  qed
  ultimately show thesis by (rule that[rotated])
qed

section \<open>The inner loops\<close>

lemma marked_clear: "marked bits pos n bits' \<Longrightarrow> clear_from bits pos \<Longrightarrow> clear_from bits' (pos + n)"
  by (auto simp: marked_def clear_from_def)

lemma marked_trans:
  "marked bits pos n bits' \<Longrightarrow> marked bits' (pos + n) m bits'' \<Longrightarrow> marked bits pos (n + m) bits''"
  by (auto simp: marked_def)

lemma marked_length: "marked bits pos n bits' \<Longrightarrow> length bits' = length bits"
  by (simp add: marked_def)

lemma marked_0: "marked bits pos 0 bits"
  by (auto simp: marked_def)

lemma push16_loop_marked:
  assumes "clear_from bits pc" "(pc + n) div 8 < length bits"
  obtains bits' where "push16_loop bits n pc = Ret (bits', n mod 16, pc + 16 * (n div 16))"
    "marked bits pc (16 * (n div 16)) bits'"
  using assms
proof (induction n arbitrary: bits pc thesis rule: less_induct)
  case (less n)
  show ?case
  proof (cases "16 \<le> n")
    case False
    then show ?thesis using less.prems(1)[of bits] marked_0 by simp
  next
    case True
    then have "pc div 8 + 2 < length bits \<or> (pc + n) div 8 = pc div 8 + 2" using less.prems(3) by linarith
    then have l: "pc div 8 + 2 < length bits" using less.prems(3) by auto
    obtain b1 where b1: "set16 bits pc = Ret b1" "marked bits pc 16 b1" using set16_marked[OF less.prems(2) l] .
    have c: "clear_from b1 (pc + 16)" using marked_clear[OF b1(2) less.prems(2)] .
    have l2: "(pc + 16 + (n - 16)) div 8 < length b1" using less.prems(3) True b1(2) by (simp add: marked_length)
    obtain b2 where b2: "push16_loop b1 (n - 16) (pc + 16) = Ret (b2, (n - 16) mod 16, pc + 16 + 16 * ((n - 16) div 16))"
      "marked b1 (pc + 16) (16 * ((n - 16) div 16)) b2"
      using less.IH[OF _ _ c l2] True by auto
    have n: "(n - 16) mod 16 = n mod 16" "16 + 16 * ((n - 16) div 16) = 16 * (n div 16)"
      using True by (simp_all add: le_mod_geq le_div_geq)
    show ?thesis
      using less.prems(1)[of b2] b1 b2 True n marked_trans[OF b1(2) b2(2)] by (simp add: add.assoc)
  qed
qed

lemma push8_loop_marked:
  assumes "clear_from bits pc" "(pc + n) div 8 < length bits"
  obtains bits' where "push8_loop bits n pc = Ret (bits', n mod 8, pc + 8 * (n div 8))"
    "marked bits pc (8 * (n div 8)) bits'"
  using assms
proof (induction n arbitrary: bits pc thesis rule: less_induct)
  case (less n)
  show ?case
  proof (cases "8 \<le> n")
    case False
    then show ?thesis using less.prems(1)[of bits] marked_0 by simp
  next
    case True
    then have l: "pc div 8 + 1 < length bits" using less.prems(3) by linarith
    obtain b1 where b1: "set8 bits pc = Ret b1" "marked bits pc 8 b1" using set8_marked[OF less.prems(2) l] .
    have c: "clear_from b1 (pc + 8)" using marked_clear[OF b1(2) less.prems(2)] .
    have l2: "(pc + 8 + (n - 8)) div 8 < length b1" using less.prems(3) True b1(2) by (simp add: marked_length)
    obtain b2 where b2: "push8_loop b1 (n - 8) (pc + 8) = Ret (b2, (n - 8) mod 8, pc + 8 + 8 * ((n - 8) div 8))"
      "marked b1 (pc + 8) (8 * ((n - 8) div 8)) b2"
      using less.IH[OF _ _ c l2] True by auto
    have n: "(n - 8) mod 8 = n mod 8" "8 + 8 * ((n - 8) div 8) = 8 * (n div 8)"
      using True by (simp_all add: le_mod_geq le_div_geq)
    show ?thesis
      using less.prems(1)[of b2] b1 b2 True n marked_trans[OF b1(2) b2(2)] by (simp add: add.assoc)
  qed
qed

lemma masks:
  "set2BitsMask = mask 2" "set3BitsMask = mask 3" "set4BitsMask = mask 4" "set5BitsMask = mask 5"
  "set6BitsMask = mask 6" "set7BitsMask = mask 7"
  by (simp_all add: set2BitsMask_def set3BitsMask_def set4BitsMask_def set5BitsMask_def set6BitsMask_def
      set7BitsMask_def mask_eq_exp_minus_1)

lemma push_rest_marked:
  assumes "clear_from bits pc" "pc div 8 + 1 < length bits" "n < 8"
  obtains bits' where "push_rest bits n pc = Ret (bits', pc + n)" "marked bits pc n bits'"
proof -
  note found = that
  have N: thesis if f: "push_rest bits n pc = bind_outcome (setN bits flag pc) (\<lambda>bits. Ret (bits, pc + n))" "flag = mask n" for flag
  proof -
    obtain b where "setN bits flag pc = Ret b" "marked bits pc n b" using setN_marked[OF assms(1,2) f(2) assms(3)] .
    then show thesis using found[of b] f(1) by simp
  qed
  consider "n = 0" | "n = 1" | "n = 2" | "n = 3" | "n = 4" | "n = 5" | "n = 6" | "n = 7" using assms(3) by linarith
  then show thesis
  proof cases
    case 1
    then show ?thesis using that[of bits] marked_0 by (simp add: push_rest_def)
  next
    case 2
    have "pc < 8 * length bits" using assms(2) by linarith
    then obtain b where "set1 bits pc = Ret b" "marked bits pc 1 b" by (rule set1_marked)
    then show ?thesis using that[of b] 2 by (simp add: push_rest_def)
  next
    case 3
    then show ?thesis using N[of set2BitsMask] masks(1) by (simp add: push_rest_def)
  next
    case 4
    then show ?thesis using N[of set3BitsMask] masks(2) by (simp add: push_rest_def)
  next
    case 5
    then show ?thesis using N[of set4BitsMask] masks(3) by (simp add: push_rest_def)
  next
    case 6
    then show ?thesis using N[of set5BitsMask] masks(4) by (simp add: push_rest_def)
  next
    case 7
    then show ?thesis using N[of set6BitsMask] masks(5) by (simp add: push_rest_def)
  next
    case 8
    then show ?thesis using N[of set7BitsMask] masks(6) by (simp add: push_rest_def)
  qed
qed

section \<open>The outer loop\<close>

lemma sint_byte: "sint (w :: byte) = (if uint w < 128 then uint w else uint w - 256)"
proof -
  have s: "sint w = (uint w + 128) mod 256 - 128" using int_word_sint[of "uint w", where 'a = 8] by simp
  have b: "0 \<le> uint w" "uint w < 256" using uint_bounded[of w] by simp_all
  show ?thesis
  proof (cases "uint w < 128")
    case True
    then have "(uint w + 128) mod 256 = uint w + 128" using b by (intro mod_pos_pos_trivial) simp_all
    then show ?thesis using s True by simp
  next
    case False
    have "(uint w + 128) mod 256 = (uint w - 128 + 256) mod 256" by (simp add: add.commute)
    also have "\<dots> = (uint w - 128) mod 256" by (rule mod_add_self2)
    also have "\<dots> = uint w - 128" using b False by (intro mod_pos_pos_trivial) simp_all
    finally show ?thesis using s False by simp
  qed
qed

text \<open>The signed comparison with PUSH1 alone recognises the PUSH instructions.\<close>

lemma push_test: "sint (op :: byte) < sint PUSH1 \<longleftrightarrow> push_size op = 0"
proof -
  have "sint PUSH1 = 96" by (simp add: PUSH1_def)
  moreover have "uint op < 256" using uint_bounded[of op] by simp
  moreover have "0x60 \<le> op \<longleftrightarrow> 96 \<le> uint op" "op \<le> 0x7f \<longleftrightarrow> uint op \<le> 127" by (simp_all add: word_le_def)
  moreover have "unat op = nat (uint op)" by simp
  ultimately show ?thesis by (simp add: push_size_def sint_byte, linarith)
qed

lemma push_numbits: "push_size op \<noteq> 0 \<Longrightarrow> unat (op - PUSH1 + 1) = push_size op \<and> push_size op \<le> 32"
proof -
  assume "push_size op \<noteq> 0"
  then have r: "0x60 \<le> op" "op \<le> 0x7f" and n: "push_size op = unat op - 0x5f" by (auto simp: push_size_def split: if_splits)
  have u: "0x60 \<le> unat op" "unat op \<le> 0x7f" using r by (simp_all add: word_le_nat_alt)
  have e: "op - PUSH1 + 1 = op - 0x5f" unfolding PUSH1_def by simp
  have "unat (op - 0x5f) = unat op - 0x5f" using u by (subst unat_sub) (simp_all add: word_le_nat_alt)
  then show ?thesis using n u unfolding e by simp
qed

lemma push_mark_marked:
  assumes "clear_from bits pc" "push_size op \<noteq> 0" "pc div 8 + 5 \<le> length bits"
  obtains bits' where "push_mark bits op pc = Ret (bits', pc + push_size op)" "marked bits pc (push_size op) bits'"
proof -
  define n where "n = push_size op"
  have n: "unat (op - PUSH1 + 1) = n" "n \<le> 32" using push_numbits[OF assms(2)] by (simp_all add: n_def)
  show thesis
  proof (cases "8 \<le> n")
    case False
    obtain b where "push_rest bits n pc = Ret (b, pc + n)" "marked bits pc n b"
      using push_rest_marked[OF assms(1), of n] assms(3) False by auto
    then show thesis using that[of b] False n by (simp add: push_mark_def n_def[symmetric])
  next
    case True
    define m where "m = n mod 16"
    define pc1 where "pc1 = pc + 16 * (n div 16)"
    define pc2 where "pc2 = pc1 + 8 * (m div 8)"
    have p1: "pc1 + m = pc + n" by (simp add: m_def pc1_def)
    have p2: "pc2 + m mod 8 = pc + n" using p1 by (simp add: pc2_def)
    have l: "(pc + n) div 8 < length bits" using assms(3) n(2) by linarith
    obtain b1 where b1: "push16_loop bits n pc = Ret (b1, m, pc1)" "marked bits pc (16 * (n div 16)) b1"
      using push16_loop_marked[OF assms(1) l] unfolding m_def pc1_def .
    have c1: "clear_from b1 pc1" using marked_clear[OF b1(2) assms(1)] by (simp add: pc1_def)
    have l1: "(pc1 + m) div 8 < length b1" using l p1 marked_length[OF b1(2)] by simp
    obtain b2 where b2: "push8_loop b1 m pc1 = Ret (b2, m mod 8, pc2)" "marked b1 pc1 (8 * (m div 8)) b2"
      using push8_loop_marked[OF c1 l1] unfolding pc2_def .
    have c2: "clear_from b2 pc2" using marked_clear[OF b2(2) c1] by (simp add: pc2_def)
    have l2: "pc2 div 8 + 1 < length b2 \<or> m mod 8 = 0"
    proof (cases "m mod 8 = 0")
      case False
      define j where "j = 2 * (n div 16) + m div 8"
      have j: "pc2 = pc + 8 * j" by (simp add: pc1_def pc2_def j_def)
      then have "j < 4" using False p2 n(2) by linarith
      moreover have "pc2 div 8 = pc div 8 + j" using j by simp
      ultimately show ?thesis using assms(3) marked_length[OF b1(2)] marked_length[OF b2(2)] by linarith
    qed simp
    obtain b3 where b3: "push_rest b2 (m mod 8) pc2 = Ret (b3, pc2 + m mod 8)" "marked b2 pc2 (m mod 8) b3"
    proof (cases "m mod 8 = 0")
      case True
      then show ?thesis using that[of b2] marked_0 by (simp add: push_rest_def)
    next
      case False
      then have l3: "pc2 div 8 + 1 < length b2" using l2 by simp
      have "m mod 8 < 8" by simp
      show ?thesis by (rule push_rest_marked[OF c2 l3 \<open>m mod 8 < 8\<close>]) (rule that)
    qed
    have "marked bits pc (16 * (n div 16) + 8 * (m div 8)) b2"
      by (rule marked_trans[OF b1(2)]) (use b2(2) in \<open>simp add: pc1_def\<close>)
    moreover have "pc + (16 * (n div 16) + 8 * (m div 8)) = pc2" by (simp add: pc1_def pc2_def)
    ultimately have "marked bits pc (16 * (n div 16) + 8 * (m div 8) + m mod 8) b3"
      using marked_trans b3(2) by metis
    moreover have "16 * (n div 16) + 8 * (m div 8) + m mod 8 = n" by (simp add: m_def)
    ultimately have "marked bits pc n b3" by simp
    moreover have "push_mark bits op pc = Ret (b3, pc + n)"
      using True n(1) b1(1) b2(1) b3(1) p2 by (simp add: push_mark_def del: push16_loop.simps push8_loop.simps)
    ultimately show thesis using that[of b3] by (simp add: n_def)
  qed
qed

section \<open>Instruction boundaries\<close>

text \<open>The boundaries are the iterates of one step of the decoder; they never overlap an argument.\<close>

definition next_start :: "bytes \<Rightarrow> nat \<Rightarrow> nat" where
  "next_start code pc = (if pc < length code then pc + 1 + push_size (code ! pc) else pc)"

lemma instr_start_iterate: "instr_start code q \<longleftrightarrow> (\<exists>n. q = (next_start code ^^ n) 0)"
proof
  show "instr_start code q \<Longrightarrow> \<exists>n. q = (next_start code ^^ n) 0"
  proof (induction rule: instr_start.induct)
    case start
    then show ?case by (metis funpow_0)
  next
    case (step pc)
    then obtain n where "pc = (next_start code ^^ n) 0" by blast
    then have "pc + 1 + push_size (code ! pc) = (next_start code ^^ Suc n) 0" using step.hyps(2) by (simp add: next_start_def)
    then show ?case by blast
  qed
next
  have "instr_start code ((next_start code ^^ n) 0)" for n
    by (induction n) (use instr_start.intros in \<open>auto simp: next_start_def\<close>)
  then show "\<exists>n. q = (next_start code ^^ n) 0 \<Longrightarrow> instr_start code q" by blast
qed

lemma next_start_ge: "q \<le> next_start code q"
  by (simp add: next_start_def)

lemma iterate_mono: "m \<le> n \<Longrightarrow> (next_start code ^^ m) 0 \<le> (next_start code ^^ n) 0"
  by (rule lift_Suc_mono_le[of "\<lambda>n. (next_start code ^^ n) 0"]) (simp_all add: next_start_ge)

lemma instr_start_gap:
  assumes "instr_start code pc" "pc < length code" "instr_start code q"
  shows "q \<le> pc \<or> pc + 1 + push_size (code ! pc) \<le> q"
proof -
  obtain m n where m: "pc = (next_start code ^^ m) 0" and n: "q = (next_start code ^^ n) 0"
    using assms(1,3) by (auto simp: instr_start_iterate)
  show ?thesis
  proof (cases "n \<le> m")
    case True
    then show ?thesis using iterate_mono m n by simp
  next
    case False
    then have "(next_start code ^^ Suc m) 0 \<le> q" using iterate_mono[of "Suc m" n code] n by simp
    then show ?thesis using m assms(2) by (simp add: next_start_def)
  qed
qed

text \<open>What the outer loop keeps: the arguments before the current instruction are marked, and nothing else.\<close>

definition analysed :: "bytes \<Rightarrow> bitvec \<Rightarrow> nat \<Rightarrow> bool" where
  "analysed code bits pc \<longleftrightarrow> length bits = length code div 8 + 5 \<and> instr_start code pc
     \<and> (\<forall>q. bit_at bits q \<longleftrightarrow> q < pc \<and> \<not> instr_start code q)"

lemma analysed_skip:
  "analysed code bits pc \<Longrightarrow> pc < length code \<Longrightarrow> push_size (code ! pc) = 0 \<Longrightarrow> analysed code bits (pc + 1)"
  using instr_start.step[of code pc] by (auto simp: analysed_def less_Suc_eq)

lemma analysed_push:
  assumes "analysed code bits pc" "pc < length code" "marked bits (pc + 1) (push_size (code ! pc)) bits'"
  shows "analysed code bits' (pc + 1 + push_size (code ! pc))"
proof -
  have s: "instr_start code pc" using assms(1) by (simp add: analysed_def)
  have "bit_at bits' q \<longleftrightarrow> q < pc + 1 + push_size (code ! pc) \<and> \<not> instr_start code q" for q
  proof -
    have b: "bit_at bits q \<longleftrightarrow> q < pc \<and> \<not> instr_start code q" using assms(1) by (simp add: analysed_def)
    have "bit_at bits' q \<longleftrightarrow> bit_at bits q \<or> pc + 1 \<le> q \<and> q < pc + 1 + push_size (code ! pc)"
      using assms(3) by (simp add: marked_def)
    then show ?thesis
      using b s instr_start_gap[OF s assms(2), of q] by (cases "q = pc") auto
  qed
  then show ?thesis
    using assms marked_length instr_start.step[OF s assms(2)] by (simp add: analysed_def)
qed

lemma codeBitmap_loop_analysed:
  assumes "analysed code bits pc" "length code \<le> fuel + pc"
  shows "\<exists>bits' pc'. codeBitmap_loop fuel code bits pc = Ret bits' \<and> analysed code bits' pc' \<and> length code \<le> pc'"
  using assms
proof (induction fuel arbitrary: bits pc)
  case 0
  then show ?case by auto
next
  case (Suc fuel)
  show ?case
  proof (cases "pc < length code")
    case False
    then show ?thesis using Suc.prems by auto
  next
    case True
    show ?thesis
    proof (cases "push_size (code ! pc) = 0")
      case zero: True
      then show ?thesis
        using Suc.IH[OF analysed_skip[OF Suc.prems(1) True zero]] Suc.prems(2) True push_test by simp
    next
      case push: False
      have "clear_from bits (pc + 1)" "(pc + 1) div 8 + 5 \<le> length bits"
        using Suc.prems(1) True by (auto simp: analysed_def clear_from_def intro: div_le_mono)
      then obtain b where b: "push_mark bits (code ! pc) (pc + 1) = Ret (b, pc + 1 + push_size (code ! pc))"
        "marked bits (pc + 1) (push_size (code ! pc)) b"
        using push_mark_marked[OF _ push] by metis
      show ?thesis
        using Suc.IH[OF analysed_push[OF Suc.prems(1) True b(2)]] Suc.prems(2) True push b(1) push_test by simp
    qed
  qed
qed

lemma low_bit: "drop_bit n (b :: byte) AND 1 = 0 \<longleftrightarrow> \<not> bit b n"
  by (simp add: and_one_eq mod2_eq_if even_drop_bit_iff_not_bit)

lemma bit_at_replicate: "\<not> bit_at (replicate n 0) q"
  by (simp add: bit_at_def)

lemma codeBitmap_correct_lemma:
  obtains bits where "codeBitmap code = Ret bits"
    "\<And>pos. pos < length code \<Longrightarrow> codeSegment bits pos = Ret (instr_start code pos)"
proof -
  have "analysed code (replicate (length code div 8 + 1 + 4) 0) 0"
    by (simp add: analysed_def instr_start.start bit_at_replicate del: replicate_add)
  from codeBitmap_loop_analysed[OF this, of "length code"]
  obtain bits pc where b: "codeBitmap code = Ret bits" "analysed code bits pc" "length code \<le> pc"
    by (auto simp: codeBitmap_def codeBitmapInternal_def)
  have "codeSegment bits pos = Ret (instr_start code pos)" if "pos < length code" for pos
  proof -
    have "pos div 8 \<le> length code div 8" using that by (simp add: div_le_mono)
    then have l: "pos div 8 < length bits" using b(2) by (simp add: analysed_def)
    have "bit_at bits pos \<longleftrightarrow> \<not> instr_start code pos" using b(2,3) that by (simp add: analysed_def)
    then have "bit (bits ! (pos div 8)) (pos mod 8) \<longleftrightarrow> \<not> instr_start code pos" using l by (simp add: bit_at_def)
    then show ?thesis using l by (simp add: codeSegment_def index_def low_bit)
  qed
  then show thesis using that b(1) by blast
qed

text \<open>C36. The jump destination analysis is safe and exact: \<open>codeBitmap\<close> returns on every code without an access out of
  range, also when a PUSH argument runs beyond the end, and \<open>codeSegment\<close> on its result tells for every position whether
  an instruction starts there when the code is decoded from its beginning.\<close>

theorem codeBitmap_correct:
  "\<exists>bits. codeBitmap code = Ret bits \<and>
     (\<forall>pos<length code. codeSegment bits pos = Ret (instr_start code pos))"
  using codeBitmap_correct_lemma[of code] by metis

theorem codeBitmap_correct_witness:
  "\<exists>bits. codeBitmap [0x61, 0x5b, 0x5b, 0x5b] = Ret bits \<and> codeSegment bits 0 = Ret (instr_start [0x61, 0x5b, 0x5b, 0x5b] 0)
     \<and> codeSegment bits 3 = Ret (instr_start [0x61, 0x5b, 0x5b, 0x5b] 3)"
proof -
  obtain bits where b: "codeBitmap [0x61, 0x5b, 0x5b, 0x5b] = Ret bits"
    and *: "\<And>pos. pos < length [0x61, 0x5b, 0x5b, 0x5b :: byte] \<Longrightarrow>
      codeSegment bits pos = Ret (instr_start [0x61, 0x5b, 0x5b, 0x5b] pos)"
    using codeBitmap_correct[of "[0x61, 0x5b, 0x5b, 0x5b]"] by blast
  show ?thesis by (rule exI[of _ bits]) (use b *[of 0] *[of 3] in simp)
qed

end
