(* ===== verification/Vm_Memory.thy ===== *)
theory Vm_Memory
  imports Trie_Ops
begin

text \<open>
  The data structures the interpreter works on: checked 64-bit arithmetic (\<open>common/math/integer.go\<close>),
  the operand stack (\<open>core/vm/stack.go\<close>, \<open>stack_table.go\<close>), the memory (\<open>memory.go\<close>), the size
  computations (\<open>common.go\<close>, \<open>memory_table.go\<close>), the memory fee and the gas of calls (\<open>gas_table.go\<close>,
  \<open>gas.go\<close>).
\<close>

section \<open>The uint256 package\<close>

text \<open>
  Stack items are 256-bit integers of the package \<open>holiman/uint256\<close>. The methods the sources call on
  them are parameters, one field each; \<open>uint256_ok\<close> is their documented behaviour.
\<close>

type_synonym u256 = "256 word"

record uint256_pkg =
  IsUint64 :: "u256 \<Rightarrow> bool"
  Uint64 :: "u256 \<Rightarrow> uint64"
  Uint64WithOverflow :: "u256 \<Rightarrow> uint64 \<times> bool"
  Bytes32 :: "u256 \<Rightarrow> bytes"

definition uint256_ok :: "uint256_pkg \<Rightarrow> bool" where
  "uint256_ok U \<longleftrightarrow>
     (\<forall>x. IsUint64 U x \<longleftrightarrow> uint x < 2 ^ 64)
   \<and> (\<forall>x. Uint64 U x = ucast x)
   \<and> (\<forall>x. Uint64WithOverflow U x = (ucast x, \<not> uint x < 2 ^ 64))
   \<and> (\<forall>x. length (Bytes32 U x) = 32 \<and> be_nat (Bytes32 U x) = unat x)"

section \<open>Checked arithmetic\<close>

text \<open>\<open>bits.Add64\<close>, \<open>bits.Sub64\<close> and \<open>bits.Mul64\<close> return the carry, the borrow and the high word.\<close>

definition SafeSub :: "uint64 \<Rightarrow> uint64 \<Rightarrow> uint64 \<times> bool" where
  "SafeSub x y = (x - y, unat x < unat y)"

definition SafeAdd :: "uint64 \<Rightarrow> uint64 \<Rightarrow> uint64 \<times> bool" where
  "SafeAdd x y = (x + y, 2 ^ 64 \<le> unat x + unat y)"

definition SafeMul :: "uint64 \<Rightarrow> uint64 \<Rightarrow> uint64 \<times> bool" where
  "SafeMul x y = (x * y, (unat x * unat y) div 2 ^ 64 \<noteq> 0)"

section \<open>The stack\<close>

text \<open>\<open>Stack.data\<close>; the top of the stack is the last element.\<close>

record Stack =
  data :: "u256 list"

definition st_push :: "Stack \<Rightarrow> u256 \<Rightarrow> Stack" where
  "st_push st d = st\<lparr>data := data st @ [d]\<rparr>"

definition st_pop :: "Stack \<Rightarrow> (string, u256 \<times> Stack) outcome" where
  "st_pop st = (if data st = [] then Panic else Ret (last (data st), st\<lparr>data := butlast (data st)\<rparr>))"

definition st_len :: "Stack \<Rightarrow> nat" where
  "st_len st = length (data st)"

text \<open>\<open>st.data[st.len()-n]\<close>: the index is negative for \<open>n\<close> above the length.\<close>

definition st_at :: "Stack \<Rightarrow> nat \<Rightarrow> (string, u256) outcome" where
  "st_at st n = (if n = 0 \<or> st_len st < n then Panic else Ret (data st ! (st_len st - n)))"

definition st_swap :: "Stack \<Rightarrow> nat \<Rightarrow> (string, Stack) outcome" where
  "st_swap st n =
     bind_outcome (st_at st n) (\<lambda>x. bind_outcome (st_at st 1) (\<lambda>y.
       Ret (st\<lparr>data := (data st)[st_len st - n := y, st_len st - 1 := x]\<rparr>)))"

definition st_dup :: "Stack \<Rightarrow> nat \<Rightarrow> (string, Stack) outcome" where
  "st_dup st n = bind_outcome (st_at st n) (\<lambda>x. Ret (st_push st x))"

definition st_peek :: "Stack \<Rightarrow> (string, u256) outcome" where
  "st_peek st = st_at st 1"

definition Back :: "Stack \<Rightarrow> nat \<Rightarrow> (string, u256) outcome" where
  "Back st n = st_at st (n + 1)"

definition StackLimit :: nat where
  "StackLimit = 1024"

definition maxStack :: "nat \<Rightarrow> nat \<Rightarrow> int" where
  "maxStack pop push = int StackLimit + int pop - int push"

definition minStack :: "nat \<Rightarrow> nat \<Rightarrow> int" where
  "minStack pops push = int pops"

definition minSwapStack :: "nat \<Rightarrow> int" where
  "minSwapStack n = minStack n n"

definition maxSwapStack :: "nat \<Rightarrow> int" where
  "maxSwapStack n = maxStack n n"

definition minDupStack :: "nat \<Rightarrow> int" where
  "minDupStack n = minStack n (n + 1)"

definition maxDupStack :: "nat \<Rightarrow> int" where
  "maxDupStack n = maxStack n (n + 1)"

section \<open>The memory\<close>

record Memory =
  store :: bytes
  lastGasCost :: uint64

definition NewMemory :: Memory where
  "NewMemory = \<lparr>store = [], lastGasCost = 0\<rparr>"

text \<open>\<open>copy(s[i:j], value)\<close>: as many bytes as both sides have.\<close>

definition copy_into :: "bytes \<Rightarrow> nat \<Rightarrow> nat \<Rightarrow> bytes \<Rightarrow> (string, bytes) outcome" where
  "copy_into s i j value =
     (if i \<le> j \<and> j \<le> length s then
        Ret (take i s @ take (j - i) value @ drop (i + min (j - i) (length value)) s)
      else Panic)"

definition mem_Set :: "Memory \<Rightarrow> uint64 \<Rightarrow> uint64 \<Rightarrow> bytes \<Rightarrow> (string, Memory) outcome" where
  "mem_Set m offset sz value =
     (if sz > 0 then
        if offset + sz > ulen (store m) then Panic
        else bind_outcome (copy_into (store m) (unat offset) (unat (offset + sz)) value) (\<lambda>s. Ret (m\<lparr>store := s\<rparr>))
      else Ret m)"

definition Set32 :: "uint256_pkg \<Rightarrow> Memory \<Rightarrow> uint64 \<Rightarrow> u256 \<Rightarrow> (string, Memory) outcome" where
  "Set32 U m offset val =
     (if offset + 32 > ulen (store m) then Panic
      else
        let b32 = Bytes32 U val in
        bind_outcome (copy_into (store m) (unat offset) (length (store m)) b32) (\<lambda>s. Ret (m\<lparr>store := s\<rparr>)))"

definition Resize :: "Memory \<Rightarrow> uint64 \<Rightarrow> Memory" where
  "Resize m sz =
     (if ulen (store m) < sz then m\<lparr>store := store m @ replicate (unat (sz - ulen (store m))) 0\<rparr> else m)"

text \<open>\<open>s[i:j]\<close> with signed bounds.\<close>

definition slice_int :: "bytes \<Rightarrow> int \<Rightarrow> int \<Rightarrow> (string, bytes) outcome" where
  "slice_int s i j = (if 0 \<le> i \<and> i \<le> j then slice s (nat i) (nat j) else Panic)"

text \<open>
  Offset and size are \<open>int64\<close>; their sum wraps. \<open>GetCopy\<close> copies the slice into \<open>size\<close> zero bytes of
  its own; a negative size panics.
\<close>

definition add_int64 :: "int \<Rightarrow> int \<Rightarrow> int" where
  "add_int64 x y = sint (word_of_int (x + y) :: uint64)"

definition GetCopy :: "Memory \<Rightarrow> int \<Rightarrow> int \<Rightarrow> (string, bytes) outcome" where
  "GetCopy m offset sz =
     (if sz = 0 then Ret []
      else if int (length (store m)) > offset then
        if sz < 0 then Panic
        else bind_outcome (slice_int (store m) offset (add_int64 offset sz)) (\<lambda>s.
               Ret (take (nat sz) s @ replicate (nat sz - length s) 0))
      else Ret [])"

definition GetPtr :: "Memory \<Rightarrow> int \<Rightarrow> int \<Rightarrow> (string, bytes) outcome" where
  "GetPtr m offset sz =
     (if sz = 0 then Ret []
      else if int (length (store m)) > offset then slice_int (store m) offset (add_int64 offset sz)
      else Ret [])"

definition mem_Len :: "Memory \<Rightarrow> nat" where
  "mem_Len m = length (store m)"

section \<open>Sizes\<close>

definition calcMemSize64WithUint :: "uint256_pkg \<Rightarrow> u256 \<Rightarrow> uint64 \<Rightarrow> uint64 \<times> bool" where
  "calcMemSize64WithUint U off length64 =
     (if length64 = 0 then (0, False)
      else
        let (offset64, overflow) = Uint64WithOverflow U off in
        if overflow then (0, True)
        else let val = offset64 + length64 in (val, val < offset64))"

definition calcMemSize64 :: "uint256_pkg \<Rightarrow> u256 \<Rightarrow> u256 \<Rightarrow> uint64 \<times> bool" where
  "calcMemSize64 U off l =
     (if \<not> IsUint64 U l then (0, True) else calcMemSize64WithUint U off (Uint64 U l))"

definition RightPadBytes :: "bytes \<Rightarrow> int \<Rightarrow> bytes" where
  "RightPadBytes s l =
     (if l \<le> int (length s) then s else s @ replicate (nat l - length s) 0)"

definition getData :: "bytes \<Rightarrow> uint64 \<Rightarrow> uint64 \<Rightarrow> (string, bytes) outcome" where
  "getData d start sz =
     (let len = ulen d;
          start = (if start > len then len else start);
          end = start + sz;
          end = (if end > len then len else end) in
      bind_outcome (slice d (unat start) (unat end)) (\<lambda>s. Ret (RightPadBytes s (sint sz))))"

definition toWordSize :: "uint64 \<Rightarrow> uint64" where
  "toWordSize sz = (if sz > - 1 - 31 then (- 1) div 32 + 1 else (sz + 31) div 32)"

definition allZero :: "bytes \<Rightarrow> bool" where
  "allZero b = list_all (\<lambda>x. x = 0) b"

text \<open>\<open>memory_table.go\<close>: the memory an instruction needs, from the stack positions of offset and length.\<close>

definition mem_range :: "uint256_pkg \<Rightarrow> Stack \<Rightarrow> nat \<Rightarrow> nat \<Rightarrow> (string, uint64 \<times> bool) outcome" where
  "mem_range U st i j = bind_outcome (Back st i) (\<lambda>off. bind_outcome (Back st j) (\<lambda>l. Ret (calcMemSize64 U off l)))"

definition mem_fixed :: "uint256_pkg \<Rightarrow> Stack \<Rightarrow> nat \<Rightarrow> uint64 \<Rightarrow> (string, uint64 \<times> bool) outcome" where
  "mem_fixed U st i n = bind_outcome (Back st i) (\<lambda>off. Ret (calcMemSize64WithUint U off n))"

definition mem_range2 :: "uint256_pkg \<Rightarrow> Stack \<Rightarrow> nat \<Rightarrow> nat \<Rightarrow> nat \<Rightarrow> nat \<Rightarrow> (string, uint64 \<times> bool) outcome" where
  "mem_range2 U st i j k l =
     bind_outcome (mem_range U st i j) (\<lambda>(x, overflow).
       if overflow then Ret (0, True)
       else bind_outcome (mem_range U st k l) (\<lambda>(y, overflow).
         if overflow then Ret (0, True) else Ret (if x > y then x else y, False)))"

definition memoryKeccak256 where "memoryKeccak256 U st = mem_range U st 0 1"
definition memoryCallDataCopy where "memoryCallDataCopy U st = mem_range U st 0 2"
definition memoryReturnDataCopy where "memoryReturnDataCopy U st = mem_range U st 0 2"
definition memoryCodeCopy where "memoryCodeCopy U st = mem_range U st 0 2"
definition memoryExtCodeCopy where "memoryExtCodeCopy U st = mem_range U st 1 3"
definition memoryMLoad where "memoryMLoad U st = mem_fixed U st 0 32"
definition memoryMStore8 where "memoryMStore8 U st = mem_fixed U st 0 1"
definition memoryMStore where "memoryMStore U st = mem_fixed U st 0 32"
definition memoryCreate where "memoryCreate U st = mem_range U st 1 2"
definition memoryCreate2 where "memoryCreate2 U st = mem_range U st 1 2"
definition memoryCall where "memoryCall U st = mem_range2 U st 5 6 3 4"
definition memoryDelegateCall where "memoryDelegateCall U st = mem_range2 U st 4 5 2 3"
definition memoryStaticCall where "memoryStaticCall U st = mem_range2 U st 4 5 2 3"
definition memoryReturn where "memoryReturn U st = mem_range U st 0 1"
definition memoryRevert where "memoryRevert U st = mem_range U st 0 1"
definition memoryLog where "memoryLog U st = mem_range U st 0 1"

section \<open>Gas\<close>

definition MemoryGas :: uint64 where "MemoryGas = 3"
definition QuadCoeffDiv :: uint64 where "QuadCoeffDiv = 512"

text \<open>\<open>errors.go\<close>; \<open>OtherError\<close> stands for the errors of hooks and precompiles and those made on the spot.\<close>

datatype vm_error =
    ErrOutOfGas | ErrCodeStoreOutOfGas | ErrDepth | ErrInsufficientBalance | ErrContractAddressCollision
  | ErrExecutionReverted | ErrMaxCodeSizeExceeded | ErrInvalidJump | ErrWriteProtection | ErrReturnDataOutOfBounds
  | ErrGasUintOverflow | ErrInvalidCode | ErrNonceUintOverflow | errStopToken
  | ErrStackUnderflow nat int | ErrStackOverflow nat int | ErrInvalidOpCode byte | OtherError string

text \<open>\<open>memoryGasCost\<close> writes \<open>mem.lastGasCost\<close>.\<close>

definition memoryGasCost :: "uint64 \<Rightarrow> (Memory, vm_error, uint64) stm" where
  "memoryGasCost newMemSize mem =
     (if newMemSize = 0 then (Ret 0, mem)
      else if newMemSize > 0x1FFFFFFFE0 then (Fail ErrGasUintOverflow, mem)
      else
        let newMemSizeWords = toWordSize newMemSize;
            newMemSize = newMemSizeWords * 32 in
        if newMemSize > ulen (store mem) then
          let square = newMemSizeWords * newMemSizeWords;
              linCoef = newMemSizeWords * MemoryGas;
              quadCoef = square div QuadCoeffDiv;
              newTotalFee = linCoef + quadCoef;
              fee = newTotalFee - lastGasCost mem in
          (Ret fee, mem\<lparr>lastGasCost := newTotalFee\<rparr>)
        else (Ret 0, mem))"

definition callGas :: "uint256_pkg \<Rightarrow> bool \<Rightarrow> uint64 \<Rightarrow> uint64 \<Rightarrow> u256 \<Rightarrow> (vm_error, uint64) outcome" where
  "callGas U isEip150 availableGas base callCost =
     (let availableGas' = availableGas - base;
          gas = availableGas' - availableGas' div 64 in
      if isEip150 \<and> (\<not> IsUint64 U callCost \<or> gas < Uint64 U callCost) then Ret gas
      else if \<not> IsUint64 U callCost then Fail ErrGasUintOverflow
      else Ret (Uint64 U callCost))"

section \<open>Memory fee and expansion\<close>

text \<open>The fee for \<open>w\<close> words of memory, as the protocol defines it.\<close>

definition Cmem :: "nat \<Rightarrow> nat" where
  "Cmem w = 3 * w + w * w div 512"

definition words :: "nat \<Rightarrow> nat" where
  "words n = (n + 31) div 32"

text \<open>The memory between two instructions: whole words, paid for.\<close>

definition mem_ok :: "Memory \<Rightarrow> nat \<Rightarrow> bool" where
  "mem_ok m w \<longleftrightarrow> w < 2 ^ 32 \<and> length (store m) = 32 * w \<and> unat (lastGasCost m) = Cmem w"

lemma unat_add_small: "unat x + unat y < 2 ^ 64 \<Longrightarrow> unat (x + y :: uint64) = unat x + unat y"
  by (simp add: unat_word_ariths)

lemma unat_mult_small: "unat x * unat y < 2 ^ 64 \<Longrightarrow> unat (x * y :: uint64) = unat x * unat y"
  by (simp add: unat_word_ariths)

lemma word_of_nat_unat: "word_of_nat (unat x) = (x :: uint64)"
  by simp

lemma unat_toWordSize: "unat (toWordSize s) = words (unat s)"
proof (cases "s > - 1 - 31")
  case True
  then have "unat s > 2 ^ 64 - 32" by (simp add: word_less_nat_alt)
  moreover have "unat s < 2 ^ 64" using unsigned_less[of s, where 'a = nat] by simp
  ultimately have "(unat s + 31) div 32 = 2 ^ 59" by simp
  moreover have "unat (toWordSize s) = 2 ^ 59" using True by (simp add: toWordSize_def)
  ultimately show ?thesis by (simp add: words_def)
next
  case False
  then have "unat s \<le> 2 ^ 64 - 32" by (simp add: word_less_nat_alt)
  then have "unat (s + 31) = unat s + 31" by (simp add: unat_word_ariths)
  then show ?thesis using False by (simp add: toWordSize_def words_def unat_div)
qed

lemma Cmem_mono: "v \<le> w \<Longrightarrow> Cmem v \<le> Cmem w"
  unfolding Cmem_def by (intro add_mono mult_le_mono div_le_mono) simp_all

lemma Cmem_less: "w < 2 ^ 32 \<Longrightarrow> Cmem w < 2 ^ 56"
proof -
  assume "w < 2 ^ 32"
  then have "Cmem w \<le> Cmem (2 ^ 32)" by (intro Cmem_mono) simp
  also have "Cmem (2 ^ 32) < 2 ^ 56" by (simp add: Cmem_def)
  finally show ?thesis .
qed

lemma memory_fee:
  fixes x :: uint64
  assumes "unat x < 2 ^ 32"
  shows "unat (x * MemoryGas + x * x div QuadCoeffDiv) = Cmem (unat x)"
proof -
  have "unat x * unat x < 2 ^ 32 * 2 ^ 32" using assms by (intro mult_strict_mono) simp_all
  then have 1: "unat (x * x div QuadCoeffDiv) = unat x * unat x div 512"
    by (simp add: unat_div unat_mult_small QuadCoeffDiv_def)
  have 2: "unat (x * MemoryGas) = 3 * unat x" using assms by (simp add: unat_word_ariths MemoryGas_def)
  show ?thesis
    using 1 2 Cmem_less[OF assms] by (subst unat_add_small) (simp_all add: Cmem_def)
qed

lemma words_limit: "n \<le> 0x1FFFFFFFE0 \<Longrightarrow> words n < 2 ^ 32"
  by (simp add: words_def)

lemma ulen_less: "go_slice xs \<Longrightarrow> ulen xs < s \<longleftrightarrow> length xs < unat s"
  by (simp add: word_less_nat_alt unat_ulen)

lemma mem_ok_slice: "mem_ok m w \<Longrightarrow> go_slice (store m)"
  by (simp add: mem_ok_def go_slice_def)

lemma memoryGasCost_spec:
  assumes "mem_ok m w"
  shows "memoryGasCost s m =
    (if unat s > 0x1FFFFFFFE0 then (Fail ErrGasUintOverflow, m)
     else (Ret (word_of_nat (Cmem (max w (words (unat s))) - Cmem w)),
           m\<lparr>lastGasCost := word_of_nat (Cmem (max w (words (unat s))))\<rparr>))"
proof -
  have L: "s > 0x1FFFFFFFE0 \<longleftrightarrow> unat s > 0x1FFFFFFFE0" by (simp add: word_less_nat_alt)
  have id: "word_of_nat (Cmem w) = lastGasCost m" using assms word_of_nat_unat[of "lastGasCost m"] by (simp add: mem_ok_def)
  show ?thesis
  proof (cases "s = 0 \<or> unat s > 0x1FFFFFFFE0")
    case True
    then show ?thesis using L id by (auto simp: memoryGasCost_def words_def)
  next
    case False
    define x where "x = toWordSize s"
    have x: "unat x = words (unat s)" by (simp add: x_def unat_toWordSize)
    have x32: "unat x < 2 ^ 32" using False words_limit x by simp
    then have "unat (x * 32) = 32 * unat x" by (simp add: unat_word_ariths)
    then have g: "x * 32 > ulen (store m) \<longleftrightarrow> w < unat x"
      using ulen_less[OF mem_ok_slice[OF assms], of "x * 32"] assms by (simp add: mem_ok_def)
    note F = memory_fee[OF x32]
    have T: "x * MemoryGas + x * x div QuadCoeffDiv = word_of_nat (Cmem (unat x))"
      using F word_of_nat_unat[of "x * MemoryGas + x * x div QuadCoeffDiv"] by simp
    have "word_of_nat (Cmem (unat x)) - lastGasCost m = word_of_nat (Cmem (unat x) - Cmem w)" if "w < unat x"
      using Cmem_mono[of w "unat x"] that id by (simp add: of_nat_diff)
    then show ?thesis
      using False L g id T x by (auto simp: memoryGasCost_def Let_def x_def[symmetric] max_def)
  qed
qed

lemma Resize_spec:
  assumes "length (store m) = 32 * w" "w < 2 ^ 32" "unat s \<le> 0x1FFFFFFFE0"
  shows "store (Resize m (toWordSize s * 32)) =
     store m @ replicate (32 * (words (unat s) - w)) 0 \<and> lastGasCost (Resize m (toWordSize s * 32)) = lastGasCost m"
proof -
  have sl: "go_slice (store m)" using assms by (simp add: go_slice_def)
  have u: "unat (toWordSize s * 32) = 32 * words (unat s)"
    using words_limit[OF assms(3)] by (simp add: unat_word_ariths unat_toWordSize)
  have "unat (toWordSize s * 32 - ulen (store m)) = 32 * (words (unat s) - w)" if "w < words (unat s)"
    using that u assms(1) unat_ulen[OF sl] by (subst unat_sub) (simp_all add: word_le_nat_alt diff_mult_distrib2)
  then show ?thesis
    using ulen_less[OF sl, of "toWordSize s * 32"] u assms(1) by (simp add: Resize_def)
qed

text \<open>C38. Memory fee and expansion fit together without wrap-around: from a memory of \<open>w\<close> paid words, \<open>memoryGasCost\<close>
  either refuses (above the limit) or charges exactly the difference of the quadratic fees, and \<open>Resize\<close> then gives a
  memory that holds the requested size, keeps its content, is zero beyond, and is paid for again.\<close>

theorem memory_expansion:
  assumes "mem_ok m w"
  shows "if unat s > 0x1FFFFFFFE0 then memoryGasCost s m = (Fail ErrGasUintOverflow, m)
    else \<exists>fee m'. memoryGasCost s m = (Ret fee, m') \<and> unat fee = Cmem (max w (words (unat s))) - Cmem w
      \<and> mem_ok (Resize m' (toWordSize s * 32)) (max w (words (unat s)))
      \<and> unat s \<le> length (store (Resize m' (toWordSize s * 32)))
      \<and> store (Resize m' (toWordSize s * 32)) = store m @ replicate (32 * (words (unat s) - w)) 0"
proof (cases "unat s > 0x1FFFFFFFE0")
  case True
  then show ?thesis using memoryGasCost_spec[OF assms] by simp
next
  case False
  define v where "v = max w (words (unat s))"
  have v: "v < 2 ^ 32" "w \<le> v" using assms words_limit False by (auto simp: v_def mem_ok_def)
  have c: "Cmem v < 2 ^ 64" using Cmem_less[OF v(1)] by simp
  let ?m = "m\<lparr>lastGasCost := word_of_nat (Cmem v)\<rparr>"
  have M: "memoryGasCost s m = (Ret (word_of_nat (Cmem v - Cmem w)), ?m)"
    using memoryGasCost_spec[OF assms, of s] False by (simp add: v_def)
  have R: "store (Resize ?m (toWordSize s * 32)) = store m @ replicate (32 * (words (unat s) - w)) 0"
    "lastGasCost (Resize ?m (toWordSize s * 32)) = word_of_nat (Cmem v)"
    using Resize_spec[of ?m w s] assms False by (auto simp: mem_ok_def)
  have len: "length (store (Resize ?m (toWordSize s * 32))) = 32 * v" using R(1) assms by (simp add: mem_ok_def v_def)
  have "unat s \<le> 32 * words (unat s)" by (simp add: words_def)
  then have "unat s \<le> 32 * v" by (simp add: v_def)
  moreover have "mem_ok (Resize ?m (toWordSize s * 32)) v"
    using len R(2) v c by (simp add: mem_ok_def unat_of_nat)
  moreover have "unat (word_of_nat (Cmem v - Cmem w) :: uint64) = Cmem v - Cmem w" using c by (simp add: unat_of_nat)
  ultimately show ?thesis using False M R len by (simp add: v_def)
qed

theorem memory_expansion_witness:
  "\<exists>fee m'. memoryGasCost 65 NewMemory = (Ret fee, m') \<and> unat fee = 9 \<and> length (store (Resize m' (toWordSize 65 * 32))) = 96"
  using memory_expansion[of NewMemory 0 65] by (auto simp: NewMemory_def mem_ok_def Cmem_def words_def)

section \<open>Accesses within the computed size\<close>

lemma calcMemSize64WithUint_ok:
  assumes "uint256_ok U" "calcMemSize64WithUint U off n = (s, False)" "n \<noteq> 0"
  shows "unat s = unat (Uint64 U off) + unat n"
proof -
  have s: "s = Uint64 U off + n" "\<not> s < Uint64 U off"
    using assms by (auto simp: calcMemSize64WithUint_def uint256_ok_def Let_def split: if_splits)
  have n: "unat n < 2 ^ 64" "unat (Uint64 U off) < 2 ^ 64"
    using unsigned_less[of n, where 'a = nat] unsigned_less[of "Uint64 U off", where 'a = nat] by simp_all
  show ?thesis
  proof (rule ccontr)
    assume *: "\<not> ?thesis"
    then have "2 ^ 64 \<le> unat (Uint64 U off) + unat n" using s(1) unat_add_small by force
    then have "unat s = unat (Uint64 U off) + unat n - 2 ^ 64"
      using n s(1) by (simp add: unat_word_ariths mod_if)
    then show False using s(2) n \<open>2 ^ 64 \<le> _\<close> by (simp add: word_less_nat_alt)
  qed
qed

lemma calcMemSize64_ok:
  assumes "uint256_ok U" "calcMemSize64 U off l = (s, False)" "Uint64 U l \<noteq> 0"
  shows "unat s = unat (Uint64 U off) + unat (Uint64 U l)"
  using assms calcMemSize64WithUint_ok[OF assms(1)] by (auto simp: calcMemSize64_def split: if_splits)

lemma sint_unat: "unat (x :: uint64) < 2 ^ 63 \<Longrightarrow> sint x = int (unat x)"
proof -
  assume a: "unat x < 2 ^ 63"
  then have "int (unat x) < int (2 ^ 63)" by (simp only: of_nat_less_iff)
  then have u: "uint x < 2 ^ 63" by simp
  have "sint x = (uint x + 2 ^ 63) mod 2 ^ 64 - 2 ^ 63" using int_word_sint[of "uint x", where 'a = 64] by simp
  also have "(uint x + 2 ^ 63) mod 2 ^ 64 = uint x + 2 ^ 63" using u by (intro mod_pos_pos_trivial) simp_all
  finally show ?thesis by simp
qed

lemma add_int64_small:
  assumes "o' + n < 2 ^ 63"
  shows "add_int64 (int o') (int n) = int (o' + n)"
proof -
  have "unat (word_of_nat (o' + n) :: uint64) = o' + n" using assms by (simp add: unat_of_nat del: of_nat_add)
  moreover have "(word_of_int (int o' + int n) :: uint64) = word_of_nat (o' + n)" by simp
  ultimately show ?thesis using assms sint_unat[of "word_of_nat (o' + n)"] by (simp add: add_int64_def del: of_nat_add)
qed

lemma GetPtr_range:
  fixes o' n :: uint64
  assumes "go_slice (store m)" "unat o' + unat n \<le> length (store m)" "n \<noteq> 0"
  shows "GetPtr m (sint o') (sint n) = Ret (take (unat n) (drop (unat o') (store m)))"
    "GetCopy m (sint o') (sint n) = Ret (take (unat n) (drop (unat o') (store m)))"
proof -
  define a b where "a = unat o'" and "b = unat n"
  have n0: "0 < b" using assms(3) by (simp add: b_def unat_gt_0)
  have r: "a + b \<le> length (store m)" using assms(2) by (simp add: a_def b_def)
  have c: "a + b < 2 ^ 63" using r assms(1) by (simp add: go_slice_def)
  have s: "sint o' = int a" "sint n = int b" using c sint_unat[of o'] sint_unat[of n] by (simp_all add: a_def b_def)
  have add: "add_int64 (int a) (int b) = int (a + b)" using c by (rule add_int64_small)
  have sl: "slice_int (store m) (int a) (int (a + b)) = Ret (take b (drop a (store m)))"
    using r by (simp add: slice_int_def slice_def nat_add_distrib)
  have "GetPtr m (int a) (int b) = Ret (take b (drop a (store m)))"
    unfolding GetPtr_def add sl using n0 r by auto
  then show "GetPtr m (sint o') (sint n) = Ret (take (unat n) (drop (unat o') (store m)))"
    by (simp only: s a_def[symmetric] b_def[symmetric])
  have "GetCopy m (int a) (int b) = Ret (take b (drop a (store m)))"
    unfolding GetCopy_def add sl using n0 r by auto
  then show "GetCopy m (sint o') (sint n) = Ret (take (unat n) (drop (unat o') (store m)))"
    by (simp only: s a_def[symmetric] b_def[symmetric])
qed

lemma mem_Set_range:
  fixes o' n :: uint64
  assumes "go_slice (store m)" "unat o' + unat n \<le> length (store m)" "n \<noteq> 0"
  shows "mem_Set m o' n v = Ret (m\<lparr>store := take (unat o') (store m) @ take (unat n) v
           @ drop (unat o' + min (unat n) (length v)) (store m)\<rparr>)"
proof -
  have u: "unat (o' + n) = unat o' + unat n" using assms(1,2) by (intro unat_add_small) (simp add: go_slice_def)
  moreover have "\<not> ulen (store m) < o' + n" using ulen_less[OF assms(1)] u assms(2) by simp
  ultimately show ?thesis using assms(2,3) by (simp add: mem_Set_def copy_into_def word_gt_0)
qed

text \<open>C39. No memory access of an instruction is out of range: when \<open>calcMemSize64\<close> gives a size without overflow and the
  memory has that size, \<open>Set\<close> with the same offset and length does not panic, changes only the range, and \<open>GetPtr\<close> and
  \<open>GetCopy\<close> read back what was written; an empty range at any offset changes and reads nothing.\<close>

theorem memory_access:
  assumes "uint256_ok U" "calcMemSize64 U off l = (s, False)" "unat s \<le> length (store m)" "go_slice (store m)"
    and "length v = unat (Uint64 U l)"
  shows "\<exists>m'. mem_Set m (Uint64 U off) (Uint64 U l) v = Ret m'
     \<and> GetPtr m' (sint (Uint64 U off)) (sint (Uint64 U l)) = Ret v
     \<and> GetCopy m' (sint (Uint64 U off)) (sint (Uint64 U l)) = Ret v
     \<and> length (store m') = length (store m)
     \<and> (\<forall>i<length (store m). i < unat (Uint64 U off) \<or> unat (Uint64 U off) + length v \<le> i \<longrightarrow> store m' ! i = store m ! i)"
proof (cases "Uint64 U l = 0")
  case True
  then show ?thesis using assms(5) by (auto simp: mem_Set_def GetPtr_def GetCopy_def)
next
  case False
  define o' n where "o' = Uint64 U off" and "n = Uint64 U l"
  have r: "unat o' + unat n \<le> length (store m)"
    using calcMemSize64_ok[OF assms(1,2) False] assms(3) by (simp add: o'_def n_def)
  define m' where "m' = m\<lparr>store := take (unat o') (store m) @ v @ drop (unat o' + length v) (store m)\<rparr>"
  have S: "mem_Set m o' n v = Ret m'"
    using mem_Set_range[OF assms(4) r] False assms(5) by (simp add: m'_def n_def)
  have len: "length (store m') = length (store m)" using r assms(5) by (simp add: m'_def n_def)
  have G: "GetPtr m' (sint o') (sint n) = Ret v" "GetCopy m' (sint o') (sint n) = Ret v"
    using GetPtr_range[of m' o' n] r len assms(4,5) False by (simp_all add: go_slice_def m'_def n_def)
  have F: "\<forall>i<length (store m). i < unat o' \<or> unat o' + length v \<le> i \<longrightarrow> store m' ! i = store m ! i"
    using r assms(5) by (auto simp: m'_def nth_append n_def)
  show ?thesis using S G F len unfolding o'_def n_def by blast
qed

text \<open>An instance of the package's methods on words.\<close>

definition uint256_ref :: uint256_pkg where
  "uint256_ref = \<lparr>IsUint64 = (\<lambda>x. uint x < 2 ^ 64), Uint64 = ucast,
     Uint64WithOverflow = (\<lambda>x. (ucast x, \<not> uint x < 2 ^ 64)), Bytes32 = hash_bytes\<rparr>"

lemma be_nat_hash_bytes: "length (hash_bytes h) = 32 \<and> be_nat (hash_bytes h) = unat h"
proof -
  have l: "length (hash_bytes h) = 32" by (simp add: hash_bytes_def)
  have "be_nat (hash_bytes h) < 256 ^ 32" using be_nat_less[of "hash_bytes h"] l by simp
  then have "unat (word_of_nat (be_nat (hash_bytes h)) :: hash) = be_nat (hash_bytes h)" by (simp add: unat_of_nat)
  moreover have "word_of_nat (be_nat (hash_bytes h)) = h" using BytesToHash_hash_bytes[of h] l by (simp add: BytesToHash_def)
  ultimately show ?thesis using l by simp
qed

lemma uint256_ref_ok: "uint256_ok uint256_ref"
  by (simp add: uint256_ok_def uint256_ref_def be_nat_hash_bytes)

theorem memory_access_witness:
  "\<exists>m'. mem_Set (\<lparr>store = replicate 64 0, lastGasCost = 6\<rparr>) (Uint64 uint256_ref 40) (Uint64 uint256_ref 2) [7, 9] = Ret m'
     \<and> GetPtr m' 40 2 = Ret [7, 9] \<and> length (store m') = 64"
  using memory_access[of uint256_ref 40 2 42 "\<lparr>store = replicate 64 0, lastGasCost = 6\<rparr>" "[7, 9]"] uint256_ref_ok
  by (auto simp: uint256_ref_def calcMemSize64_def calcMemSize64WithUint_def go_slice_def)

text \<open>MSTORE and MLOAD: a word written is the word read.\<close>

lemma Set32_GetPtr:
  assumes "uint256_ok U" "calcMemSize64WithUint U off 32 = (s, False)" "unat s \<le> length (store m)" "go_slice (store m)"
  shows "\<exists>m'. Set32 U m (Uint64 U off) val = Ret m' \<and> GetPtr m' (sint (Uint64 U off)) 32 = Ret (Bytes32 U val)
     \<and> length (store m') = length (store m)"
proof -
  define o' where "o' = Uint64 U off"
  have r: "unat o' + 32 \<le> length (store m)"
    using calcMemSize64WithUint_ok[OF assms(1,2)] assms(3) by (simp add: o'_def)
  have b: "length (Bytes32 U val) = 32" using assms(1) by (simp add: uint256_ok_def)
  define m' where "m' = m\<lparr>store := take (unat o') (store m) @ Bytes32 U val @ drop (unat o' + 32) (store m)\<rparr>"
  have "unat (o' + 32) = unat o' + 32" using r assms(4) unat_add_small[of o' 32] by (simp add: go_slice_def)
  then have "\<not> ulen (store m) < o' + 32" using ulen_less[OF assms(4)] r by simp
  then have "Set32 U m o' val = Ret m'" using r b by (simp add: Set32_def copy_into_def m'_def)
  moreover have len: "length (store m') = length (store m)" using r b by (simp add: m'_def)
  moreover have "GetPtr m' (sint o') (sint (32 :: uint64)) = Ret (Bytes32 U val)"
    using GetPtr_range(1)[of m' o' 32] r len b assms(4) by (simp add: go_slice_def m'_def)
  ultimately show ?thesis by (auto simp: o'_def)
qed

section \<open>Input data and calls\<close>

text \<open>\<open>getData\<close> pads with zeros beyond the data; it panics when the clipped start plus the size wraps.\<close>

lemma getData_value:
  assumes "go_slice d" "unat sz < 2 ^ 63"
  shows "getData d start sz = Ret (take (unat sz) (drop (unat start) d)
     @ replicate (unat sz - (length d - unat start)) 0)"
proof -
  define st where "st = (if start > ulen d then ulen d else start)"
  have st: "unat st = min (unat start) (length d)"
    using ulen_less[OF assms(1), of start] unat_ulen[OF assms(1)] by (auto simp: st_def)
  have e: "unat (st + sz) = unat st + unat sz"
    using st assms by (intro unat_add_small) (auto simp: go_slice_def min_def)
  define en where "en = (if st + sz > ulen d then ulen d else st + sz)"
  have en: "unat en = min (unat st + unat sz) (length d)"
    using ulen_less[OF assms(1), of "st + sz"] unat_ulen[OF assms(1)] e by (auto simp: en_def)
  have "(slice d (unat st) (unat en) :: (string, bytes) outcome) = Ret (take (unat sz) (drop (unat start) d))"
    using st en by (auto simp: slice_def min_def)
  moreover have "getData d start sz = bind_outcome (slice d (unat st) (unat en)) (\<lambda>s. Ret (RightPadBytes s (int (unat sz))))"
    unfolding getData_def Let_def st_def en_def sint_unat[OF assms(2)] ..
  moreover have "RightPadBytes (take n xs) (int n) = take n xs @ replicate (n - length xs) 0" for n xs
    by (auto simp: RightPadBytes_def)
  ultimately show ?thesis by (simp only: bind_outcome.simps length_drop)
qed

lemma getData_wraps: "getData [0] 1 (- 1) = (Panic :: (string, bytes) outcome)"
  by (simp add: getData_def ulen_def slice_def Let_def)

text \<open>The EIP-150 rule: a call is given what it asks for, up to all but a 64th of what is left after the base cost.\<close>

lemma unat_less_uint: "uint x < 2 ^ 64 \<longleftrightarrow> unat x < 2 ^ 64"
proof -
  have "int (unat x) < int (2 ^ 64) \<longleftrightarrow> unat x < 2 ^ 64" by (simp only: of_nat_less_iff)
  then show ?thesis by simp
qed

lemma callGas_cap:
  assumes "uint256_ok U" "base \<le> availableGas"
  shows "\<exists>g. callGas U True availableGas base cost = Ret g \<and>
     unat g = min (unat cost) (unat (availableGas - base) - unat (availableGas - base) div 64)"
proof -
  define a where "a = availableGas - base"
  define gas where "gas = a - a div 64"
  have g: "unat gas = unat a - unat a div 64"
    unfolding gas_def by (subst unat_sub) (simp_all add: word_le_nat_alt unat_div)
  have I: "IsUint64 U cost \<longleftrightarrow> unat cost < 2 ^ 64" and V: "Uint64 U cost = ucast cost"
    using assms(1) unat_less_uint[of cost] by (simp_all add: uint256_ok_def)
  have c: "unat (Uint64 U cost) = unat cost" if "unat cost < 2 ^ 64"
    using that V by (simp add: unsigned_ucast_eq take_bit_nat_eq_self)
  have "unat gas < 2 ^ 64" using unsigned_less[of gas, where 'a = nat] by simp
  then show ?thesis
    using I c g
    by (auto simp: callGas_def Let_def a_def[symmetric] gas_def[symmetric] word_less_nat_alt min_def)
qed

end
