(* ===== verification/Vm_Contract.thy ===== *)
theory Vm_Contract
  imports Vm_Analysis Vm_Memory
begin

text \<open>
  The contract of a call frame (\<open>core/vm/contract.go\<close>): its gas, its code and the cached jump destination
  analysis. The map \<open>jumpdests\<close> is one object shared by all frames of a call tree; it is passed along
  as a value of its own.
\<close>

section \<open>Contracts\<close>

type_synonym jumpdests = "hash \<rightharpoonup> bitvec"

text \<open>
  \<open>ContractRef\<close>: an account, or a contract with what \<open>AsDelegate\<close> and \<open>NewContract\<close> read of it.
\<close>

datatype ContractRef =
    AccountRef address
  | ContractOf (ref_CallerAddress: address) (ref_self: address) (ref_value: int)

fun ref_Address :: "ContractRef \<Rightarrow> address" where
  "ref_Address (AccountRef a) = a"
| "ref_Address (ContractOf c s v) = s"

record Contract =
  CallerAddress :: address
  caller :: ContractRef
  self :: ContractRef
  analysis :: "bitvec option"
  Code :: bytes
  CodeHash :: hash
  CodeAddr :: "address option"
  Input :: bytes
  Gas :: uint64
  c_value :: int

definition NewContract :: "jumpdests \<Rightarrow> ContractRef \<Rightarrow> ContractRef \<Rightarrow> int \<Rightarrow> uint64 \<Rightarrow> Contract \<times> jumpdests" where
  "NewContract parent_jumpdests cal obj val gas =
     (\<lparr>CallerAddress = ref_Address cal, caller = cal, self = obj, analysis = None, Code = [], CodeHash = 0,
       CodeAddr = None, Input = [], Gas = gas, c_value = val\<rparr>,
      (case cal of ContractOf _ _ _ \<Rightarrow> parent_jumpdests | AccountRef _ \<Rightarrow> Map.empty))"

definition isCode :: "Contract \<Rightarrow> jumpdests \<Rightarrow> nat \<Rightarrow> (string, bool \<times> Contract \<times> jumpdests) outcome" where
  "isCode c m udest =
     (case analysis c of
        Some bits \<Rightarrow> bind_outcome (codeSegment bits udest) (\<lambda>r. Ret (r, c, m))
      | None \<Rightarrow>
          if CodeHash c \<noteq> 0 then
            bind_outcome
              (case m (CodeHash c) of
                 Some bits \<Rightarrow> Ret (bits, m)
               | None \<Rightarrow> bind_outcome (codeBitmap (Code c)) (\<lambda>bits. Ret (bits, m(CodeHash c \<mapsto> bits))))
              (\<lambda>(bits, m). bind_outcome (codeSegment bits udest) (\<lambda>r. Ret (r, c\<lparr>analysis := Some bits\<rparr>, m)))
          else
            bind_outcome (codeBitmap (Code c)) (\<lambda>bits.
            bind_outcome (codeSegment bits udest) (\<lambda>r. Ret (r, c\<lparr>analysis := Some bits\<rparr>, m))))"

definition JUMPDEST :: byte where
  "JUMPDEST = 0x5b"

definition STOP :: byte where
  "STOP = 0x00"

definition validJumpdest :: "uint256_pkg \<Rightarrow> Contract \<Rightarrow> jumpdests \<Rightarrow> u256 \<Rightarrow> (string, bool \<times> Contract \<times> jumpdests) outcome" where
  "validJumpdest U c m dest =
     (let (udest, overflow) = Uint64WithOverflow U dest in
      if overflow \<or> udest \<ge> ulen (Code c) then Ret (False, c, m)
      else bind_outcome (index (Code c) (unat udest)) (\<lambda>op.
        if op \<noteq> JUMPDEST then Ret (False, c, m) else isCode c m (unat udest)))"

definition AsDelegate :: "Contract \<Rightarrow> (string, Contract) outcome" where
  "AsDelegate c =
     (case caller c of
        ContractOf a _ v \<Rightarrow> Ret (c\<lparr>CallerAddress := a, c_value := v\<rparr>)
      | AccountRef _ \<Rightarrow> Panic)"

definition GetOp :: "Contract \<Rightarrow> uint64 \<Rightarrow> byte" where
  "GetOp c n = (if n < ulen (Code c) then Code c ! unat n else STOP)"

definition UseGas :: "Contract \<Rightarrow> uint64 \<Rightarrow> bool \<times> Contract" where
  "UseGas c gas = (if Gas c < gas then (False, c) else (True, c\<lparr>Gas := Gas c - gas\<rparr>))"

definition contract_Address :: "Contract \<Rightarrow> address" where
  "contract_Address c = ref_Address (self c)"

definition SetCallCode :: "Contract \<Rightarrow> address option \<Rightarrow> hash \<Rightarrow> bytes \<Rightarrow> Contract" where
  "SetCallCode c addr h code = c\<lparr>Code := code, CodeHash := h, CodeAddr := addr\<rparr>"

record codeAndHash =
  cah_code :: bytes
  cah_hash :: hash

definition SetCodeOptionalHash :: "Contract \<Rightarrow> address option \<Rightarrow> codeAndHash \<Rightarrow> Contract" where
  "SetCodeOptionalHash c addr cah = c\<lparr>Code := cah_code cah, CodeHash := cah_hash cah, CodeAddr := addr\<rparr>"

section \<open>The analysis cache\<close>

text \<open>
  \<open>code_of\<close> gives the code of every code hash in play. The shared map and the contract only hold analyses
  of the code they are used for.
\<close>

definition cache_ok :: "(hash \<Rightarrow> bytes) \<Rightarrow> jumpdests \<Rightarrow> bool" where
  "cache_ok code_of m \<longleftrightarrow> (\<forall>h bits. m h = Some bits \<longrightarrow> codeBitmap (code_of h) = Ret bits)"

definition contract_ok :: "(hash \<Rightarrow> bytes) \<Rightarrow> Contract \<Rightarrow> bool" where
  "contract_ok code_of c \<longleftrightarrow> go_slice (Code c) \<and> (CodeHash c \<noteq> 0 \<longrightarrow> Code c = code_of (CodeHash c))
     \<and> (\<forall>bits. analysis c = Some bits \<longrightarrow> codeBitmap (Code c) = Ret bits)"

lemma isCode_correct:
  assumes "contract_ok code_of c" "cache_ok code_of m" "pos < length (Code c)"
  shows "\<exists>c' m'. isCode c m pos = Ret (instr_start (Code c) pos, c', m') \<and> contract_ok code_of c' \<and> cache_ok code_of m'
     \<and> c'\<lparr>analysis := None\<rparr> = c\<lparr>analysis := None\<rparr>"
proof -
  obtain bits where B: "codeBitmap (Code c) = Ret bits"
    "codeSegment bits pos = Ret (instr_start (Code c) pos)"
    by (rule codeBitmap_correct_lemma[of "Code c"]) (use assms(3) in blast)
  show ?thesis
  proof (cases "analysis c")
    case (Some b)
    then have "b = bits" using assms(1) B(1) by (simp add: contract_ok_def)
    then show ?thesis using Some B(2) assms by (simp add: isCode_def)
  next
    case None
    let ?c = "c\<lparr>analysis := Some bits\<rparr>"
    have c: "contract_ok code_of ?c" using assms(1) B(1) by (simp add: contract_ok_def)
    show ?thesis
    proof (cases "CodeHash c = 0")
      case True
      then show ?thesis using None B c assms(2) by (simp add: isCode_def)
    next
      case False
      then have code: "code_of (CodeHash c) = Code c" using assms(1) by (simp add: contract_ok_def)
      have m: "cache_ok code_of (m(CodeHash c \<mapsto> bits))" using assms(2) code B(1) by (auto simp: cache_ok_def)
      have "m (CodeHash c) = Some b \<Longrightarrow> b = bits" for b using assms(2) code B(1) by (force simp: cache_ok_def)
      then show ?thesis using None False B c m assms(2) by (cases "m (CodeHash c)") (auto simp: isCode_def)
    qed
  qed
qed

text \<open>C37. Jump destinations are checked exactly, with or without a cached analysis: in a frame whose caches hold analyses of the right
  code, \<open>validJumpdest\<close> never panics, answers whether the destination is a JUMPDEST byte at which an instruction starts,
  and leaves caches that are right, with the rest of the contract unchanged.\<close>

theorem validJumpdest_correct:
  assumes "uint256_ok U" "contract_ok code_of c" "cache_ok code_of m"
  shows "\<exists>c' m'. validJumpdest U c m dest =
       Ret (unat dest < length (Code c) \<and> Code c ! unat dest = JUMPDEST \<and> instr_start (Code c) (unat dest), c', m')
     \<and> contract_ok code_of c' \<and> cache_ok code_of m' \<and> c'\<lparr>analysis := None\<rparr> = c\<lparr>analysis := None\<rparr>"
proof -
  have gs: "go_slice (Code c)" using assms(2) by (simp add: contract_ok_def)
  have U: "Uint64WithOverflow U dest = (ucast dest, \<not> unat dest < 2 ^ 64)"
    using assms(1) unat_less_uint[of dest] by (simp add: uint256_ok_def)
  have len: "length (Code c) < 2 ^ 64" using gs by (simp add: go_slice_def)
  have u: "unat (ucast dest :: uint64) = unat dest" if "unat dest < 2 ^ 64"
    using that by (simp add: unsigned_ucast_eq take_bit_nat_eq_self)
  have ge: "ucast dest \<ge> ulen (Code c) \<longleftrightarrow> length (Code c) \<le> unat dest" if "unat dest < 2 ^ 64"
    using ulen_less[OF gs, of "ucast dest"] unat_ulen[OF gs] u[OF that] by (simp add: word_le_nat_alt)
  show ?thesis
  proof (cases "unat dest < length (Code c)")
    case False
    then have "validJumpdest U c m dest = Ret (False, c, m)"
      using U ge by (cases "unat dest < 2 ^ 64") (auto simp: validJumpdest_def)
    then show ?thesis using False assms by simp
  next
    case True
    then have d: "unat dest < 2 ^ 64" using len by simp
    have V: "validJumpdest U c m dest = (if Code c ! unat dest \<noteq> JUMPDEST then Ret (False, c, m) else isCode c m (unat dest))"
      using U ge[OF d] True d u[OF d] by (simp add: validJumpdest_def index_def)
    show ?thesis
      using isCode_correct[OF assms(2,3) True] V True assms(2,3) by (cases "Code c ! unat dest = JUMPDEST") auto
  qed
qed

text \<open>A frame that runs the four bytes PUSH1 0x5b JUMPDEST STOP.\<close>

definition sample_contract :: Contract where
  "sample_contract = SetCallCode (fst (NewContract Map.empty (AccountRef 1) (AccountRef 2) 0 100)) (Some 2) 7
     [0x60, 0x5b, 0x5b, 0x00]"

theorem validJumpdest_correct_witness:
  "(\<exists>c' m'. validJumpdest uint256_ref sample_contract Map.empty 2 = Ret (True, c', m'))
   \<and> (\<exists>c' m'. validJumpdest uint256_ref sample_contract Map.empty 3 = Ret (False, c', m'))"
proof -
  have ok: "contract_ok (\<lambda>_. [0x60, 0x5b, 0x5b, 0x00]) sample_contract" "cache_ok (\<lambda>_. [0x60, 0x5b, 0x5b, 0x00]) Map.empty"
    by (simp_all add: contract_ok_def cache_ok_def sample_contract_def SetCallCode_def NewContract_def go_slice_def)
  have code: "Code sample_contract = [0x60, 0x5b, 0x5b, 0x00]" by (simp add: sample_contract_def SetCallCode_def)
  have "push_size 0x60 = 1" by (simp add: push_size_def)
  then have "instr_start [0x60, 0x5b, 0x5b, 0x00] (1 + 1)"
    using instr_start.step[OF instr_start.start, of "[0x60, 0x5b, 0x5b, 0x00]"] by simp
  then have "instr_start [0x60, 0x5b, 0x5b, 0x00] 2" by (simp only: one_add_one)
  then show ?thesis
    using validJumpdest_correct[OF uint256_ref_ok ok, of 2] validJumpdest_correct[OF uint256_ref_ok ok, of 3]
    by (simp add: code JUMPDEST_def) blast
qed

text \<open>Setting the code of a new frame keeps the caches right.\<close>

lemma NewContract_ok:
  assumes "cache_ok code_of m" "NewContract m cal obj val gas = (c, m')"
  shows "cache_ok code_of m' \<and> analysis c = None \<and> Gas c = gas"
    "go_slice code \<Longrightarrow> (h \<noteq> 0 \<Longrightarrow> code = code_of h) \<Longrightarrow> contract_ok code_of (SetCallCode c addr h code)"
  using assms by (auto simp: NewContract_def cache_ok_def contract_ok_def SetCallCode_def split: ContractRef.splits)

lemma UseGas_correct:
  "UseGas c gas = (if unat gas \<le> unat (Gas c) then (True, c\<lparr>Gas := Gas c - gas\<rparr>) else (False, c))"
  "unat gas \<le> unat (Gas c) \<Longrightarrow> unat (Gas (snd (UseGas c gas))) = unat (Gas c) - unat gas"
  by (auto simp: UseGas_def word_less_nat_alt unat_sub word_le_nat_alt)

end
