(* ===== verification/State_Ether.thy ===== *)
theory State_Ether
  imports State_Finalise State_Balance
begin

text \<open>
  What the code that uses the state database may do to ether. \<open>acts\<close>: it changes the state only through the operations of the
  database. \<open>settles\<close>: beyond that, when no account is in debt, none falls into debt, the balance delta ends as it was, and
  the sum of all balances does not grow. The EVM is shown to settle.
\<close>

section \<open>Operations of the state database\<close>

text \<open>\<open>acts db s s'\<close>: operations of the state database lead from \<open>s\<close> to \<open>s'\<close>.\<close>

definition acts :: "'t Database \<Rightarrow> 't StateDB \<Rightarrow> 't StateDB \<Rightarrow> bool" where
  "acts db s s' \<longleftrightarrow> (\<exists>ops. exec_ops db ops s = (Ret (), s'))"

lemma acts_refl [simp]: "acts db s s"
  unfolding acts_def by (rule exI[of _ "[]"]) simp

lemma exec_ops_append: "exec_ops db (xs @ ys) s = bind_st (exec_ops db xs) (\<lambda>_. exec_ops db ys) s"
proof (induction xs arbitrary: s)
  case (Cons x xs)
  then show ?case by (simp add: bind_st_def split: prod.split outcome.split)
qed (simp add: bind_st_def)

lemma acts_trans [trans]: "acts db s s' \<Longrightarrow> acts db s' s'' \<Longrightarrow> acts db s s''"
  unfolding acts_def by (metis exec_ops_append bind_st_apply(1))

lemma acts_exec: "exec db x s = (Ret (), s') \<Longrightarrow> acts db s s'"
  unfolding acts_def by (rule exI[of _ "[x]"]) (simp add: bind_st_def)

lemma acts_inv: "acts db s s' \<Longrightarrow> sdb_inv db s \<Longrightarrow> sdb_inv db s'"
  unfolding acts_def using exec_ops_inv by blast

lemma acts_AddBalance: "acts db s (AddBalance db a v s)"
  and acts_SubBalance: "acts db s (SubBalance db a v s)"
  and acts_Suicide: "acts db s (snd (Suicide db a s))"
  by (rule acts_exec[of _ "AddBalance_op a v"], simp) (rule acts_exec[of _ "SubBalance_op a v"], simp,
      rule acts_exec[of _ "Suicide_op a"], simp)

lemma acts_partial:
  shows acts_ExpectBalanceBurn: "ExpectBalanceBurn v s = (Ret (), s') \<Longrightarrow> acts db s s'"
    and acts_RevertToSnapshot: "RevertToSnapshot db i s = (Ret (), s') \<Longrightarrow> acts db s s'"
  using acts_exec[of db "ExpectBalanceBurn_op v" s s'] acts_exec[of db "RevertToSnapshot_op i" s s'] by simp_all

section \<open>Ether\<close>

definition solvent :: "'t Database \<Rightarrow> 't StateDB \<Rightarrow> bool" where
  "solvent db s \<longleftrightarrow> (\<forall>a. 0 \<le> bal db s a)"

definition settles :: "'t Database \<Rightarrow> 't StateDB \<Rightarrow> 't StateDB \<Rightarrow> bool" where
  "settles db s s' \<longleftrightarrow> acts db s s' \<and> (sdb_inv db s \<longrightarrow> solvent db s \<longrightarrow>
     solvent db s' \<and> unexpectedBalanceDelta s' = unexpectedBalanceDelta s \<and> drift db s \<le> drift db s')"

lemma settles_acts: "settles db s s' \<Longrightarrow> acts db s s'"
  by (simp add: settles_def)

lemma settles_refl [simp]: "settles db s s"
  by (simp add: settles_def)

lemma settles_trans [trans]: "settles db s s' \<Longrightarrow> settles db s' s'' \<Longrightarrow> settles db s s''"
  unfolding settles_def using acts_trans acts_inv by fastforce

lemma settles_pays_nothing:
  assumes "acts db s s'" "sdb_inv db s \<Longrightarrow> pays db a 0 s s'"
  shows "settles db s s'"
  unfolding settles_def
proof (intro conjI impI)
  assume i: "sdb_inv db s" "solvent db s"
  have p: "bal db s' = bal db s" "unexpectedBalanceDelta s' = unexpectedBalanceDelta s"
    using assms(2)[OF i(1)] by (simp_all add: pays_nothing)
  show "solvent db s'" "unexpectedBalanceDelta s' = unexpectedBalanceDelta s" using i(2) p by (simp_all add: solvent_def)
  show "drift db s \<le> drift db s'" using pays_drift[OF assms(2)[OF i(1)]] by simp
qed (rule assms(1))

lemma settles_exec:
  assumes "exec db x s = (Ret (), s')" "\<not> moves_ether x"
  shows "settles db s s'"
  by (rule settles_pays_nothing[OF acts_exec[OF assms(1)]])
    (rule exec_pays_nothing[OF sdb_inv_wf sdb_inv_view assms])

text \<open>The operations of the EVM that move no ether, applied after others.\<close>

lemma settles_ops [intro]:
  assumes "settles db s s'"
  shows "settles db s (sdb_SetNonce db a n s')"
    "settles db s (sdb_SetCode db a c s')" "settles db s (sdb_SetState db a k w s')" "settles db s (SetTransientState a k w s')"
    "settles db s (CreateAccount db a s')" "settles db s (AddLog l s')" "settles db s (AddPreimage h p s')"
    "settles db s (AddRefund g s')" "settles db s (AddAddressToAccessList a s')" "settles db s (snd (sdb_Exist db a s'))"
    "settles db s (snd (sdb_Empty db a s'))" "settles db s (snd (GetBalance db a s'))" "settles db s (snd (GetNonce db a s'))"
    "settles db s (snd (GetCode db a s'))" "settles db s (snd (GetCodeSize db a s'))" "settles db s (snd (GetCodeHash db a s'))"
    "settles db s (snd (GetState db a k s'))" "settles db s (snd (GetCommittedState db a k s'))" "settles db s (snd (HasSuicided db a s'))"
    "settles db s (snd (Snapshot s'))"
proof -
  have step: "settles db s s''" if "exec db x s' = (Ret (), s'')" "\<not> moves_ether x" for x s''
    by (rule settles_trans[OF assms settles_exec[OF that]])
  show "settles db s (sdb_SetNonce db a n s')" by (rule step[of "SetNonce_op a n"]) simp_all
  show "settles db s (sdb_SetCode db a c s')" by (rule step[of "SetCode_op a c"]) simp_all
  show "settles db s (sdb_SetState db a k w s')" by (rule step[of "SetState_op a k w"]) simp_all
  show "settles db s (SetTransientState a k w s')" by (rule step[of "SetTransientState_op a k w"]) simp_all
  show "settles db s (CreateAccount db a s')" by (rule step[of "CreateAccount_op a"]) simp_all
  show "settles db s (AddLog l s')" by (rule step[of "AddLog_op l"]) simp_all
  show "settles db s (AddPreimage h p s')" by (rule step[of "AddPreimage_op h p"]) simp_all
  show "settles db s (AddRefund g s')" by (rule step[of "AddRefund_op g"]) simp_all
  show "settles db s (AddAddressToAccessList a s')" by (rule step[of "AddAddress_op a"]) simp_all
  show "settles db s (snd (sdb_Exist db a s'))" by (rule step[of "Exist_op a"]) simp_all
  show "settles db s (snd (sdb_Empty db a s'))" by (rule step[of "Empty_op a"]) simp_all
  show "settles db s (snd (GetBalance db a s'))" by (rule step[of "GetBalance_op a"]) simp_all
  show "settles db s (snd (GetNonce db a s'))" by (rule step[of "GetNonce_op a"]) simp_all
  show "settles db s (snd (GetCode db a s'))" by (rule step[of "GetCode_op a"]) simp_all
  show "settles db s (snd (GetCodeSize db a s'))" by (rule step[of "GetCodeSize_op a"]) simp_all
  show "settles db s (snd (GetCodeHash db a s'))" by (rule step[of "GetCodeHash_op a"]) simp_all
  show "settles db s (snd (GetState db a k s'))" by (rule step[of "GetState_op a k"]) simp_all
  show "settles db s (snd (GetCommittedState db a k s'))" by (rule step[of "GetCommittedState_op a k"]) simp_all
  show "settles db s (snd (HasSuicided db a s'))" by (rule step[of "HasSuicided_op a"]) simp_all
  show "settles db s (snd (Snapshot s'))" by (rule step[of Snapshot_op]) simp_all
qed

lemma settles_partial:
  assumes "settles db s s'"
  shows "SubRefund g s' = (Ret (), s'') \<Longrightarrow> settles db s s''" "AddSlotToAccessList a k s' = (Ret (), s'') \<Longrightarrow> settles db s s''"
  using settles_trans[OF assms settles_exec[of db "SubRefund_op g" s' s'']]
    settles_trans[OF assms settles_exec[of db "AddSlot_op a k" s' s'']] by simp_all

lemma settles_total:
  assumes "settles db s s'" "sdb_inv db s" "solvent db s"
  shows "solvent db s' \<and> TotalBalance db s' \<le> TotalBalance db s \<and> GetUnexpectedBalanceDelta s' = GetUnexpectedBalanceDelta s"
  using assms TotalBalance_view[OF sdb_inv_wf[OF assms(2)], of db]
    TotalBalance_view[OF sdb_inv_wf[OF acts_inv[OF settles_acts[OF assms(1)] assms(2)]], of db]
  by (auto simp: settles_def drift_def GetUnexpectedBalanceDelta_def)

text \<open>A revert to a snapshot taken before undoes whatever happened since.\<close>

lemma settles_revert:
  assumes "Snapshot s0 = (i, s1)" "acts db s1 s2" "RevertToSnapshot db i s2 = (Ret (), s3)"
  shows "settles db s0 s3"
proof -
  have "acts db s0 s1" using acts_exec[of db Snapshot_op s0 s1] assms(1) by simp
  then have a: "acts db s0 s3" by (rule acts_trans[OF _ acts_trans[OF assms(2) acts_RevertToSnapshot[OF assms(3)]]])
  have "view db s3 = view db s0 \<and> unexpectedBalanceDelta s3 = unexpectedBalanceDelta s0" if "sdb_inv db s0"
  proof -
    have "i \<in> rev_id ` set (validRevisions s2)" using assms(3) RevertToSnapshot_invalid[of i s2 db] by fastforce
    then show ?thesis using snapshot_revert[OF that assms(1)] assms(2,3) unfolding acts_def by fastforce
  qed
  then show ?thesis using a bal_view[of db s3 s0] by (auto simp: settles_def solvent_def drift_def)
qed

text \<open>A payment and its counterpart.\<close>

lemma pays_solvent: "pays db a v s s' \<Longrightarrow> solvent db s \<Longrightarrow> 0 \<le> bal db s a + v \<Longrightarrow> solvent db s'"
  by (simp add: pays_def solvent_def)

lemma settles_AddBalance_0: "settles db s s' \<Longrightarrow> settles db s (AddBalance db a 0 s')"
  by (erule settles_trans, rule settles_pays_nothing[OF acts_AddBalance], rule AddBalance_pays) (rule sdb_inv_wf sdb_inv_view, assumption)+

lemma settles_transfer:
  assumes "settles db s s'" "0 \<le> v" "sdb_inv db s \<Longrightarrow> solvent db s \<Longrightarrow> v \<le> bal db s' a"
  shows "settles db s (AddBalance db b v (SubBalance db a v s'))"
proof -
  let ?s1 = "SubBalance db a v s'" and ?s2 = "AddBalance db b v (SubBalance db a v s')"
  have a: "acts db s ?s2" by (rule acts_trans[OF settles_acts[OF assms(1)] acts_trans[OF acts_SubBalance acts_AddBalance]])
  have "solvent db ?s2 \<and> unexpectedBalanceDelta ?s2 = unexpectedBalanceDelta s' \<and> drift db ?s2 = drift db s'"
    if i: "sdb_inv db s" "solvent db s"
  proof -
    have i1: "sdb_inv db s'" "solvent db s'" using assms(1) i acts_inv[OF settles_acts[OF assms(1)]] by (simp_all add: settles_def)
    have i2: "sdb_inv db ?s1" by (rule acts_inv[OF acts_SubBalance i1(1)])
    have p1: "pays db a (- v) s' ?s1" by (rule SubBalance_pays[OF sdb_inv_wf[OF i1(1)] sdb_inv_view[OF i1(1)]])
    have p2: "pays db b v ?s1 ?s2" by (rule AddBalance_pays[OF sdb_inv_wf[OF i2] sdb_inv_view[OF i2]])
    have s1: "solvent db ?s1" by (rule pays_solvent[OF p1 i1(2)]) (use assms(3)[OF i] in simp)
    then have "solvent db ?s2" by (rule pays_solvent[OF p2]) (use s1 assms(2) in \<open>auto simp: solvent_def\<close>)
    then show ?thesis using pays_drift[OF p1] pays_drift[OF p2] p1 p2 by (simp add: pays_def)
  qed
  then show ?thesis using a assms(1) by (simp add: settles_def)
qed

lemma GetBalance_bal:
  assumes "sdb_wf s"
  shows "fst (GetBalance db a s) = bal db s a" "bal db (snd (GetBalance db a s)) = bal db s"
  using query_values(3)[OF assms, of db a] bal_view[OF reads_fields(2)[OF query_reads(3)[OF assms, of db a]]]
  by (simp_all add: bal_def)

text \<open>\<open>idle db s s'\<close>: operations that leave every balance as it is.\<close>

definition idle :: "'t Database \<Rightarrow> 't StateDB \<Rightarrow> 't StateDB \<Rightarrow> bool" where
  "idle db s s' \<longleftrightarrow> acts db s s' \<and> (sdb_inv db s \<longrightarrow> bal db s' = bal db s \<and> unexpectedBalanceDelta s' = unexpectedBalanceDelta s)"

lemma idle_refl [simp]: "idle db s s"
  by (simp add: idle_def)

lemma idle_exec:
  assumes "idle db s s'" "exec db x s' = (Ret (), s'')" "\<not> moves_ether x"
  shows "idle db s s''"
proof -
  have a: "acts db s s'" using assms(1) by (simp add: idle_def)
  have "bal db s'' = bal db s' \<and> unexpectedBalanceDelta s'' = unexpectedBalanceDelta s'" if "sdb_inv db s"
    using exec_pays_nothing[OF sdb_inv_wf sdb_inv_view assms(2,3), where b = 0] acts_inv[OF a that] by (simp add: pays_nothing)
  then show ?thesis using assms(1) acts_trans[OF a acts_exec[OF assms(2)]] by (simp add: idle_def)
qed

lemma idle_ops [simp]:
  assumes "idle db s s'"
  shows "idle db s (snd (GetBalance db a s'))" "idle db s (snd (sdb_Exist db a s'))" "idle db s (snd (GetNonce db a s'))"
    "idle db s (snd (GetCodeHash db a s'))" "idle db s (snd (Snapshot s'))" "idle db s (CreateAccount db a s')"
    "idle db s (sdb_SetNonce db a n s')" "idle db s (AddAddressToAccessList a s')"
  by (rule idle_exec[OF assms, of "GetBalance_op a"] idle_exec[OF assms, of "Exist_op a"] idle_exec[OF assms, of "GetNonce_op a"]
      idle_exec[OF assms, of "GetCodeHash_op a"] idle_exec[OF assms, of Snapshot_op] idle_exec[OF assms, of "CreateAccount_op a"]
      idle_exec[OF assms, of "SetNonce_op a n"] idle_exec[OF assms, of "AddAddress_op a"]; simp; fail)+

lemma idle_settles: "idle db s s' \<Longrightarrow> settles db s s'"
  by (rule settles_pays_nothing) (simp_all add: idle_def pays_nothing)

text \<open>A transfer after the sender's balance was checked.\<close>

lemma settles_checked_transfer:
  assumes "idle db s s'" "0 \<le> v" "v = 0 \<or> v \<le> fst (GetBalance db a s)"
  shows "settles db s (AddBalance db b v (SubBalance db a v s'))"
proof (rule settles_transfer[OF idle_settles[OF assms(1)] assms(2)])
  assume i: "sdb_inv db s" "solvent db s"
  then have "bal db s' = bal db s" using assms(1) by (simp add: idle_def)
  then show "v \<le> bal db s' a" using assms(3) i GetBalance_bal(1)[OF sdb_inv_wf[OF i(1)], of db a] by (auto simp: solvent_def)
qed

text \<open>Self-destruction: the balance goes to the beneficiary, or is burned when that is the account itself.\<close>

lemma settles_suicide:
  fixes a c :: address and s :: "'t StateDB" and db :: "'t Database"
  defines "b \<equiv> fst (GetBalance db a s)"
  defines "s1 \<equiv> AddBalance db c b (snd (GetBalance db a s))"
  defines "s2 \<equiv> snd (Suicide db a s1)"
  shows "c \<noteq> a \<Longrightarrow> settles db s s2" "c = a \<Longrightarrow> ExpectBalanceBurn b s2 = (Ret (), s3) \<Longrightarrow> settles db s s3"
proof -
  let ?s = "snd (GetBalance db a s)"
  have g: "settles db s ?s" by (rule settles_ops[OF settles_refl])
  have a: "acts db s s2" unfolding s1_def s2_def
    by (rule acts_trans[OF settles_acts[OF g] acts_trans[OF acts_AddBalance acts_Suicide]])
  have main: "solvent db s2 \<and> unexpectedBalanceDelta s2 = unexpectedBalanceDelta s - (if c = a then b else 0) \<and> drift db s \<le> drift db s2 \<and> 0 \<le> b"
    if i: "sdb_inv db s" "solvent db s"
  proof -
    have i1: "sdb_inv db ?s" "solvent db ?s" "unexpectedBalanceDelta ?s = unexpectedBalanceDelta s" "drift db s \<le> drift db ?s"
      using g i acts_inv[OF settles_acts[OF g]] by (simp_all add: settles_def)
    have i2: "sdb_inv db s1" unfolding s1_def by (rule acts_inv[OF acts_AddBalance i1(1)])
    have p1: "pays db c b ?s s1" unfolding s1_def by (rule AddBalance_pays[OF sdb_inv_wf[OF i1(1)] sdb_inv_view[OF i1(1)]])
    have p2: "pays db a (- bal db s1 a) s1 s2" unfolding s2_def by (rule Suicide_pays[OF sdb_inv_wf[OF i2]])
    have bb: "b = bal db ?s a" unfolding b_def using GetBalance_bal[OF sdb_inv_wf[OF i(1)], of db a] by simp
    then have b: "0 \<le> b" using i1(2) by (simp add: solvent_def)
    have "solvent db s1" by (rule pays_solvent[OF p1 i1(2)]) (use i1(2) b in \<open>simp add: solvent_def\<close>)
    then have "solvent db s2" by (rule pays_solvent[OF p2]) simp
    then show ?thesis using pays_drift[OF p1] pays_drift[OF p2] p1 p2 b bb i1(3,4) by (auto simp: pays_def)
  qed
  show "settles db s s2" if "c \<noteq> a" using a main that by (simp add: settles_def)
  assume c: "c = a" and e: "ExpectBalanceBurn b s2 = (Ret (), s3)"
  have s3: "s3 = add_delta b s2" using e by (simp add: ExpectBalanceBurn_def split: if_splits)
  have "bal db s3 = bal db s2" "unexpectedBalanceDelta s3 = unexpectedBalanceDelta s2 + b" "drift db s3 = drift db s2 + b"
    by (simp_all add: s3 drift_def vtotal_bal)
  then show "settles db s s3"
    using acts_trans[OF a acts_ExpectBalanceBurn[OF e]] main c by (auto simp: settles_def solvent_def)
qed

section \<open>The start of a transaction\<close>

lemma Prepare_shape:
  assumes "Prepare b sh sender coinbase dst pre ls s = (Ret (), s')"
  shows "\<exists>al t. s' = s\<lparr>sdb_accessList := al, sdb_transient := t\<rparr> \<and> (al_ok (sdb_accessList s) \<longrightarrow> al_ok al)"
proof (cases b)
  case False
  then have "s' = s\<lparr>sdb_accessList := sdb_accessList s, sdb_transient := newTransientStorage\<rparr>" using assms by (simp add: Prepare_def)
  then show ?thesis by blast
next
  case True
  let ?add = "\<lambda>a al. snd (AddAddress a al)"
  define al0 where "al0 = fold ?add pre (case dst of None \<Rightarrow> ?add sender newAccessList | Some d \<Rightarrow> ?add d (?add sender newAccessList))"
  have "warm newAccessList {} {}" by (simp add: warm_def)
  from warm_AddAddress[OF this, of sender] obtain A where
    "warm (case dst of None \<Rightarrow> ?add sender newAccessList | Some d \<Rightarrow> ?add d (?add sender newAccessList)) A {}"
    using warm_AddAddress[of "?add sender newAccessList" "{sender}" "{}"] by (cases dst) auto
  from warm_AddAddresses[OF this, of pre] have 0: "warm al0 (set pre \<union> A) {}" by (simp add: al0_def)
  obtain al1 B S where 1: "fold (\<lambda>el r. bind_outcome r (\<lambda>al. fold (\<lambda>key r. bind_outcome r (\<lambda>al.
            bind_outcome (AddSlot (fst el) key al) (\<lambda>(c, al'). Ret al'))) (snd el) (Ret (?add (fst el) al))))
         ls (Ret al0) = Ret al1" "warm al1 B S"
    using warm_list[OF 0, of ls] by auto
  have "warm (if sh then ?add coinbase al1 else al1) (if sh then insert coinbase B else B) S"
    using 1(2) warm_AddAddress[OF 1(2), of coinbase] by simp
  then have "al_ok (if sh then ?add coinbase al1 else al1)" by (simp add: warm_def)
  moreover have "s' = s\<lparr>sdb_accessList := (if sh then ?add coinbase al1 else al1), sdb_transient := newTransientStorage\<rparr>"
    using assms True unfolding Prepare_def Let_def al0_def[symmetric] 1(1) by simp
  ultimately show ?thesis by blast
qed

text \<open>\<open>Prepare\<close> resets the access list without a journal entry, so there must be no snapshot to go back to.\<close>

lemma Prepare_effect:
  assumes "Prepare b sh sender coinbase dst pre ls s = (Ret (), s')" "sdb_inv db s" "validRevisions s = []"
  shows "sdb_inv db s' \<and> validRevisions s' = [] \<and> pays db c 0 s s'"
proof -
  obtain al t where s': "s' = s\<lparr>sdb_accessList := al, sdb_transient := t\<rparr>" "al_ok (sdb_accessList s) \<longrightarrow> al_ok al"
    using Prepare_shape[OF assms(1)] by blast
  have f: "stateObjects s' = stateObjects s" "snap s' = snap s" "originalRoot s' = originalRoot s"
    "stateObjectsDestruct s' = stateObjectsDestruct s" "sdb_trie s' = sdb_trie s" "sdb_logs s' = sdb_logs s"
    "stateObjectsDirty s' = stateObjectsDirty s" "unexpectedBalanceDelta s' = unexpectedBalanceDelta s" "validRevisions s' = []"
    using s'(1) assms(3) by simp_all
  have o: "objs_view db s' = objs_view db s" by (rule objs_view_cong) (use f in simp_all)
  have "view_ok (view db s')" using sdb_inv_view[OF assms(2)] o s' by (simp add: view_ok_def view_sel)
  moreover have "sdb_wf s'" using sdb_inv_wf[OF assms(2)] f by (simp add: sdb_wf_def)
  ultimately show ?thesis using f by (simp add: sdb_inv_def revisions_ok_def pays_objs)
qed

end
