(* ===== verification/Vm_Machine.thy ===== *)
theory Vm_Machine
  imports State_Finalise State_Balance Chain_Config Vm_Contract Rlp_Encode
begin

text \<open>
  The machine the instructions work on: the methods of the \<open>uint256\<close> package they call, the block and
  transaction context, the processing hook of \<open>core/vm/evm_arbitrum.go\<close>, precompiled contracts, the mutable
  state of the EVM and its interpreter, and call frames; with the access functions that the instructions and gas
  functions are written in.
\<close>

section \<open>256-bit arithmetic\<close>

text \<open>
  The arithmetic methods of \<open>holiman/uint256\<close>: a method \<open>z.Op(x, y)\<close> is the value it stores in \<open>z\<close>.
  \<open>FromBig\<close> takes a pointer and returns one; \<open>Bytes20\<close> is read as an address, \<open>Bytes32\<close> as a hash
  (\<open>Hash32\<close>).
\<close>

record uint256_arith =
  u_Add :: "u256 \<Rightarrow> u256 \<Rightarrow> u256"
  u_Sub :: "u256 \<Rightarrow> u256 \<Rightarrow> u256"
  u_Mul :: "u256 \<Rightarrow> u256 \<Rightarrow> u256"
  u_Div :: "u256 \<Rightarrow> u256 \<Rightarrow> u256"
  u_SDiv :: "u256 \<Rightarrow> u256 \<Rightarrow> u256"
  u_Mod :: "u256 \<Rightarrow> u256 \<Rightarrow> u256"
  u_SMod :: "u256 \<Rightarrow> u256 \<Rightarrow> u256"
  u_Exp :: "u256 \<Rightarrow> u256 \<Rightarrow> u256"
  u_ExtendSign :: "u256 \<Rightarrow> u256 \<Rightarrow> u256"
  u_Not :: "u256 \<Rightarrow> u256"
  u_Lt :: "u256 \<Rightarrow> u256 \<Rightarrow> bool"
  u_Gt :: "u256 \<Rightarrow> u256 \<Rightarrow> bool"
  u_Slt :: "u256 \<Rightarrow> u256 \<Rightarrow> bool"
  u_Sgt :: "u256 \<Rightarrow> u256 \<Rightarrow> bool"
  u_Eq :: "u256 \<Rightarrow> u256 \<Rightarrow> bool"
  u_IsZero :: "u256 \<Rightarrow> bool"
  u_And :: "u256 \<Rightarrow> u256 \<Rightarrow> u256"
  u_Or :: "u256 \<Rightarrow> u256 \<Rightarrow> u256"
  u_Xor :: "u256 \<Rightarrow> u256 \<Rightarrow> u256"
  u_Byte :: "u256 \<Rightarrow> u256 \<Rightarrow> u256"
  u_AddMod :: "u256 \<Rightarrow> u256 \<Rightarrow> u256 \<Rightarrow> u256"
  u_MulMod :: "u256 \<Rightarrow> u256 \<Rightarrow> u256 \<Rightarrow> u256"
  u_LtUint64 :: "u256 \<Rightarrow> uint64 \<Rightarrow> bool"
  u_GtUint64 :: "u256 \<Rightarrow> uint64 \<Rightarrow> bool"
  u_Lsh :: "u256 \<Rightarrow> uint64 \<Rightarrow> u256"
  u_Rsh :: "u256 \<Rightarrow> uint64 \<Rightarrow> u256"
  u_SRsh :: "u256 \<Rightarrow> uint64 \<Rightarrow> u256"
  u_Sign :: "u256 \<Rightarrow> int"
  u_BitLen :: "u256 \<Rightarrow> nat"
  u_SetOne :: u256
  u_Clear :: u256
  u_SetAllOne :: u256
  u_SetBytes :: "bytes \<Rightarrow> u256"
  u_SetUint64 :: "uint64 \<Rightarrow> u256"
  u_FromBig :: "int option \<Rightarrow> u256 option \<times> bool"
  u_SetFromBig :: "int \<Rightarrow> u256"
  u_ToBig :: "u256 \<Rightarrow> int"
  u_Bytes20 :: "u256 \<Rightarrow> address"
  u_Hash32 :: "u256 \<Rightarrow> hash"

text \<open>The documented behaviour the proofs rely on.\<close>

definition arith_ok :: "uint256_arith \<Rightarrow> bool" where
  "arith_ok A \<longleftrightarrow> (\<forall>x. u_IsZero A x \<longleftrightarrow> x = 0) \<and> (\<forall>x. u_Sign A x = 0 \<longleftrightarrow> x = 0) \<and> (\<forall>x. u_BitLen A x \<le> 256)
     \<and> (\<forall>v. fst (u_FromBig A (Some v)) \<noteq> None) \<and> (\<forall>x. 0 \<le> u_ToBig A x)"

section \<open>Contexts, hooks and precompiled contracts\<close>

record BlockContext =
  bc_GetHash :: "uint64 \<Rightarrow> hash"
  bc_Coinbase :: address
  bc_GasLimit :: uint64
  bc_BlockNumber :: int
  bc_Time :: uint64
  bc_Difficulty :: "int option"
  bc_BaseFee :: "int option"
  bc_Random :: "hash option"
  bc_ArbOSVersion :: uint64

text \<open>
  The methods of \<open>TxProcessingHook\<close>, over the hook's own state \<open>'h\<close> and the state database, which the hooks
  of a transaction may change. \<open>GasPriceOp\<close> is given the context and the gas price of the EVM.
\<close>

record ('h, 't) TxProcessingHook =
  StartTxHook :: "'h \<Rightarrow> 't StateDB \<Rightarrow> (bool \<times> uint64 \<times> string option \<times> bytes) \<times> 'h \<times> 't StateDB"
  GasChargingHook :: "uint64 \<Rightarrow> 'h \<Rightarrow> 't StateDB \<Rightarrow> (string + address) \<times> uint64 \<times> 'h \<times> 't StateDB"
  PushCaller :: "address \<Rightarrow> 'h \<Rightarrow> 'h"
  PopCaller :: "'h \<Rightarrow> 'h"
  ForceRefundGas :: "'h \<Rightarrow> uint64"
  NonrefundableGas :: "'h \<Rightarrow> uint64"
  DropTip :: "'h \<Rightarrow> bool"
  EndTxHook :: "uint64 \<Rightarrow> bool \<Rightarrow> 'h \<Rightarrow> 't StateDB \<Rightarrow> 'h \<times> 't StateDB"
  L1BlockNumber :: "BlockContext \<Rightarrow> 'h \<Rightarrow> string + uint64"
  L1BlockHash :: "BlockContext \<Rightarrow> uint64 \<Rightarrow> 'h \<Rightarrow> string + hash"
  GasPriceOp :: "BlockContext \<Rightarrow> int option \<Rightarrow> 'h \<Rightarrow> int option"

definition DefaultTxProcessor :: "address \<Rightarrow> (unit, 't) TxProcessingHook" where
  "DefaultTxProcessor coinbase =
     \<lparr>StartTxHook = (\<lambda>h s. ((False, 0, None, []), h, s)),
      GasChargingHook = (\<lambda>gasRemaining h s. (Inr coinbase, gasRemaining, h, s)),
      PushCaller = (\<lambda>a h. h), PopCaller = (\<lambda>h. h),
      ForceRefundGas = (\<lambda>h. 0), NonrefundableGas = (\<lambda>h. 0), DropTip = (\<lambda>h. False),
      EndTxHook = (\<lambda>g ok h s. (h, s)),
      L1BlockNumber = (\<lambda>ctx h. Inr (word_of_int (bc_BlockNumber ctx))),
      L1BlockHash = (\<lambda>ctx n h. Inr (bc_GetHash ctx n)),
      GasPriceOp = (\<lambda>ctx gasPrice h. gasPrice)\<rparr>"

text \<open>The mutable state of an EVM and its interpreter; \<open>ev_jumpdests\<close> is the analysis map of the call tree.\<close>

record ('h, 't) EVM =
  ev_StateDB :: "'t StateDB"
  ev_h :: 'h
  ev_depth :: int
  in_readOnly :: bool
  in_returnData :: bytes
  callGasTemp :: uint64
  ev_jumpdests :: jumpdests

record AdvancedPrecompileCall =
  PrecompileAddress :: address
  ActingAsAddress :: address
  pc_Caller :: address
  pc_Value :: int
  ReadOnly :: bool

text \<open>
  A precompiled contract prices and runs its input; an advanced one (the Arbitrum precompiles) works on the EVM.
  Both return the output, and an error or nil.
\<close>

datatype ('h, 't) PrecompiledContract =
    Precompile (RequiredGas: "bytes \<Rightarrow> uint64") (pc_Run: "bytes \<Rightarrow> bytes \<times> vm_error option")
  | AdvancedPrecompile
      (RunAdvanced: "bytes \<Rightarrow> uint64 \<Rightarrow> AdvancedPrecompileCall \<Rightarrow> ('h, 't) EVM \<Rightarrow> (bytes \<times> uint64 \<times> vm_error option) \<times> ('h, 't) EVM")

text \<open>What does not change during a transaction. The five maps of precompiled contracts are those of \<open>contracts.go\<close>.\<close>

record ('h, 't) evm_env =
  ev_U :: uint256_pkg
  ev_A :: uint256_arith
  ev_db :: "'t Database"
  ev_hook :: "('h, 't) TxProcessingHook"
  ev_Context :: BlockContext
  ev_Origin :: address
  ev_GasPrice :: "int option"
  ev_chainConfig :: ChainConfig
  ev_chainRules :: Rules
  EnablePreimageRecording :: bool
  ExtraEips :: "int list"
  ev_abort :: bool
  PrecompiledContractsArbitrum :: "address \<rightharpoonup> ('h, 't) PrecompiledContract"
  PrecompiledContractsBerlin :: "address \<rightharpoonup> ('h, 't) PrecompiledContract"
  PrecompiledContractsIstanbul :: "address \<rightharpoonup> ('h, 't) PrecompiledContract"
  PrecompiledContractsByzantium :: "address \<rightharpoonup> ('h, 't) PrecompiledContract"
  PrecompiledContractsHomestead :: "address \<rightharpoonup> ('h, 't) PrecompiledContract"

section \<open>Frames\<close>

text \<open>
  A frame of the interpreter loop: the program counter, memory, stack and contract of the call, and the EVM.
  An instruction continues with \<open>Ret\<close> (what it returns besides a nil error is overwritten by the next round of
  the loop) or leaves the loop with \<open>Fail (res, err)\<close>. A gas function returns the price or fails.
\<close>

record ('h, 't) frame =
  f_pc :: uint64
  f_mem :: Memory
  f_stack :: Stack
  f_contract :: Contract
  f_evm :: "('h, 't) EVM"

type_synonym ('h, 't, 'e, 'a) action = "(('h, 't) frame, 'e, 'a) stm"
type_synonym halt = "bytes \<times> vm_error"

text \<open>The functions a frame calls to enter another one: \<open>Call\<close>, \<open>CallCode\<close>, \<open>DelegateCall\<close>, \<open>StaticCall\<close>,
  \<open>Create\<close> and \<open>Create2\<close> of the EVM. They return output, gas left and an error or nil.\<close>

type_synonym ('h, 't, 'a) evm_action = "('h, 't) EVM \<Rightarrow> (string, 'a) outcome \<times> ('h, 't) EVM"

record ('h, 't) calls =
  c_Call :: "ContractRef \<Rightarrow> address \<Rightarrow> bytes \<Rightarrow> uint64 \<Rightarrow> int \<Rightarrow> ('h, 't, bytes \<times> uint64 \<times> vm_error option) evm_action"
  c_CallCode :: "ContractRef \<Rightarrow> address \<Rightarrow> bytes \<Rightarrow> uint64 \<Rightarrow> int \<Rightarrow> ('h, 't, bytes \<times> uint64 \<times> vm_error option) evm_action"
  c_DelegateCall :: "ContractRef \<Rightarrow> address \<Rightarrow> bytes \<Rightarrow> uint64 \<Rightarrow> ('h, 't, bytes \<times> uint64 \<times> vm_error option) evm_action"
  c_StaticCall :: "ContractRef \<Rightarrow> address \<Rightarrow> bytes \<Rightarrow> uint64 \<Rightarrow> ('h, 't, bytes \<times> uint64 \<times> vm_error option) evm_action"
  c_Create :: "ContractRef \<Rightarrow> bytes \<Rightarrow> uint64 \<Rightarrow> int \<Rightarrow> ('h, 't, bytes \<times> address \<times> uint64 \<times> vm_error option) evm_action"
  c_Create2 :: "ContractRef \<Rightarrow> bytes \<Rightarrow> uint64 \<Rightarrow> int \<Rightarrow> u256 \<Rightarrow> ('h, 't, bytes \<times> address \<times> uint64 \<times> vm_error option) evm_action"

section \<open>Access to the parts of a frame\<close>

text \<open>Helpers that only panic (their error type is not used).\<close>

definition no_err :: "(string, 'a) outcome \<Rightarrow> ('e, 'a) outcome" where
  "no_err r = (case r of Ret a \<Rightarrow> Ret a | Fail _ \<Rightarrow> Panic | Panic \<Rightarrow> Panic)"

definition get :: "(('h, 't) frame \<Rightarrow> 'a) \<Rightarrow> ('h, 't, 'e, 'a) action" where
  "get g = (\<lambda>f. (Ret (g f), f))"

definition lift_vm :: "(string, 'a) outcome \<Rightarrow> ('h, 't, 'e, 'a) action" where
  "lift_vm r = (\<lambda>f. (no_err r, f))"

definition pop :: "('h, 't, 'e, u256) action" where
  "pop = (\<lambda>f. case st_pop (f_stack f) of
     Ret (x, st) \<Rightarrow> (Ret x, f\<lparr>f_stack := st\<rparr>) | Fail _ \<Rightarrow> (Panic, f) | Panic \<Rightarrow> (Panic, f))"

definition peek :: "('h, 't, 'e, u256) action" where
  "peek = (\<lambda>f. (no_err (st_peek (f_stack f)), f))"

definition push :: "u256 \<Rightarrow> ('h, 't, 'e, unit) action" where
  "push x = modify_st (\<lambda>f. f\<lparr>f_stack := st_push (f_stack f) x\<rparr>)"

definition stack_Back :: "nat \<Rightarrow> ('h, 't, 'e, u256) action" where
  "stack_Back n = (\<lambda>f. (no_err (Back (f_stack f) n), f))"

text \<open>Writing through the pointer that \<open>peek\<close> returned.\<close>

definition set_top :: "u256 \<Rightarrow> ('h, 't, 'e, unit) action" where
  "set_top x = (\<lambda>f. if data (f_stack f) = [] then (Panic, f)
     else (Ret (), f\<lparr>f_stack := (f_stack f)\<lparr>data := butlast (data (f_stack f)) @ [x]\<rparr>\<rparr>))"

definition on_mem :: "(Memory \<Rightarrow> (string, Memory) outcome) \<Rightarrow> ('h, 't, 'e, unit) action" where
  "on_mem g = (\<lambda>f. case g (f_mem f) of
     Ret m \<Rightarrow> (Ret (), f\<lparr>f_mem := m\<rparr>) | Fail _ \<Rightarrow> (Panic, f) | Panic \<Rightarrow> (Panic, f))"

definition read_mem :: "(Memory \<Rightarrow> (string, 'a) outcome) \<Rightarrow> ('h, 't, 'e, 'a) action" where
  "read_mem g = (\<lambda>f. (no_err (g (f_mem f)), f))"

text \<open>Calls of \<open>StateDB\<close> methods: total ones, and those that may panic.\<close>

definition set_db :: "'t StateDB \<Rightarrow> ('h, 't) frame \<Rightarrow> ('h, 't) frame" where
  "set_db s f = f\<lparr>f_evm := (f_evm f)\<lparr>ev_StateDB := s\<rparr>\<rparr>"

definition on_db :: "('t StateDB \<Rightarrow> 'a \<times> 't StateDB) \<Rightarrow> ('h, 't, 'e, 'a) action" where
  "on_db g = (\<lambda>f. let (a, s) = g (ev_StateDB (f_evm f)) in (Ret a, set_db s f))"

definition do_db :: "('t StateDB \<Rightarrow> 't StateDB) \<Rightarrow> ('h, 't, 'e, unit) action" where
  "do_db g = on_db (\<lambda>s. ((), g s))"

definition try_db :: "('t StateDB, string, 'a) stm \<Rightarrow> ('h, 't, 'e, 'a) action" where
  "try_db g = (\<lambda>f. let (r, s) = g (ev_StateDB (f_evm f)) in (no_err r, set_db s f))"

definition read_db :: "('t StateDB \<Rightarrow> (string, 'a) outcome) \<Rightarrow> ('h, 't, 'e, 'a) action" where
  "read_db g = (\<lambda>f. (no_err (g (ev_StateDB (f_evm f))), f))"

text \<open>A nil slice has no elements.\<close>

definition bytes_of :: "bytes option \<Rightarrow> bytes" where
  "bytes_of c = (case c of None \<Rightarrow> [] | Some b \<Rightarrow> b)"

definition self_address :: "('h, 't, 'e, address) action" where
  "self_address = get (\<lambda>f. contract_Address (f_contract f))"

definition contract_ref :: "Contract \<Rightarrow> ContractRef" where
  "contract_ref c = ContractOf (CallerAddress c) (contract_Address c) (c_value c)"

definition use_gas :: "uint64 \<Rightarrow> ('h, 't, 'e, bool) action" where
  "use_gas g = (\<lambda>f. let (ok, c) = UseGas (f_contract f) g in (Ret ok, f\<lparr>f_contract := c\<rparr>))"

text \<open>\<open>scope.Contract.Gas += g\<close>\<close>

definition add_gas :: "uint64 \<Rightarrow> ('h, 't, 'e, unit) action" where
  "add_gas g = modify_st (\<lambda>f. f\<lparr>f_contract := (f_contract f)\<lparr>Gas := Gas (f_contract f) + g\<rparr>\<rparr>)"

definition set_returnData :: "bytes \<Rightarrow> ('h, 't, 'e, unit) action" where
  "set_returnData d = modify_st (\<lambda>f. f\<lparr>f_evm := (f_evm f)\<lparr>in_returnData := d\<rparr>\<rparr>)"

definition enter :: "('h, 't, 'a) evm_action \<Rightarrow> ('h, 't, 'e, 'a) action" where
  "enter g = (\<lambda>f. let (r, ev) = g (f_evm f) in (no_err r, f\<lparr>f_evm := ev\<rparr>))"

end
