(* ===== verification/Vm_Instructions.thy ===== *)
theory Vm_Instructions
  imports Vm_Machine
begin

text \<open>
  The instructions of \<open>core/vm/instructions.go\<close> and those that \<open>core/vm/eips.go\<close> adds. Each takes the
  environment and the call functions and acts on a frame.
\<close>

type_synonym ('h, 't) executionFunc = "('h, 't) evm_env \<Rightarrow> ('h, 't) calls \<Rightarrow> ('h, 't, halt, unit) action"

definition stop_with :: "vm_error \<Rightarrow> ('h, 't, halt, 'a) action" where
  "stop_with e = fail_st ([], e)"

section \<open>Arithmetic, comparison and bit operations\<close>

text \<open>
  The pattern of the operators: pop the first operand, write the result over the second one.
\<close>

definition op1 :: "(u256 \<Rightarrow> u256) \<Rightarrow> ('h, 't, halt, unit) action" where
  "op1 g = bind_st peek (\<lambda>x. set_top (g x))"

definition op2 :: "(u256 \<Rightarrow> u256 \<Rightarrow> u256) \<Rightarrow> ('h, 't, halt, unit) action" where
  "op2 g = bind_st pop (\<lambda>x. bind_st peek (\<lambda>y. set_top (g x y)))"

definition op3 :: "(u256 \<Rightarrow> u256 \<Rightarrow> u256 \<Rightarrow> u256) \<Rightarrow> ('h, 't, halt, unit) action" where
  "op3 g = bind_st pop (\<lambda>x. bind_st pop (\<lambda>y. bind_st peek (\<lambda>z. set_top (g x y z))))"

definition truth :: "uint256_arith \<Rightarrow> bool \<Rightarrow> u256" where
  "truth A b = (if b then u_SetOne A else u_Clear A)"

definition opAdd :: "('h, 't) executionFunc" where "opAdd E C = op2 (u_Add (ev_A E))"
definition opSub :: "('h, 't) executionFunc" where "opSub E C = op2 (u_Sub (ev_A E))"
definition opMul :: "('h, 't) executionFunc" where "opMul E C = op2 (u_Mul (ev_A E))"
definition opDiv :: "('h, 't) executionFunc" where "opDiv E C = op2 (u_Div (ev_A E))"
definition opSdiv :: "('h, 't) executionFunc" where "opSdiv E C = op2 (u_SDiv (ev_A E))"
definition opMod :: "('h, 't) executionFunc" where "opMod E C = op2 (u_Mod (ev_A E))"
definition opSmod :: "('h, 't) executionFunc" where "opSmod E C = op2 (u_SMod (ev_A E))"
definition opExp :: "('h, 't) executionFunc" where "opExp E C = op2 (u_Exp (ev_A E))"

definition opSignExtend :: "('h, 't) executionFunc" where
  "opSignExtend E C = op2 (\<lambda>back num. u_ExtendSign (ev_A E) num back)"

definition opNot :: "('h, 't) executionFunc" where "opNot E C = op1 (u_Not (ev_A E))"
definition opLt :: "('h, 't) executionFunc" where "opLt E C = op2 (\<lambda>x y. truth (ev_A E) (u_Lt (ev_A E) x y))"
definition opGt :: "('h, 't) executionFunc" where "opGt E C = op2 (\<lambda>x y. truth (ev_A E) (u_Gt (ev_A E) x y))"
definition opSlt :: "('h, 't) executionFunc" where "opSlt E C = op2 (\<lambda>x y. truth (ev_A E) (u_Slt (ev_A E) x y))"
definition opSgt :: "('h, 't) executionFunc" where "opSgt E C = op2 (\<lambda>x y. truth (ev_A E) (u_Sgt (ev_A E) x y))"
definition opEq :: "('h, 't) executionFunc" where "opEq E C = op2 (\<lambda>x y. truth (ev_A E) (u_Eq (ev_A E) x y))"
definition opIszero :: "('h, 't) executionFunc" where "opIszero E C = op1 (\<lambda>x. truth (ev_A E) (u_IsZero (ev_A E) x))"
definition opAnd :: "('h, 't) executionFunc" where "opAnd E C = op2 (u_And (ev_A E))"
definition opOr :: "('h, 't) executionFunc" where "opOr E C = op2 (u_Or (ev_A E))"
definition opXor :: "('h, 't) executionFunc" where "opXor E C = op2 (u_Xor (ev_A E))"
definition opByte :: "('h, 't) executionFunc" where "opByte E C = op2 (\<lambda>th val. u_Byte (ev_A E) val th)"

definition opAddmod :: "('h, 't) executionFunc" where
  "opAddmod E C = op3 (\<lambda>x y z. if u_IsZero (ev_A E) z then u_Clear (ev_A E) else u_AddMod (ev_A E) x y z)"

definition opMulmod :: "('h, 't) executionFunc" where "opMulmod E C = op3 (u_MulMod (ev_A E))"

definition opSHL :: "('h, 't) executionFunc" where
  "opSHL E C = op2 (\<lambda>shift value.
     if u_LtUint64 (ev_A E) shift 256 then u_Lsh (ev_A E) value (Uint64 (ev_U E) shift) else u_Clear (ev_A E))"

definition opSHR :: "('h, 't) executionFunc" where
  "opSHR E C = op2 (\<lambda>shift value.
     if u_LtUint64 (ev_A E) shift 256 then u_Rsh (ev_A E) value (Uint64 (ev_U E) shift) else u_Clear (ev_A E))"

definition opSAR :: "('h, 't) executionFunc" where
  "opSAR E C = op2 (\<lambda>shift value.
     if u_GtUint64 (ev_A E) shift 256
     then if u_Sign (ev_A E) value \<ge> 0 then u_Clear (ev_A E) else u_SetAllOne (ev_A E)
     else u_SRsh (ev_A E) value (Uint64 (ev_U E) shift))"

section \<open>Hashing and the environment\<close>

definition opKeccak256 :: "('h, 't) executionFunc" where
  "opKeccak256 E C =
     bind_st pop (\<lambda>offset. bind_st peek (\<lambda>sz.
     bind_st (read_mem (\<lambda>m. GetPtr m (sint (Uint64 (ev_U E) offset)) (sint (Uint64 (ev_U E) sz)))) (\<lambda>d.
     let h = Keccak256Hash (ev_db E) d in
     bind_st (if EnablePreimageRecording E then do_db (AddPreimage h d) else ret_st ()) (\<lambda>_.
     set_top (u_SetBytes (ev_A E) (hash_bytes h))))))"

definition push_addr :: "('h, 't) evm_env \<Rightarrow> address \<Rightarrow> ('h, 't, halt, unit) action" where
  "push_addr E a = push (u_SetBytes (ev_A E) (addr_bytes a))"

definition opAddress :: "('h, 't) executionFunc" where
  "opAddress E C = bind_st self_address (push_addr E)"

definition opBalance :: "('h, 't) executionFunc" where
  "opBalance E C =
     bind_st peek (\<lambda>slot.
     bind_st (on_db (GetBalance (ev_db E) (u_Bytes20 (ev_A E) slot))) (\<lambda>b.
     set_top (u_SetFromBig (ev_A E) b)))"

definition opOrigin :: "('h, 't) executionFunc" where
  "opOrigin E C = push_addr E (ev_Origin E)"

definition opCaller :: "('h, 't) executionFunc" where
  "opCaller E C = bind_st (get (\<lambda>f. CallerAddress (f_contract f))) (push_addr E)"

text \<open>\<open>v, _ := uint256.FromBig(x); scope.Stack.push(v)\<close>: the push of a nil pointer panics.\<close>

definition push_big :: "('h, 't) evm_env \<Rightarrow> int option \<Rightarrow> ('h, 't, halt, unit) action" where
  "push_big E x = (case fst (u_FromBig (ev_A E) x) of None \<Rightarrow> panic_st | Some v \<Rightarrow> push v)"

definition opCallValue :: "('h, 't) executionFunc" where
  "opCallValue E C = bind_st (get (\<lambda>f. c_value (f_contract f))) (\<lambda>v. push_big E (Some v))"

definition opCallDataLoad :: "('h, 't) executionFunc" where
  "opCallDataLoad E C =
     bind_st peek (\<lambda>x.
     let (offset, overflow) = Uint64WithOverflow (ev_U E) x in
     if \<not> overflow then
       bind_st (get (\<lambda>f. Input (f_contract f))) (\<lambda>input.
       bind_st (lift_vm (getData input offset 32)) (\<lambda>d. set_top (u_SetBytes (ev_A E) d)))
     else set_top (u_Clear (ev_A E)))"

definition push_uint64 :: "('h, 't) evm_env \<Rightarrow> uint64 \<Rightarrow> ('h, 't, halt, unit) action" where
  "push_uint64 E n = push (u_SetUint64 (ev_A E) n)"

definition opCallDataSize :: "('h, 't) executionFunc" where
  "opCallDataSize E C = bind_st (get (\<lambda>f. ulen (Input (f_contract f)))) (push_uint64 E)"

text \<open>The offset into the data to copy, clipped on overflow.\<close>

definition clip_offset :: "uint256_pkg \<Rightarrow> u256 \<Rightarrow> uint64" where
  "clip_offset U x = (let (o64, overflow) = Uint64WithOverflow U x in if overflow then 0xffffffffffffffff else o64)"

definition copy_data :: "('h, 't) evm_env \<Rightarrow> u256 \<Rightarrow> u256 \<Rightarrow> u256 \<Rightarrow> bytes \<Rightarrow> ('h, 't, halt, unit) action" where
  "copy_data E memOffset dataOffset l d =
     bind_st (lift_vm (getData d (clip_offset (ev_U E) dataOffset) (Uint64 (ev_U E) l))) (\<lambda>x.
     on_mem (\<lambda>m. mem_Set m (Uint64 (ev_U E) memOffset) (Uint64 (ev_U E) l) x))"

definition opCallDataCopy :: "('h, 't) executionFunc" where
  "opCallDataCopy E C =
     bind_st pop (\<lambda>memOffset. bind_st pop (\<lambda>dataOffset. bind_st pop (\<lambda>l.
     bind_st (get (\<lambda>f. Input (f_contract f))) (copy_data E memOffset dataOffset l))))"

definition opReturnDataSize :: "('h, 't) executionFunc" where
  "opReturnDataSize E C = bind_st (get (\<lambda>f. ulen (in_returnData (f_evm f)))) (push_uint64 E)"

definition opReturnDataCopy :: "('h, 't) executionFunc" where
  "opReturnDataCopy E C =
     bind_st pop (\<lambda>memOffset. bind_st pop (\<lambda>dataOffset. bind_st pop (\<lambda>l.
     let (offset64, overflow) = Uint64WithOverflow (ev_U E) dataOffset in
     if overflow then stop_with ErrReturnDataOutOfBounds
     else
       let (end64, overflow) = Uint64WithOverflow (ev_U E) (u_Add (ev_A E) dataOffset l) in
       bind_st (get (\<lambda>f. in_returnData (f_evm f))) (\<lambda>ret.
       if overflow \<or> ulen ret < end64 then stop_with ErrReturnDataOutOfBounds
       else
         bind_st (lift_vm (slice ret (unat offset64) (unat end64))) (\<lambda>x.
         on_mem (\<lambda>m. mem_Set m (Uint64 (ev_U E) memOffset) (Uint64 (ev_U E) l) x))))))"

definition opExtCodeSize :: "('h, 't) executionFunc" where
  "opExtCodeSize E C =
     bind_st peek (\<lambda>slot.
     bind_st (on_db (GetCodeSize (ev_db E) (u_Bytes20 (ev_A E) slot))) (\<lambda>n.
     set_top (u_SetUint64 (ev_A E) (word_of_int n))))"

definition opCodeSize :: "('h, 't) executionFunc" where
  "opCodeSize E C = bind_st (get (\<lambda>f. ulen (Code (f_contract f)))) (push_uint64 E)"

definition opCodeCopy :: "('h, 't) executionFunc" where
  "opCodeCopy E C =
     bind_st pop (\<lambda>memOffset. bind_st pop (\<lambda>codeOffset. bind_st pop (\<lambda>l.
     bind_st (get (\<lambda>f. Code (f_contract f))) (copy_data E memOffset codeOffset l))))"

definition opExtCodeCopy :: "('h, 't) executionFunc" where
  "opExtCodeCopy E C =
     bind_st pop (\<lambda>a. bind_st pop (\<lambda>memOffset. bind_st pop (\<lambda>codeOffset. bind_st pop (\<lambda>l.
     bind_st (on_db (GetCode (ev_db E) (u_Bytes20 (ev_A E) a))) (\<lambda>code.
     copy_data E memOffset codeOffset l (bytes_of code))))))"

definition opExtCodeHash :: "('h, 't) executionFunc" where
  "opExtCodeHash E C =
     bind_st peek (\<lambda>slot.
     let address = u_Bytes20 (ev_A E) slot in
     bind_st (on_db (sdb_Empty (ev_db E) address)) (\<lambda>empty.
     if empty then set_top (u_Clear (ev_A E))
     else bind_st (on_db (GetCodeHash (ev_db E) address)) (\<lambda>h. set_top (u_SetBytes (ev_A E) (hash_bytes h)))))"

definition opGasprice :: "('h, 't) executionFunc" where
  "opGasprice E C = bind_st (get (\<lambda>f. GasPriceOp (ev_hook E) (ev_Context E) (ev_GasPrice E) (ev_h (f_evm f)))) (push_big E)"

text \<open>A call of the hook that returns an error: \<open>if err != nil { return nil, err }\<close>.\<close>

definition hook_result :: "(('h, 't) frame \<Rightarrow> string + 'a) \<Rightarrow> ('h, 't, halt, 'a) action" where
  "hook_result g = bind_st (get g) (\<lambda>r. case r of Inl e \<Rightarrow> stop_with (OtherError e) | Inr a \<Rightarrow> ret_st a)"

definition opBlockhash :: "('h, 't) executionFunc" where
  "opBlockhash E C =
     bind_st peek (\<lambda>num.
     let (num64, overflow) = Uint64WithOverflow (ev_U E) num in
     if overflow then set_top (u_Clear (ev_A E))
     else
       bind_st (hook_result (\<lambda>f. L1BlockNumber (ev_hook E) (ev_Context E) (ev_h (f_evm f)))) (\<lambda>upper.
       let lower = (if upper < 257 then 0 else upper - 256) in
       if num64 \<ge> lower \<and> num64 < upper then
         bind_st (hook_result (\<lambda>f. L1BlockHash (ev_hook E) (ev_Context E) num64 (ev_h (f_evm f)))) (\<lambda>h.
         set_top (u_SetBytes (ev_A E) (hash_bytes h)))
       else set_top (u_Clear (ev_A E))))"

definition opCoinbase :: "('h, 't) executionFunc" where
  "opCoinbase E C = push_addr E (bc_Coinbase (ev_Context E))"

definition opTimestamp :: "('h, 't) executionFunc" where
  "opTimestamp E C = push_uint64 E (bc_Time (ev_Context E))"

definition opNumber :: "('h, 't) executionFunc" where
  "opNumber E C =
     bind_st (hook_result (\<lambda>f. L1BlockNumber (ev_hook E) (ev_Context E) (ev_h (f_evm f)))) (\<lambda>bnum.
     push_big E (Some (uint bnum)))"

definition opDifficulty :: "('h, 't) executionFunc" where
  "opDifficulty E C = push_big E (bc_Difficulty (ev_Context E))"

definition opRandom :: "('h, 't) executionFunc" where
  "opRandom E C = (case bc_Random (ev_Context E) of
     None \<Rightarrow> panic_st | Some r \<Rightarrow> push (u_SetBytes (ev_A E) (hash_bytes r)))"

definition opGasLimit :: "('h, 't) executionFunc" where
  "opGasLimit E C = push_uint64 E (bc_GasLimit (ev_Context E))"

section \<open>Stack, memory, storage and control flow\<close>

definition opPop :: "('h, 't) executionFunc" where
  "opPop E C = bind_st pop (\<lambda>_. ret_st ())"

definition opMload :: "('h, 't) executionFunc" where
  "opMload E C =
     bind_st peek (\<lambda>v.
     bind_st (read_mem (\<lambda>m. GetPtr m (sint (Uint64 (ev_U E) v)) 32)) (\<lambda>d. set_top (u_SetBytes (ev_A E) d)))"

definition opMstore :: "('h, 't) executionFunc" where
  "opMstore E C =
     bind_st pop (\<lambda>mStart. bind_st pop (\<lambda>val. on_mem (\<lambda>m. Set32 (ev_U E) m (Uint64 (ev_U E) mStart) val)))"

definition opMstore8 :: "('h, 't) executionFunc" where
  "opMstore8 E C =
     bind_st pop (\<lambda>off. bind_st pop (\<lambda>val. on_mem (\<lambda>m.
       let i = unat (Uint64 (ev_U E) off) in
       if i < length (store m) then Ret (m\<lparr>store := (store m)[i := ucast (Uint64 (ev_U E) val)]\<rparr>) else Panic)))"

definition opSload :: "('h, 't) executionFunc" where
  "opSload E C =
     bind_st peek (\<lambda>loc. bind_st self_address (\<lambda>a.
     bind_st (on_db (GetState (ev_db E) a (u_Hash32 (ev_A E) loc))) (\<lambda>val.
     set_top (u_SetBytes (ev_A E) (hash_bytes val)))))"

text \<open>\<open>if interpreter.readOnly { return nil, ErrWriteProtection }\<close>\<close>

definition write_protect :: "('h, 't, halt, unit) action" where
  "write_protect = bind_st (get (\<lambda>f. in_readOnly (f_evm f))) (\<lambda>ro. if ro then stop_with ErrWriteProtection else ret_st ())"

definition opSstore :: "('h, 't) executionFunc" where
  "opSstore E C =
     bind_st write_protect (\<lambda>_.
     bind_st pop (\<lambda>loc. bind_st pop (\<lambda>val. bind_st self_address (\<lambda>a.
     do_db (sdb_SetState (ev_db E) a (u_Hash32 (ev_A E) loc) (u_Hash32 (ev_A E) val))))))"

definition valid_jump :: "('h, 't) evm_env \<Rightarrow> u256 \<Rightarrow> ('h, 't, halt, bool) action" where
  "valid_jump E pos = (\<lambda>f.
     case validJumpdest (ev_U E) (f_contract f) (ev_jumpdests (f_evm f)) pos of
       Ret (ok, c, m) \<Rightarrow> (Ret ok, f\<lparr>f_contract := c, f_evm := (f_evm f)\<lparr>ev_jumpdests := m\<rparr>\<rparr>)
     | Fail _ \<Rightarrow> (Panic, f) | Panic \<Rightarrow> (Panic, f))"

definition jump_to :: "('h, 't) evm_env \<Rightarrow> u256 \<Rightarrow> ('h, 't, halt, unit) action" where
  "jump_to E pos =
     bind_st (valid_jump E pos) (\<lambda>ok.
     if \<not> ok then stop_with ErrInvalidJump
     else modify_st (\<lambda>f. f\<lparr>f_pc := Uint64 (ev_U E) pos - 1\<rparr>))"

definition opJump :: "('h, 't) executionFunc" where
  "opJump E C = (if ev_abort E then stop_with errStopToken else bind_st pop (jump_to E))"

definition opJumpi :: "('h, 't) executionFunc" where
  "opJumpi E C =
     (if ev_abort E then stop_with errStopToken
      else bind_st pop (\<lambda>pos. bind_st pop (\<lambda>cond.
        if \<not> u_IsZero (ev_A E) cond then jump_to E pos else ret_st ())))"

definition opJumpdest :: "('h, 't) executionFunc" where
  "opJumpdest E C = ret_st ()"

definition opPc :: "('h, 't) executionFunc" where
  "opPc E C = bind_st (get f_pc) (push_uint64 E)"

definition opMsize :: "('h, 't) executionFunc" where
  "opMsize E C = bind_st (get (\<lambda>f. word_of_nat (mem_Len (f_mem f)))) (push_uint64 E)"

definition opGas :: "('h, 't) executionFunc" where
  "opGas E C = bind_st (get (\<lambda>f. Gas (f_contract f))) (push_uint64 E)"

section \<open>Calls and contract creation\<close>

definition CallStipend :: uint64 where "CallStipend = 2300"

text \<open>\<open>big0\<close>, or \<open>value.ToBig()\<close> when the value is not zero.\<close>

definition big_value :: "('h, 't) evm_env \<Rightarrow> u256 \<Rightarrow> int" where
  "big_value E v = (if \<not> u_IsZero (ev_A E) v then u_ToBig (ev_A E) v else 0)"

text \<open>The end of \<open>opCreate\<close> and \<open>opCreate2\<close>: the gas that is left and the return data buffer.\<close>

definition create_result :: "bytes \<Rightarrow> uint64 \<Rightarrow> vm_error option \<Rightarrow> ('h, 't, halt, unit) action" where
  "create_result res returnGas suberr =
     bind_st (add_gas returnGas) (\<lambda>_.
     set_returnData (if suberr = Some ErrExecutionReverted then res else []))"

definition opCreate :: "('h, 't) executionFunc" where
  "opCreate E C =
     bind_st write_protect (\<lambda>_.
     bind_st pop (\<lambda>value. bind_st pop (\<lambda>offset. bind_st pop (\<lambda>sz.
     bind_st (read_mem (\<lambda>m. GetCopy m (sint (Uint64 (ev_U E) offset)) (sint (Uint64 (ev_U E) sz)))) (\<lambda>input.
     bind_st (get (\<lambda>f. Gas (f_contract f))) (\<lambda>g.
     let gas = (if r_IsEIP150 (ev_chainRules E) then g - g div 64 else g) in
     bind_st (use_gas gas) (\<lambda>_.
     bind_st (get (\<lambda>f. contract_ref (f_contract f))) (\<lambda>self.
     bind_st (enter (c_Create C self input gas (big_value E value))) (\<lambda>(res, addr, returnGas, suberr).
     let stackvalue =
       (if r_IsHomestead (ev_chainRules E) \<and> suberr = Some ErrCodeStoreOutOfGas then u_Clear (ev_A E)
        else if suberr \<noteq> None \<and> suberr \<noteq> Some ErrCodeStoreOutOfGas then u_Clear (ev_A E)
        else u_SetBytes (ev_A E) (addr_bytes addr)) in
     bind_st (push stackvalue) (\<lambda>_.
     create_result res returnGas suberr))))))))))"

definition opCreate2 :: "('h, 't) executionFunc" where
  "opCreate2 E C =
     bind_st write_protect (\<lambda>_.
     bind_st pop (\<lambda>endowment. bind_st pop (\<lambda>offset. bind_st pop (\<lambda>sz. bind_st pop (\<lambda>salt.
     bind_st (read_mem (\<lambda>m. GetCopy m (sint (Uint64 (ev_U E) offset)) (sint (Uint64 (ev_U E) sz)))) (\<lambda>input.
     bind_st (get (\<lambda>f. Gas (f_contract f))) (\<lambda>g.
     let gas = g - g div 64 in
     bind_st (use_gas gas) (\<lambda>_.
     bind_st (get (\<lambda>f. contract_ref (f_contract f))) (\<lambda>self.
     bind_st (enter (c_Create2 C self input gas (big_value E endowment) salt)) (\<lambda>(res, addr, returnGas, suberr).
     let stackvalue = (if suberr \<noteq> None then u_Clear (ev_A E) else u_SetBytes (ev_A E) (addr_bytes addr)) in
     bind_st (push stackvalue) (\<lambda>_.
     create_result res returnGas suberr)))))))))))"

text \<open>The end of the four call instructions: the success flag, the output in memory, the gas and the buffer.\<close>

definition call_result :: "('h, 't) evm_env \<Rightarrow> u256 \<Rightarrow> u256 \<Rightarrow> bytes \<times> uint64 \<times> vm_error option \<Rightarrow> ('h, 't, halt, unit) action" where
  "call_result E retOffset retSize r =
     (let (ret, returnGas, err) = r in
      bind_st (push (if err \<noteq> None then u_Clear (ev_A E) else u_SetOne (ev_A E))) (\<lambda>_.
      bind_st (if err = None \<or> err = Some ErrExecutionReverted
               then on_mem (\<lambda>m. mem_Set m (Uint64 (ev_U E) retOffset) (Uint64 (ev_U E) retSize) ret) else ret_st ()) (\<lambda>_.
      bind_st (add_gas returnGas) (\<lambda>_.
      set_returnData ret))))"

definition call_args :: "('h, 't) evm_env \<Rightarrow> u256 \<Rightarrow> u256 \<Rightarrow> ('h, 't, halt, bytes) action" where
  "call_args E inOffset inSize = read_mem (\<lambda>m. GetPtr m (sint (Uint64 (ev_U E) inOffset)) (sint (Uint64 (ev_U E) inSize)))"

definition opCall :: "('h, 't) executionFunc" where
  "opCall E C =
     bind_st pop (\<lambda>_. bind_st (get (\<lambda>f. callGasTemp (f_evm f))) (\<lambda>gas.
     bind_st pop (\<lambda>addr. bind_st pop (\<lambda>value. bind_st pop (\<lambda>inOffset. bind_st pop (\<lambda>inSize.
     bind_st pop (\<lambda>retOffset. bind_st pop (\<lambda>retSize.
     bind_st (call_args E inOffset inSize) (\<lambda>args.
     bind_st (get (\<lambda>f. in_readOnly (f_evm f))) (\<lambda>ro.
     if ro \<and> \<not> u_IsZero (ev_A E) value then stop_with ErrWriteProtection
     else
       let gas = (if \<not> u_IsZero (ev_A E) value then gas + CallStipend else gas) in
       bind_st (get (\<lambda>f. contract_ref (f_contract f))) (\<lambda>self.
       bind_st (enter (c_Call C self (u_Bytes20 (ev_A E) addr) args gas (big_value E value)))
         (call_result E retOffset retSize))))))))))))"

definition opCallCode :: "('h, 't) executionFunc" where
  "opCallCode E C =
     bind_st pop (\<lambda>_. bind_st (get (\<lambda>f. callGasTemp (f_evm f))) (\<lambda>gas.
     bind_st pop (\<lambda>addr. bind_st pop (\<lambda>value. bind_st pop (\<lambda>inOffset. bind_st pop (\<lambda>inSize.
     bind_st pop (\<lambda>retOffset. bind_st pop (\<lambda>retSize.
     bind_st (call_args E inOffset inSize) (\<lambda>args.
     let gas = (if \<not> u_IsZero (ev_A E) value then gas + CallStipend else gas) in
     bind_st (get (\<lambda>f. contract_ref (f_contract f))) (\<lambda>self.
     bind_st (enter (c_CallCode C self (u_Bytes20 (ev_A E) addr) args gas (big_value E value)))
       (call_result E retOffset retSize)))))))))))"

definition opDelegateCall :: "('h, 't) executionFunc" where
  "opDelegateCall E C =
     bind_st pop (\<lambda>_. bind_st (get (\<lambda>f. callGasTemp (f_evm f))) (\<lambda>gas.
     bind_st pop (\<lambda>addr. bind_st pop (\<lambda>inOffset. bind_st pop (\<lambda>inSize.
     bind_st pop (\<lambda>retOffset. bind_st pop (\<lambda>retSize.
     bind_st (call_args E inOffset inSize) (\<lambda>args.
     bind_st (get (\<lambda>f. contract_ref (f_contract f))) (\<lambda>self.
     bind_st (enter (c_DelegateCall C self (u_Bytes20 (ev_A E) addr) args gas))
       (call_result E retOffset retSize))))))))))"

definition opStaticCall :: "('h, 't) executionFunc" where
  "opStaticCall E C =
     bind_st pop (\<lambda>_. bind_st (get (\<lambda>f. callGasTemp (f_evm f))) (\<lambda>gas.
     bind_st pop (\<lambda>addr. bind_st pop (\<lambda>inOffset. bind_st pop (\<lambda>inSize.
     bind_st pop (\<lambda>retOffset. bind_st pop (\<lambda>retSize.
     bind_st (call_args E inOffset inSize) (\<lambda>args.
     bind_st (get (\<lambda>f. contract_ref (f_contract f))) (\<lambda>self.
     bind_st (enter (c_StaticCall C self (u_Bytes20 (ev_A E) addr) args gas))
       (call_result E retOffset retSize))))))))))"

section \<open>Leaving the frame\<close>

definition opReturn :: "('h, 't) executionFunc" where
  "opReturn E C =
     bind_st pop (\<lambda>offset. bind_st pop (\<lambda>sz.
     bind_st (read_mem (\<lambda>m. GetPtr m (sint (Uint64 (ev_U E) offset)) (sint (Uint64 (ev_U E) sz)))) (\<lambda>ret.
     fail_st (ret, errStopToken))))"

definition opRevert :: "('h, 't) executionFunc" where
  "opRevert E C =
     bind_st pop (\<lambda>offset. bind_st pop (\<lambda>sz.
     bind_st (read_mem (\<lambda>m. GetPtr m (sint (Uint64 (ev_U E) offset)) (sint (Uint64 (ev_U E) sz)))) (\<lambda>ret.
     bind_st (set_returnData ret) (\<lambda>_. fail_st (ret, ErrExecutionReverted)))))"

definition opUndefined :: "('h, 't) executionFunc" where
  "opUndefined E C =
     bind_st (get (\<lambda>f. (f_pc f, Code (f_contract f)))) (\<lambda>(pc, code).
     bind_st (lift_vm (index code (unat pc))) (\<lambda>b. stop_with (ErrInvalidOpCode b)))"

definition opStop :: "('h, 't) executionFunc" where
  "opStop E C = stop_with errStopToken"

definition opSelfdestruct :: "('h, 't) executionFunc" where
  "opSelfdestruct E C =
     bind_st write_protect (\<lambda>_.
     bind_st pop (\<lambda>beneficiary. bind_st self_address (\<lambda>a.
     bind_st (on_db (GetBalance (ev_db E) a)) (\<lambda>balance.
     bind_st (do_db (AddBalance (ev_db E) (u_Bytes20 (ev_A E) beneficiary) balance)) (\<lambda>_.
     bind_st (on_db (Suicide (ev_db E) a)) (\<lambda>_.
     bind_st (if u_Bytes20 (ev_A E) beneficiary = a then try_db (ExpectBalanceBurn balance) else ret_st ()) (\<lambda>_.
     stop_with errStopToken)))))))"

section \<open>Instruction families\<close>

text \<open>\<open>for i := 0; i < size; i++ { addr := stack.pop(); topics[i] = addr.Bytes32() }\<close>\<close>

fun pop_topics :: "uint256_arith \<Rightarrow> nat \<Rightarrow> ('h, 't, halt, hash list) action" where
  "pop_topics A 0 = ret_st []"
| "pop_topics A (Suc n) = bind_st pop (\<lambda>x. bind_st (pop_topics A n) (\<lambda>xs. ret_st (u_Hash32 A x # xs)))"

definition makeLog :: "nat \<Rightarrow> ('h, 't) executionFunc" where
  "makeLog n E C =
     bind_st write_protect (\<lambda>_.
     bind_st pop (\<lambda>mStart. bind_st pop (\<lambda>mSize.
     bind_st (pop_topics (ev_A E) n) (\<lambda>topics.
     bind_st (read_mem (\<lambda>m. GetCopy m (sint (Uint64 (ev_U E) mStart)) (sint (Uint64 (ev_U E) mSize)))) (\<lambda>d.
     bind_st self_address (\<lambda>a.
     do_db (AddLog \<lparr>lg_Address = a, lg_Topics = topics, lg_Data = d,
       lg_BlockNumber = word_of_int (bc_BlockNumber (ev_Context E)), lg_TxHash = 0, lg_TxIndex = 0, lg_Index = 0\<rparr>)))))))"

definition opPush1 :: "('h, 't) executionFunc" where
  "opPush1 E C =
     bind_st (modify_st (\<lambda>f. f\<lparr>f_pc := f_pc f + 1\<rparr>)) (\<lambda>_.
     bind_st (get (\<lambda>f. (f_pc f, Code (f_contract f)))) (\<lambda>(pc, code).
     if pc < ulen code then bind_st (lift_vm (index code (unat pc))) (\<lambda>b. push_uint64 E (ucast b))
     else push (u_Clear (ev_A E))))"

definition makePush :: "uint64 \<Rightarrow> int \<Rightarrow> ('h, 't) executionFunc" where
  "makePush sz pushByteSize E C =
     bind_st (get (\<lambda>f. (f_pc f, Code (f_contract f)))) (\<lambda>(pc, code).
     let codeLen = int (length code);
         startMin = (if sint (pc + 1) < codeLen then sint (pc + 1) else codeLen);
         endMin = (if startMin + pushByteSize < codeLen then startMin + pushByteSize else codeLen) in
     bind_st (lift_vm (slice_int code startMin endMin)) (\<lambda>b.
     bind_st (push (u_SetBytes (ev_A E) (RightPadBytes b pushByteSize))) (\<lambda>_.
     modify_st (\<lambda>f. f\<lparr>f_pc := f_pc f + sz\<rparr>))))"

definition on_stack :: "(Stack \<Rightarrow> (string, Stack) outcome) \<Rightarrow> ('h, 't, halt, unit) action" where
  "on_stack g = (\<lambda>f. case g (f_stack f) of
     Ret st \<Rightarrow> (Ret (), f\<lparr>f_stack := st\<rparr>) | Fail _ \<Rightarrow> (Panic, f) | Panic \<Rightarrow> (Panic, f))"

definition makeDup :: "nat \<Rightarrow> ('h, 't) executionFunc" where
  "makeDup n E C = on_stack (\<lambda>st. st_dup st n)"

definition makeSwap :: "nat \<Rightarrow> ('h, 't) executionFunc" where
  "makeSwap n E C = on_stack (\<lambda>st. st_swap st (n + 1))"

section \<open>Instructions of later EIPs\<close>

definition opSelfBalance :: "('h, 't) executionFunc" where
  "opSelfBalance E C =
     bind_st self_address (\<lambda>a. bind_st (on_db (GetBalance (ev_db E) a)) (\<lambda>b. push_big E (Some b)))"

definition opChainID :: "('h, 't) executionFunc" where
  "opChainID E C = push_big E (ChainID (ev_chainConfig E))"

definition opTload :: "('h, 't) executionFunc" where
  "opTload E C =
     bind_st peek (\<lambda>loc. bind_st self_address (\<lambda>a.
     bind_st (get (\<lambda>f. GetTransientState a (u_Hash32 (ev_A E) loc) (ev_StateDB (f_evm f)))) (\<lambda>val.
     set_top (u_SetBytes (ev_A E) (hash_bytes val)))))"

definition opTstore :: "('h, 't) executionFunc" where
  "opTstore E C =
     bind_st write_protect (\<lambda>_.
     bind_st pop (\<lambda>loc. bind_st pop (\<lambda>val. bind_st self_address (\<lambda>a.
     do_db (SetTransientState a (u_Hash32 (ev_A E) loc) (u_Hash32 (ev_A E) val))))))"

definition opBaseFee :: "('h, 't) executionFunc" where
  "opBaseFee E C = push_big E (bc_BaseFee (ev_Context E))"

definition opPush0 :: "('h, 't) executionFunc" where
  "opPush0 E C = push 0"

end
