(* ===== verification/Vm_Gas.thy ===== *)
theory Vm_Gas
  imports Vm_Instructions
begin

text \<open>
  The gas functions of \<open>core/vm/gas_table.go\<close> and \<open>core/vm/operations_acl.go\<close>. A gas function may write the
  fee of the memory, the gas of the next call and, through refunds and access lists, the state database.
\<close>

type_synonym ('h, 't) gasFunc = "('h, 't) evm_env \<Rightarrow> uint64 \<Rightarrow> ('h, 't, vm_error, uint64) action"

section \<open>Prices\<close>

definition GasQuickStep :: uint64 where "GasQuickStep = 2"
definition GasFastestStep :: uint64 where "GasFastestStep = 3"
definition GasFastStep :: uint64 where "GasFastStep = 5"
definition GasMidStep :: uint64 where "GasMidStep = 8"
definition GasSlowStep :: uint64 where "GasSlowStep = 10"
definition GasExtStep :: uint64 where "GasExtStep = 20"
definition CallValueTransferGas :: uint64 where "CallValueTransferGas = 9000"
definition CallNewAccountGas :: uint64 where "CallNewAccountGas = 25000"
definition LogDataGas :: uint64 where "LogDataGas = 8"
definition Keccak256Gas :: uint64 where "Keccak256Gas = 30"
definition Keccak256WordGas :: uint64 where "Keccak256WordGas = 6"
definition InitCodeWordGas :: uint64 where "InitCodeWordGas = 2"
definition SstoreSetGas :: uint64 where "SstoreSetGas = 20000"
definition SstoreResetGas :: uint64 where "SstoreResetGas = 5000"
definition SstoreClearGas :: uint64 where "SstoreClearGas = 5000"
definition SstoreRefundGas :: uint64 where "SstoreRefundGas = 15000"
definition NetSstoreNoopGas :: uint64 where "NetSstoreNoopGas = 200"
definition NetSstoreInitGas :: uint64 where "NetSstoreInitGas = 20000"
definition NetSstoreCleanGas :: uint64 where "NetSstoreCleanGas = 5000"
definition NetSstoreDirtyGas :: uint64 where "NetSstoreDirtyGas = 200"
definition NetSstoreClearRefund :: uint64 where "NetSstoreClearRefund = 15000"
definition NetSstoreResetRefund :: uint64 where "NetSstoreResetRefund = 4800"
definition NetSstoreResetClearRefund :: uint64 where "NetSstoreResetClearRefund = 19800"
definition SstoreSentryGasEIP2200 :: uint64 where "SstoreSentryGasEIP2200 = 2300"
definition SstoreSetGasEIP2200 :: uint64 where "SstoreSetGasEIP2200 = 20000"
definition SstoreResetGasEIP2200 :: uint64 where "SstoreResetGasEIP2200 = 5000"
definition SstoreClearsScheduleRefundEIP2200 :: uint64 where "SstoreClearsScheduleRefundEIP2200 = 15000"
definition ColdAccountAccessCostEIP2929 :: uint64 where "ColdAccountAccessCostEIP2929 = 2600"
definition ColdSloadCostEIP2929 :: uint64 where "ColdSloadCostEIP2929 = 2100"
definition WarmStorageReadCostEIP2929 :: uint64 where "WarmStorageReadCostEIP2929 = 100"
definition TxAccessListStorageKeyGas :: uint64 where "TxAccessListStorageKeyGas = 1900"
definition SstoreClearsScheduleRefundEIP3529 :: uint64 where
  "SstoreClearsScheduleRefundEIP3529 = SstoreResetGasEIP2200 - ColdSloadCostEIP2929 + TxAccessListStorageKeyGas"
definition JumpdestGas :: uint64 where "JumpdestGas = 1"
definition CreateDataGas :: uint64 where "CreateDataGas = 200"
definition CallCreateDepth :: uint64 where "CallCreateDepth = 1024"
definition ExpGas :: uint64 where "ExpGas = 10"
definition LogGas :: uint64 where "LogGas = 375"
definition CopyGas :: uint64 where "CopyGas = 3"
definition LogTopicGas :: uint64 where "LogTopicGas = 375"
definition CreateGas :: uint64 where "CreateGas = 32000"
definition Create2Gas :: uint64 where "Create2Gas = 32000"
definition SelfdestructRefundGas :: uint64 where "SelfdestructRefundGas = 24000"
definition CallGasFrontier :: uint64 where "CallGasFrontier = 40"
definition CallGasEIP150 :: uint64 where "CallGasEIP150 = 700"
definition BalanceGasFrontier :: uint64 where "BalanceGasFrontier = 20"
definition BalanceGasEIP150 :: uint64 where "BalanceGasEIP150 = 400"
definition BalanceGasEIP1884 :: uint64 where "BalanceGasEIP1884 = 700"
definition ExtcodeSizeGasFrontier :: uint64 where "ExtcodeSizeGasFrontier = 20"
definition ExtcodeSizeGasEIP150 :: uint64 where "ExtcodeSizeGasEIP150 = 700"
definition SloadGasFrontier :: uint64 where "SloadGasFrontier = 50"
definition SloadGasEIP150 :: uint64 where "SloadGasEIP150 = 200"
definition SloadGasEIP1884 :: uint64 where "SloadGasEIP1884 = 800"
definition SloadGasEIP2200 :: uint64 where "SloadGasEIP2200 = 800"
definition ExtcodeHashGasConstantinople :: uint64 where "ExtcodeHashGasConstantinople = 400"
definition ExtcodeHashGasEIP1884 :: uint64 where "ExtcodeHashGasEIP1884 = 700"
definition SelfdestructGasEIP150 :: uint64 where "SelfdestructGasEIP150 = 5000"
definition ExpByteFrontier :: uint64 where "ExpByteFrontier = 10"
definition ExpByteEIP158 :: uint64 where "ExpByteEIP158 = 50"
definition ExtcodeCopyBaseFrontier :: uint64 where "ExtcodeCopyBaseFrontier = 20"
definition ExtcodeCopyBaseEIP150 :: uint64 where "ExtcodeCopyBaseEIP150 = 700"
definition CreateBySelfdestructGas :: uint64 where "CreateBySelfdestructGas = 25000"

section \<open>Memory, copying, hashing and logs\<close>

definition memory_gas :: "uint64 \<Rightarrow> ('h, 't, vm_error, uint64) action" where
  "memory_gas memorySize = (\<lambda>f. let (r, m) = memoryGasCost memorySize (f_mem f) in (r, f\<lparr>f_mem := m\<rparr>))"

text \<open>\<open>if x, overflow = math.SafeAdd(a, b); overflow { return 0, ErrGasUintOverflow }\<close> and the like\<close>

definition checked :: "uint64 \<times> bool \<Rightarrow> ('h, 't, vm_error, uint64) action" where
  "checked r = (let (x, overflow) = r in if overflow then fail_st ErrGasUintOverflow else ret_st x)"

definition memoryCopierGas :: "nat \<Rightarrow> ('h, 't) gasFunc" where
  "memoryCopierGas stackpos E memorySize =
     bind_st (memory_gas memorySize) (\<lambda>gas.
     bind_st (stack_Back stackpos) (\<lambda>x.
     bind_st (checked (Uint64WithOverflow (ev_U E) x)) (\<lambda>words.
     bind_st (checked (SafeMul (toWordSize words) CopyGas)) (\<lambda>words.
     checked (SafeAdd gas words)))))"

definition gasCallDataCopy :: "('h, 't) gasFunc" where "gasCallDataCopy = memoryCopierGas 2"
definition gasCodeCopy :: "('h, 't) gasFunc" where "gasCodeCopy = memoryCopierGas 2"
definition gasExtCodeCopy :: "('h, 't) gasFunc" where "gasExtCodeCopy = memoryCopierGas 3"
definition gasReturnDataCopy :: "('h, 't) gasFunc" where "gasReturnDataCopy = memoryCopierGas 2"

definition makeGasLog :: "uint64 \<Rightarrow> ('h, 't) gasFunc" where
  "makeGasLog n E memorySize =
     bind_st (stack_Back 1) (\<lambda>x.
     bind_st (checked (Uint64WithOverflow (ev_U E) x)) (\<lambda>requestedSize.
     bind_st (memory_gas memorySize) (\<lambda>gas.
     bind_st (checked (SafeAdd gas LogGas)) (\<lambda>gas.
     bind_st (checked (SafeAdd gas (n * LogTopicGas))) (\<lambda>gas.
     bind_st (checked (SafeMul requestedSize LogDataGas)) (\<lambda>memorySizeGas.
     checked (SafeAdd gas memorySizeGas)))))))"

definition word_gas :: "nat \<Rightarrow> ('h, 't) gasFunc" where
  "word_gas stackpos E memorySize =
     bind_st (memory_gas memorySize) (\<lambda>gas.
     bind_st (stack_Back stackpos) (\<lambda>x.
     bind_st (checked (Uint64WithOverflow (ev_U E) x)) (\<lambda>wordGas.
     bind_st (checked (SafeMul (toWordSize wordGas) Keccak256WordGas)) (\<lambda>wordGas.
     checked (SafeAdd gas wordGas)))))"

definition gasKeccak256 :: "('h, 't) gasFunc" where "gasKeccak256 = word_gas 1"
definition gasCreate2 :: "('h, 't) gasFunc" where "gasCreate2 = word_gas 2"

definition pureMemoryGascost :: "('h, 't) gasFunc" where
  "pureMemoryGascost E memorySize = memory_gas memorySize"

definition gasReturn :: "('h, 't) gasFunc" where "gasReturn = pureMemoryGascost"
definition gasRevert :: "('h, 't) gasFunc" where "gasRevert = pureMemoryGascost"
definition gasMLoad :: "('h, 't) gasFunc" where "gasMLoad = pureMemoryGascost"
definition gasMStore8 :: "('h, 't) gasFunc" where "gasMStore8 = pureMemoryGascost"
definition gasMStore :: "('h, 't) gasFunc" where "gasMStore = pureMemoryGascost"
definition gasCreate :: "('h, 't) gasFunc" where "gasCreate = pureMemoryGascost"

definition init_code_gas :: "uint64 \<Rightarrow> ('h, 't) gasFunc" where
  "init_code_gas price E memorySize =
     bind_st (memory_gas memorySize) (\<lambda>gas.
     bind_st (stack_Back 2) (\<lambda>x.
     let (sz, overflow) = Uint64WithOverflow (ev_U E) x in
     if overflow \<or> sz > MaxInitCodeSize (ev_chainConfig E) then fail_st ErrGasUintOverflow
     else
       let moreGas = price * ((sz + 31) div 32) in
       checked (SafeAdd gas moreGas)))"

definition gasCreateEip3860 :: "('h, 't) gasFunc" where "gasCreateEip3860 = init_code_gas InitCodeWordGas"
definition gasCreate2Eip3860 :: "('h, 't) gasFunc" where "gasCreate2Eip3860 = init_code_gas (InitCodeWordGas + Keccak256WordGas)"

definition exp_gas :: "uint64 \<Rightarrow> ('h, 't) gasFunc" where
  "exp_gas price E memorySize =
     bind_st (stack_Back 1) (\<lambda>x.
     let expByteLen = word_of_nat ((u_BitLen (ev_A E) x + 7) div 8); gas = expByteLen * price in
     checked (SafeAdd gas ExpGas))"

definition gasExpFrontier :: "('h, 't) gasFunc" where "gasExpFrontier = exp_gas ExpByteFrontier"
definition gasExpEIP158 :: "('h, 't) gasFunc" where "gasExpEIP158 = exp_gas ExpByteEIP158"

section \<open>Storage\<close>

text \<open>\<open>switch\<close> of the legacy metering and the net metering of EIP-1283.\<close>

definition gasSStore :: "('h, 't) gasFunc" where
  "gasSStore E memorySize =
     bind_st (stack_Back 1) (\<lambda>y. bind_st (stack_Back 0) (\<lambda>x. bind_st self_address (\<lambda>a.
     bind_st (on_db (GetState (ev_db E) a (u_Hash32 (ev_A E) x))) (\<lambda>current.
     if r_IsPetersburg (ev_chainRules E) \<or> \<not> r_IsConstantinople (ev_chainRules E) then
       if current = 0 \<and> u_Sign (ev_A E) y \<noteq> 0 then ret_st SstoreSetGas
       else if current \<noteq> 0 \<and> u_Sign (ev_A E) y = 0 then
         bind_st (do_db (AddRefund SstoreRefundGas)) (\<lambda>_. ret_st SstoreClearGas)
       else ret_st SstoreResetGas
     else
       let value = u_Hash32 (ev_A E) y in
       if current = value then ret_st NetSstoreNoopGas
       else
         bind_st (on_db (GetCommittedState (ev_db E) a (u_Hash32 (ev_A E) x))) (\<lambda>original.
         if original = current then
           if original = 0 then ret_st NetSstoreInitGas
           else
             bind_st (if value = 0 then do_db (AddRefund NetSstoreClearRefund) else ret_st ()) (\<lambda>_.
             ret_st NetSstoreCleanGas)
         else
           bind_st (if original \<noteq> 0 then
                      if current = 0 then try_db (SubRefund NetSstoreClearRefund)
                      else if value = 0 then do_db (AddRefund NetSstoreClearRefund) else ret_st ()
                    else ret_st ()) (\<lambda>_.
           bind_st (if original = value then
                      if original = 0 then do_db (AddRefund NetSstoreResetClearRefund)
                      else do_db (AddRefund NetSstoreResetRefund)
                    else ret_st ()) (\<lambda>_.
           ret_st NetSstoreDirtyGas)))))))"

text \<open>
  The rules of EIP-2200, shared by \<open>gasSStoreEIP2200\<close> and \<open>makeGasSStoreFunc\<close>: the latter adds the cost of a
  cold slot to every price.
\<close>

definition sstore_2200 :: "('h, 't) evm_env \<Rightarrow> uint64 \<Rightarrow> uint64 \<Rightarrow> uint64 \<Rightarrow> uint64 \<Rightarrow> uint64 \<Rightarrow>
    address \<Rightarrow> hash \<Rightarrow> hash \<Rightarrow> hash \<Rightarrow> ('h, 't, vm_error, uint64) action" where
  "sstore_2200 E cost clearingRefund sloadGas setGas resetGas a key current value =
     (if current = value then ret_st (cost + sloadGas)
      else
        bind_st (on_db (GetCommittedState (ev_db E) a key)) (\<lambda>original.
        if original = current then
          if original = 0 then ret_st (cost + setGas)
          else
            bind_st (if value = 0 then do_db (AddRefund clearingRefund) else ret_st ()) (\<lambda>_.
            ret_st (cost + resetGas))
        else
          bind_st (if original \<noteq> 0 then
                     if current = 0 then try_db (SubRefund clearingRefund)
                     else if value = 0 then do_db (AddRefund clearingRefund) else ret_st ()
                   else ret_st ()) (\<lambda>_.
          bind_st (if original = value then
                     if original = 0 then do_db (AddRefund (setGas - sloadGas))
                     else do_db (AddRefund (resetGas - sloadGas))
                   else ret_st ()) (\<lambda>_.
          ret_st (cost + sloadGas)))))"

definition gas_sentry :: "('h, 't, vm_error, unit) action" where
  "gas_sentry = bind_st (get (\<lambda>f. Gas (f_contract f))) (\<lambda>g.
     if g \<le> SstoreSentryGasEIP2200 then fail_st (OtherError ''not enough gas for reentrancy sentry'') else ret_st ())"

definition gasSStoreEIP2200 :: "('h, 't) gasFunc" where
  "gasSStoreEIP2200 E memorySize =
     bind_st gas_sentry (\<lambda>_.
     bind_st (stack_Back 1) (\<lambda>y. bind_st (stack_Back 0) (\<lambda>x. bind_st self_address (\<lambda>a.
     bind_st (on_db (GetState (ev_db E) a (u_Hash32 (ev_A E) x))) (\<lambda>current.
     sstore_2200 E 0 SstoreClearsScheduleRefundEIP2200 SloadGasEIP2200 SstoreSetGasEIP2200 SstoreResetGasEIP2200
       a (u_Hash32 (ev_A E) x) current (u_Hash32 (ev_A E) y))))))"

definition makeGasSStoreFunc :: "uint64 \<Rightarrow> ('h, 't) gasFunc" where
  "makeGasSStoreFunc clearingRefund E memorySize =
     bind_st gas_sentry (\<lambda>_.
     bind_st (stack_Back 1) (\<lambda>y. bind_st peek (\<lambda>x. bind_st self_address (\<lambda>a.
     let slot = u_Hash32 (ev_A E) x in
     bind_st (on_db (GetState (ev_db E) a slot)) (\<lambda>current.
     bind_st (read_db (SlotInAccessList a slot)) (\<lambda>(addrPresent, slotPresent).
     bind_st
       (if \<not> slotPresent then
          bind_st (try_db (AddSlotToAccessList a slot)) (\<lambda>_.
          if \<not> addrPresent then panic_st else ret_st ColdSloadCostEIP2929)
        else ret_st 0) (\<lambda>cost.
     sstore_2200 E cost clearingRefund WarmStorageReadCostEIP2929 SstoreSetGasEIP2200
       (SstoreResetGasEIP2200 - ColdSloadCostEIP2929) a slot current (u_Hash32 (ev_A E) y))))))))"

definition gasSStoreEIP2929 :: "('h, 't) gasFunc" where
  "gasSStoreEIP2929 = makeGasSStoreFunc SstoreClearsScheduleRefundEIP2200"

definition gasSStoreEIP3529 :: "('h, 't) gasFunc" where
  "gasSStoreEIP3529 = makeGasSStoreFunc SstoreClearsScheduleRefundEIP3529"

definition gasSLoadEIP2929 :: "('h, 't) gasFunc" where
  "gasSLoadEIP2929 E memorySize =
     bind_st peek (\<lambda>loc. bind_st self_address (\<lambda>a.
     let slot = u_Hash32 (ev_A E) loc in
     bind_st (read_db (SlotInAccessList a slot)) (\<lambda>(addrPresent, slotPresent).
     if \<not> slotPresent then bind_st (try_db (AddSlotToAccessList a slot)) (\<lambda>_. ret_st ColdSloadCostEIP2929)
     else ret_st WarmStorageReadCostEIP2929)))"

section \<open>Accounts and calls\<close>

text \<open>Warms an address and tells whether it was cold.\<close>

definition warm :: "address \<Rightarrow> ('h, 't, vm_error, bool) action" where
  "warm a =
     bind_st (get (\<lambda>f. AddressInAccessList a (ev_StateDB (f_evm f)))) (\<lambda>present.
     if \<not> present then bind_st (do_db (AddAddressToAccessList a)) (\<lambda>_. ret_st True) else ret_st False)"

definition gasExtCodeCopyEIP2929 :: "('h, 't) gasFunc" where
  "gasExtCodeCopyEIP2929 E memorySize =
     bind_st (gasExtCodeCopy E memorySize) (\<lambda>gas.
     bind_st peek (\<lambda>x.
     bind_st (warm (u_Bytes20 (ev_A E) x)) (\<lambda>cold.
     if cold then checked (SafeAdd gas (ColdAccountAccessCostEIP2929 - WarmStorageReadCostEIP2929)) else ret_st gas)))"

definition gasEip2929AccountCheck :: "('h, 't) gasFunc" where
  "gasEip2929AccountCheck E memorySize =
     bind_st peek (\<lambda>x.
     bind_st (warm (u_Bytes20 (ev_A E) x)) (\<lambda>cold.
     ret_st (if cold then ColdAccountAccessCostEIP2929 - WarmStorageReadCostEIP2929 else 0)))"

text \<open>\<open>evm.callGasTemp, err = callGas(...)\<close> and the addition of the gas of the call to the price. On an error
  \<open>callGas\<close> returns 0.\<close>

definition call_gas :: "('h, 't) evm_env \<Rightarrow> uint64 \<Rightarrow> ('h, 't, vm_error, uint64) action" where
  "call_gas E gas =
     bind_st (stack_Back 0) (\<lambda>callCost.
     bind_st (\<lambda>f. let r = callGas (ev_U E) (r_IsEIP150 (ev_chainRules E)) (Gas (f_contract f)) gas callCost in
        (r, f\<lparr>f_evm := (f_evm f)\<lparr>callGasTemp := (case r of Ret g \<Rightarrow> g | _ \<Rightarrow> 0)\<rparr>\<rparr>)) (\<lambda>temp.
     checked (SafeAdd gas temp)))"

definition gasCall :: "('h, 't) gasFunc" where
  "gasCall E memorySize =
     bind_st (stack_Back 2) (\<lambda>v. bind_st (stack_Back 1) (\<lambda>x.
     let transfersValue = \<not> u_IsZero (ev_A E) v; address = u_Bytes20 (ev_A E) x in
     bind_st
       (if r_IsEIP158 (ev_chainRules E) then
          if transfersValue then
            bind_st (on_db (sdb_Empty (ev_db E) address)) (\<lambda>e. ret_st (if e then CallNewAccountGas else 0))
          else ret_st 0
        else bind_st (on_db (sdb_Exist (ev_db E) address)) (\<lambda>e. ret_st (if \<not> e then CallNewAccountGas else 0))) (\<lambda>gas.
     let gas = (if transfersValue then gas + CallValueTransferGas else gas) in
     bind_st (memory_gas memorySize) (\<lambda>memoryGas.
     bind_st (checked (SafeAdd gas memoryGas)) (call_gas E)))))"

definition gasCallCode :: "('h, 't) gasFunc" where
  "gasCallCode E memorySize =
     bind_st (memory_gas memorySize) (\<lambda>memoryGas.
     bind_st (stack_Back 2) (\<lambda>v.
     let gas = (if u_Sign (ev_A E) v \<noteq> 0 then CallValueTransferGas else 0) in
     bind_st (checked (SafeAdd gas memoryGas)) (call_gas E)))"

definition gasDelegateCall :: "('h, 't) gasFunc" where
  "gasDelegateCall E memorySize = bind_st (memory_gas memorySize) (call_gas E)"

definition gasStaticCall :: "('h, 't) gasFunc" where
  "gasStaticCall E memorySize = bind_st (memory_gas memorySize) (call_gas E)"

definition gasSelfdestruct :: "('h, 't) gasFunc" where
  "gasSelfdestruct E memorySize =
     bind_st self_address (\<lambda>self.
     bind_st
       (if r_IsEIP150 (ev_chainRules E) then
          bind_st (stack_Back 0) (\<lambda>x.
          let address = u_Bytes20 (ev_A E) x in
          if r_IsEIP158 (ev_chainRules E) then
            bind_st (on_db (sdb_Empty (ev_db E) address)) (\<lambda>e.
            bind_st (if e then bind_st (on_db (GetBalance (ev_db E) self)) (\<lambda>b. ret_st (b \<noteq> 0)) else ret_st False) (\<lambda>new.
            ret_st (if new then SelfdestructGasEIP150 + CreateBySelfdestructGas else SelfdestructGasEIP150)))
          else
            bind_st (on_db (sdb_Exist (ev_db E) address)) (\<lambda>e.
            ret_st (if \<not> e then SelfdestructGasEIP150 + CreateBySelfdestructGas else SelfdestructGasEIP150)))
        else ret_st 0) (\<lambda>gas.
     bind_st (on_db (HasSuicided (ev_db E) self)) (\<lambda>dead.
     bind_st (if \<not> dead then do_db (AddRefund SelfdestructRefundGas) else ret_st ()) (\<lambda>_.
     ret_st gas))))"

definition makeCallVariantGasCallEIP2929 :: "('h, 't) gasFunc \<Rightarrow> ('h, 't) gasFunc" where
  "makeCallVariantGasCallEIP2929 oldCalculator E memorySize =
     bind_st (stack_Back 1) (\<lambda>x.
     let coldCost = ColdAccountAccessCostEIP2929 - WarmStorageReadCostEIP2929 in
     bind_st (warm (u_Bytes20 (ev_A E) x)) (\<lambda>cold.
     if \<not> cold then oldCalculator E memorySize
     else
       bind_st (use_gas coldCost) (\<lambda>ok.
       if \<not> ok then fail_st ErrOutOfGas
       else
         bind_st (oldCalculator E memorySize) (\<lambda>gas.
         bind_st (add_gas coldCost) (\<lambda>_.
         ret_st (gas + coldCost))))))"

definition gasCallEIP2929 :: "('h, 't) gasFunc" where "gasCallEIP2929 = makeCallVariantGasCallEIP2929 gasCall"
definition gasDelegateCallEIP2929 :: "('h, 't) gasFunc" where
  "gasDelegateCallEIP2929 = makeCallVariantGasCallEIP2929 gasDelegateCall"
definition gasStaticCallEIP2929 :: "('h, 't) gasFunc" where
  "gasStaticCallEIP2929 = makeCallVariantGasCallEIP2929 gasStaticCall"
definition gasCallCodeEIP2929 :: "('h, 't) gasFunc" where "gasCallCodeEIP2929 = makeCallVariantGasCallEIP2929 gasCallCode"

definition makeSelfdestructGasFn :: "bool \<Rightarrow> ('h, 't) gasFunc" where
  "makeSelfdestructGasFn refundsEnabled E memorySize =
     bind_st peek (\<lambda>x.
     let address = u_Bytes20 (ev_A E) x in
     bind_st self_address (\<lambda>self.
     bind_st (warm address) (\<lambda>cold.
     bind_st (on_db (sdb_Empty (ev_db E) address)) (\<lambda>e.
     bind_st (if e then bind_st (on_db (GetBalance (ev_db E) self)) (\<lambda>b. ret_st (b \<noteq> 0)) else ret_st False) (\<lambda>new.
     let gas = (if cold then ColdAccountAccessCostEIP2929 else 0);
         gas = (if new then gas + CreateBySelfdestructGas else gas) in
     bind_st
       (if refundsEnabled then
          bind_st (on_db (HasSuicided (ev_db E) self)) (\<lambda>dead.
          if \<not> dead then do_db (AddRefund SelfdestructRefundGas) else ret_st ())
        else ret_st ()) (\<lambda>_.
     ret_st gas))))))"

definition gasSelfdestructEIP2929 :: "('h, 't) gasFunc" where "gasSelfdestructEIP2929 = makeSelfdestructGasFn True"
definition gasSelfdestructEIP3529 :: "('h, 't) gasFunc" where "gasSelfdestructEIP3529 = makeSelfdestructGasFn False"

end
