(* ===== verification/Vm_JumpTable.thy ===== *)
theory Vm_JumpTable
  imports Vm_Gas
begin

text \<open>
  The instruction sets of the forks: \<open>core/vm/jump_table.go\<close>, the activations of \<open>core/vm/eips.go\<close> and the choice
  of the set (\<open>jump_table_export.go\<close>, \<open>NewEVMInterpreter\<close>).
\<close>

section \<open>Opcodes\<close>

abbreviation OP_STOP :: byte where "OP_STOP \<equiv> 0x00"
abbreviation OP_ADD :: byte where "OP_ADD \<equiv> 0x01"
abbreviation OP_MUL :: byte where "OP_MUL \<equiv> 0x02"
abbreviation OP_SUB :: byte where "OP_SUB \<equiv> 0x03"
abbreviation OP_DIV :: byte where "OP_DIV \<equiv> 0x04"
abbreviation OP_SDIV :: byte where "OP_SDIV \<equiv> 0x05"
abbreviation OP_MOD :: byte where "OP_MOD \<equiv> 0x06"
abbreviation OP_SMOD :: byte where "OP_SMOD \<equiv> 0x07"
abbreviation OP_ADDMOD :: byte where "OP_ADDMOD \<equiv> 0x08"
abbreviation OP_MULMOD :: byte where "OP_MULMOD \<equiv> 0x09"
abbreviation OP_EXP :: byte where "OP_EXP \<equiv> 0x0a"
abbreviation OP_SIGNEXTEND :: byte where "OP_SIGNEXTEND \<equiv> 0x0b"
abbreviation OP_LT :: byte where "OP_LT \<equiv> 0x10"
abbreviation OP_GT :: byte where "OP_GT \<equiv> 0x11"
abbreviation OP_SLT :: byte where "OP_SLT \<equiv> 0x12"
abbreviation OP_SGT :: byte where "OP_SGT \<equiv> 0x13"
abbreviation OP_EQ :: byte where "OP_EQ \<equiv> 0x14"
abbreviation OP_ISZERO :: byte where "OP_ISZERO \<equiv> 0x15"
abbreviation OP_AND :: byte where "OP_AND \<equiv> 0x16"
abbreviation OP_OR :: byte where "OP_OR \<equiv> 0x17"
abbreviation OP_XOR :: byte where "OP_XOR \<equiv> 0x18"
abbreviation OP_NOT :: byte where "OP_NOT \<equiv> 0x19"
abbreviation OP_BYTE :: byte where "OP_BYTE \<equiv> 0x1a"
abbreviation OP_SHL :: byte where "OP_SHL \<equiv> 0x1b"
abbreviation OP_SHR :: byte where "OP_SHR \<equiv> 0x1c"
abbreviation OP_SAR :: byte where "OP_SAR \<equiv> 0x1d"
abbreviation OP_KECCAK256 :: byte where "OP_KECCAK256 \<equiv> 0x20"
abbreviation OP_ADDRESS :: byte where "OP_ADDRESS \<equiv> 0x30"
abbreviation OP_BALANCE :: byte where "OP_BALANCE \<equiv> 0x31"
abbreviation OP_ORIGIN :: byte where "OP_ORIGIN \<equiv> 0x32"
abbreviation OP_CALLER :: byte where "OP_CALLER \<equiv> 0x33"
abbreviation OP_CALLVALUE :: byte where "OP_CALLVALUE \<equiv> 0x34"
abbreviation OP_CALLDATALOAD :: byte where "OP_CALLDATALOAD \<equiv> 0x35"
abbreviation OP_CALLDATASIZE :: byte where "OP_CALLDATASIZE \<equiv> 0x36"
abbreviation OP_CALLDATACOPY :: byte where "OP_CALLDATACOPY \<equiv> 0x37"
abbreviation OP_CODESIZE :: byte where "OP_CODESIZE \<equiv> 0x38"
abbreviation OP_CODECOPY :: byte where "OP_CODECOPY \<equiv> 0x39"
abbreviation OP_GASPRICE :: byte where "OP_GASPRICE \<equiv> 0x3a"
abbreviation OP_EXTCODESIZE :: byte where "OP_EXTCODESIZE \<equiv> 0x3b"
abbreviation OP_EXTCODECOPY :: byte where "OP_EXTCODECOPY \<equiv> 0x3c"
abbreviation OP_RETURNDATASIZE :: byte where "OP_RETURNDATASIZE \<equiv> 0x3d"
abbreviation OP_RETURNDATACOPY :: byte where "OP_RETURNDATACOPY \<equiv> 0x3e"
abbreviation OP_EXTCODEHASH :: byte where "OP_EXTCODEHASH \<equiv> 0x3f"
abbreviation OP_BLOCKHASH :: byte where "OP_BLOCKHASH \<equiv> 0x40"
abbreviation OP_COINBASE :: byte where "OP_COINBASE \<equiv> 0x41"
abbreviation OP_TIMESTAMP :: byte where "OP_TIMESTAMP \<equiv> 0x42"
abbreviation OP_NUMBER :: byte where "OP_NUMBER \<equiv> 0x43"
abbreviation OP_DIFFICULTY :: byte where "OP_DIFFICULTY \<equiv> 0x44"
abbreviation OP_PREVRANDAO :: byte where "OP_PREVRANDAO \<equiv> 0x44"
abbreviation OP_GASLIMIT :: byte where "OP_GASLIMIT \<equiv> 0x45"
abbreviation OP_CHAINID :: byte where "OP_CHAINID \<equiv> 0x46"
abbreviation OP_SELFBALANCE :: byte where "OP_SELFBALANCE \<equiv> 0x47"
abbreviation OP_BASEFEE :: byte where "OP_BASEFEE \<equiv> 0x48"
abbreviation OP_POP :: byte where "OP_POP \<equiv> 0x50"
abbreviation OP_MLOAD :: byte where "OP_MLOAD \<equiv> 0x51"
abbreviation OP_MSTORE :: byte where "OP_MSTORE \<equiv> 0x52"
abbreviation OP_MSTORE8 :: byte where "OP_MSTORE8 \<equiv> 0x53"
abbreviation OP_SLOAD :: byte where "OP_SLOAD \<equiv> 0x54"
abbreviation OP_SSTORE :: byte where "OP_SSTORE \<equiv> 0x55"
abbreviation OP_JUMP :: byte where "OP_JUMP \<equiv> 0x56"
abbreviation OP_JUMPI :: byte where "OP_JUMPI \<equiv> 0x57"
abbreviation OP_PC :: byte where "OP_PC \<equiv> 0x58"
abbreviation OP_MSIZE :: byte where "OP_MSIZE \<equiv> 0x59"
abbreviation OP_GAS :: byte where "OP_GAS \<equiv> 0x5a"
abbreviation OP_JUMPDEST :: byte where "OP_JUMPDEST \<equiv> 0x5b"
abbreviation OP_PUSH0 :: byte where "OP_PUSH0 \<equiv> 0x5f"
abbreviation OP_PUSH1 :: byte where "OP_PUSH1 \<equiv> 0x60"
abbreviation OP_TLOAD :: byte where "OP_TLOAD \<equiv> 0xb3"
abbreviation OP_TSTORE :: byte where "OP_TSTORE \<equiv> 0xb4"
abbreviation OP_CREATE :: byte where "OP_CREATE \<equiv> 0xf0"
abbreviation OP_CALL :: byte where "OP_CALL \<equiv> 0xf1"
abbreviation OP_CALLCODE :: byte where "OP_CALLCODE \<equiv> 0xf2"
abbreviation OP_RETURN :: byte where "OP_RETURN \<equiv> 0xf3"
abbreviation OP_DELEGATECALL :: byte where "OP_DELEGATECALL \<equiv> 0xf4"
abbreviation OP_CREATE2 :: byte where "OP_CREATE2 \<equiv> 0xf5"
abbreviation OP_STATICCALL :: byte where "OP_STATICCALL \<equiv> 0xfa"
abbreviation OP_REVERT :: byte where "OP_REVERT \<equiv> 0xfd"
abbreviation OP_SELFDESTRUCT :: byte where "OP_SELFDESTRUCT \<equiv> 0xff"

section \<open>Operations\<close>

type_synonym memorySizeFunc = "uint256_pkg \<Rightarrow> Stack \<Rightarrow> (string, uint64 \<times> bool) outcome"

record ('h, 't) operation =
  execute :: "('h, 't) executionFunc"
  constantGas :: uint64
  dynamicGas :: "('h, 't) gasFunc option"
  op_minStack :: int
  op_maxStack :: int
  memorySize :: "memorySizeFunc option"

type_synonym ('h, 't) JumpTable = "byte \<Rightarrow> ('h, 't) operation"

definition HasCost :: "('h, 't) operation \<Rightarrow> bool" where
  "HasCost op \<longleftrightarrow> dynamicGas op \<noteq> None \<or> constantGas op \<noteq> 0"

text \<open>Entries of the tables: without and with a gas function, and the instruction families.\<close>

definition fixed :: "('h, 't) executionFunc \<Rightarrow> uint64 \<Rightarrow> nat \<Rightarrow> nat \<Rightarrow> ('h, 't) operation" where
  "fixed ex gas pops pushes =
     \<lparr>execute = ex, constantGas = gas, dynamicGas = None, op_minStack = minStack pops pushes,
      op_maxStack = maxStack pops pushes, memorySize = None\<rparr>"

definition metered :: "('h, 't) executionFunc \<Rightarrow> uint64 \<Rightarrow> ('h, 't) gasFunc \<Rightarrow> nat \<Rightarrow> nat \<Rightarrow> memorySizeFunc option \<Rightarrow>
    ('h, 't) operation" where
  "metered ex gas dyn pops pushes mem =
     \<lparr>execute = ex, constantGas = gas, dynamicGas = Some dyn, op_minStack = minStack pops pushes,
      op_maxStack = maxStack pops pushes, memorySize = mem\<rparr>"

definition push_n :: "nat \<Rightarrow> ('h, 't) operation" where
  "push_n n = fixed (makePush (word_of_nat n) (int n)) GasFastestStep 0 1"

definition dup_n :: "nat \<Rightarrow> ('h, 't) operation" where
  "dup_n n = \<lparr>execute = makeDup n, constantGas = GasFastestStep, dynamicGas = None, op_minStack = minDupStack n,
     op_maxStack = maxDupStack n, memorySize = None\<rparr>"

definition swap_n :: "nat \<Rightarrow> ('h, 't) operation" where
  "swap_n n = \<lparr>execute = makeSwap n, constantGas = GasFastestStep, dynamicGas = None, op_minStack = minSwapStack (n + 1),
     op_maxStack = maxSwapStack (n + 1), memorySize = None\<rparr>"

definition log_n :: "nat \<Rightarrow> ('h, 't) operation" where
  "log_n n = metered (makeLog n) 0 (makeGasLog (word_of_nat n)) (n + 2) 0 (Some memoryLog)"

section \<open>Frontier\<close>

definition frontier_arithmetic :: "(byte \<times> ('h, 't) operation) list" where
  "frontier_arithmetic =
    [(OP_STOP, fixed opStop 0 0 0),
     (OP_ADD, fixed opAdd GasFastestStep 2 1),
     (OP_MUL, fixed opMul GasFastStep 2 1),
     (OP_SUB, fixed opSub GasFastestStep 2 1),
     (OP_DIV, fixed opDiv GasFastStep 2 1),
     (OP_SDIV, fixed opSdiv GasFastStep 2 1),
     (OP_MOD, fixed opMod GasFastStep 2 1),
     (OP_SMOD, fixed opSmod GasFastStep 2 1),
     (OP_ADDMOD, fixed opAddmod GasMidStep 3 1),
     (OP_MULMOD, fixed opMulmod GasMidStep 3 1),
     (OP_EXP, metered opExp 0 gasExpFrontier 2 1 None),
     (OP_SIGNEXTEND, fixed opSignExtend GasFastStep 2 1),
     (OP_LT, fixed opLt GasFastestStep 2 1),
     (OP_GT, fixed opGt GasFastestStep 2 1),
     (OP_SLT, fixed opSlt GasFastestStep 2 1),
     (OP_SGT, fixed opSgt GasFastestStep 2 1),
     (OP_EQ, fixed opEq GasFastestStep 2 1),
     (OP_ISZERO, fixed opIszero GasFastestStep 1 1),
     (OP_AND, fixed opAnd GasFastestStep 2 1),
     (OP_XOR, fixed opXor GasFastestStep 2 1),
     (OP_OR, fixed opOr GasFastestStep 2 1),
     (OP_NOT, fixed opNot GasFastestStep 1 1),
     (OP_BYTE, fixed opByte GasFastestStep 2 1)]"

definition frontier_environment :: "(byte \<times> ('h, 't) operation) list" where
  "frontier_environment =
    [(OP_KECCAK256, metered opKeccak256 Keccak256Gas gasKeccak256 2 1 (Some memoryKeccak256)),
     (OP_ADDRESS, fixed opAddress GasQuickStep 0 1),
     (OP_BALANCE, fixed opBalance BalanceGasFrontier 1 1),
     (OP_ORIGIN, fixed opOrigin GasQuickStep 0 1),
     (OP_CALLER, fixed opCaller GasQuickStep 0 1),
     (OP_CALLVALUE, fixed opCallValue GasQuickStep 0 1),
     (OP_CALLDATALOAD, fixed opCallDataLoad GasFastestStep 1 1),
     (OP_CALLDATASIZE, fixed opCallDataSize GasQuickStep 0 1),
     (OP_CALLDATACOPY, metered opCallDataCopy GasFastestStep gasCallDataCopy 3 0 (Some memoryCallDataCopy)),
     (OP_CODESIZE, fixed opCodeSize GasQuickStep 0 1),
     (OP_CODECOPY, metered opCodeCopy GasFastestStep gasCodeCopy 3 0 (Some memoryCodeCopy)),
     (OP_GASPRICE, fixed opGasprice GasQuickStep 0 1),
     (OP_EXTCODESIZE, fixed opExtCodeSize ExtcodeSizeGasFrontier 1 1),
     (OP_EXTCODECOPY, metered opExtCodeCopy ExtcodeCopyBaseFrontier gasExtCodeCopy 4 0 (Some memoryExtCodeCopy)),
     (OP_BLOCKHASH, fixed opBlockhash GasExtStep 1 1),
     (OP_COINBASE, fixed opCoinbase GasQuickStep 0 1),
     (OP_TIMESTAMP, fixed opTimestamp GasQuickStep 0 1),
     (OP_NUMBER, fixed opNumber GasQuickStep 0 1),
     (OP_DIFFICULTY, fixed opDifficulty GasQuickStep 0 1),
     (OP_GASLIMIT, fixed opGasLimit GasQuickStep 0 1)]"

definition frontier_flow :: "(byte \<times> ('h, 't) operation) list" where
  "frontier_flow =
    [(OP_POP, fixed opPop GasQuickStep 1 0),
     (OP_MLOAD, metered opMload GasFastestStep gasMLoad 1 1 (Some memoryMLoad)),
     (OP_MSTORE, metered opMstore GasFastestStep gasMStore 2 0 (Some memoryMStore)),
     (OP_MSTORE8, metered opMstore8 GasFastestStep gasMStore8 2 0 (Some memoryMStore8)),
     (OP_SLOAD, fixed opSload SloadGasFrontier 1 1),
     (OP_SSTORE, metered opSstore 0 gasSStore 2 0 None),
     (OP_JUMP, fixed opJump GasMidStep 1 0),
     (OP_JUMPI, fixed opJumpi GasSlowStep 2 0),
     (OP_PC, fixed opPc GasQuickStep 0 1),
     (OP_MSIZE, fixed opMsize GasQuickStep 0 1),
     (OP_GAS, fixed opGas GasQuickStep 0 1),
     (OP_JUMPDEST, fixed opJumpdest JumpdestGas 0 0)]"

definition frontier_push :: "(byte \<times> ('h, 't) operation) list" where
  "frontier_push =
    [(OP_PUSH1, fixed opPush1 GasFastestStep 0 1),
     (0x61, push_n 2),
     (0x62, push_n 3),
     (0x63, push_n 4),
     (0x64, push_n 5),
     (0x65, push_n 6),
     (0x66, push_n 7),
     (0x67, push_n 8),
     (0x68, push_n 9),
     (0x69, push_n 10),
     (0x6a, push_n 11),
     (0x6b, push_n 12),
     (0x6c, push_n 13),
     (0x6d, push_n 14),
     (0x6e, push_n 15),
     (0x6f, push_n 16),
     (0x70, push_n 17),
     (0x71, push_n 18),
     (0x72, push_n 19),
     (0x73, push_n 20),
     (0x74, push_n 21),
     (0x75, push_n 22),
     (0x76, push_n 23),
     (0x77, push_n 24),
     (0x78, push_n 25),
     (0x79, push_n 26),
     (0x7a, push_n 27),
     (0x7b, push_n 28),
     (0x7c, push_n 29),
     (0x7d, push_n 30),
     (0x7e, push_n 31),
     (0x7f, push_n 32)]"

definition frontier_dup :: "(byte \<times> ('h, 't) operation) list" where
  "frontier_dup =
    [(0x80, dup_n 1),
     (0x81, dup_n 2),
     (0x82, dup_n 3),
     (0x83, dup_n 4),
     (0x84, dup_n 5),
     (0x85, dup_n 6),
     (0x86, dup_n 7),
     (0x87, dup_n 8),
     (0x88, dup_n 9),
     (0x89, dup_n 10),
     (0x8a, dup_n 11),
     (0x8b, dup_n 12),
     (0x8c, dup_n 13),
     (0x8d, dup_n 14),
     (0x8e, dup_n 15),
     (0x8f, dup_n 16)]"

definition frontier_swap :: "(byte \<times> ('h, 't) operation) list" where
  "frontier_swap =
    [(0x90, swap_n 1),
     (0x91, swap_n 2),
     (0x92, swap_n 3),
     (0x93, swap_n 4),
     (0x94, swap_n 5),
     (0x95, swap_n 6),
     (0x96, swap_n 7),
     (0x97, swap_n 8),
     (0x98, swap_n 9),
     (0x99, swap_n 10),
     (0x9a, swap_n 11),
     (0x9b, swap_n 12),
     (0x9c, swap_n 13),
     (0x9d, swap_n 14),
     (0x9e, swap_n 15),
     (0x9f, swap_n 16)]"

definition frontier_system :: "(byte \<times> ('h, 't) operation) list" where
  "frontier_system =
    [(0xa0, log_n 0),
     (0xa1, log_n 1),
     (0xa2, log_n 2),
     (0xa3, log_n 3),
     (0xa4, log_n 4),
     (OP_CREATE, metered opCreate CreateGas gasCreate 3 1 (Some memoryCreate)),
     (OP_CALL, metered opCall CallGasFrontier gasCall 7 1 (Some memoryCall)),
     (OP_CALLCODE, metered opCallCode CallGasFrontier gasCallCode 7 1 (Some memoryCall)),
     (OP_RETURN, metered opReturn 0 gasReturn 2 0 (Some memoryReturn)),
     (OP_SELFDESTRUCT, metered opSelfdestruct 0 gasSelfdestruct 1 0 None)]"

text \<open>All unassigned slots are filled with \<open>opUndefined\<close>.\<close>

definition undefined_op :: "('h, 't) operation" where
  "undefined_op = \<lparr>execute = opUndefined, constantGas = 0, dynamicGas = None, op_minStack = 0, op_maxStack = maxStack 0 0,
     memorySize = None\<rparr>"

definition frontier_ops :: "(byte \<times> ('h, 't) operation) list" where
  "frontier_ops = frontier_arithmetic @ frontier_environment @ frontier_flow @ frontier_push @ frontier_dup @ frontier_swap
     @ frontier_system"

definition newFrontierInstructionSet :: "('h, 't) JumpTable" where
  "newFrontierInstructionSet b = (case map_of frontier_ops b of Some op \<Rightarrow> op | None \<Rightarrow> undefined_op)"

section \<open>Changes of the tables\<close>

definition set_constantGas :: "byte \<Rightarrow> uint64 \<Rightarrow> ('h, 't) JumpTable \<Rightarrow> ('h, 't) JumpTable" where
  "set_constantGas b g jt = jt(b := (jt b)\<lparr>constantGas := g\<rparr>)"

definition set_dynamicGas :: "byte \<Rightarrow> ('h, 't) gasFunc \<Rightarrow> ('h, 't) JumpTable \<Rightarrow> ('h, 't) JumpTable" where
  "set_dynamicGas b g jt = jt(b := (jt b)\<lparr>dynamicGas := Some g\<rparr>)"

definition enable1884 :: "('h, 't) JumpTable \<Rightarrow> ('h, 't) JumpTable" where
  "enable1884 jt =
     (set_constantGas OP_EXTCODEHASH ExtcodeHashGasEIP1884
       (set_constantGas OP_BALANCE BalanceGasEIP1884
         (set_constantGas OP_SLOAD SloadGasEIP1884 jt)))(OP_SELFBALANCE := fixed opSelfBalance GasFastStep 0 1)"

definition enable1344 :: "('h, 't) JumpTable \<Rightarrow> ('h, 't) JumpTable" where
  "enable1344 jt = jt(OP_CHAINID := fixed opChainID GasQuickStep 0 1)"

definition enable2200 :: "('h, 't) JumpTable \<Rightarrow> ('h, 't) JumpTable" where
  "enable2200 jt = set_dynamicGas OP_SSTORE gasSStoreEIP2200 (set_constantGas OP_SLOAD SloadGasEIP2200 jt)"

definition reprice :: "byte \<Rightarrow> uint64 \<Rightarrow> ('h, 't) gasFunc \<Rightarrow> ('h, 't) JumpTable \<Rightarrow> ('h, 't) JumpTable" where
  "reprice b g dyn jt = set_dynamicGas b dyn (set_constantGas b g jt)"

definition enable2929 :: "('h, 't) JumpTable \<Rightarrow> ('h, 't) JumpTable" where
  "enable2929 jt =
     (let jt = set_dynamicGas OP_SSTORE gasSStoreEIP2929 jt;
          jt = reprice OP_SLOAD 0 gasSLoadEIP2929 jt;
          jt = reprice OP_EXTCODECOPY WarmStorageReadCostEIP2929 gasExtCodeCopyEIP2929 jt;
          jt = reprice OP_EXTCODESIZE WarmStorageReadCostEIP2929 gasEip2929AccountCheck jt;
          jt = reprice OP_EXTCODEHASH WarmStorageReadCostEIP2929 gasEip2929AccountCheck jt;
          jt = reprice OP_BALANCE WarmStorageReadCostEIP2929 gasEip2929AccountCheck jt;
          jt = reprice OP_CALL WarmStorageReadCostEIP2929 gasCallEIP2929 jt;
          jt = reprice OP_CALLCODE WarmStorageReadCostEIP2929 gasCallCodeEIP2929 jt;
          jt = reprice OP_STATICCALL WarmStorageReadCostEIP2929 gasStaticCallEIP2929 jt;
          jt = reprice OP_DELEGATECALL WarmStorageReadCostEIP2929 gasDelegateCallEIP2929 jt in
      reprice OP_SELFDESTRUCT SelfdestructGasEIP150 gasSelfdestructEIP2929 jt)"

definition enable3529 :: "('h, 't) JumpTable \<Rightarrow> ('h, 't) JumpTable" where
  "enable3529 jt = set_dynamicGas OP_SELFDESTRUCT gasSelfdestructEIP3529
     (set_dynamicGas OP_SSTORE gasSStoreEIP3529 jt)"

definition enable3198 :: "('h, 't) JumpTable \<Rightarrow> ('h, 't) JumpTable" where
  "enable3198 jt = jt(OP_BASEFEE := fixed opBaseFee GasQuickStep 0 1)"

definition enable1153 :: "('h, 't) JumpTable \<Rightarrow> ('h, 't) JumpTable" where
  "enable1153 jt = jt(OP_TLOAD := fixed opTload WarmStorageReadCostEIP2929 1 1,
     OP_TSTORE := fixed opTstore WarmStorageReadCostEIP2929 2 0)"

definition enable3855 :: "('h, 't) JumpTable \<Rightarrow> ('h, 't) JumpTable" where
  "enable3855 jt = jt(OP_PUSH0 := fixed opPush0 GasQuickStep 0 1)"

definition enable3860 :: "('h, 't) JumpTable \<Rightarrow> ('h, 't) JumpTable" where
  "enable3860 jt = set_dynamicGas OP_CREATE2 gasCreate2Eip3860 (set_dynamicGas OP_CREATE gasCreateEip3860 jt)"

section \<open>The forks\<close>

definition newHomesteadInstructionSet :: "('h, 't) JumpTable" where
  "newHomesteadInstructionSet = newFrontierInstructionSet
     (OP_DELEGATECALL := metered opDelegateCall CallGasFrontier gasDelegateCall 6 1 (Some memoryDelegateCall))"

definition newTangerineWhistleInstructionSet :: "('h, 't) JumpTable" where
  "newTangerineWhistleInstructionSet =
     (let jt = set_constantGas OP_BALANCE BalanceGasEIP150 newHomesteadInstructionSet;
          jt = set_constantGas OP_EXTCODESIZE ExtcodeSizeGasEIP150 jt;
          jt = set_constantGas OP_SLOAD SloadGasEIP150 jt;
          jt = set_constantGas OP_EXTCODECOPY ExtcodeCopyBaseEIP150 jt;
          jt = set_constantGas OP_CALL CallGasEIP150 jt;
          jt = set_constantGas OP_CALLCODE CallGasEIP150 jt in
      set_constantGas OP_DELEGATECALL CallGasEIP150 jt)"

definition newSpuriousDragonInstructionSet :: "('h, 't) JumpTable" where
  "newSpuriousDragonInstructionSet = set_dynamicGas OP_EXP gasExpEIP158 newTangerineWhistleInstructionSet"

definition newByzantiumInstructionSet :: "('h, 't) JumpTable" where
  "newByzantiumInstructionSet = newSpuriousDragonInstructionSet
     (OP_STATICCALL := metered opStaticCall CallGasEIP150 gasStaticCall 6 1 (Some memoryStaticCall),
      OP_RETURNDATASIZE := fixed opReturnDataSize GasQuickStep 0 1,
      OP_RETURNDATACOPY := metered opReturnDataCopy GasFastestStep gasReturnDataCopy 3 0 (Some memoryReturnDataCopy),
      OP_REVERT := metered opRevert 0 gasRevert 2 0 (Some memoryRevert))"

definition newConstantinopleInstructionSet :: "('h, 't) JumpTable" where
  "newConstantinopleInstructionSet = newByzantiumInstructionSet
     (OP_SHL := fixed opSHL GasFastestStep 2 1,
      OP_SHR := fixed opSHR GasFastestStep 2 1,
      OP_SAR := fixed opSAR GasFastestStep 2 1,
      OP_EXTCODEHASH := fixed opExtCodeHash ExtcodeHashGasConstantinople 1 1,
      OP_CREATE2 := metered opCreate2 Create2Gas gasCreate2 4 1 (Some memoryCreate2))"

definition newIstanbulInstructionSet :: "('h, 't) JumpTable" where
  "newIstanbulInstructionSet = enable2200 (enable1884 (enable1344 newConstantinopleInstructionSet))"

definition newBerlinInstructionSet :: "('h, 't) JumpTable" where
  "newBerlinInstructionSet = enable2929 newIstanbulInstructionSet"

definition newLondonInstructionSet :: "('h, 't) JumpTable" where
  "newLondonInstructionSet = enable3198 (enable3529 newBerlinInstructionSet)"

definition newMergeInstructionSet :: "('h, 't) JumpTable" where
  "newMergeInstructionSet = newLondonInstructionSet(OP_PREVRANDAO := fixed opRandom GasQuickStep 0 1)"

definition newShanghaiInstructionSet :: "('h, 't) JumpTable" where
  "newShanghaiInstructionSet = enable3860 (enable3855 newMergeInstructionSet)"

text \<open>The set of the rules, as \<open>NewEVMInterpreter\<close> chooses it.\<close>

definition instructionSet :: "Rules \<Rightarrow> ('h, 't) JumpTable" where
  "instructionSet r =
     (if r_IsShanghai r then newShanghaiInstructionSet
      else if r_IsMerge r then newMergeInstructionSet
      else if r_IsLondon r then newLondonInstructionSet
      else if r_IsBerlin r then newBerlinInstructionSet
      else if r_IsIstanbul r then newIstanbulInstructionSet
      else if r_IsConstantinople r then newConstantinopleInstructionSet
      else if r_IsByzantium r then newByzantiumInstructionSet
      else if r_IsEIP158 r then newSpuriousDragonInstructionSet
      else if r_IsEIP150 r then newTangerineWhistleInstructionSet
      else if r_IsHomestead r then newHomesteadInstructionSet
      else newFrontierInstructionSet)"

text \<open>\<open>LookupInstructionSet\<close> also reports the forks it has no set for.\<close>

definition LookupInstructionSet :: "Rules \<Rightarrow> ('h, 't) JumpTable \<times> string option" where
  "LookupInstructionSet r =
     (if r_IsPrague r then (newShanghaiInstructionSet, Some ''prague-fork not defined yet'')
      else if r_IsCancun r then (newShanghaiInstructionSet, Some ''cancun-fork not defined yet'')
      else (instructionSet r, None))"

definition EnableEIP :: "int \<Rightarrow> ('h, 't) JumpTable \<Rightarrow> ('h, 't) JumpTable option" where
  "EnableEIP eip jt =
     (if eip = 3855 then Some (enable3855 jt) else if eip = 3860 then Some (enable3860 jt)
      else if eip = 3529 then Some (enable3529 jt) else if eip = 3198 then Some (enable3198 jt)
      else if eip = 2929 then Some (enable2929 jt) else if eip = 2200 then Some (enable2200 jt)
      else if eip = 1884 then Some (enable1884 jt) else if eip = 1344 then Some (enable1344 jt)
      else if eip = 1153 then Some (enable1153 jt) else None)"

text \<open>The loop over \<open>ExtraEips\<close>: what cannot be activated is left out.\<close>

fun enable_extra :: "int list \<Rightarrow> ('h, 't) JumpTable \<Rightarrow> ('h, 't) JumpTable \<times> int list" where
  "enable_extra [] jt = (jt, [])"
| "enable_extra (e # es) jt =
     (case EnableEIP e jt of
        None \<Rightarrow> enable_extra es jt
      | Some jt' \<Rightarrow> let (t, xs) = enable_extra es jt' in (t, e # xs))"

definition NewEVMInterpreter :: "('h, 't) evm_env \<Rightarrow> ('h, 't) JumpTable \<times> int list" where
  "NewEVMInterpreter E = enable_extra (ExtraEips E) (instructionSet (ev_chainRules E))"

text \<open>\<open>validate\<close> panics when an entry has a memory size but no gas function.\<close>

definition validate :: "('h, 't) JumpTable \<Rightarrow> bool" where
  "validate jt \<longleftrightarrow> (\<forall>b. memorySize (jt b) \<noteq> None \<longrightarrow> dynamicGas (jt b) \<noteq> None)"

end
