(* ===== verification/Vm_Interpreter.thy ===== *)
theory Vm_Interpreter
  imports Vm_JumpTable
begin

text \<open>
  The interpreter loop (\<open>core/vm/interpreter.go\<close>) and the calls between contracts (\<open>core/vm/evm.go\<close>). A call runs
  the interpreter, whose instructions call again: the nesting is cut off at \<open>CallCreateDepth\<close>, and each round of
  the loop uses gas, so both recursions are bounded. \<open>evm_calls n\<close> are the call functions for \<open>n\<close> further levels and
  \<open>run_loop n\<close> runs for at most \<open>n\<close> rounds; a call that exceeds its bound would give \<open>Panic\<close>. Tracing is left
  out (no tracer is configured).
\<close>

section \<open>One round of the loop\<close>

text \<open>\<open>return nil, err\<close> of the loop itself\<close>

definition abort_with :: "vm_error \<Rightarrow> ('h, 't, halt, 'a) action" where
  "abort_with e = fail_st ([], e)"

definition check_stack :: "('h, 't) operation \<Rightarrow> ('h, 't, halt, unit) action" where
  "check_stack op =
     bind_st (get (\<lambda>f. st_len (f_stack f))) (\<lambda>sLen.
     if int sLen < op_minStack op then abort_with (ErrStackUnderflow sLen (op_minStack op))
     else if int sLen > op_maxStack op then abort_with (ErrStackOverflow sLen (op_maxStack op))
     else ret_st ())"

definition charge_gas :: "uint64 \<Rightarrow> ('h, 't, halt, unit) action" where
  "charge_gas cost = bind_st (use_gas cost) (\<lambda>ok. if \<not> ok then abort_with ErrOutOfGas else ret_st ())"

definition memory_size :: "('h, 't) evm_env \<Rightarrow> ('h, 't) operation \<Rightarrow> ('h, 't, halt, uint64) action" where
  "memory_size E op =
     (case memorySize op of
        None \<Rightarrow> ret_st 0
      | Some size_of \<Rightarrow>
          bind_st (\<lambda>f. (no_err (size_of (ev_U E) (f_stack f)), f)) (\<lambda>(memSize, overflow).
          if overflow then abort_with ErrGasUintOverflow
          else
            let (sz, overflow) = SafeMul (toWordSize memSize) 32 in
            if overflow then abort_with ErrGasUintOverflow else ret_st sz))"

text \<open>\<open>if err != nil || !contract.UseGas(dynamicCost) { return nil, ErrOutOfGas }\<close>\<close>

definition charge_dynamic :: "('h, 't) evm_env \<Rightarrow> ('h, 't) operation \<Rightarrow> ('h, 't, halt, unit) action" where
  "charge_dynamic E op =
     (case dynamicGas op of
        None \<Rightarrow> ret_st ()
      | Some gas_of \<Rightarrow>
          bind_st (memory_size E op) (\<lambda>memorySize.
          bind_st (\<lambda>f. case gas_of E memorySize f of
              (Ret g, f') \<Rightarrow> (Ret g, f') | (Fail _, f') \<Rightarrow> (Fail ([], ErrOutOfGas), f') | (Panic, f') \<Rightarrow> (Panic, f')) (\<lambda>dynamicCost.
          bind_st (charge_gas dynamicCost) (\<lambda>_.
          if memorySize > 0 then modify_st (\<lambda>f. f\<lparr>f_mem := Resize (f_mem f) memorySize\<rparr>) else ret_st ()))))"

definition step :: "('h, 't) evm_env \<Rightarrow> ('h, 't) calls \<Rightarrow> ('h, 't) JumpTable \<Rightarrow> ('h, 't, halt, unit) action" where
  "step E C table =
     bind_st (get (\<lambda>f. table (GetOp (f_contract f) (f_pc f)))) (\<lambda>op.
     bind_st (check_stack op) (\<lambda>_.
     bind_st (charge_gas (constantGas op)) (\<lambda>_.
     bind_st (charge_dynamic E op) (\<lambda>_.
     bind_st (execute op E C) (\<lambda>_.
     modify_st (\<lambda>f. f\<lparr>f_pc := f_pc f + 1\<rparr>))))))"

text \<open>The result of the loop is the pair of output and error with which an instruction leaves it.\<close>

fun run_loop :: "nat \<Rightarrow> ('h, 't) evm_env \<Rightarrow> ('h, 't) calls \<Rightarrow> ('h, 't) JumpTable \<Rightarrow> ('h, 't) frame \<Rightarrow>
    (string, halt) outcome \<times> ('h, 't) frame" where
  "run_loop 0 E C table f = (Panic, f)"
| "run_loop (Suc n) E C table f =
     (case step E C table f of
        (Ret _, f') \<Rightarrow> run_loop n E C table f'
      | (Fail r, f') \<Rightarrow> (Ret r, f')
      | (Panic, f') \<Rightarrow> (Panic, f'))"

section \<open>Run\<close>

definition newstack :: Stack where
  "newstack = \<lparr>data = []\<rparr>"

text \<open>\<open>if readOnly && !in.readOnly { in.readOnly = true; defer ... }\<close> and the deferred calls\<close>

definition run_enter :: "('h, 't) evm_env \<Rightarrow> Contract \<Rightarrow> bool \<Rightarrow> ('h, 't) EVM \<Rightarrow> ('h, 't) EVM" where
  "run_enter E contract readOnly ev =
     ev\<lparr>ev_depth := ev_depth ev + 1, ev_h := PushCaller (ev_hook E) (CallerAddress contract) (ev_h ev),
        in_readOnly := in_readOnly ev \<or> readOnly, in_returnData := []\<rparr>"

text \<open>The deferred calls; \<open>setReadOnly\<close>: this run has set the read-only flag.\<close>

definition run_exit :: "('h, 't) evm_env \<Rightarrow> bool \<Rightarrow> ('h, 't) EVM \<Rightarrow> ('h, 't) EVM" where
  "run_exit E setReadOnly ev =
     ev\<lparr>ev_depth := ev_depth ev - 1, ev_h := PopCaller (ev_hook E) (ev_h ev),
        in_readOnly := (if setReadOnly then False else in_readOnly ev)\<rparr>"

definition Run :: "('h, 't) evm_env \<Rightarrow> ('h, 't) calls \<Rightarrow> Contract \<Rightarrow> bytes \<Rightarrow> bool \<Rightarrow> ('h, 't) EVM \<Rightarrow>
    (string, bytes \<times> vm_error option \<times> Contract) outcome \<times> ('h, 't) EVM" where
  "Run E C contract input readOnly ev =
     (let ev1 = run_enter E contract readOnly ev;
          setReadOnly = (readOnly \<and> \<not> in_readOnly ev) in
      if Code contract = [] then (Ret ([], None, contract), run_exit E setReadOnly ev1)
      else
        let f = \<lparr>f_pc = 0, f_mem = NewMemory, f_stack = newstack, f_contract = contract\<lparr>Input := input\<rparr>, f_evm = ev1\<rparr> in
        case run_loop (Suc (unat (Gas contract))) E C (fst (NewEVMInterpreter E)) f of
          (Ret (res, err), f') \<Rightarrow>
            (Ret (res, if err = errStopToken then None else Some err, f_contract f'), run_exit E setReadOnly (f_evm f'))
        | (_, f') \<Rightarrow> (Panic, f_evm f'))"

section \<open>Calls\<close>

definition get_ev :: "(('h, 't) EVM \<Rightarrow> 'a) \<Rightarrow> ('h, 't, 'a) evm_action" where
  "get_ev g = (\<lambda>ev. (Ret (g ev), ev))"

definition ev_db_op :: "('t StateDB \<Rightarrow> 'a \<times> 't StateDB) \<Rightarrow> ('h, 't, 'a) evm_action" where
  "ev_db_op g = (\<lambda>ev. let (a, s) = g (ev_StateDB ev) in (Ret a, ev\<lparr>ev_StateDB := s\<rparr>))"

definition ev_do_db :: "('t StateDB \<Rightarrow> 't StateDB) \<Rightarrow> ('h, 't, unit) evm_action" where
  "ev_do_db g = ev_db_op (\<lambda>s. ((), g s))"

definition ev_try_db :: "('t StateDB, string, 'a) stm \<Rightarrow> ('h, 't, 'a) evm_action" where
  "ev_try_db g = (\<lambda>ev. let (r, s) = g (ev_StateDB ev) in (no_err r, ev\<lparr>ev_StateDB := s\<rparr>))"

definition CanTransfer :: "'t Database \<Rightarrow> address \<Rightarrow> int \<Rightarrow> 't StateDB \<Rightarrow> bool \<times> 't StateDB" where
  "CanTransfer db a amount s = (let (b, s) = GetBalance db a s in (b \<ge> amount, s))"

definition Transfer :: "'t Database \<Rightarrow> address \<Rightarrow> address \<Rightarrow> int \<Rightarrow> 't StateDB \<Rightarrow> 't StateDB" where
  "Transfer db sender recipient amount s = AddBalance db recipient amount (SubBalance db sender amount s)"

definition precompile :: "('h, 't) evm_env \<Rightarrow> address \<Rightarrow> ('h, 't) PrecompiledContract option" where
  "precompile E addr =
     (let r = ev_chainRules E in
      if r_IsArbitrum r then PrecompiledContractsArbitrum E addr
      else if r_IsBerlin r then PrecompiledContractsBerlin E addr
      else if r_IsIstanbul r then PrecompiledContractsIstanbul E addr
      else if r_IsByzantium r then PrecompiledContractsByzantium E addr
      else PrecompiledContractsHomestead E addr)"

definition RunPrecompiledContract :: "('h, 't) PrecompiledContract \<Rightarrow> bytes \<Rightarrow> uint64 \<Rightarrow> AdvancedPrecompileCall \<Rightarrow>
    ('h, 't, bytes \<times> uint64 \<times> vm_error option) evm_action" where
  "RunPrecompiledContract p input suppliedGas info =
     (case p of
        AdvancedPrecompile run \<Rightarrow> (\<lambda>ev. let (r, ev') = run input suppliedGas info ev in (Ret r, ev'))
      | Precompile required run \<Rightarrow>
          let gasCost = required input in
          if suppliedGas < gasCost then ret_st ([], 0, Some ErrOutOfGas)
          else let (output, err) = run input in ret_st (output, suppliedGas - gasCost, err))"

text \<open>The common end of the calls: an error reverts the state and, unless it is a revert, takes the gas.\<close>

definition finish_call :: "('h, 't) evm_env \<Rightarrow> int \<Rightarrow> bytes \<times> uint64 \<times> vm_error option \<Rightarrow>
    ('h, 't, bytes \<times> uint64 \<times> vm_error option) evm_action" where
  "finish_call E snapshot r =
     (let (ret, gas, err) = r in
      if err \<noteq> None then
        bind_st (ev_try_db (RevertToSnapshot (ev_db E) snapshot)) (\<lambda>_.
        ret_st (ret, if err \<noteq> Some ErrExecutionReverted then 0 else gas, err))
      else ret_st (ret, gas, err))"

definition new_contract :: "ContractRef \<Rightarrow> ContractRef \<Rightarrow> int \<Rightarrow> uint64 \<Rightarrow> ('h, 't, Contract) evm_action" where
  "new_contract cal obj val gas = (\<lambda>ev.
     let (c, m) = NewContract (ev_jumpdests ev) cal obj val gas in (Ret c, ev\<lparr>ev_jumpdests := m\<rparr>))"

text \<open>\<open>contract.SetCallCode(&addr, GetCodeHash(addr), GetCode(addr))\<close> and the run of the interpreter\<close>

type_synonym ('h, 't) runner = "Contract \<Rightarrow> bytes \<Rightarrow> bool \<Rightarrow> ('h, 't, bytes \<times> vm_error option \<times> Contract) evm_action"

definition run_code :: "('h, 't) evm_env \<Rightarrow> ('h, 't) runner \<Rightarrow> Contract \<Rightarrow> address \<Rightarrow> bytes \<Rightarrow> bool \<Rightarrow>
    ('h, 't, bytes \<times> uint64 \<times> vm_error option) evm_action" where
  "run_code E run contract addr input readOnly =
     bind_st (ev_db_op (GetCodeHash (ev_db E) addr)) (\<lambda>h.
     bind_st (ev_db_op (GetCode (ev_db E) addr)) (\<lambda>code.
     bind_st (run (SetCallCode contract (Some addr) h (bytes_of code)) input readOnly) (\<lambda>(ret, err, c).
     ret_st (ret, Gas c, err))))"

definition Call :: "('h, 't) evm_env \<Rightarrow> ('h, 't) runner \<Rightarrow> ContractRef \<Rightarrow> address \<Rightarrow> bytes \<Rightarrow> uint64 \<Rightarrow> int \<Rightarrow>
    ('h, 't, bytes \<times> uint64 \<times> vm_error option) evm_action" where
  "Call E run cal addr input gas value =
     bind_st (get_ev ev_depth) (\<lambda>depth.
     if depth > sint CallCreateDepth then ret_st ([], gas, Some ErrDepth)
     else
       bind_st (if value \<noteq> 0 then ev_db_op (CanTransfer (ev_db E) (ref_Address cal) value) else ret_st True) (\<lambda>can.
       if \<not> can then ret_st ([], gas, Some ErrInsufficientBalance)
       else
         bind_st (ev_db_op Snapshot) (\<lambda>snapshot.
         let p = precompile E addr in
         bind_st (ev_db_op (sdb_Exist (ev_db E) addr)) (\<lambda>exist.
         if \<not> exist \<and> p = None \<and> r_IsEIP158 (ev_chainRules E) \<and> value = 0 then ret_st ([], gas, None)
         else
           bind_st (if \<not> exist then ev_do_db (CreateAccount (ev_db E) addr) else ret_st ()) (\<lambda>_.
           bind_st (ev_do_db (Transfer (ev_db E) (ref_Address cal) addr value)) (\<lambda>_.
           bind_st
             (case p of
                Some pc \<Rightarrow>
                  RunPrecompiledContract pc input gas
                    \<lparr>PrecompileAddress = addr, ActingAsAddress = addr, pc_Caller = ref_Address cal, pc_Value = value,
                     ReadOnly = False\<rparr>
              | None \<Rightarrow>
                  bind_st (ev_db_op (GetCode (ev_db E) addr)) (\<lambda>code.
                  if bytes_of code = [] then ret_st ([], gas, None)
                  else
                    bind_st (new_contract cal (AccountRef addr) value gas) (\<lambda>contract.
                    bind_st (ev_db_op (GetCodeHash (ev_db E) addr)) (\<lambda>h.
                    bind_st (run (SetCallCode contract (Some addr) h (bytes_of code)) input False) (\<lambda>(ret, err, c).
                    ret_st (ret, Gas c, err))))))
             (finish_call E snapshot)))))))"

definition CallCode :: "('h, 't) evm_env \<Rightarrow> ('h, 't) runner \<Rightarrow> ContractRef \<Rightarrow> address \<Rightarrow> bytes \<Rightarrow> uint64 \<Rightarrow> int \<Rightarrow>
    ('h, 't, bytes \<times> uint64 \<times> vm_error option) evm_action" where
  "CallCode E run cal addr input gas value =
     bind_st (get_ev ev_depth) (\<lambda>depth.
     if depth > sint CallCreateDepth then ret_st ([], gas, Some ErrDepth)
     else
       bind_st (ev_db_op (CanTransfer (ev_db E) (ref_Address cal) value)) (\<lambda>can.
       if \<not> can then ret_st ([], gas, Some ErrInsufficientBalance)
       else
         bind_st (ev_db_op Snapshot) (\<lambda>snapshot.
         bind_st
           (case precompile E addr of
              Some pc \<Rightarrow>
                RunPrecompiledContract pc input gas
                  \<lparr>PrecompileAddress = addr, ActingAsAddress = ref_Address cal, pc_Caller = ref_Address cal,
                   pc_Value = value, ReadOnly = False\<rparr>
            | None \<Rightarrow>
                bind_st (new_contract cal (AccountRef (ref_Address cal)) value gas) (\<lambda>contract.
                run_code E run contract addr input False))
           (finish_call E snapshot))))"

definition DelegateCall :: "('h, 't) evm_env \<Rightarrow> ('h, 't) runner \<Rightarrow> ContractRef \<Rightarrow> address \<Rightarrow> bytes \<Rightarrow> uint64 \<Rightarrow>
    ('h, 't, bytes \<times> uint64 \<times> vm_error option) evm_action" where
  "DelegateCall E run cal addr input gas =
     bind_st (get_ev ev_depth) (\<lambda>depth.
     if depth > sint CallCreateDepth then ret_st ([], gas, Some ErrDepth)
     else
       bind_st (ev_db_op Snapshot) (\<lambda>snapshot.
       bind_st
         (case precompile E addr of
            Some pc \<Rightarrow>
              (case cal of
                 AccountRef _ \<Rightarrow> panic_st
               | ContractOf callerAddress this v \<Rightarrow>
                   RunPrecompiledContract pc input gas
                     \<lparr>PrecompileAddress = addr, ActingAsAddress = this, pc_Caller = callerAddress, pc_Value = v, ReadOnly = False\<rparr>)
          | None \<Rightarrow>
              bind_st (new_contract cal (AccountRef (ref_Address cal)) 0 gas) (\<lambda>contract.
              bind_st (\<lambda>ev. (no_err (AsDelegate contract), ev)) (\<lambda>contract.
              run_code E run contract addr input False)))
         (finish_call E snapshot)))"

definition StaticCall :: "('h, 't) evm_env \<Rightarrow> ('h, 't) runner \<Rightarrow> ContractRef \<Rightarrow> address \<Rightarrow> bytes \<Rightarrow> uint64 \<Rightarrow>
    ('h, 't, bytes \<times> uint64 \<times> vm_error option) evm_action" where
  "StaticCall E run cal addr input gas =
     bind_st (get_ev ev_depth) (\<lambda>depth.
     if depth > sint CallCreateDepth then ret_st ([], gas, Some ErrDepth)
     else
       bind_st (ev_db_op Snapshot) (\<lambda>snapshot.
       bind_st (ev_do_db (AddBalance (ev_db E) addr 0)) (\<lambda>_.
       bind_st
         (case precompile E addr of
            Some pc \<Rightarrow>
              RunPrecompiledContract pc input gas
                \<lparr>PrecompileAddress = addr, ActingAsAddress = addr, pc_Caller = ref_Address cal, pc_Value = 0, ReadOnly = True\<rparr>
          | None \<Rightarrow>
              bind_st (new_contract cal (AccountRef addr) 0 gas) (\<lambda>contract.
              run_code E run contract addr input True))
         (finish_call E snapshot))))"

section \<open>Contract creation\<close>

definition Hash :: "'t Database \<Rightarrow> codeAndHash \<Rightarrow> hash \<times> codeAndHash" where
  "Hash db c = (if cah_hash c = 0 then let h = Keccak256Hash db (cah_code c) in (h, c\<lparr>cah_hash := h\<rparr>) else (cah_hash c, c))"

definition CreateAddress :: "'t Database \<Rightarrow> address \<Rightarrow> uint64 \<Rightarrow> address" where
  "CreateAddress db b nonce =
     (case EncodeToBytes (VSlice [VBytes (addr_bytes b), VUint nonce]) of
        Ret d \<Rightarrow> ucast (Keccak256Hash db d) | _ \<Rightarrow> ucast (Keccak256Hash db []))"

definition CreateAddress2 :: "'t Database \<Rightarrow> address \<Rightarrow> bytes \<Rightarrow> bytes \<Rightarrow> address" where
  "CreateAddress2 db b salt inithash = ucast (Keccak256Hash db ([0xff] @ addr_bytes b @ salt @ inithash))"

text \<open>The checks of the deployed code and its storage.\<close>

definition store_code :: "('h, 't) evm_env \<Rightarrow> address \<Rightarrow> bytes \<Rightarrow> vm_error option \<Rightarrow> Contract \<Rightarrow>
    ('h, 't, vm_error option \<times> Contract) evm_action" where
  "store_code E address ret err contract =
     (let err = (if err = None \<and> r_IsEIP158 (ev_chainRules E) \<and> int (length ret) > sint (MaxCodeSize (ev_chainConfig E))
                 then Some ErrMaxCodeSizeExceeded else err);
          err = (if err = None \<and> length ret \<ge> 1 \<and> ret ! 0 = 0xEF \<and> r_IsLondon (ev_chainRules E) then Some ErrInvalidCode else err) in
      if err = None then
        let createDataGas = ulen ret * CreateDataGas; (ok, contract) = UseGas contract createDataGas in
        if ok then bind_st (ev_do_db (sdb_SetCode (ev_db E) address (Some ret))) (\<lambda>_. ret_st (None, contract))
        else ret_st (Some ErrCodeStoreOutOfGas, contract)
      else ret_st (err, contract))"

definition evm_create :: "('h, 't) evm_env \<Rightarrow> ('h, 't) runner \<Rightarrow> ContractRef \<Rightarrow> codeAndHash \<Rightarrow> uint64 \<Rightarrow> int \<Rightarrow> address \<Rightarrow>
    ('h, 't, bytes \<times> address \<times> uint64 \<times> vm_error option) evm_action" where
  "evm_create E run cal cah gas value address =
     bind_st (get_ev ev_depth) (\<lambda>depth.
     if depth > sint CallCreateDepth then ret_st ([], 0, gas, Some ErrDepth)
     else
       bind_st (ev_db_op (CanTransfer (ev_db E) (ref_Address cal) value)) (\<lambda>can.
       if \<not> can then ret_st ([], 0, gas, Some ErrInsufficientBalance)
       else
         bind_st (ev_db_op (GetNonce (ev_db E) (ref_Address cal))) (\<lambda>nonce.
         if nonce + 1 < nonce then ret_st ([], 0, gas, Some ErrNonceUintOverflow)
         else
           bind_st (ev_do_db (sdb_SetNonce (ev_db E) (ref_Address cal) (nonce + 1))) (\<lambda>_.
           bind_st (if r_IsBerlin (ev_chainRules E) then ev_do_db (AddAddressToAccessList address) else ret_st ()) (\<lambda>_.
           bind_st (ev_db_op (GetCodeHash (ev_db E) address)) (\<lambda>contractHash.
           bind_st (ev_db_op (GetNonce (ev_db E) address)) (\<lambda>n.
           if n \<noteq> 0 \<or> contractHash \<noteq> 0 \<and> contractHash \<noteq> EmptyCodeHash (ev_db E)
           then ret_st ([], 0, 0, Some ErrContractAddressCollision)
           else
             bind_st (ev_db_op Snapshot) (\<lambda>snapshot.
             bind_st (ev_do_db (CreateAccount (ev_db E) address)) (\<lambda>_.
             bind_st (if r_IsEIP158 (ev_chainRules E) then ev_do_db (sdb_SetNonce (ev_db E) address 1) else ret_st ()) (\<lambda>_.
             bind_st (ev_do_db (Transfer (ev_db E) (ref_Address cal) address value)) (\<lambda>_.
             bind_st (new_contract cal (AccountRef address) value gas) (\<lambda>contract.
             bind_st (run (SetCodeOptionalHash contract (Some address) cah) [] False) (\<lambda>(ret, err, contract).
             bind_st (store_code E address ret err contract) (\<lambda>(err, contract).
             if err \<noteq> None \<and> (r_IsHomestead (ev_chainRules E) \<or> err \<noteq> Some ErrCodeStoreOutOfGas) then
               bind_st (ev_try_db (RevertToSnapshot (ev_db E) snapshot)) (\<lambda>_.
               let contract = (if err \<noteq> Some ErrExecutionReverted then snd (UseGas contract (Gas contract)) else contract) in
               ret_st (ret, address, Gas contract, err))
             else ret_st (ret, address, Gas contract, err)))))))))))))))"

definition Create :: "('h, 't) evm_env \<Rightarrow> ('h, 't) runner \<Rightarrow> ContractRef \<Rightarrow> bytes \<Rightarrow> uint64 \<Rightarrow> int \<Rightarrow>
    ('h, 't, bytes \<times> address \<times> uint64 \<times> vm_error option) evm_action" where
  "Create E run cal code gas value =
     bind_st (ev_db_op (GetNonce (ev_db E) (ref_Address cal))) (\<lambda>nonce.
     evm_create E run cal \<lparr>cah_code = code, cah_hash = 0\<rparr> gas value (CreateAddress (ev_db E) (ref_Address cal) nonce))"

definition Create2 :: "('h, 't) evm_env \<Rightarrow> ('h, 't) runner \<Rightarrow> ContractRef \<Rightarrow> bytes \<Rightarrow> uint64 \<Rightarrow> int \<Rightarrow> u256 \<Rightarrow>
    ('h, 't, bytes \<times> address \<times> uint64 \<times> vm_error option) evm_action" where
  "Create2 E run cal code gas endowment salt =
     (let (h, cah) = Hash (ev_db E) \<lparr>cah_code = code, cah_hash = 0\<rparr> in
      evm_create E run cal cah gas endowment
        (CreateAddress2 (ev_db E) (ref_Address cal) (Bytes32 (ev_U E) salt) (hash_bytes h)))"

section \<open>Tying the knot\<close>

definition calls_of :: "('h, 't) evm_env \<Rightarrow> ('h, 't) runner \<Rightarrow> ('h, 't) calls" where
  "calls_of E run =
     \<lparr>c_Call = Call E run, c_CallCode = CallCode E run, c_DelegateCall = DelegateCall E run, c_StaticCall = StaticCall E run,
      c_Create = Create E run, c_Create2 = Create2 E run\<rparr>"

fun runner_at :: "nat \<Rightarrow> ('h, 't) evm_env \<Rightarrow> ('h, 't) runner" where
  "runner_at 0 E = (\<lambda>contract input readOnly. panic_st)"
| "runner_at (Suc n) E = Run E (calls_of E (runner_at n E))"

text \<open>\<open>CallCreateDepth + 1\<close> levels: a frame at depth \<open>CallCreateDepth + 1\<close> opens no other.\<close>

definition max_levels :: nat where
  "max_levels = 1025"

definition evm_run :: "('h, 't) evm_env \<Rightarrow> ('h, 't) runner" where
  "evm_run E = runner_at max_levels E"

end
