(* ===== verification/Vm_Logic.thy ===== *)
theory Vm_Logic
  imports Vm_Interpreter State_Ether
begin

text \<open>
  Reasoning about actions: \<open>trip pn Q R m s\<close> says that \<open>m\<close> run in \<open>s\<close> returns with \<open>Q\<close>, fails with \<open>R\<close>, or panics,
  the last only if \<open>pn\<close>. For the sequencing of actions it is a weakest precondition, computed by rewriting; the
  accesses to the parts of a frame are rewritten to conditions on the frame.
\<close>

named_theorems trip_simps \<open>weakest preconditions of actions\<close>

definition trip :: "bool \<Rightarrow> ('a \<Rightarrow> 's \<Rightarrow> bool) \<Rightarrow> ('e \<Rightarrow> 's \<Rightarrow> bool) \<Rightarrow> ('s, 'e, 'a) stm \<Rightarrow> 's \<Rightarrow> bool" where
  "trip pn Q R m s \<longleftrightarrow> (case m s of (Ret a, s') \<Rightarrow> Q a s' | (Fail e, s') \<Rightarrow> R e s' | (Panic, s') \<Rightarrow> pn)"

lemma trip_bind [trip_simps]: "trip pn Q R (bind_st m g) s = trip pn (\<lambda>a. trip pn Q R (g a)) R m s"
  by (auto simp: trip_def bind_st_def split: outcome.split prod.split)

lemma trip_ret [trip_simps]: "trip pn Q R (ret_st a) s = Q a s"
  by (simp add: trip_def)

lemma trip_fail [trip_simps]: "trip pn Q R (fail_st e) s = R e s"
  by (simp add: trip_def)

lemma trip_panic [trip_simps]: "trip pn Q R panic_st s = pn"
  by (simp add: trip_def)

lemma trip_modify [trip_simps]: "trip pn Q R (modify_st g) s = Q () (g s)"
  by (simp add: trip_def)

lemma trip_if [trip_simps]: "trip pn Q R (if b then m else n) s = (if b then trip pn Q R m s else trip pn Q R n s)"
  by simp

lemma trip_case_prod [trip_simps]: "trip pn Q R (case p of (a, b) \<Rightarrow> m a b) s = (case p of (a, b) \<Rightarrow> trip pn Q R (m a b) s)"
  by (simp split: prod.split)

lemma trip_mono:
  assumes "trip pn Q R m s" "\<And>a s'. m s = (Ret a, s') \<Longrightarrow> Q a s' \<Longrightarrow> Q' a s'" "\<And>e s'. m s = (Fail e, s') \<Longrightarrow> R e s' \<Longrightarrow> R' e s'"
  shows "trip pn Q' R' m s"
  using assms by (auto simp: trip_def split: outcome.splits prod.splits)

lemma trip_Ret: "trip pn Q R m s \<Longrightarrow> m s = (Ret a, s') \<Longrightarrow> Q a s'"
  and trip_Fail: "trip pn Q R m s \<Longrightarrow> m s = (Fail e, s') \<Longrightarrow> R e s'"
  and trip_no_Panic: "trip False Q R m s \<Longrightarrow> fst (m s) \<noteq> Panic"
  by (auto simp: trip_def split: prod.splits outcome.splits)

lemma no_err_simps [simp]: "no_err (Ret a) = Ret a" "no_err (Fail e) = Panic" "no_err Panic = Panic"
  "no_err r = Ret a \<longleftrightarrow> r = Ret a" "no_err r \<noteq> Fail x"
  by (simp_all add: no_err_def split: outcome.split)

text \<open>The outcome of a helper that cannot return an error.\<close>

definition yields :: "bool \<Rightarrow> (string, 'a) outcome \<Rightarrow> ('a \<Rightarrow> bool) \<Rightarrow> bool" where
  "yields pn r Q \<longleftrightarrow> (case r of Ret a \<Rightarrow> Q a | _ \<Rightarrow> pn)"

lemma yields_simps [simp]: "yields pn (Ret a) Q = Q a" "yields pn (Fail e) Q = pn" "yields pn Panic Q = pn"
  by (simp_all add: yields_def)

lemma yields_True: "yields True r Q \<longleftrightarrow> (\<forall>a. r = Ret a \<longrightarrow> Q a)"
  by (cases r) auto

lemma trip_get [trip_simps]: "trip pn Q R (get g) f = Q (g f) f"
  by (simp add: trip_def get_def)

lemma trip_lift [trip_simps]: "trip pn Q R (lift_vm r) f = yields pn r (\<lambda>a. Q a f)"
  by (cases r) (simp_all add: trip_def lift_vm_def)

lemma trip_pop [trip_simps]:
  "trip pn Q R pop f = (if data (f_stack f) = [] then pn
     else Q (last (data (f_stack f))) (f\<lparr>f_stack := (f_stack f)\<lparr>data := butlast (data (f_stack f))\<rparr>\<rparr>))"
  by (simp add: trip_def pop_def st_pop_def)

lemma trip_peek [trip_simps]:
  "trip pn Q R peek f = (if data (f_stack f) = [] then pn else Q (last (data (f_stack f))) f)"
  by (auto simp: trip_def peek_def st_peek_def st_at_def st_len_def last_conv_nth split: if_splits)

lemma trip_push [trip_simps]: "trip pn Q R (push x) f = Q () (f\<lparr>f_stack := (f_stack f)\<lparr>data := data (f_stack f) @ [x]\<rparr>\<rparr>)"
  by (simp add: trip_def push_def st_push_def)

lemma trip_Back [trip_simps]:
  "trip pn Q R (stack_Back n) f =
     (if length (data (f_stack f)) \<le> n then pn else Q (data (f_stack f) ! (length (data (f_stack f)) - Suc n)) f)"
  by (simp add: trip_def stack_Back_def Back_def st_at_def st_len_def)

lemma trip_set_top [trip_simps]:
  "trip pn Q R (set_top x) f = (if data (f_stack f) = [] then pn
     else Q () (f\<lparr>f_stack := (f_stack f)\<lparr>data := butlast (data (f_stack f)) @ [x]\<rparr>\<rparr>))"
  by (simp add: trip_def set_top_def)

lemma trip_on_mem [trip_simps]: "trip pn Q R (on_mem g) f = yields pn (g (f_mem f)) (\<lambda>m. Q () (f\<lparr>f_mem := m\<rparr>))"
  by (cases "g (f_mem f)") (simp_all add: trip_def on_mem_def)

lemma trip_read_mem [trip_simps]: "trip pn Q R (read_mem g) f = yields pn (g (f_mem f)) (\<lambda>a. Q a f)"
  by (cases "g (f_mem f)") (simp_all add: trip_def read_mem_def)

lemma trip_on_db [trip_simps]:
  "trip pn Q R (on_db g) f = Q (fst (g (ev_StateDB (f_evm f)))) (set_db (snd (g (ev_StateDB (f_evm f)))) f)"
  by (cases "g (ev_StateDB (f_evm f))") (simp add: trip_def on_db_def)

lemma trip_do_db [trip_simps]: "trip pn Q R (do_db g) f = Q () (set_db (g (ev_StateDB (f_evm f))) f)"
  by (simp add: do_db_def trip_on_db)

lemma trip_try_db [trip_simps]:
  "trip pn Q R (try_db g) f = (case g (ev_StateDB (f_evm f)) of (r, s) \<Rightarrow> yields pn r (\<lambda>a. Q a (set_db s f)))"
  by (auto simp: trip_def try_db_def yields_def no_err_def split: prod.splits outcome.splits)

lemma trip_read_db [trip_simps]: "trip pn Q R (read_db g) f = yields pn (g (ev_StateDB (f_evm f))) (\<lambda>a. Q a f)"
  by (cases "g (ev_StateDB (f_evm f))") (simp_all add: trip_def read_db_def)

lemma trip_self [trip_simps]: "trip pn Q R self_address f = Q (contract_Address (f_contract f)) f"
  by (simp add: self_address_def trip_get)

lemma trip_use_gas [trip_simps]:
  "trip pn Q R (use_gas g) f = (if Gas (f_contract f) < g then Q False f
     else Q True (f\<lparr>f_contract := (f_contract f)\<lparr>Gas := Gas (f_contract f) - g\<rparr>\<rparr>))"
  by (simp add: trip_def use_gas_def UseGas_def)

lemma trip_add_gas [trip_simps]:
  "trip pn Q R (add_gas g) f = Q () (f\<lparr>f_contract := (f_contract f)\<lparr>Gas := Gas (f_contract f) + g\<rparr>\<rparr>)"
  by (simp add: trip_def add_gas_def)

lemma trip_set_returnData [trip_simps]:
  "trip pn Q R (set_returnData d) f = Q () (f\<lparr>f_evm := (f_evm f)\<lparr>in_returnData := d\<rparr>\<rparr>)"
  by (simp add: trip_def set_returnData_def)

lemma trip_enter [trip_simps]:
  "trip pn Q R (enter g) f = trip pn (\<lambda>a ev. Q a (f\<lparr>f_evm := ev\<rparr>)) (\<lambda>_ _. pn) g (f_evm f)"
  by (auto simp: trip_def enter_def no_err_def split: prod.splits outcome.splits)

lemma trip_stop_with [trip_simps]: "trip pn Q R (stop_with e) f = R ([], e) f"
  by (simp add: stop_with_def trip_simps)

lemma trip_abort_with [trip_simps]: "trip pn Q R (abort_with e) f = R ([], e) f"
  by (simp add: abort_with_def trip_simps)

lemma trip_write_protect [trip_simps]:
  "trip pn Q R write_protect f = (if in_readOnly (f_evm f) then R ([], ErrWriteProtection) f else Q () f)"
  by (simp add: write_protect_def trip_simps)

lemma trip_hook_result [trip_simps]:
  "trip pn Q R (hook_result g) f = (case g f of Inl e \<Rightarrow> R ([], OtherError e) f | Inr a \<Rightarrow> Q a f)"
  by (simp add: hook_result_def trip_simps split: sum.split)

lemma trip_push_big [trip_simps]:
  "trip pn Q R (push_big E x) f = (case fst (u_FromBig (ev_A E) x) of None \<Rightarrow> pn | Some v \<Rightarrow> trip pn Q R (push v) f)"
  by (simp add: push_big_def trip_simps split: option.split)

lemma trip_checked [trip_simps]:
  "trip pn Q R (checked r) f = (if snd r then R ErrGasUintOverflow f else Q (fst r) f)"
  by (cases r) (simp add: checked_def trip_simps)

lemma trip_memory_gas:
  "trip pn Q R (memory_gas n) f = (case memoryGasCost n (f_mem f) of
     (Ret g, m) \<Rightarrow> Q g (f\<lparr>f_mem := m\<rparr>) | (Fail e, m) \<Rightarrow> R e (f\<lparr>f_mem := m\<rparr>) | (Panic, m) \<Rightarrow> pn)"
  by (simp add: trip_def memory_gas_def split: prod.split outcome.split)

lemma set_db_fields [simp]:
  "f_pc (set_db s f) = f_pc f" "f_mem (set_db s f) = f_mem f" "f_stack (set_db s f) = f_stack f"
  "f_contract (set_db s f) = f_contract f" "f_evm (set_db s f) = (f_evm f)\<lparr>ev_StateDB := s\<rparr>"
  by (simp_all add: set_db_def)

end
