(* ===== verification/Vm_Metering.thy ===== *)
theory Vm_Metering
  imports Vm_Logic
begin

text \<open>
  What the instructions and gas functions do to a frame: they change the state database only through its operations,
  keep depth and read-only mode, and an instruction never returns more gas to its frame than the call it makes was given.
  With the prices of the jump tables this bounds the gas of every frame, call and creation, and makes the interpreter
  loop and the nesting of calls end.
\<close>

named_theorems exec_specs \<open>what instructions do to their frame\<close>
named_theorems gas_specs \<open>what gas functions do to their frame\<close>

section \<open>Effects on the EVM and on the frame\<close>

definition evm_effect :: "('h, 't) evm_env \<Rightarrow> ('h, 't) EVM \<Rightarrow> ('h, 't) EVM \<Rightarrow> bool" where
  "evm_effect E ev ev' \<longleftrightarrow> settles (ev_db E) (ev_StateDB ev) (ev_StateDB ev') \<and> ev_depth ev' = ev_depth ev
     \<and> in_readOnly ev' = in_readOnly ev
     \<and> ForceRefundGas (ev_hook E) (ev_h ev') = ForceRefundGas (ev_hook E) (ev_h ev)"

lemma evm_effect_refl [simp]: "evm_effect E ev ev"
  by (simp add: evm_effect_def)

lemma evm_effect_trans [trans]: "evm_effect E ev ev' \<Longrightarrow> evm_effect E ev' ev'' \<Longrightarrow> evm_effect E ev ev''"
  by (auto simp: evm_effect_def intro: settles_trans)

text \<open>An instruction writes within the memory it has, and to the gas and the cached analysis of its contract.\<close>

definition mem_same :: "Memory \<Rightarrow> Memory \<Rightarrow> bool" where
  "mem_same m m' \<longleftrightarrow> length (store m') = length (store m) \<and> lastGasCost m' = lastGasCost m"

definition contract_same :: "Contract \<Rightarrow> Contract \<Rightarrow> bool" where
  "contract_same c c' \<longleftrightarrow> c'\<lparr>Gas := 0, analysis := None\<rparr> = c\<lparr>Gas := 0, analysis := None\<rparr>"

definition frame_effect :: "('h, 't) evm_env \<Rightarrow> ('h, 't) frame \<Rightarrow> ('h, 't) frame \<Rightarrow> bool" where
  "frame_effect E f f' \<longleftrightarrow> evm_effect E (f_evm f) (f_evm f') \<and> mem_same (f_mem f) (f_mem f')
     \<and> contract_same (f_contract f) (f_contract f')"

abbreviation f_gas :: "('h, 't) frame \<Rightarrow> nat" where
  "f_gas f \<equiv> unat (Gas (f_contract f))"

lemma unat_add_le: "unat (x + y :: uint64) \<le> unat x + unat y"
  by (simp add: unat_word_ariths)

text \<open>The calls an instruction makes: their effect is one of the EVM's, and they return at most the gas they get.\<close>

definition call_spec :: "('h, 't) evm_env \<Rightarrow> uint64 \<Rightarrow> ('h, 't, bytes \<times> uint64 \<times> vm_error option) evm_action \<Rightarrow> bool" where
  "call_spec E gas m \<longleftrightarrow> (\<forall>ev. trip True (\<lambda>(ret, g, err) ev'. evm_effect E ev ev' \<and> unat g \<le> unat gas) (\<lambda>_ _. True) m ev)"

definition create_spec :: "('h, 't) evm_env \<Rightarrow> uint64 \<Rightarrow> ('h, 't, bytes \<times> address \<times> uint64 \<times> vm_error option) evm_action \<Rightarrow> bool" where
  "create_spec E gas m \<longleftrightarrow> (\<forall>ev. trip True (\<lambda>(ret, a, g, err) ev'. evm_effect E ev ev' \<and> unat g \<le> unat gas) (\<lambda>_ _. True) m ev)"

definition calls_ok :: "('h, 't) evm_env \<Rightarrow> ('h, 't) calls \<Rightarrow> bool" where
  "calls_ok E C \<longleftrightarrow> (\<forall>x. 0 \<le> u_ToBig (ev_A E) x)
     \<and> (\<forall>cal a inp gas v. 0 \<le> v \<longrightarrow> call_spec E gas (c_Call C cal a inp gas v) \<and> call_spec E gas (c_CallCode C cal a inp gas v))
     \<and> (\<forall>cal a inp gas. call_spec E gas (c_DelegateCall C cal a inp gas) \<and> call_spec E gas (c_StaticCall C cal a inp gas))
     \<and> (\<forall>cal code gas v salt. 0 \<le> v \<longrightarrow> create_spec E gas (c_Create C cal code gas v) \<and> create_spec E gas (c_Create2 C cal code gas v salt))"

lemma call_specI:
  assumes "call_spec E gas m" "\<And>ret g err ev'. evm_effect E ev ev' \<Longrightarrow> unat g \<le> unat gas \<Longrightarrow> Q (ret, g, err) ev'"
  shows "trip True Q (\<lambda>_ _. True) m ev"
  using assms(1)[unfolded call_spec_def, rule_format, of ev] by (rule trip_mono) (use assms(2) in auto)

lemma create_specI:
  assumes "create_spec E gas m" "\<And>ret a g err ev'. evm_effect E ev ev' \<Longrightarrow> unat g \<le> unat gas \<Longrightarrow> Q (ret, a, g, err) ev'"
  shows "trip True Q (\<lambda>_ _. True) m ev"
  using assms(1)[unfolded create_spec_def, rule_format, of ev] by (rule trip_mono) (use assms(2) in auto)

section \<open>Instructions\<close>

text \<open>\<open>exec_spec E C extra m\<close>: instruction \<open>m\<close> adds at most \<open>extra\<close> to the gas of its frame.\<close>

definition exec_spec :: "('h, 't) evm_env \<Rightarrow> (('h, 't) frame \<Rightarrow> nat) \<Rightarrow> ('h, 't, 'e, 'a) action \<Rightarrow> bool" where
  "exec_spec E extra m \<longleftrightarrow> (\<forall>f. trip True (\<lambda>_ f'. frame_effect E f f' \<and> f_gas f' \<le> f_gas f + extra f)
     (\<lambda>_ f'. frame_effect E f f' \<and> f_gas f' \<le> f_gas f + extra f) m f)"

abbreviation plain :: "('h, 't) evm_env \<Rightarrow> ('h, 't, 'e, 'a) action \<Rightarrow> bool" where
  "plain E m \<equiv> exec_spec E (\<lambda>_. 0) m"

lemma frame_effect_refl [simp]: "frame_effect E f f"
  by (simp add: frame_effect_def mem_same_def contract_same_def)

lemma frame_effect_trans [trans]: "frame_effect E f f' \<Longrightarrow> frame_effect E f' f'' \<Longrightarrow> frame_effect E f f''"
  by (auto simp: frame_effect_def mem_same_def contract_same_def intro: evm_effect_trans)

lemma plain_bind:
  assumes "plain E m" "\<And>a. plain E (g a)"
  shows "plain E (bind_st m g)"
  unfolding exec_spec_def trip_bind
proof
  fix f
  let ?Q = "\<lambda>_ f'. frame_effect E f f' \<and> f_gas f' \<le> f_gas f + 0"
  have g: "trip True ?Q ?Q (g a) f'" if "?Q a f'" for a f'
    using assms(2)[of a, unfolded exec_spec_def, rule_format, of f']
    by (rule trip_mono) (use that in \<open>auto intro: frame_effect_trans\<close>)
  from assms(1)[unfolded exec_spec_def, rule_format, of f]
  show "trip True (\<lambda>a. trip True ?Q ?Q (g a)) ?Q m f" by (rule trip_mono) (use g in auto)
qed

lemmas effect_defs = frame_effect_def evm_effect_def mem_same_def contract_same_def

declare settles_ops [simp]

lemma basic_specs: "plain E pop" "plain E (stop_with e)" "plain E (ret_st a)"
  by (simp_all add: exec_spec_def trip_simps effect_defs)

lemma op_patterns [exec_specs]: "plain E (op1 g)" "plain E (op2 g2)" "plain E (op3 g3)"
  by (simp_all add: exec_spec_def op1_def op2_def op3_def trip_simps effect_defs)

lemma arith_specs [exec_specs]:
  "plain E (opAdd E C)" "plain E (opSub E C)" "plain E (opMul E C)" "plain E (opDiv E C)" "plain E (opSdiv E C)"
  "plain E (opMod E C)" "plain E (opSmod E C)" "plain E (opExp E C)" "plain E (opSignExtend E C)" "plain E (opNot E C)"
  "plain E (opLt E C)" "plain E (opGt E C)" "plain E (opSlt E C)" "plain E (opSgt E C)" "plain E (opEq E C)"
  "plain E (opIszero E C)" "plain E (opAnd E C)" "plain E (opOr E C)" "plain E (opXor E C)" "plain E (opByte E C)"
  "plain E (opAddmod E C)" "plain E (opMulmod E C)" "plain E (opSHL E C)" "plain E (opSHR E C)" "plain E (opSAR E C)"
  by (simp_all add: exec_specs opAdd_def opSub_def opMul_def opDiv_def opSdiv_def opMod_def opSmod_def opExp_def
      opSignExtend_def opNot_def opLt_def opGt_def opSlt_def opSgt_def opEq_def opIszero_def opAnd_def opOr_def opXor_def
      opByte_def opAddmod_def opMulmod_def opSHL_def opSHR_def opSAR_def)

lemmas plain_defs = exec_spec_def trip_simps effect_defs yields_True Let_def

lemma env_specs [exec_specs]:
  "plain E (opKeccak256 E C)" "plain E (opAddress E C)" "plain E (opBalance E C)" "plain E (opOrigin E C)" "plain E (opCaller E C)"
  "plain E (opCallValue E C)" "plain E (opCallDataLoad E C)" "plain E (opCallDataSize E C)" "plain E (opReturnDataSize E C)"
  "plain E (opExtCodeSize E C)" "plain E (opCodeSize E C)" "plain E (opExtCodeHash E C)" "plain E (opGasprice E C)"
  "plain E (opCoinbase E C)" "plain E (opTimestamp E C)" "plain E (opDifficulty E C)" "plain E (opRandom E C)"
  "plain E (opGasLimit E C)" "plain E (opNumber E C)" "plain E (opBlockhash E C)"
  by (auto simp: plain_defs opKeccak256_def opAddress_def opBalance_def opOrigin_def opCaller_def opCallValue_def
      opCallDataLoad_def opCallDataSize_def opReturnDataSize_def opExtCodeSize_def opCodeSize_def opExtCodeHash_def opGasprice_def
      opCoinbase_def opTimestamp_def opDifficulty_def opRandom_def opGasLimit_def opNumber_def opBlockhash_def
      push_addr_def push_uint64_def split: option.split sum.split)

lemma copy_into_length: "copy_into s i j v = Ret s' \<Longrightarrow> length s' = length s"
  by (auto simp: copy_into_def split: if_splits)

lemma mem_writes_same:
  "mem_Set m off sz v = Ret m' \<Longrightarrow> mem_same m m'" "Set32 U m off x = Ret m' \<Longrightarrow> mem_same m m'"
  by (auto simp: mem_Set_def Set32_def mem_same_def Let_def bind_outcome_eq_Ret dest: copy_into_length split: if_splits)

lemma copy_specs [exec_specs]:
  "plain E (opCallDataCopy E C)" "plain E (opReturnDataCopy E C)" "plain E (opCodeCopy E C)" "plain E (opExtCodeCopy E C)"
  "plain E (opMstore E C)"
  by (auto simp: exec_spec_def trip_simps yields_True Let_def frame_effect_def evm_effect_def contract_same_def copy_data_def
      opCallDataCopy_def opReturnDataCopy_def opCodeCopy_def opExtCodeCopy_def opMstore_def mem_writes_same
      mem_same_def[of m m for m] split: prod.split)

lemma flow_specs [exec_specs]:
  "plain E (opPop E C)" "plain E (opMload E C)" "plain E (opMstore8 E C)" "plain E (opSload E C)" "plain E (opSstore E C)"
  "plain E (opJumpdest E C)" "plain E (opPc E C)" "plain E (opMsize E C)" "plain E (opGas E C)" "plain E (opReturn E C)"
  "plain E (opRevert E C)" "plain E (opUndefined E C)" "plain E (opStop E C)" "plain E (opSelfBalance E C)"
  "plain E (opChainID E C)" "plain E (opTload E C)" "plain E (opTstore E C)" "plain E (opBaseFee E C)" "plain E (opPush0 E C)"
  "plain E (opPush1 E C)" "plain E (makePush sz n E C)"
  by (auto simp: plain_defs opPop_def opMload_def opMstore8_def opSload_def opSstore_def opJumpdest_def opPc_def opMsize_def
      opGas_def opReturn_def opRevert_def opUndefined_def opStop_def opSelfBalance_def opChainID_def opTload_def opTstore_def
      opBaseFee_def opPush0_def opPush1_def makePush_def push_uint64_def split: option.split if_splits)

lemma trip_on_stack [trip_simps]: "trip pn Q R (on_stack g) f = yields pn (g (f_stack f)) (\<lambda>st. Q () (f\<lparr>f_stack := st\<rparr>))"
  by (cases "g (f_stack f)") (simp_all add: trip_def on_stack_def)

lemma isCode_same: "isCode c m d = Ret (b, c', m') \<Longrightarrow> contract_same c c' \<and> Gas c' = Gas c"
  by (auto simp: isCode_def bind_outcome_eq_Ret contract_same_def split: option.splits if_splits)

lemma validJumpdest_same: "validJumpdest U c m d = Ret (b, c', m') \<Longrightarrow> contract_same c c' \<and> Gas c' = Gas c"
  by (auto simp: validJumpdest_def bind_outcome_eq_Ret contract_same_def split: prod.splits if_splits dest!: isCode_same)

lemma trip_valid_jump [trip_simps]:
  "trip pn Q R (valid_jump E pos) f = yields pn (validJumpdest (ev_U E) (f_contract f) (ev_jumpdests (f_evm f)) pos)
     (\<lambda>(ok, c, m). Q ok (f\<lparr>f_contract := c, f_evm := (f_evm f)\<lparr>ev_jumpdests := m\<rparr>\<rparr>))"
  by (auto simp: trip_def valid_jump_def yields_def split: outcome.split prod.split)

lemma jump_spec: "plain E (jump_to E pos)"
  by (auto simp: exec_spec_def trip_simps jump_to_def yields_True frame_effect_def evm_effect_def mem_same_def
      dest!: validJumpdest_same)

lemma jump_specs [exec_specs]: "plain E (opJump E C)" "plain E (opJumpi E C)"
  by (auto simp: opJump_def opJumpi_def basic_specs jump_spec intro!: plain_bind)

lemma stack_specs [exec_specs]: "plain E (makeDup n E C)" "plain E (makeSwap n E C)"
  by (auto simp: plain_defs trip_on_stack makeDup_def makeSwap_def)

lemma pop_topics_trip [trip_simps]:
  "trip True Q R (pop_topics A n) f \<longleftrightarrow> n \<le> length (data (f_stack f)) \<longrightarrow>
     Q (map (u_Hash32 A) (take n (rev (data (f_stack f))))) (f\<lparr>f_stack := (f_stack f)\<lparr>data := take (length (data (f_stack f)) - n) (data (f_stack f))\<rparr>\<rparr>)"
proof (induction n arbitrary: Q f)
  case (Suc n)
  show ?case
  proof (cases "data (f_stack f)" rule: rev_cases)
    case (snoc xs x)
    then show ?thesis by (simp add: trip_simps Suc)
  qed (simp add: trip_simps)
qed (simp add: trip_simps)

lemma log_spec [exec_specs]: "plain E (makeLog n E C)"
  by (auto simp: plain_defs pop_topics_trip makeLog_def)

lemma suicide_spec [exec_specs]: "plain E (opSelfdestruct E C)"
  by (auto simp: plain_defs opSelfdestruct_def intro: settles_suicide split: prod.split)

section \<open>Call instructions\<close>

lemma call_result_trip:
  assumes "frame_effect E f f1" "f_gas f1 + unat g \<le> n"
  shows "trip True (\<lambda>_ f'. frame_effect E f f' \<and> f_gas f' \<le> n) R (call_result E off sz (ret, g, err)) f1"
proof -
  have "unat (Gas (f_contract f1) + g) \<le> n" using unat_add_le[of "Gas (f_contract f1)" g] assms(2) by simp
  then show ?thesis
    using assms(1)
    by (auto simp: call_result_def trip_simps yields_True frame_effect_def evm_effect_def contract_same_def
        mem_same_def dest!: mem_writes_same)
qed

lemma create_result_trip:
  assumes "frame_effect E f f1" "f_gas f1 + unat g \<le> n"
  shows "trip True (\<lambda>_ f'. frame_effect E f f' \<and> f_gas f' \<le> n) R (create_result res g err) f1"
proof -
  have "unat (Gas (f_contract f1) + g) \<le> n" using unat_add_le[of "Gas (f_contract f1)" g] assms(2) by simp
  then show ?thesis
    using assms(1) by (simp add: create_result_def trip_simps frame_effect_def evm_effect_def contract_same_def mem_same_def)
qed

text \<open>The gas that \<open>opCall\<close> and \<open>opCallCode\<close> pass on: what the gas function left in \<open>callGasTemp\<close>, and the stipend.\<close>

definition stack_arg :: "('h, 't) frame \<Rightarrow> nat \<Rightarrow> u256" where
  "stack_arg f n = data (f_stack f) ! (length (data (f_stack f)) - Suc n)"

definition value_call_gas :: "('h, 't) evm_env \<Rightarrow> ('h, 't) frame \<Rightarrow> nat" where
  "value_call_gas E f = unat (callGasTemp (f_evm f)) + (if u_IsZero (ev_A E) (stack_arg f 2) then 0 else unat CallStipend)"

definition plain_call_gas :: "('h, 't) evm_env \<Rightarrow> ('h, 't) frame \<Rightarrow> nat" where
  "plain_call_gas E f = unat (callGasTemp (f_evm f))"

lemma last_butlast2: "butlast (butlast xs) \<noteq> [] \<Longrightarrow> last (butlast (butlast xs)) = xs ! (length xs - 3)"
proof -
  assume a: "butlast (butlast xs) \<noteq> []"
  then have "length xs > 2" by (metis One_nat_def Suc_lessI length_0_conv length_butlast length_greater_0_conv diff_diff_left zero_less_diff one_add_one)
  then show ?thesis using a by (simp add: last_conv_nth nth_butlast numeral_3_eq_3)
qed

lemma call_enter:
  assumes "call_spec E gas m" "unat gas \<le> n"
  shows "trip True (\<lambda>a ev. trip True (\<lambda>_ f'. frame_effect E f f' \<and> f_gas f' \<le> f_gas f + n) R
      (call_result E off sz a) (f\<lparr>f_stack := st, f_evm := ev\<rparr>)) (\<lambda>_ _. True) m (f_evm f)"
proof (rule call_specI[OF assms(1)])
  fix ret err ev' and g :: uint64
  assume e: "evm_effect E (f_evm f) ev'" "unat g \<le> unat gas"
  then have "frame_effect E f (f\<lparr>f_stack := st, f_evm := ev'\<rparr>)" by (simp add: frame_effect_def mem_same_def contract_same_def)
  then show "trip True (\<lambda>_ f'. frame_effect E f f' \<and> f_gas f' \<le> f_gas f + n) R (call_result E off sz (ret, g, err))
      (f\<lparr>f_stack := st, f_evm := ev'\<rparr>)"
    by (rule call_result_trip) (use e(2) assms(2) in simp)
qed

lemma frame_effect_stack [simp]: "frame_effect E f (f1\<lparr>f_stack := st\<rparr>) = frame_effect E f f1"
  by (simp add: frame_effect_def)

lemma big_value_nonneg: "calls_ok E C \<Longrightarrow> 0 \<le> big_value E x"
  by (simp add: calls_ok_def big_value_def)

lemma call_specs [exec_specs]:
  assumes "calls_ok E C"
  shows "exec_spec E (value_call_gas E) (opCall E C)" "exec_spec E (value_call_gas E) (opCallCode E C)"
    "exec_spec E (plain_call_gas E) (opDelegateCall E C)" "exec_spec E (plain_call_gas E) (opStaticCall E C)"
  using assms big_value_nonneg[OF assms]
  by (auto simp: exec_spec_def opCall_def opCallCode_def opDelegateCall_def opStaticCall_def call_args_def trip_simps Let_def
      yields_True calls_ok_def plain_call_gas_def value_call_gas_def stack_arg_def last_butlast2 numeral_3_eq_3
      intro!: call_enter unat_add_le)

lemma all_but_one_64th:
  fixes G :: uint64
  shows "\<not> G < G - G div 64" "unat g \<le> unat (G - G div 64) \<Longrightarrow> unat (G div 64) + unat g \<le> unat G"
proof -
  have "G div 64 \<le> G" by (simp add: word_le_nat_alt unat_div)
  then have u: "unat (G - G div 64) = unat G - unat (G div 64)" "unat (G div 64) \<le> unat G"
    by (simp_all add: word_le_nat_alt unat_sub)
  then show "\<not> G < G - G div 64" by (simp add: word_less_nat_alt)
  show "unat g \<le> unat (G - G div 64) \<Longrightarrow> unat (G div 64) + unat g \<le> unat G" using u by simp
qed

lemma calls_okD:
  assumes "calls_ok E C"
  shows "create_spec E gas (c_Create C cal code gas (big_value E x))" "create_spec E gas (c_Create2 C cal code gas (big_value E x) salt)"
  using assms big_value_nonneg[OF assms] by (simp_all add: calls_ok_def)

lemma frame_effect_create:
  "evm_effect E (f_evm f) ev \<Longrightarrow> frame_effect E f (f\<lparr>f_contract := (f_contract f)\<lparr>Gas := g\<rparr>, f_evm := ev, f_stack := st\<rparr>)"
  by (simp add: frame_effect_def mem_same_def contract_same_def)

lemma create_specs [exec_specs]:
  assumes "calls_ok E C"
  shows "plain E (opCreate E C)" "plain E (opCreate2 E C)"
  by (auto simp: exec_spec_def opCreate_def opCreate2_def trip_simps Let_def yields_True all_but_one_64th
      intro!: create_specI[OF calls_okD(1)[OF assms]] create_specI[OF calls_okD(2)[OF assms]] create_result_trip
       frame_effect_create)

end
