(* ===== verification/Vm_Prices.thy ===== *)
theory Vm_Prices
  imports Vm_Metering
begin

text \<open>
  Lower bounds for the prices: what every gas function charges at least, and that each round of the loop on an
  entry of a jump table uses gas or leaves the loop.
\<close>

section \<open>Gas functions\<close>

text \<open>The memory once the fee for \<open>n\<close> bytes is computed, and that fee.\<close>

definition paid :: "uint64 \<Rightarrow> nat \<Rightarrow> Memory \<Rightarrow> Memory" where
  "paid n w m = m\<lparr>lastGasCost := word_of_nat (Cmem (max w (words (unat n))))\<rparr>"

definition mem_fee :: "uint64 \<Rightarrow> nat \<Rightarrow> uint64" where
  "mem_fee n w = word_of_nat (Cmem (max w (words (unat n))) - Cmem w)"

text \<open>
  \<open>gas_spec E mem low g n\<close>: for \<open>n\<close> bytes of memory, \<open>g\<close> prices at least \<open>low\<close> of the frame it leaves, which
  has the contract and stack it had and, if \<open>mem\<close>, the memory with the fee computed.
\<close>

definition gas_spec :: "('h, 't) evm_env \<Rightarrow> bool \<Rightarrow> (('h, 't) frame \<Rightarrow> nat) \<Rightarrow> ('h, 't, vm_error, uint64) action \<Rightarrow> uint64 \<Rightarrow> bool" where
  "gas_spec E mem low m n \<longleftrightarrow> (\<forall>f w. mem_ok (f_mem f) w \<longrightarrow>
     trip True
       (\<lambda>g f'. evm_effect E (f_evm f) (f_evm f') \<and> f_stack f' = f_stack f \<and> f_contract f' = f_contract f
          \<and> f_mem f' = (if mem then paid n w (f_mem f) else f_mem f) \<and> (mem \<longrightarrow> unat n \<le> 0x1FFFFFFFE0) \<and> low f' \<le> unat g)
       (\<lambda>_ f'. evm_effect E (f_evm f) (f_evm f') \<and> contract_same (f_contract f) (f_contract f') \<and> f_gas f' \<le> f_gas f) m f)"

lemma trip_memory_gas_ok:
  assumes "mem_ok (f_mem f) w"
  shows "trip pn Q R (memory_gas n) f =
     (if unat n > 0x1FFFFFFFE0 then R ErrGasUintOverflow f else Q (mem_fee n w) (f\<lparr>f_mem := paid n w (f_mem f)\<rparr>))"
  by (simp add: trip_memory_gas memoryGasCost_spec[OF assms] paid_def mem_fee_def)

lemma SafeAdd_ok: "\<not> snd (SafeAdd x y) \<Longrightarrow> unat (fst (SafeAdd x y)) = unat x + unat y"
  by (simp add: SafeAdd_def unat_add_small)

lemma contract_same_refl [simp]: "contract_same c c"
  by (simp add: contract_same_def)

lemmas gas_defs = gas_spec_def trip_simps trip_memory_gas_ok yields_True Let_def

lemma copy_gas_specs [gas_specs]:
  "gas_spec E True (\<lambda>_. 0) (memoryCopierGas k E n) n" "gas_spec E True (\<lambda>_. 0) (word_gas k E n) n"
  "gas_spec E True (\<lambda>_. 0) (pureMemoryGascost E n) n" "gas_spec E True (\<lambda>_. 0) (init_code_gas p E n) n"
  "gas_spec E True (\<lambda>_. 1) (makeGasLog t E n) n" "gas_spec E False (\<lambda>_. 1) (exp_gas p E n) n"
  by (auto simp: gas_defs memoryCopierGas_def word_gas_def pureMemoryGascost_def init_code_gas_def makeGasLog_def exp_gas_def
      SafeAdd_ok LogGas_def ExpGas_def split: prod.split)

lemma trip_warm [trip_simps]:
  "trip pn Q R (warm a) f = (if AddressInAccessList a (ev_StateDB (f_evm f)) then Q False f
     else Q True (set_db (AddAddressToAccessList a (ev_StateDB (f_evm f))) f))"
  by (simp add: warm_def trip_simps)

lemma account_gas_specs [gas_specs]:
  "gas_spec E False (\<lambda>_. 0) (gasEip2929AccountCheck E n) n" "gas_spec E False (\<lambda>_. 0) (gasSelfdestruct E n) n"
  "gas_spec E False (\<lambda>_. 0) (makeSelfdestructGasFn b E n) n" "gas_spec E True (\<lambda>_. 0) (gasExtCodeCopyEIP2929 E n) n"
  by (auto simp: gas_defs trip_warm gasEip2929AccountCheck_def gasSelfdestruct_def makeSelfdestructGasFn_def
      gasExtCodeCopyEIP2929_def gasExtCodeCopy_def memoryCopierGas_def evm_effect_def split: prod.split)

lemma evm_effect_db [simp]: "evm_effect E ev (ev\<lparr>ev_StateDB := s\<rparr>) = settles (ev_db E) (ev_StateDB ev) s"
  by (simp add: evm_effect_def)

lemma settles_set_db [simp]: "settles db s (ev_StateDB (f_evm (set_db s' f))) = settles db s s'"
  by simp

text \<open>Actions that only work on the state database.\<close>

definition quiet :: "('h, 't) evm_env \<Rightarrow> ('h, 't, 'e, 'a) action \<Rightarrow> bool" where
  "quiet E m \<longleftrightarrow> (\<forall>f. trip True (\<lambda>_ f'. \<exists>s. settles (ev_db E) (ev_StateDB (f_evm f)) s \<and> f' = set_db s f)
     (\<lambda>_ f'. \<exists>s. settles (ev_db E) (ev_StateDB (f_evm f)) s \<and> f' = set_db s f) m f)"

lemma set_db_id [simp]: "set_db (ev_StateDB (f_evm f)) f = f" "set_db s (set_db s' f) = set_db s f"
  by (simp_all add: set_db_def)

lemma quietI: "(\<And>f. trip True (\<lambda>_ f'. \<exists>s. settles (ev_db E) (ev_StateDB (f_evm f)) s \<and> f' = set_db s f)
     (\<lambda>_ f'. \<exists>s. settles (ev_db E) (ev_StateDB (f_evm f)) s \<and> f' = set_db s f) m f) \<Longrightarrow> quiet E m"
  by (simp add: quiet_def)

lemma quiet_bind:
  fixes E :: "('h, 't) evm_env"
  assumes "quiet E m" "\<And>a. quiet E (g a)"
  shows "quiet E (bind_st m g)"
proof (rule quietI, unfold trip_bind)
  fix f :: "('h, 't) frame"
  let ?Q = "\<lambda>_ f'. \<exists>s. settles (ev_db E) (ev_StateDB (f_evm f)) s \<and> f' = set_db s f"
  have g: "trip True ?Q ?Q (g a) f'" if "?Q a f'" for a f'
    using assms(2)[of a, unfolded quiet_def, rule_format, of f']
    by (rule trip_mono) (use that in \<open>auto 4 4 intro: settles_trans\<close>)
  from assms(1)[unfolded quiet_def, rule_format, of f]
  show "trip True (\<lambda>a. trip True ?Q ?Q (g a)) ?Q m f" by (rule trip_mono) (use g in auto)
qed

lemma quiet_still: "(\<And>f. trip True (\<lambda>_ f'. f' = f) (\<lambda>_ f'. f' = f) m f) \<Longrightarrow> quiet E m"
  by (rule quietI, rule trip_mono, assumption) (metis settles_refl set_db_id(1))+

lemma quiet_reads: "quiet E (ret_st a)" "quiet E (fail_st e)" "quiet E panic_st" "quiet E (get g)" "quiet E peek"
    "quiet E (stack_Back k)" "quiet E self_address" "quiet E (read_db h)"
  by (rule quiet_still; simp add: trip_simps yields_True)+

lemma quiet_on_db: "(\<And>s. settles (ev_db E) s (snd (g s))) \<Longrightarrow> quiet E (on_db g)"
  and quiet_do_db: "(\<And>s. settles (ev_db E) s (g' s)) \<Longrightarrow> quiet E (do_db g')"
  by (auto simp: quiet_def trip_simps)

lemma quiet_try_db: "(\<And>s s' a. g s = (Ret a, s') \<Longrightarrow> settles (ev_db E) s s') \<Longrightarrow> quiet E (try_db g)"
  by (auto simp: quiet_def trip_simps yields_True split: prod.split)

lemma quiet_if: "quiet E m \<Longrightarrow> quiet E m' \<Longrightarrow> quiet E (if b then m else m')"
  and quiet_case: "(\<And>a b. quiet E (h a b)) \<Longrightarrow> quiet E (case p of (a, b) \<Rightarrow> h a b)"
  by (auto split: prod.split)

lemma quiet_ops: "quiet E (try_db (SubRefund g))" "quiet E (try_db (AddSlotToAccessList a k))" "quiet E (do_db (AddRefund g))"
    "quiet E (on_db (GetState (ev_db E) a k))" "quiet E (on_db (GetCommittedState (ev_db E) a k))"
  by (auto intro!: quiet_try_db quiet_do_db quiet_on_db intro: settles_partial[OF settles_refl])

lemma quiet_sstore: "quiet E (sstore_2200 E c r sl st re a key cur val)" "quiet E gas_sentry"
    "quiet E (gasSStore E n)" "quiet E (gasSLoadEIP2929 E n)"
  unfolding sstore_2200_def gas_sentry_def gasSStore_def gasSLoadEIP2929_def Let_def
  by (intro quiet_bind quiet_if quiet_case quiet_reads quiet_ops)+

lemma quiet_sstore_gas: "quiet E (gasSStoreEIP2200 E n)" "quiet E (makeGasSStoreFunc r E n)"
  unfolding gasSStoreEIP2200_def makeGasSStoreFunc_def Let_def
  by (intro quiet_bind quiet_if quiet_case quiet_reads quiet_ops quiet_sstore)+

text \<open>Actions whose price is not zero.\<close>

definition priced :: "('h, 't, vm_error, uint64) action \<Rightarrow> bool" where
  "priced m \<longleftrightarrow> (\<forall>f. trip True (\<lambda>g _. 0 < unat g) (\<lambda>_ _. True) m f)"

lemma priced_bind:
  assumes "\<And>f. trip True (\<lambda>a _. P a) (\<lambda>_ _. True) m f" "\<And>a. P a \<Longrightarrow> priced (g a)"
  shows "priced (bind_st m g)"
  unfolding priced_def trip_bind by (rule allI, rule trip_mono[OF assms(1)]) (use assms(2) in \<open>auto simp: priced_def\<close>)

lemma priced_bind_any: "(\<And>a. priced (g a)) \<Longrightarrow> priced (bind_st m g)"
  by (rule priced_bind[where P = "\<lambda>_. True"]) (auto simp: trip_def split: prod.split outcome.split)

lemma priced_basic: "0 < unat g \<Longrightarrow> priced (ret_st g)" "priced (fail_st e)" "priced panic_st"
    "priced m \<Longrightarrow> priced m' \<Longrightarrow> priced (if b then m else m')" "(\<And>a b. priced (h a b)) \<Longrightarrow> priced (case p of (a, b) \<Rightarrow> h a b)"
  by (auto simp: priced_def trip_simps split: prod.split)

lemmas storage_prices = SstoreSetGas_def SstoreClearGas_def SstoreResetGas_def NetSstoreNoopGas_def
  NetSstoreInitGas_def NetSstoreCleanGas_def NetSstoreDirtyGas_def ColdSloadCostEIP2929_def WarmStorageReadCostEIP2929_def
  SstoreSetGasEIP2200_def SstoreResetGasEIP2200_def SloadGasEIP2200_def

lemma sstore_2200_priced:
  assumes "0 < unat (cost + sloadGas)" "0 < unat (cost + setGas)" "0 < unat (cost + resetGas)"
  shows "priced (sstore_2200 E cost r sloadGas setGas resetGas a key cur val)"
  unfolding sstore_2200_def using assms by (intro priced_basic priced_bind_any)

lemma storage_priced: "priced (gasSStore E n)" "priced (gasSLoadEIP2929 E n)" "priced (gasSStoreEIP2200 E n)"
  unfolding gasSStore_def gasSLoadEIP2929_def gasSStoreEIP2200_def Let_def
  by (intro priced_bind_any priced_basic sstore_2200_priced; simp add: storage_prices)+

lemma makeGasSStoreFunc_priced: "priced (makeGasSStoreFunc r E n)"
proof -
  let ?cost = "\<lambda>a slot addrPresent slotPresent.
     if \<not> slotPresent then bind_st (try_db (AddSlotToAccessList a slot)) (\<lambda>_. if \<not> addrPresent then panic_st else ret_st ColdSloadCostEIP2929)
     else ret_st 0"
  have c: "trip True (\<lambda>c _. c = 0 \<or> c = ColdSloadCostEIP2929) (\<lambda>_ _. True) (?cost a slot ap sp) f"
    for a slot ap sp and f :: "('a, 'b) frame"
    by (auto simp: trip_simps yields_True split: prod.split)
  show ?thesis
    unfolding makeGasSStoreFunc_def Let_def
    by (intro priced_bind_any priced_basic priced_bind[OF c] sstore_2200_priced; auto simp: storage_prices)
qed

lemma quiet_gas_spec:
  fixes E :: "('h, 't) evm_env"
  assumes "quiet E m" "priced m"
  shows "gas_spec E False (\<lambda>_. 1) m n"
  unfolding gas_spec_def
proof (intro allI impI)
  fix w and f :: "('h, 't) frame"
  have p: "trip True (\<lambda>g _. 0 < unat g) (\<lambda>_ _. True) m f" using assms(2) by (simp add: priced_def)
  show "trip True (\<lambda>g f'. evm_effect E (f_evm f) (f_evm f') \<and> f_stack f' = f_stack f \<and> f_contract f' = f_contract f \<and>
          f_mem f' = (if False then paid n w (f_mem f) else f_mem f) \<and> (False \<longrightarrow> unat n \<le> 0x1FFFFFFFE0) \<and> 1 \<le> unat g)
        (\<lambda>_ f'. evm_effect E (f_evm f) (f_evm f') \<and> contract_same (f_contract f) (f_contract f') \<and> f_gas f' \<le> f_gas f) m f"
    using assms(1)[unfolded quiet_def, rule_format, of f]
    by (rule trip_mono) (use trip_Ret[OF p] in fastforce)+
qed

lemma storage_gas_specs [gas_specs]:
  "gas_spec E False (\<lambda>_. 1) (gasSStore E n) n" "gas_spec E False (\<lambda>_. 1) (gasSLoadEIP2929 E n) n"
  "gas_spec E False (\<lambda>_. 1) (gasSStoreEIP2200 E n) n" "gas_spec E False (\<lambda>_. 1) (makeGasSStoreFunc r E n) n"
  by (rule quiet_gas_spec quiet_sstore quiet_sstore_gas storage_priced makeGasSStoreFunc_priced)+

section \<open>Gas of calls\<close>

text \<open>
  \<open>callGas\<close> subtracts the base cost from the gas of the contract without a check. Even when that wraps, under EIP-150 the
  sum of base cost and call gas stays away from the limit of the type, so that the cost of a cold account can be added.
\<close>

lemma callGas_le: "callGas U True avail base cost = Ret g \<Longrightarrow> g \<le> (avail - base) - (avail - base) div 64"
  by (auto simp: callGas_def Let_def split: if_splits)

lemma callGas_headroom:
  assumes g: "callGas U True avail base cost = Ret g" and "unat base < 2 ^ 57" "unat avail + k < 2 ^ 64" "k < 2 ^ 56"
  shows "unat base + unat g + k < 2 ^ 64"
proof -
  define a where "a = avail - base"
  have "a div 64 \<le> a" by (simp add: word_le_nat_alt unat_div)
  then have "unat (a - a div 64) = unat a - unat a div 64" by (simp add: unat_sub unat_div)
  then have le: "unat g \<le> unat a - unat a div 64"
    using callGas_le[OF g] by (simp add: a_def[symmetric] word_le_nat_alt)
  show ?thesis
  proof (cases "base \<le> avail")
    case True
    then have "unat a = unat avail - unat base" "unat base \<le> unat avail" by (simp_all add: a_def unat_sub word_le_nat_alt)
    then show ?thesis using le assms(3) by linarith
  next
    case False
    have "unat a < 2 ^ 64" using unsigned_less[of a, where 'a = nat] by simp
    then show ?thesis using le assms(2,4) by simp
  qed
qed

lemma trip_call_gas:
  "trip True Q R (call_gas E gas) f \<longleftrightarrow> (data (f_stack f) \<noteq> [] \<longrightarrow>
     (case callGas (ev_U E) (r_IsEIP150 (ev_chainRules E)) (Gas (f_contract f)) gas (stack_arg f 0) of
        Ret temp \<Rightarrow> (let f' = f\<lparr>f_evm := (f_evm f)\<lparr>callGasTemp := temp\<rparr>\<rparr> in
            if snd (SafeAdd gas temp) then R ErrGasUintOverflow f' else Q (fst (SafeAdd gas temp)) f')
      | Fail e \<Rightarrow> R e (f\<lparr>f_evm := (f_evm f)\<lparr>callGasTemp := 0\<rparr>\<rparr>)
      | Panic \<Rightarrow> True))"
  by (auto simp: call_gas_def trip_simps stack_arg_def trip_def[of _ _ _ "\<lambda>f. (_ f, _ f)"] Let_def split: outcome.split)

lemma evm_effect_temp [simp]: "evm_effect E ev (ev'\<lparr>callGasTemp := g\<rparr>) = evm_effect E ev ev'"
  by (simp add: evm_effect_def)

lemma call_gas_specs [gas_specs]:
  assumes "arith_ok (ev_A E)"
  shows "gas_spec E True (value_call_gas E) (gasCall E n) n" "gas_spec E True (value_call_gas E) (gasCallCode E n) n"
    "gas_spec E True (plain_call_gas E) (gasDelegateCall E n) n" "gas_spec E True (plain_call_gas E) (gasStaticCall E n) n"
proof -
  have z: "u_Sign (ev_A E) x = 0 \<longleftrightarrow> u_IsZero (ev_A E) x" for x using assms by (simp add: arith_ok_def)
  show "gas_spec E True (plain_call_gas E) (gasDelegateCall E n) n" "gas_spec E True (plain_call_gas E) (gasStaticCall E n) n"
    by (auto simp: gas_defs gasDelegateCall_def gasStaticCall_def trip_call_gas plain_call_gas_def SafeAdd_ok split: outcome.split)
  show "gas_spec E True (value_call_gas E) (gasCallCode E n) n"
    by (auto simp: gas_defs gasCallCode_def trip_call_gas value_call_gas_def SafeAdd_ok z stack_arg_def CallStipend_def
        CallValueTransferGas_def numeral_3_eq_3 split: outcome.split)
  show "gas_spec E True (value_call_gas E) (gasCall E n) n"
    by (auto simp: gas_defs gasCall_def trip_call_gas value_call_gas_def SafeAdd_ok stack_arg_def CallStipend_def
        CallValueTransferGas_def CallNewAccountGas_def numeral_3_eq_3 split: outcome.split)
qed

abbreviation cold_cost :: uint64 where
  "cold_cost \<equiv> ColdAccountAccessCostEIP2929 - WarmStorageReadCostEIP2929"

text \<open>\<open>2 ^ 64 - 2500\<close>\<close>

abbreviation cold_limit :: nat where
  "cold_limit \<equiv> 18446744073709549116"

definition headroom :: "('h, 't, vm_error, uint64) action \<Rightarrow> bool" where
  "headroom m \<longleftrightarrow> (\<forall>f w. mem_ok (f_mem f) w \<and> f_gas f < cold_limit \<longrightarrow>
     trip True (\<lambda>g _. unat g < cold_limit) (\<lambda>_ _. True) m f)"

lemma cold_cost [simp]: "unat cold_cost = 2500"
  by (simp add: ColdAccountAccessCostEIP2929_def WarmStorageReadCostEIP2929_def)

lemma mem_fee_less:
  assumes "mem_ok m w" "unat n \<le> 0x1FFFFFFFE0"
  shows "unat (mem_fee n w) < 2 ^ 56"
proof -
  have "max w (words (unat n)) < 2 ^ 32" using assms words_limit by (auto simp: mem_ok_def)
  then have "Cmem (max w (words (unat n))) - Cmem w < 2 ^ 56" using Cmem_less by (meson diff_le_self le_less_trans)
  then show ?thesis by (simp add: mem_fee_def unat_of_nat)
qed

lemma mem_fee_less_57: "mem_ok m w \<Longrightarrow> unat n \<le> 0x1FFFFFFFE0 \<Longrightarrow> unat (mem_fee n w) < 2 ^ 57"
  by (drule (1) mem_fee_less) simp

lemma call_gas_headroom:
  assumes "r_IsEIP150 (ev_chainRules E)" "unat gas < 2 ^ 57" "f_gas f < cold_limit"
  shows "trip True (\<lambda>g _. unat g < cold_limit) (\<lambda>_ _. True) (call_gas E gas) f"
proof -
  have "unat gas + unat g + 2500 < 2 ^ 64"
    if "callGas (ev_U E) True (Gas (f_contract f)) gas (stack_arg f 0) = Ret g" for g
    using callGas_headroom[OF that assms(2), of 2500] assms(3) by simp
  then show ?thesis using assms(1) by (auto simp: trip_call_gas SafeAdd_ok split: outcome.split)
qed

lemma add_less_57: "\<not> snd (SafeAdd x y) \<Longrightarrow> unat x < 2 ^ 56 \<Longrightarrow> unat y < 2 ^ 56 \<Longrightarrow> unat (fst (SafeAdd x y)) < 2 ^ 57"
  by (simp add: SafeAdd_ok)

lemma headrooms:
  assumes "r_IsEIP150 (ev_chainRules E)"
  shows "headroom (gasCall E n)" "headroom (gasCallCode E n)" "headroom (gasDelegateCall E n)" "headroom (gasStaticCall E n)"
  using assms mem_fee_less mem_fee_less_57
  by (auto simp: headroom_def gasCall_def gasCallCode_def gasDelegateCall_def gasStaticCall_def trip_simps trip_memory_gas_ok Let_def
      CallValueTransferGas_def CallNewAccountGas_def intro!: call_gas_headroom add_less_57)

lemma cold_spec:
  fixes E :: "('h, 't) evm_env"
  assumes old: "gas_spec E True low (oldCalculator E n) n" "headroom (oldCalculator E n)"
    and low: "\<And>f c. low (f\<lparr>f_contract := c\<rparr>) = low f"
  shows "gas_spec E True low (makeCallVariantGasCallEIP2929 oldCalculator E n) n"
  unfolding gas_spec_def if_True simp_thms
proof (intro allI impI)
  fix w and f :: "('h, 't) frame"
  assume m: "mem_ok (f_mem f) w"
  let ?Q = "\<lambda>g f'. evm_effect E (f_evm f) (f_evm f') \<and> f_stack f' = f_stack f \<and> f_contract f' = f_contract f \<and>
          f_mem f' = paid n w (f_mem f) \<and> unat n \<le> 0x1FFFFFFFE0 \<and> low f' \<le> unat g"
  let ?R = "\<lambda>_ f'. evm_effect E (f_evm f) (f_evm f') \<and> contract_same (f_contract f) (f_contract f') \<and> f_gas f' \<le> f_gas f"
  note spec = old(1)[unfolded gas_spec_def if_True simp_thms, rule_format]
  have warm_case: "trip True ?Q ?R (oldCalculator E n) f" using spec[OF m] .
  have cold_case: "trip True (\<lambda>g. trip True ?Q ?R (bind_st (add_gas cold_cost) (\<lambda>_. ret_st (g + cold_cost)))) ?R (oldCalculator E n) f1"
    if G: "\<not> Gas (f_contract f) < cold_cost" and f1: "f1 = (set_db s f)\<lparr>f_contract := (f_contract f)\<lparr>Gas := Gas (f_contract f) - cold_cost\<rparr>\<rparr>"
      and s: "settles (ev_db E) (ev_StateDB (f_evm f)) s" for s f1
  proof -
    have m1: "mem_ok (f_mem f1) w" using m f1 by simp
    have u: "f_gas f1 + 2500 = f_gas f"
      using G unfolding f1 by (simp add: unat_sub word_le_nat_alt linorder_not_less)
    then have "f_gas f1 < cold_limit" using unsigned_less[of "Gas (f_contract f)", where 'a = nat] by simp
    then have h: "trip True (\<lambda>g _. unat g < cold_limit) (\<lambda>_ _. True) (oldCalculator E n) f1"
      using old(2) m1 by (auto simp: headroom_def)
    have e: "evm_effect E (f_evm f) (f_evm f1)" using s f1 by simp
    show ?thesis
      using spec[OF m1]
    proof (rule trip_mono)
      fix g f'
      assume r: "oldCalculator E n f1 = (Ret g, f')"
      assume p: "evm_effect E (f_evm f1) (f_evm f') \<and> f_stack f' = f_stack f1 \<and> f_contract f' = f_contract f1 \<and>
        f_mem f' = paid n w (f_mem f1) \<and> unat n \<le> 0x1FFFFFFFE0 \<and> low f' \<le> unat g"
      have "unat (g + cold_cost) = unat g + 2500" using trip_Ret[OF h r] by (subst unat_add_small) simp_all
      moreover have "evm_effect E (f_evm f) (f_evm f')" using evm_effect_trans[OF e] p by blast
      ultimately show "trip True ?Q ?R (bind_st (add_gas cold_cost) (\<lambda>_. ret_st (g + cold_cost))) f'"
        using p f1 by (simp add: trip_simps low)
    next
      fix err f'
      assume "evm_effect E (f_evm f1) (f_evm f') \<and> contract_same (f_contract f1) (f_contract f') \<and> f_gas f' \<le> f_gas f1"
      then show "?R err f'" using evm_effect_trans[OF e] u f1 by (auto simp: contract_same_def)
    qed
  qed
  show "trip True ?Q ?R (makeCallVariantGasCallEIP2929 oldCalculator E n) f"
    using warm_case
    by (auto simp: makeCallVariantGasCallEIP2929_def trip_simps trip_warm Let_def
        intro!: cold_case[OF _ refl settles_ops(9)[OF settles_refl]])
qed

lemma cold_call_specs [gas_specs]:
  assumes "arith_ok (ev_A E)" "r_IsEIP150 (ev_chainRules E)"
  shows "gas_spec E True (value_call_gas E) (gasCallEIP2929 E n) n" "gas_spec E True (value_call_gas E) (gasCallCodeEIP2929 E n) n"
    "gas_spec E True (plain_call_gas E) (gasDelegateCallEIP2929 E n) n" "gas_spec E True (plain_call_gas E) (gasStaticCallEIP2929 E n) n"
  using assms
  by (auto simp: gasCallEIP2929_def gasCallCodeEIP2929_def gasDelegateCallEIP2929_def gasStaticCallEIP2929_def
      value_call_gas_def plain_call_gas_def stack_arg_def intro!: cold_spec call_gas_specs headrooms)

end
