(* ===== verification/Vm_Tables.thy ===== *)
theory Vm_Tables
  imports Vm_Prices
begin

text \<open>
  The entries of the jump tables of every fork, with any further EIPs activated: what an instruction may add to the gas
  of its frame has been charged by its gas function, and an instruction without a price leaves the loop.
\<close>

section \<open>Dependence on the call functions\<close>

text \<open>Call functions that agree on EVMs at depth \<open>d\<close>, and instructions that only use them there.\<close>

definition calls_agree :: "int \<Rightarrow> ('h, 't) calls \<Rightarrow> ('h, 't) calls \<Rightarrow> bool" where
  "calls_agree d C C' \<longleftrightarrow> (\<forall>ev. ev_depth ev = d \<longrightarrow>
     (\<forall>cal a inp g v. c_Call C cal a inp g v ev = c_Call C' cal a inp g v ev \<and> c_CallCode C cal a inp g v ev = c_CallCode C' cal a inp g v ev)
   \<and> (\<forall>cal a inp g. c_DelegateCall C cal a inp g ev = c_DelegateCall C' cal a inp g ev \<and> c_StaticCall C cal a inp g ev = c_StaticCall C' cal a inp g ev)
   \<and> (\<forall>cal code g v salt. c_Create C cal code g v ev = c_Create C' cal code g v ev \<and> c_Create2 C cal code g v salt ev = c_Create2 C' cal code g v salt ev))"

definition same_at :: "int \<Rightarrow> ('h, 't, 'e, 'a) action \<Rightarrow> ('h, 't, 'e, 'a) action \<Rightarrow> bool" where
  "same_at d m m' \<longleftrightarrow> (\<forall>f. ev_depth (f_evm f) = d \<longrightarrow> m f = m' f)"

definition keeps_depth :: "('h, 't, 'e, 'a) action \<Rightarrow> bool" where
  "keeps_depth m \<longleftrightarrow> (\<forall>f. trip True (\<lambda>_ f'. ev_depth (f_evm f') = ev_depth (f_evm f)) (\<lambda>_ _. True) m f)"

definition local_exec :: "('h, 't) executionFunc \<Rightarrow> bool" where
  "local_exec ex \<longleftrightarrow> (\<forall>E C C' d. calls_agree d C C' \<longrightarrow> same_at d (ex E C) (ex E C'))"

lemma same_at_refl [simp]: "same_at d m m"
  by (simp add: same_at_def)

lemma same_at_bind:
  fixes m :: "('h, 't, 'e, 'a) action"
  assumes "keeps_depth m" "\<And>a. same_at d (g a) (g' a)"
  shows "same_at d (bind_st m g) (bind_st m g')"
  unfolding same_at_def
proof (intro allI impI)
  fix f :: "('h, 't) frame"
  assume d: "ev_depth (f_evm f) = d"
  have "m f = (Ret a, f') \<Longrightarrow> ev_depth (f_evm f') = d" for a f'
    using trip_Ret[of True _ _ m f a f'] assms(1) d by (fastforce simp: keeps_depth_def)
  then show "bind_st m g f = bind_st m g' f"
    using assms(2) by (auto simp: bind_st_def same_at_def split: prod.split outcome.split)
qed

lemma same_at_enter: "(\<And>ev. ev_depth ev = d \<Longrightarrow> m ev = m' ev) \<Longrightarrow> same_at d (bind_st (enter m) k) (bind_st (enter m') k)"
  by (simp add: same_at_def bind_st_def enter_def)

lemma same_at_if: "(\<not> b \<Longrightarrow> same_at d m m') \<Longrightarrow> same_at d (if b then n else m) (if b then n else m')"
  by simp

lemma keeps_depth_basic: "keeps_depth pop" "keeps_depth (get g)" "keeps_depth write_protect" "keeps_depth (read_mem h)"
    "keeps_depth (use_gas n)" "keeps_depth (call_args E x y)"
  by (auto simp: keeps_depth_def trip_simps yields_True call_args_def)

lemma call_local: "local_exec opCall" "local_exec opCallCode" "local_exec opDelegateCall" "local_exec opStaticCall"
    "local_exec opCreate" "local_exec opCreate2"
  unfolding local_exec_def opCall_def opCallCode_def opDelegateCall_def opStaticCall_def opCreate_def opCreate2_def Let_def
  by (intro allI impI same_at_bind keeps_depth_basic same_at_enter same_at_if; simp add: calls_agree_def)+

lemma plain_local:
  "local_exec opAdd" "local_exec opSub" "local_exec opMul" "local_exec opDiv" "local_exec opSdiv" "local_exec opMod" "local_exec opSmod"
  "local_exec opExp" "local_exec opSignExtend" "local_exec opNot" "local_exec opLt" "local_exec opGt" "local_exec opSlt" "local_exec opSgt"
  "local_exec opEq" "local_exec opIszero" "local_exec opAnd" "local_exec opOr" "local_exec opXor" "local_exec opByte" "local_exec opAddmod"
  "local_exec opMulmod" "local_exec opSHL" "local_exec opSHR" "local_exec opSAR" "local_exec opKeccak256" "local_exec opAddress"
  "local_exec opBalance" "local_exec opOrigin" "local_exec opCaller" "local_exec opCallValue" "local_exec opCallDataLoad"
  "local_exec opCallDataSize" "local_exec opCallDataCopy" "local_exec opReturnDataSize" "local_exec opReturnDataCopy"
  "local_exec opExtCodeSize" "local_exec opCodeSize" "local_exec opCodeCopy" "local_exec opExtCodeCopy" "local_exec opExtCodeHash"
  "local_exec opGasprice" "local_exec opBlockhash" "local_exec opCoinbase" "local_exec opTimestamp" "local_exec opNumber"
  "local_exec opDifficulty" "local_exec opRandom" "local_exec opGasLimit"
  by (simp_all add: local_exec_def opAdd_def opSub_def opMul_def opDiv_def opSdiv_def opMod_def opSmod_def opExp_def
      opSignExtend_def opNot_def opLt_def opGt_def opSlt_def opSgt_def opEq_def opIszero_def opAnd_def opOr_def opXor_def
      opByte_def opAddmod_def opMulmod_def opSHL_def opSHR_def opSAR_def opKeccak256_def opAddress_def opBalance_def opOrigin_def
      opCaller_def opCallValue_def opCallDataLoad_def opCallDataSize_def opCallDataCopy_def opReturnDataSize_def
      opReturnDataCopy_def opExtCodeSize_def opCodeSize_def opCodeCopy_def opExtCodeCopy_def opExtCodeHash_def opGasprice_def
      opBlockhash_def opCoinbase_def opTimestamp_def opNumber_def opDifficulty_def opRandom_def opGasLimit_def)

lemma flow_local:
  "local_exec opPop" "local_exec opMload" "local_exec opMstore" "local_exec opMstore8" "local_exec opSload" "local_exec opSstore"
  "local_exec opJump" "local_exec opJumpi" "local_exec opJumpdest" "local_exec opPc" "local_exec opMsize" "local_exec opGas"
  "local_exec opReturn" "local_exec opRevert" "local_exec opUndefined" "local_exec opStop" "local_exec opSelfdestruct"
  "local_exec opSelfBalance" "local_exec opChainID" "local_exec opTload" "local_exec opTstore" "local_exec opBaseFee"
  "local_exec opPush0" "local_exec opPush1" "local_exec (makePush sz n)" "local_exec (makeDup k)" "local_exec (makeSwap k)"
  "local_exec (makeLog k)"
  by (simp_all add: local_exec_def opPop_def opMload_def opMstore_def opMstore8_def opSload_def opSstore_def opJump_def opJumpi_def
      opJumpdest_def opPc_def opMsize_def opGas_def opReturn_def opRevert_def opUndefined_def opStop_def opSelfdestruct_def
      opSelfBalance_def opChainID_def opTload_def opTstore_def opBaseFee_def opPush0_def opPush1_def makePush_def makeDup_def
      makeSwap_def makeLog_def)

lemmas all_local = call_local plain_local flow_local

section \<open>Entries\<close>

definition env_ok :: "bool \<Rightarrow> ('h, 't) evm_env \<Rightarrow> bool" where
  "env_ok berlin E \<longleftrightarrow> arith_ok (ev_A E) \<and> (berlin \<longrightarrow> r_IsEIP150 (ev_chainRules E))"

definition stack_only :: "(('h, 't) frame \<Rightarrow> nat) \<Rightarrow> bool" where
  "stack_only x \<longleftrightarrow> (\<forall>f f'. f_evm f = f_evm f' \<and> f_stack f = f_stack f' \<longrightarrow> x f = x f')"

definition halts :: "('h, 't, halt, unit) action \<Rightarrow> bool" where
  "halts m \<longleftrightarrow> (\<forall>f. trip True (\<lambda>_ _. False) (\<lambda>_ _. True) m f)"

text \<open>
  What the instruction may add to the gas, its gas function has charged, with \<open>k\<close> besides. (\<open>mem\<close>: the gas function
  computes the memory fee.)
\<close>

definition prices :: "('h, 't) evm_env \<Rightarrow> ('h, 't) calls \<Rightarrow> bool \<Rightarrow> nat \<Rightarrow> ('h, 't) executionFunc \<Rightarrow> ('h, 't) gasFunc option \<Rightarrow> bool" where
  "prices E C mem k ex dyn \<longleftrightarrow> (\<exists>extra. stack_only extra \<and> exec_spec E extra (ex E C) \<and>
     (case dyn of None \<Rightarrow> extra = (\<lambda>_. 0) \<and> k = 0 | Some g \<Rightarrow> \<forall>n. gas_spec E mem (\<lambda>f. extra f + k) (g E n) n))"

definition op_priced :: "bool \<Rightarrow> ('h, 't) operation \<Rightarrow> bool" where
  "op_priced berlin op \<longleftrightarrow> local_exec (execute op) \<and> (\<forall>E C. env_ok berlin E \<and> calls_ok E C \<longrightarrow>
     (\<exists>mem k. prices E C mem k (execute op) (dynamicGas op) \<and> (memorySize op \<noteq> None \<longrightarrow> mem)
        \<and> (constantGas op = 0 \<longrightarrow> 0 < k \<or> halts (execute op E C))))"

lemma halting: "halts (opStop E C)" "halts (opReturn E C)" "halts (opRevert E C)" "halts (opUndefined E C)" "halts (opSelfdestruct E C)"
  by (auto simp: halts_def opStop_def opReturn_def opRevert_def opUndefined_def opSelfdestruct_def trip_simps yields_True split: prod.split)

lemma stack_only_simps [simp]: "stack_only (\<lambda>_. n)" "stack_only (value_call_gas E)" "stack_only (plain_call_gas E)"
  by (simp_all add: stack_only_def value_call_gas_def plain_call_gas_def stack_arg_def)

lemma gas_spec_weaken:
  assumes "gas_spec E mem low m n" "\<And>f. low' f \<le> low f"
  shows "gas_spec E mem low' m n"
  unfolding gas_spec_def
  by (intro allI impI, rule trip_mono[OF assms(1)[unfolded gas_spec_def, rule_format]]) (use assms(2) le_trans in blast)+

lemma fixed_priced:
  assumes "local_exec ex" "\<And>E C. calls_ok E C \<Longrightarrow> plain E (ex E C)" "g \<noteq> 0 \<or> (\<forall>E C. halts (ex E C))"
  shows "op_priced b (fixed ex g i j)"
proof -
  have "prices E C False 0 ex None" if "calls_ok E C" for E C
    unfolding prices_def by (rule exI[of _ "\<lambda>_. 0"]) (simp add: assms(2)[OF that])
  then show ?thesis using assms(1,3) by (fastforce simp: op_priced_def fixed_def)
qed

lemma metered_priced:
  assumes "local_exec ex" "\<And>E C. env_ok b E \<Longrightarrow> calls_ok E C \<Longrightarrow> prices E C mem k ex (Some dyn)"
    and "ms \<noteq> None \<longrightarrow> mem" "g \<noteq> 0 \<or> 0 < k \<or> (\<forall>E C. halts (ex E C))"
  shows "op_priced b (metered ex g dyn i j ms)"
  using assms by (fastforce simp: op_priced_def metered_def)

lemma pricesI:
  "stack_only extra \<Longrightarrow> exec_spec E extra (ex E C) \<Longrightarrow> (\<And>n. gas_spec E mem (\<lambda>f. extra f + k) (dyn E n) n) \<Longrightarrow> prices E C mem k ex (Some dyn)"
  by (auto simp: prices_def)

section \<open>Frontier\<close>

lemmas price_defs = GasQuickStep_def GasFastestStep_def GasFastStep_def GasMidStep_def GasSlowStep_def GasExtStep_def Keccak256Gas_def
  BalanceGasFrontier_def ExtcodeSizeGasFrontier_def ExtcodeCopyBaseFrontier_def SloadGasFrontier_def JumpdestGas_def CreateGas_def
  CallGasFrontier_def BalanceGasEIP150_def ExtcodeSizeGasEIP150_def SloadGasEIP150_def ExtcodeCopyBaseEIP150_def CallGasEIP150_def
  ExtcodeHashGasConstantinople_def Create2Gas_def ExtcodeHashGasEIP1884_def BalanceGasEIP1884_def SloadGasEIP1884_def
  SloadGasEIP2200_def WarmStorageReadCostEIP2929_def SelfdestructGasEIP150_def

text \<open>The pairs of instructions and gas functions the tables use.\<close>

lemma exec_prices:
  assumes "calls_ok E C"
  shows "prices E C False 1 opExp (Some gasExpFrontier)" "prices E C False 1 opExp (Some gasExpEIP158)"
    "prices E C True 0 opKeccak256 (Some gasKeccak256)" "prices E C True 0 opCallDataCopy (Some gasCallDataCopy)"
    "prices E C True 0 opCodeCopy (Some gasCodeCopy)" "prices E C True 0 opExtCodeCopy (Some gasExtCodeCopy)"
    "prices E C True 0 opReturnDataCopy (Some gasReturnDataCopy)" "prices E C True 0 opMload (Some gasMLoad)"
    "prices E C True 0 opMstore (Some gasMStore)" "prices E C True 0 opMstore8 (Some gasMStore8)"
    "prices E C True 0 opReturn (Some gasReturn)" "prices E C True 0 opRevert (Some gasRevert)"
    "prices E C True 1 (makeLog k) (Some (makeGasLog t))" "prices E C False 0 opSelfdestruct (Some gasSelfdestruct)"
    "prices E C False 1 opSstore (Some gasSStore)"
  unfolding gasExpFrontier_def gasExpEIP158_def gasKeccak256_def gasCallDataCopy_def gasCodeCopy_def gasExtCodeCopy_def
    gasReturnDataCopy_def gasMLoad_def gasMStore_def gasMStore8_def gasReturn_def gasRevert_def
  by (rule pricesI[where extra = "\<lambda>_. 0"]; simp del: One_nat_def add: exec_specs gas_specs)+

lemma create_prices:
  assumes "calls_ok E C"
  shows "prices E C True 0 opCreate (Some gasCreate)" "prices E C True 0 opCreate2 (Some gasCreate2)"
    "prices E C True 0 opCreate (Some gasCreateEip3860)" "prices E C True 0 opCreate2 (Some gasCreate2Eip3860)"
  unfolding gasCreate_def gasCreate2_def gasCreateEip3860_def gasCreate2Eip3860_def
  by (rule pricesI[where extra = "\<lambda>_. 0"]; simp add: exec_specs gas_specs assms)+

lemma call_prices:
  assumes "env_ok b E" "calls_ok E C"
  shows "prices E C True 0 opCall (Some gasCall)" "prices E C True 0 opCallCode (Some gasCallCode)"
    "prices E C True 0 opDelegateCall (Some gasDelegateCall)" "prices E C True 0 opStaticCall (Some gasStaticCall)"
  using assms(1) call_specs[OF assms(2)]
  by (auto simp: env_ok_def call_gas_specs intro: pricesI[of "value_call_gas E"] pricesI[of "plain_call_gas E"])

lemma berlin_prices:
  assumes "env_ok True E" "calls_ok E C"
  shows "prices E C True 0 opCall (Some gasCallEIP2929)" "prices E C True 0 opCallCode (Some gasCallCodeEIP2929)"
    "prices E C True 0 opDelegateCall (Some gasDelegateCallEIP2929)" "prices E C True 0 opStaticCall (Some gasStaticCallEIP2929)"
  using assms(1) call_specs[OF assms(2)]
  by (auto simp: env_ok_def cold_call_specs intro: pricesI[of "value_call_gas E"] pricesI[of "plain_call_gas E"])

lemma access_prices:
  "prices E C False 1 opSstore (Some gasSStoreEIP2200)" "prices E C False 1 opSstore (Some gasSStoreEIP2929)"
  "prices E C False 1 opSstore (Some gasSStoreEIP3529)" "prices E C False 1 opSload (Some gasSLoadEIP2929)"
  "prices E C True 0 opExtCodeCopy (Some gasExtCodeCopyEIP2929)" "prices E C False 0 opExtCodeSize (Some gasEip2929AccountCheck)"
  "prices E C False 0 opExtCodeHash (Some gasEip2929AccountCheck)" "prices E C False 0 opBalance (Some gasEip2929AccountCheck)"
  "prices E C False 0 opSelfdestruct (Some gasSelfdestructEIP2929)" "prices E C False 0 opSelfdestruct (Some gasSelfdestructEIP3529)"
  unfolding gasSStoreEIP2929_def gasSStoreEIP3529_def gasSelfdestructEIP2929_def gasSelfdestructEIP3529_def
  by (rule pricesI[where extra = "\<lambda>_. 0"]; simp del: One_nat_def add: exec_specs gas_specs)+

lemmas metered_ops =
  metered_priced[OF _ exec_prices(1)] metered_priced[OF _ exec_prices(2)] metered_priced[OF _ exec_prices(3)]
  metered_priced[OF _ exec_prices(4)] metered_priced[OF _ exec_prices(5)] metered_priced[OF _ exec_prices(6)]
  metered_priced[OF _ exec_prices(7)] metered_priced[OF _ exec_prices(8)] metered_priced[OF _ exec_prices(9)]
  metered_priced[OF _ exec_prices(10)] metered_priced[OF _ exec_prices(11)] metered_priced[OF _ exec_prices(12)]
  metered_priced[OF _ exec_prices(13)] metered_priced[OF _ exec_prices(14)] metered_priced[OF _ exec_prices(15)]
  metered_priced[OF _ create_prices(1)] metered_priced[OF _ create_prices(2)] metered_priced[OF _ call_prices(1)]
  metered_priced[OF _ call_prices(2)] metered_priced[OF _ call_prices(3)] metered_priced[OF _ call_prices(4)]

lemma dup_swap_priced: "op_priced b (dup_n n)" "op_priced b (swap_n n)" "op_priced b undefined_op"
  using fixed_priced[of "makeDup n" 1 b 0 0] fixed_priced[of "makeSwap n" 1 b 0 0] fixed_priced[of opUndefined 0 b 0 0]
  by (simp_all add: op_priced_def fixed_def dup_n_def swap_n_def undefined_op_def all_local exec_specs halting price_defs)

lemma frontier_priced: "(x, op) \<in> set frontier_ops \<Longrightarrow> op_priced b op"
proof -
  have "\<forall>(x, op) \<in> set frontier_arithmetic. op_priced b op" 
    by (auto simp: frontier_arithmetic_def price_defs exec_specs all_local halting intro!: fixed_priced metered_ops)
  moreover have "\<forall>(x, op) \<in> set frontier_environment. op_priced b op" 
    by (auto simp: frontier_environment_def price_defs exec_specs all_local halting intro!: fixed_priced metered_ops)
  moreover have "\<forall>(x, op) \<in> set frontier_flow. op_priced b op" 
    by (auto simp: frontier_flow_def price_defs exec_specs all_local halting intro!: fixed_priced metered_ops)
  moreover have "\<forall>(x, op) \<in> set frontier_push. op_priced b op" 
    by (auto simp: frontier_push_def push_n_def price_defs exec_specs all_local intro!: fixed_priced)
  moreover have "\<forall>(x, op) \<in> set (frontier_dup @ frontier_swap). op_priced b op"
    by (auto simp: frontier_dup_def frontier_swap_def dup_swap_priced)
  moreover have "\<forall>(x, op) \<in> set frontier_system. op_priced b op" 
    by (auto simp: frontier_system_def log_n_def price_defs exec_specs all_local halting intro!: fixed_priced metered_ops)
  ultimately show "(x, op) \<in> set frontier_ops \<Longrightarrow> op_priced b op"
    by (auto simp: frontier_ops_def)
qed

section \<open>Tables\<close>

text \<open>
  The bytes whose price later EIPs change, with their instruction, whether its gas function computes the memory fee, and
  whether the price relies on the constant part. In an older table such an entry may still be undefined.
\<close>

definition slots :: "(byte \<times> ('h, 't) executionFunc \<times> bool \<times> bool) list" where
  "slots =
    [(OP_EXP, opExp, False, False), (OP_SLOAD, opSload, False, False), (OP_SSTORE, opSstore, False, False),
     (OP_EXTCODECOPY, opExtCodeCopy, True, False), (OP_EXTCODESIZE, opExtCodeSize, False, False),
     (OP_EXTCODEHASH, opExtCodeHash, False, False), (OP_BALANCE, opBalance, False, False), (OP_CALL, opCall, True, False),
     (OP_CALLCODE, opCallCode, True, False), (OP_STATICCALL, opStaticCall, True, False),
     (OP_DELEGATECALL, opDelegateCall, True, False), (OP_SELFDESTRUCT, opSelfdestruct, False, False),
     (OP_CREATE, opCreate, True, True), (OP_CREATE2, opCreate2, True, True)]"

definition slot_ok :: "('h, 't) operation \<Rightarrow> ('h, 't) executionFunc \<times> bool \<times> bool \<Rightarrow> bool" where
  "slot_ok op sl \<longleftrightarrow> (case sl of (ex, mem, const) \<Rightarrow>
     execute op = ex \<and> (memorySize op \<noteq> None \<longrightarrow> mem) \<and> (const \<longrightarrow> constantGas op \<noteq> 0)
     \<or> execute op = opUndefined \<and> memorySize op = None)"

definition table_ok :: "bool \<Rightarrow> ('h, 't) JumpTable \<Rightarrow> bool" where
  "table_ok berlin jt \<longleftrightarrow> (\<forall>b. op_priced berlin (jt b)) \<and> (\<forall>b sl. map_of slots b = Some sl \<longrightarrow> slot_ok (jt b) sl)"

lemma table_upd:
  assumes "table_ok p jt" "op_priced p op" "\<And>sl. map_of slots b = Some sl \<Longrightarrow> slot_ok op sl"
  shows "table_ok p (jt(b := op))"
  using assms by (auto simp: table_ok_def)

lemma table_slot: "table_ok p jt \<Longrightarrow> map_of slots b = Some sl \<Longrightarrow> slot_ok (jt b) sl"
  and table_op: "table_ok p jt \<Longrightarrow> op_priced p (jt b)"
  unfolding table_ok_def by blast+

lemma set_constantGas_ok:
  assumes "table_ok p jt" "g \<noteq> 0"
  shows "table_ok p (set_constantGas b g jt)"
  unfolding set_constantGas_def
proof (rule table_upd[OF assms(1)])
  show "op_priced p (jt b\<lparr>constantGas := g\<rparr>)" using table_op[OF assms(1), of b] assms(2) by (simp add: op_priced_def) blast
  show "slot_ok (jt b\<lparr>constantGas := g\<rparr>) sl" if "map_of slots b = Some sl" for sl
    using table_slot[OF assms(1) that] assms(2) by (auto simp: slot_ok_def split: prod.splits)
qed

lemma gas_spec_prices_undefined:
  "prices E C mem k ex (Some g) \<Longrightarrow> prices E C mem 0 opUndefined (Some g)"
  by (auto simp: prices_def exec_specs intro!: exI[of _ "\<lambda>_. 0"] elim: gas_spec_weaken)

text \<open>A new gas function, and a new constant price with it.\<close>

lemma slot_reprice:
  assumes sl: "slot_ok op (ex, mem, const)" "local_exec ex"
    and pr: "\<And>E C. env_ok p E \<Longrightarrow> calls_ok E C \<Longrightarrow> prices E C mem k ex (Some dyn)"
    and pos: "constantGas op = 0 \<Longrightarrow> 0 < k \<or> const \<or> (\<forall>E C. halts (ex E C))"
  shows "op_priced p (op\<lparr>dynamicGas := Some dyn\<rparr>)"
  using sl(1)
proof (unfold slot_ok_def prod.case, elim disjE)
  assume "execute op = ex \<and> (memorySize op \<noteq> None \<longrightarrow> mem) \<and> (const \<longrightarrow> constantGas op \<noteq> 0)"
  then show ?thesis using pr pos sl(2) by (fastforce simp: op_priced_def)
next
  assume "execute op = opUndefined \<and> memorySize op = None"
  then show ?thesis using gas_spec_prices_undefined[OF pr] by (auto simp: op_priced_def halting all_local)
qed

lemma set_dynamicGas_ok:
  assumes jt: "table_ok p jt" and sl: "map_of slots b = Some (ex, mem, const)" "local_exec ex"
    and pr: "\<And>E C. env_ok p E \<Longrightarrow> calls_ok E C \<Longrightarrow> prices E C mem k ex (Some dyn)"
    and pos: "0 < k \<or> const \<or> (\<forall>E C. halts (ex E C))"
  shows "table_ok p (set_dynamicGas b dyn jt)"
  unfolding set_dynamicGas_def
proof (rule table_upd[OF jt slot_reprice[OF table_slot[OF jt sl(1)] sl(2) pr pos]])
  show "slot_ok ((jt b)\<lparr>dynamicGas := Some dyn\<rparr>) sl'" if "map_of slots b = Some sl'" for sl'
    using table_slot[OF jt that] by (auto simp: slot_ok_def split: prod.splits)
qed

lemma reprice_ok:
  assumes jt: "table_ok p jt" and sl: "map_of slots b = Some (ex, mem, False)" "local_exec ex"
    and pr: "\<And>E C. env_ok p E \<Longrightarrow> calls_ok E C \<Longrightarrow> prices E C mem k ex (Some dyn)"
    and pos: "0 < k \<or> g \<noteq> 0"
  shows "table_ok p (reprice b g dyn jt)"
proof -
  let ?op = "(jt b)\<lparr>constantGas := g\<rparr>"
  have s: "slot_ok ?op (ex, mem, False)" using table_slot[OF jt sl(1)] by (auto simp: slot_ok_def)
  have "op_priced p (?op\<lparr>dynamicGas := Some dyn\<rparr>)" by (rule slot_reprice[OF s sl(2) pr]) (use pos in auto)
  moreover have "slot_ok (?op\<lparr>dynamicGas := Some dyn\<rparr>) sl'" if "map_of slots b = Some sl'" for sl'
    using s that sl(1) by (auto simp: slot_ok_def)
  ultimately have "table_ok p (jt(b := ?op\<lparr>dynamicGas := Some dyn\<rparr>))" by (rule table_upd[OF jt])
  then show ?thesis by (simp add: reprice_def set_dynamicGas_def set_constantGas_def)
qed

section \<open>The forks\<close>

lemma slot_at:
  "map_of slots OP_EXP = Some (opExp, False, False)" "map_of slots OP_SLOAD = Some (opSload, False, False)"
  "map_of slots OP_SSTORE = Some (opSstore, False, False)" "map_of slots OP_EXTCODECOPY = Some (opExtCodeCopy, True, False)"
  "map_of slots OP_EXTCODESIZE = Some (opExtCodeSize, False, False)" "map_of slots OP_EXTCODEHASH = Some (opExtCodeHash, False, False)"
  "map_of slots OP_BALANCE = Some (opBalance, False, False)" "map_of slots OP_CALL = Some (opCall, True, False)"
  "map_of slots OP_CALLCODE = Some (opCallCode, True, False)" "map_of slots OP_STATICCALL = Some (opStaticCall, True, False)"
  "map_of slots OP_DELEGATECALL = Some (opDelegateCall, True, False)" "map_of slots OP_SELFDESTRUCT = Some (opSelfdestruct, False, False)"
  "map_of slots OP_CREATE = Some (opCreate, True, True)" "map_of slots OP_CREATE2 = Some (opCreate2, True, True)"
  by (simp_all add: slots_def)

lemma table_new:
  assumes "table_ok p jt" "op_priced p op" "b \<notin> fst ` set (slots :: (byte \<times> ('h, 't) executionFunc \<times> bool \<times> bool) list)"
  shows "table_ok p ((jt :: ('h, 't) JumpTable)(b := op))"
  using assms by (intro table_upd) (force dest: map_of_SomeD)+

lemmas frontier_lists = frontier_arithmetic_def frontier_environment_def frontier_flow_def frontier_push_def frontier_dup_def
  frontier_swap_def frontier_system_def

lemma frontier_at:
  "newFrontierInstructionSet OP_EXP = metered opExp 0 gasExpFrontier 2 1 None"
  "newFrontierInstructionSet OP_SLOAD = fixed opSload SloadGasFrontier 1 1"
  "newFrontierInstructionSet OP_SSTORE = metered opSstore 0 gasSStore 2 0 None"
  "newFrontierInstructionSet OP_EXTCODECOPY = metered opExtCodeCopy ExtcodeCopyBaseFrontier gasExtCodeCopy 4 0 (Some memoryExtCodeCopy)"
  "newFrontierInstructionSet OP_EXTCODESIZE = fixed opExtCodeSize ExtcodeSizeGasFrontier 1 1"
  "newFrontierInstructionSet OP_EXTCODEHASH = undefined_op"
  "newFrontierInstructionSet OP_BALANCE = fixed opBalance BalanceGasFrontier 1 1"
  "newFrontierInstructionSet OP_CALL = metered opCall CallGasFrontier gasCall 7 1 (Some memoryCall)"
  "newFrontierInstructionSet OP_CALLCODE = metered opCallCode CallGasFrontier gasCallCode 7 1 (Some memoryCall)"
  "newFrontierInstructionSet OP_STATICCALL = undefined_op" "newFrontierInstructionSet OP_DELEGATECALL = undefined_op"
  "newFrontierInstructionSet OP_SELFDESTRUCT = metered opSelfdestruct 0 gasSelfdestruct 1 0 None"
  "newFrontierInstructionSet OP_CREATE = metered opCreate CreateGas gasCreate 3 1 (Some memoryCreate)"
  "newFrontierInstructionSet OP_CREATE2 = undefined_op"
  by (simp_all add: newFrontierInstructionSet_def frontier_ops_def frontier_lists log_n_def)

lemma frontier_ok: "table_ok p newFrontierInstructionSet"
  unfolding table_ok_def
proof (intro conjI allI impI)
  show "op_priced p (newFrontierInstructionSet b)" for b
    using frontier_priced dup_swap_priced(3)
    by (auto simp: newFrontierInstructionSet_def split: option.split dest!: map_of_SomeD)
  have "\<forall>(b, sl) \<in> set slots. slot_ok (newFrontierInstructionSet b) sl"
    by (simp add: slots_def frontier_at slot_ok_def fixed_def metered_def undefined_op_def CreateGas_def)
  then show "slot_ok (newFrontierInstructionSet b) sl" if "map_of slots b = Some sl" for b sl
    using map_of_SomeD[OF that] by blast
qed

lemma enable_ok:
  assumes "table_ok p jt"
  shows "table_ok p (enable1884 jt)" "table_ok p (enable1344 jt)" "table_ok p (enable2200 jt)" "table_ok p (enable3529 jt)"
    "table_ok p (enable3198 jt)" "table_ok p (enable1153 jt)" "table_ok p (enable3855 jt)" "table_ok p (enable3860 jt)"
  unfolding enable1884_def enable1344_def enable2200_def enable3529_def enable3198_def enable1153_def enable3855_def enable3860_def
  by (auto simp: slot_at all_local exec_specs halting price_defs slots_def
      intro!: table_new set_constantGas_ok assms fixed_priced set_dynamicGas_ok[OF _ _ _ access_prices(1)]
        set_dynamicGas_ok[OF _ _ _ access_prices(3)] set_dynamicGas_ok[OF _ _ _ access_prices(10)]
        set_dynamicGas_ok[OF _ _ _ create_prices(3)] set_dynamicGas_ok[OF _ _ _ create_prices(4)])

lemma enable2929_ok: "table_ok True jt \<Longrightarrow> table_ok True (enable2929 jt)"
  unfolding enable2929_def Let_def
  by (auto simp: all_local price_defs
      intro!: set_dynamicGas_ok[OF _ slot_at(3) _ access_prices(2)] reprice_ok[OF _ slot_at(2) _ access_prices(4)]
        reprice_ok[OF _ slot_at(4) _ access_prices(5)] reprice_ok[OF _ slot_at(5) _ access_prices(6)]
        reprice_ok[OF _ slot_at(6) _ access_prices(7)] reprice_ok[OF _ slot_at(7) _ access_prices(8)]
        reprice_ok[OF _ slot_at(12) _ access_prices(9)] reprice_ok[OF _ slot_at(8) _ berlin_prices(1)]
        reprice_ok[OF _ slot_at(9) _ berlin_prices(2)] reprice_ok[OF _ slot_at(11) _ berlin_prices(3)]
        reprice_ok[OF _ slot_at(10) _ berlin_prices(4)])

lemma early_forks_ok:
  "table_ok p newHomesteadInstructionSet" "table_ok p newTangerineWhistleInstructionSet" "table_ok p newSpuriousDragonInstructionSet"
proof -
  show h: "table_ok p newHomesteadInstructionSet"
    unfolding newHomesteadInstructionSet_def
    by (rule table_upd[OF frontier_ok])
      (auto simp: slot_at slot_ok_def metered_def[of opDelegateCall] all_local price_defs
        intro!: metered_ops(20)[unfolded metered_def])
  show t: "table_ok p newTangerineWhistleInstructionSet"
    unfolding newTangerineWhistleInstructionSet_def Let_def by (auto simp: price_defs intro!: set_constantGas_ok h)
  show "table_ok p newSpuriousDragonInstructionSet"
    unfolding newSpuriousDragonInstructionSet_def
    by (rule set_dynamicGas_ok[OF t slot_at(1) _ exec_prices(2)]) (simp_all add: all_local)
qed

lemma byzantium_ok: "table_ok p newByzantiumInstructionSet"
proof -
  have 1: "table_ok p (newSpuriousDragonInstructionSet(OP_STATICCALL := metered opStaticCall CallGasEIP150 gasStaticCall 6 1 (Some memoryStaticCall)))"
    by (rule table_upd[OF early_forks_ok(3)])
      (auto simp: slot_at slot_ok_def metered_def[of opStaticCall] all_local price_defs intro!: metered_ops(21)[unfolded metered_def])
  show ?thesis
    unfolding newByzantiumInstructionSet_def
    by (rule table_new, rule table_new, rule table_new, rule 1)
      (auto simp: slots_def all_local exec_specs halting price_defs intro!: fixed_priced metered_ops)
qed

lemma constantinople_ok: "table_ok p newConstantinopleInstructionSet"
proof -
  let ?jt = "newByzantiumInstructionSet(OP_SHL := fixed opSHL GasFastestStep 2 1, OP_SHR := fixed opSHR GasFastestStep 2 1,
      OP_SAR := fixed opSAR GasFastestStep 2 1)"
  have 1: "table_ok p ?jt"
    by (auto simp: slots_def all_local exec_specs price_defs intro!: table_new fixed_priced byzantium_ok)
  have 2: "table_ok p (?jt(OP_EXTCODEHASH := fixed opExtCodeHash ExtcodeHashGasConstantinople 1 1))"
    by (rule table_upd[OF 1])
      (auto simp: slot_at slot_ok_def fixed_def[of opExtCodeHash] all_local exec_specs price_defs
        intro!: fixed_priced[unfolded fixed_def])
  show ?thesis
    unfolding newConstantinopleInstructionSet_def
    by (rule table_upd[OF 2])
      (auto simp: slot_at slot_ok_def metered_def[of opCreate2] all_local price_defs intro!: metered_ops(17)[unfolded metered_def])
qed

lemma istanbul_ok: "table_ok p newIstanbulInstructionSet"
  unfolding newIstanbulInstructionSet_def by (intro enable_ok constantinople_ok)

lemma late_forks_ok:
  "table_ok True newBerlinInstructionSet" "table_ok True newLondonInstructionSet" "table_ok True newMergeInstructionSet"
  "table_ok True newShanghaiInstructionSet"
proof -
  show b: "table_ok True newBerlinInstructionSet"
    unfolding newBerlinInstructionSet_def by (intro enable2929_ok istanbul_ok)
  show l: "table_ok True newLondonInstructionSet"
    unfolding newLondonInstructionSet_def by (intro enable_ok b)
  show m: "table_ok True newMergeInstructionSet"
    unfolding newMergeInstructionSet_def
    by (auto simp: slots_def all_local exec_specs price_defs intro!: table_new fixed_priced l)
  show "table_ok True newShanghaiInstructionSet"
    unfolding newShanghaiInstructionSet_def by (intro enable_ok m)
qed

text \<open>Rules whose table has the prices of EIP-2929.\<close>

definition has_2929 :: "Rules \<Rightarrow> int list \<Rightarrow> bool" where
  "has_2929 r eips \<longleftrightarrow> r_IsBerlin r \<or> r_IsLondon r \<or> r_IsMerge r \<or> r_IsShanghai r \<or> 2929 \<in> set eips"

lemma instructionSet_ok: "has_2929 r [] \<longrightarrow> p \<Longrightarrow> table_ok p (instructionSet r)"
  using late_forks_ok by (auto simp: instructionSet_def has_2929_def frontier_ok early_forks_ok byzantium_ok constantinople_ok istanbul_ok)

lemma EnableEIP_ok: "table_ok p jt \<Longrightarrow> EnableEIP e jt = Some jt' \<Longrightarrow> e = 2929 \<longrightarrow> p \<Longrightarrow> table_ok p jt'"
  using enable2929_ok[of jt] by (auto simp: EnableEIP_def enable_ok split: if_splits)

lemma enable_extra_ok: "table_ok p jt \<Longrightarrow> 2929 \<in> set es \<longrightarrow> p \<Longrightarrow> table_ok p (fst (enable_extra es jt))"
proof (induction es jt rule: enable_extra.induct)
  case (2 e es jt)
  show ?case
  proof (cases "EnableEIP e jt")
    case (Some jt')
    then have "table_ok p jt'" using EnableEIP_ok[OF 2(3)] 2(4) by simp
    then show ?thesis using 2(2)[OF Some] 2(4) Some by (cases "enable_extra es jt'") auto
  qed (use 2 in simp)
qed simp

lemma NewEVMInterpreter_ok: "table_ok (has_2929 (ev_chainRules E) (ExtraEips E)) (fst (NewEVMInterpreter E))"
  unfolding NewEVMInterpreter_def by (rule enable_extra_ok[OF instructionSet_ok]) (auto simp: has_2929_def)

end
