(* ===== verification/Vm_Execution.thy ===== *)
theory Vm_Execution
  imports Vm_Tables
begin

text \<open>
  The interpreter loop: every round uses gas or leaves the loop, and no frame returns more gas than it was given, so that
  the fuel of the model is never used up.
\<close>

section \<open>One round\<close>

definition frame_ok :: "('h, 't) frame \<Rightarrow> bool" where
  "frame_ok f \<longleftrightarrow> (\<exists>w. mem_ok (f_mem f) w)"

definition round_effect :: "('h, 't) evm_env \<Rightarrow> ('h, 't) frame \<Rightarrow> ('h, 't) frame \<Rightarrow> bool" where
  "round_effect E f f' \<longleftrightarrow> evm_effect E (f_evm f) (f_evm f') \<and> contract_same (f_contract f) (f_contract f') \<and> f_gas f' \<le> f_gas f"

lemma round_effect_refl [simp]: "round_effect E f f"
  by (simp add: round_effect_def)

lemma round_effect_trans [trans]: "round_effect E f f' \<Longrightarrow> round_effect E f' f'' \<Longrightarrow> round_effect E f f''"
  by (auto simp: round_effect_def contract_same_def intro: evm_effect_trans)

lemma unat_toWordSize_32:
  assumes "\<not> snd (SafeMul (toWordSize s) 32)" "n = toWordSize s * 32"
  shows "toWordSize n * 32 = n"
proof -
  have "unat (toWordSize s) * 32 < 2 ^ 64"
    using assms(1) by (simp add: SafeMul_def div_eq_0_iff)
  then have n: "unat n = 32 * words (unat s)"
    unfolding assms(2) by (simp add: unat_mult_small unat_toWordSize mult.commute)
  have w: "unat (toWordSize n) = words (unat s)" by (simp add: unat_toWordSize n words_def)
  have "unat (toWordSize n * 32) = unat n"
    using n w unsigned_less[of n, where 'a = nat] by (subst unat_mult_small) simp_all
  then show ?thesis by (rule unsigned_word_eqI)
qed

lemma paid_resize:
  assumes "mem_ok m w" "unat n \<le> 0x1FFFFFFFE0" "toWordSize n * 32 = n"
  shows "mem_ok (Resize (paid n w m) n) (max w (words (unat n)))"
proof -
  have v: "max w (words (unat n)) < 2 ^ 32" using assms(1,2) words_limit by (auto simp: mem_ok_def)
  have "Cmem (max w (words (unat n))) < 2 ^ 64" using Cmem_less[OF v] by simp
  then show ?thesis
    using Resize_spec[of "paid n w m" w n] assms v by (auto simp: mem_ok_def paid_def unat_of_nat)
qed

lemma paid_0: "mem_ok m w \<Longrightarrow> mem_ok (paid 0 w m) w"
  using Cmem_less[of w] by (auto simp: mem_ok_def paid_def words_def unat_of_nat)

lemma trip_charge_gas [trip_simps]:
  "trip pn Q R (charge_gas g) f = (if Gas (f_contract f) < g then R ([], ErrOutOfGas) f
     else Q () (f\<lparr>f_contract := (f_contract f)\<lparr>Gas := Gas (f_contract f) - g\<rparr>\<rparr>))"
  by (simp add: charge_gas_def trip_simps)

lemma trip_memory_size:
  assumes "memorySize op = None \<Longrightarrow> Q 0 f" "\<And>e. R ([], e) f"
    and "\<And>n. memorySize op \<noteq> None \<Longrightarrow> toWordSize n * 32 = n \<Longrightarrow> Q n f"
  shows "trip True Q R (memory_size E op) f"
proof (cases "memorySize op")
  case (Some size_of)
  have "Q x f" if "SafeMul (toWordSize s) 32 = (x, False)" for s x
  proof -
    have "x = toWordSize s * 32" using that by (simp add: SafeMul_def)
    then show ?thesis using assms(3) unat_toWordSize_32[of s x] that Some by simp
  qed
  then show ?thesis
    using Some assms(2)
    by (auto simp: memory_size_def trip_bind trip_def[of _ _ _ "\<lambda>f. (_ f, f)"] trip_simps no_err_def split: outcome.split prod.split)
qed (simp add: memory_size_def trip_simps assms(1))

lemma trip_map_error:
  "trip pn Q R (\<lambda>f. case m f of (Ret g, f') \<Rightarrow> (Ret g, f') | (Fail _, f') \<Rightarrow> (Fail e, f') | (Panic, f') \<Rightarrow> (Panic, f')) f
    = trip pn Q (\<lambda>_. R e) m f"
  by (auto simp: trip_def split: prod.split outcome.split)

lemma trip_bind_fun: "trip pn Q R (bind_st m g) = trip pn (\<lambda>a. trip pn Q R (g a)) R m"
  and trip_map_error_fun:
    "trip pn Q' R' (\<lambda>f. case m' f of (Ret g, f') \<Rightarrow> (Ret g, f') | (Fail _, f') \<Rightarrow> (Fail e, f') | (Panic, f') \<Rightarrow> (Panic, f'))
      = trip pn Q' (\<lambda>_. R' e) m'"
  by (rule ext, rule trip_bind) (rule ext, rule trip_map_error)

lemma charge_dynamic_trip:
  assumes dyn: "case dynamicGas op of None \<Rightarrow> extra = (\<lambda>_. 0) \<and> k = 0 | Some g \<Rightarrow> \<forall>n. gas_spec E mem (\<lambda>f. extra f + k) (g E n) n"
    and ex: "stack_only extra" and mem: "memorySize op \<noteq> None \<longrightarrow> mem" and m: "mem_ok (f_mem f) w"
  shows "trip True (\<lambda>_ f'. frame_ok f' \<and> round_effect E f f' \<and> f_gas f' + extra f' + k \<le> f_gas f) (\<lambda>_ f'. round_effect E f f')
     (charge_dynamic E op) f"
proof (cases "dynamicGas op")
  case None
  then show ?thesis using dyn m by (auto simp: charge_dynamic_def trip_simps frame_ok_def)
next
  case (Some g)
  let ?Q = "\<lambda>_ f'. frame_ok f' \<and> round_effect E f f' \<and> f_gas f' + extra f' + k \<le> f_gas f"
  let ?R = "\<lambda>_ f'. round_effect E f f'"
  let ?rest = "\<lambda>n c. bind_st (charge_gas c) (\<lambda>_. if n > 0 then modify_st (\<lambda>f. f\<lparr>f_mem := Resize (f_mem f) n\<rparr>) else ret_st ())"
  have H: "trip True (\<lambda>c. trip True ?Q ?R (?rest n c)) (\<lambda>_. ?R ([], ErrOutOfGas)) (g E n) f"
    if n: "n = 0 \<or> mem \<and> toWordSize n * 32 = n" for n
  proof (rule trip_mono)
    show "trip True
       (\<lambda>g f'. evm_effect E (f_evm f) (f_evm f') \<and> f_stack f' = f_stack f \<and> f_contract f' = f_contract f
          \<and> f_mem f' = (if mem then paid n w (f_mem f) else f_mem f) \<and> (mem \<longrightarrow> unat n \<le> 0x1FFFFFFFE0) \<and> extra f' + k \<le> unat g)
       (\<lambda>_ f'. evm_effect E (f_evm f) (f_evm f') \<and> contract_same (f_contract f) (f_contract f') \<and> f_gas f' \<le> f_gas f) (g E n) f"
      using dyn Some m by (simp add: gas_spec_def)
  next
    fix c :: uint64 and f'
    assume p: "evm_effect E (f_evm f) (f_evm f') \<and> f_stack f' = f_stack f \<and> f_contract f' = f_contract f
          \<and> f_mem f' = (if mem then paid n w (f_mem f) else f_mem f) \<and> (mem \<longrightarrow> unat n \<le> 0x1FFFFFFFE0) \<and> extra f' + k \<le> unat c"
    have mo: "frame_ok (f'\<lparr>f_contract := cc, f_mem := Resize (f_mem f') n\<rparr>)" if "n \<noteq> 0" for cc
      using n that p paid_resize[OF m] by (auto simp: frame_ok_def)
    have mo0: "frame_ok (f'\<lparr>f_contract := cc\<rparr>)" if "n = 0" for cc
      using that p m paid_0[OF m] by (auto simp: frame_ok_def split: if_splits)
    have e: "extra (f'\<lparr>f_contract := cc, f_mem := mm\<rparr>) = extra f'" "extra (f'\<lparr>f_contract := cc\<rparr>) = extra f'" for cc mm
      by (rule ex[unfolded stack_only_def, rule_format]; simp)+
    have x: "extra f' + k \<le> unat c" using p by blast
    have u: "unat (Gas (f_contract f) - c) + (extra f' + k) \<le> f_gas f" "unat (Gas (f_contract f) - c) \<le> f_gas f"
      if "\<not> Gas (f_contract f) < c"
      using that x by (simp_all add: unat_sub word_le_nat_alt linorder_not_less)
    have p': "evm_effect E (f_evm f) (f_evm f')" "f_contract f' = f_contract f" using p by simp_all
    have z: "n > 0 \<longleftrightarrow> n \<noteq> 0" by (simp add: word_neq_0_conv)
    show "trip True ?Q ?R (?rest n c) f'"
      unfolding trip_bind trip_charge_gas trip_if trip_modify trip_ret z
      using p' u mo mo0 by (simp add: round_effect_def e contract_same_def add.assoc)
  qed (simp add: round_effect_def)
  have "trip True (\<lambda>n. trip True (\<lambda>c. trip True ?Q ?R (?rest n c)) (\<lambda>_. ?R ([], ErrOutOfGas)) (g E n)) ?R (memory_size E op) f"
    by (rule trip_memory_size, rule H, simp, simp, rule H, use mem in blast)
  then show ?thesis
    using Some by (simp add: charge_dynamic_def trip_bind_fun trip_map_error_fun)
qed

lemma op_round:
  assumes op: "op_priced b op" and E: "env_ok b E" "calls_ok E C" and f: "frame_ok f"
  shows "trip True (\<lambda>_ f'. frame_ok f' \<and> round_effect E f f' \<and> f_gas f' < f_gas f) (\<lambda>_ f'. round_effect E f f')
     (bind_st (charge_gas (constantGas op)) (\<lambda>_. bind_st (charge_dynamic E op) (\<lambda>_. execute op E C))) f"
proof -
  from op E obtain mem k extra where X: "stack_only extra" "exec_spec E extra (execute op E C)"
    "case dynamicGas op of None \<Rightarrow> extra = (\<lambda>_. 0) \<and> k = 0 | Some g \<Rightarrow> \<forall>n. gas_spec E mem (\<lambda>f. extra f + k) (g E n) n"
    "memorySize op \<noteq> None \<longrightarrow> mem" "constantGas op = 0 \<longrightarrow> 0 < k \<or> halts (execute op E C)"
    unfolding op_priced_def prices_def by blast
  let ?g = "constantGas op"
  let ?Q = "\<lambda>_ f'. frame_ok f' \<and> round_effect E f f' \<and> f_gas f' < f_gas f"
  let ?R = "\<lambda>_ f'. round_effect E f f'"
  have main: "trip True (\<lambda>_. trip True ?Q ?R (execute op E C)) ?R (charge_dynamic E op) f1"
    if g: "\<not> Gas (f_contract f) < ?g" and f1: "f1 = f\<lparr>f_contract := (f_contract f)\<lparr>Gas := Gas (f_contract f) - ?g\<rparr>\<rparr>" for f1
  proof -
    obtain w where "mem_ok (f_mem f1) w" using f f1 by (auto simp: frame_ok_def)
    from charge_dynamic_trip[OF X(3,1,4) this] show ?thesis
    proof (rule trip_mono)
      have u: "f_gas f1 + unat ?g = f_gas f" using g f1 by (simp add: unat_sub word_le_nat_alt linorder_not_less)
      have r1: "round_effect E f f1" using u f1 by (simp add: round_effect_def contract_same_def)
      show "?R e f'" if "round_effect E f1 f'" for e f' using round_effect_trans[OF r1 that] .
      fix a f2
      assume f2: "frame_ok f2 \<and> round_effect E f1 f2 \<and> f_gas f2 + extra f2 + k \<le> f_gas f1"
      have r2: "round_effect E f f2" using round_effect_trans[OF r1] f2 by blast
      show "trip True ?Q ?R (execute op E C) f2"
      proof (rule trip_mono[OF X(2)[unfolded exec_spec_def, rule_format, of f2]])
        fix a f3
        assume e: "execute op E C f2 = (Ret a, f3)" "frame_effect E f2 f3 \<and> f_gas f3 \<le> f_gas f2 + extra f2"
        have "0 < unat ?g \<or> 0 < k"
        proof (cases "halts (execute op E C)")
          case True
          then have "trip True (\<lambda>_ _. False) (\<lambda>_ _. True) (execute op E C) f2" by (simp add: halts_def)
          then show ?thesis using e(1) by (simp add: trip_def)
        qed (use X(5) in \<open>auto simp: unat_gt_0\<close>)
        then have "f_gas f3 < f_gas f" using e(2) f2 u by linarith
        moreover have "round_effect E f f3"
          using e(2) r2 calculation by (auto simp: round_effect_def frame_effect_def contract_same_def intro: evm_effect_trans)
        moreover have "frame_ok f3" using e(2) f2 by (auto simp: frame_ok_def frame_effect_def mem_same_def mem_ok_def)
        ultimately show "?Q a f3" by simp
      next
        fix a f3
        assume e: "frame_effect E f2 f3 \<and> f_gas f3 \<le> f_gas f2 + extra f2"
        then have "f_gas f3 \<le> f_gas f" using f2 u by linarith
        then show "?R a f3" using e r2 by (auto simp: round_effect_def frame_effect_def contract_same_def intro: evm_effect_trans)
      qed
    qed
  qed
  then show ?thesis unfolding trip_bind trip_charge_gas by simp
qed

lemma step_trip:
  assumes jt: "table_ok b jt" and E: "env_ok b E" "calls_ok E C" and f: "frame_ok f"
  shows "trip True (\<lambda>_ f'. frame_ok f' \<and> round_effect E f f' \<and> f_gas f' < f_gas f) (\<lambda>_ f'. round_effect E f f') (step E C jt) f"
proof -
  let ?Q = "\<lambda>_ f'. frame_ok f' \<and> round_effect E f f' \<and> f_gas f' < f_gas f"
  let ?R = "\<lambda>_ f'. round_effect E f f'"
  let ?op = "jt (GetOp (f_contract f) (f_pc f))"
  have pc: "trip True ?Q ?R (modify_st (\<lambda>f. f\<lparr>f_pc := f_pc f + 1\<rparr>)) f'" if "?Q a f'" for a f'
    using that by (simp add: trip_simps frame_ok_def round_effect_def)
  have "trip True (\<lambda>_. trip True ?Q ?R (modify_st (\<lambda>f. f\<lparr>f_pc := f_pc f + 1\<rparr>))) ?R
     (bind_st (charge_gas (constantGas ?op)) (\<lambda>_. bind_st (charge_dynamic E ?op) (\<lambda>_. execute ?op E C))) f"
    by (rule trip_mono[OF op_round[OF table_op[OF jt] E f]]) (use pc in auto)
  from this[unfolded trip_bind] show ?thesis
    unfolding step_def check_stack_def trip_bind trip_get trip_if trip_abort_with trip_ret by (auto simp: trip_ret)
qed

section \<open>The loop\<close>

lemma run_loop_effect:
  assumes "table_ok b jt" "env_ok b E" "calls_ok E C" "frame_ok f" "run_loop n E C jt f = (Ret r, f')"
  shows "round_effect E f f'"
  using assms(4,5)
proof (induction n arbitrary: f)
  case (Suc n)
  note T = step_trip[OF assms(1-3) Suc.prems(1)]
  show ?case
  proof (cases "step E C jt f")
    case (Pair x f1)
    show ?thesis
    proof (cases x)
      case (Ret u)
      then have s: "frame_ok f1 \<and> round_effect E f f1 \<and> f_gas f1 < f_gas f" using trip_Ret[OF T] Pair by blast
      then have "round_effect E f1 f'" using Suc Ret Pair by simp
      then show ?thesis using s round_effect_trans by blast
    next
      case (Fail e)
      then show ?thesis using trip_Fail[OF T] Pair Suc.prems(2) by auto
    qed (use Pair Suc.prems(2) in simp)
  qed
qed simp

lemma run_loop_fuel:
  assumes "table_ok b jt" "env_ok b E" "calls_ok E C" "frame_ok f" "f_gas f < n" "f_gas f < m"
  shows "run_loop n E C jt f = run_loop m E C jt f"
  using assms(4-6)
proof (induction n arbitrary: f m)
  case (Suc n)
  obtain k where k: "m = Suc k" using Suc.prems(3) by (cases m) auto
  have "run_loop n E C jt f1 = run_loop k E C jt f1" if "step E C jt f = (Ret u, f1)" for u f1
  proof -
    have "frame_ok f1 \<and> round_effect E f f1 \<and> f_gas f1 < f_gas f"
      using trip_Ret[OF step_trip[OF assms(1-3) Suc.prems(1)] that] .
    then show ?thesis using Suc.IH[of f1 k] Suc.prems(2,3) k by simp
  qed
  then show ?case using k by (auto split: prod.split outcome.split)
qed simp

lemma no_infinite_run:
  assumes "table_ok b jt" "env_ok b E" "calls_ok E C" "frame_ok (F 0)"
  shows "\<exists>i. step E C jt (F i) \<noteq> (Ret (), F (Suc i))"
proof (rule ccontr)
  assume "\<not> ?thesis"
  then have s: "step E C jt (F i) = (Ret (), F (Suc i))" for i by blast
  have d: "frame_ok (F i) \<Longrightarrow> frame_ok (F (Suc i)) \<and> f_gas (F (Suc i)) < f_gas (F i)" for i
    using trip_Ret[OF step_trip[OF assms(1-3)] s] by blast
  have ok: "frame_ok (F i)" for i by (induction i) (use assms(4) d in blast)+
  have "f_gas (F i) + i \<le> f_gas (F 0)" for i
  proof (induction i)
    case (Suc i)
    then show ?case using d[OF ok, of i] by simp
  qed simp
  from this[of "Suc (f_gas (F 0))"] show False by simp
qed

section \<open>Run\<close>

definition run_spec :: "('h, 't) evm_env \<Rightarrow> ('h, 't) runner \<Rightarrow> bool" where
  "run_spec E run \<longleftrightarrow> (\<forall>c inp ro ev. trip True (\<lambda>(ret, err, c') ev'. evm_effect E ev ev' \<and> unat (Gas c') \<le> unat (Gas c))
     (\<lambda>_ _. True) (run c inp ro) ev)"

text \<open>
  What is relied on in the environment: the \<open>uint256\<close> package, EIP-150 wherever the prices of EIP-2929 are active, and a
  hook that does not touch the gas it will force back when callers are pushed and popped.
\<close>

definition well_formed_env :: "('h, 't) evm_env \<Rightarrow> bool" where
  "well_formed_env E \<longleftrightarrow> arith_ok (ev_A E) \<and> (has_2929 (ev_chainRules E) (ExtraEips E) \<longrightarrow> r_IsEIP150 (ev_chainRules E))
     \<and> (\<forall>a h. ForceRefundGas (ev_hook E) (PushCaller (ev_hook E) a h) = ForceRefundGas (ev_hook E) h)
     \<and> (\<forall>h. ForceRefundGas (ev_hook E) (PopCaller (ev_hook E) h) = ForceRefundGas (ev_hook E) h)"

lemma well_formed_env_ok: "well_formed_env E \<Longrightarrow> env_ok (has_2929 (ev_chainRules E) (ExtraEips E)) E"
  by (simp add: well_formed_env_def env_ok_def)

lemma NewMemory_ok: "mem_ok NewMemory 0"
  by (simp add: NewMemory_def mem_ok_def Cmem_def)

abbreviation entry_frame :: "('h, 't) evm_env \<Rightarrow> Contract \<Rightarrow> bytes \<Rightarrow> bool \<Rightarrow> ('h, 't) EVM \<Rightarrow> ('h, 't) frame" where
  "entry_frame E c inp ro ev \<equiv>
     \<lparr>f_pc = 0, f_mem = NewMemory, f_stack = newstack, f_contract = c\<lparr>Input := inp\<rparr>, f_evm = run_enter E c ro ev\<rparr>"

lemma entry_frame_ok: "frame_ok (entry_frame E c inp ro ev)"
  using NewMemory_ok by (auto simp: frame_ok_def)

lemma Run_spec:
  assumes E: "well_formed_env E" and C: "calls_ok E C"
  shows "run_spec E (Run E C)"
  unfolding run_spec_def
proof (intro allI)
  fix c inp ro ev
  have empty: "evm_effect E ev (run_exit E (ro \<and> \<not> in_readOnly ev) (run_enter E c ro ev))"
    using E by (auto simp: evm_effect_def run_exit_def run_enter_def well_formed_env_def)
  let ?f = "entry_frame E c inp ro ev"
  have "round_effect E ?f f'" if "run_loop n E C (fst (NewEVMInterpreter E)) ?f = (Ret r, f')" for n r f'
    by (rule run_loop_effect[OF NewEVMInterpreter_ok well_formed_env_ok[OF E] C entry_frame_ok that])
  then have "evm_effect E ev (run_exit E (ro \<and> \<not> in_readOnly ev) (f_evm f')) \<and> unat (Gas (f_contract f')) \<le> unat (Gas c)"
    if "run_loop n E C (fst (NewEVMInterpreter E)) ?f = (Ret r, f')" for n r f'
    using that E by (fastforce simp: round_effect_def evm_effect_def run_exit_def run_enter_def well_formed_env_def)
  then show "trip True (\<lambda>(ret, err, c') ev'. evm_effect E ev ev' \<and> unat (Gas c') \<le> unat (Gas c)) (\<lambda>_ _. True) (Run E C c inp ro) ev"
    using empty by (auto simp: trip_def Run_def Let_def simp del: run_loop.simps split: prod.split outcome.split)
qed

end
