(* ===== verification/Vm_Calls.thy ===== *)
theory Vm_Calls
  imports Vm_Execution
begin

text \<open>
  Calls and creations: they hand back no more gas than they get and settle all ether, whatever code runs in between; and the
  nesting of calls is bounded by the call depth, so that the levels of the model are never used up.
\<close>

section \<open>Calls and creations\<close>

lemma trip_get_ev [trip_simps]: "trip pn Q R (get_ev g) ev = Q (g ev) ev"
  by (simp add: trip_def get_ev_def)

lemma trip_ev_db_op [trip_simps]: "trip pn Q R (ev_db_op g) ev = Q (fst (g (ev_StateDB ev))) (ev\<lparr>ev_StateDB := snd (g (ev_StateDB ev))\<rparr>)"
  by (simp add: trip_def ev_db_op_def split: prod.split)

lemma trip_ev_do_db [trip_simps]: "trip pn Q R (ev_do_db g) ev = Q () (ev\<lparr>ev_StateDB := g (ev_StateDB ev)\<rparr>)"
  by (simp add: ev_do_db_def trip_simps)

lemma trip_ev_try_db [trip_simps]:
  "trip pn Q R (ev_try_db g) ev = (case g (ev_StateDB ev) of (r, s) \<Rightarrow> yields pn r (\<lambda>a. Q a (ev\<lparr>ev_StateDB := s\<rparr>)))"
  by (auto simp: trip_def ev_try_db_def yields_def no_err_def split: prod.splits outcome.splits)

lemma trip_new_contract [trip_simps]:
  "trip pn Q R (new_contract cal obj val gas) ev =
     Q (fst (NewContract (ev_jumpdests ev) cal obj val gas)) (ev\<lparr>ev_jumpdests := snd (NewContract (ev_jumpdests ev) cal obj val gas)\<rparr>)"
  by (simp add: trip_def new_contract_def split: prod.split)

lemma CanTransfer_sel [simp]:
  "fst (CanTransfer db a v s) \<longleftrightarrow> v \<le> fst (GetBalance db a s)" "snd (CanTransfer db a v s) = snd (GetBalance db a s)"
  by (simp_all add: CanTransfer_def case_prod_beta)

text \<open>Actions on the EVM with an effect on the state only, and results in \<open>P\<close>.\<close>

definition keeps :: "('h, 't) evm_env \<Rightarrow> ('a \<Rightarrow> bool) \<Rightarrow> ('h, 't, 'a) evm_action \<Rightarrow> bool" where
  "keeps E P m \<longleftrightarrow> (\<forall>ev. trip True (\<lambda>a ev'. evm_effect E ev ev' \<and> P a) (\<lambda>_ _. True) m ev)"

lemma keeps_bind:
  fixes E :: "('h, 't) evm_env"
  assumes "keeps E P m" "\<And>a. P a \<Longrightarrow> keeps E Q (g a)"
  shows "keeps E Q (bind_st m g)"
  unfolding keeps_def trip_bind
proof
  fix ev
  show "trip True (\<lambda>a. trip True (\<lambda>a ev'. evm_effect E ev ev' \<and> Q a) (\<lambda>_ _. True) (g a)) (\<lambda>_ _. True) m ev"
  proof (rule trip_mono[OF assms(1)[unfolded keeps_def, rule_format, of ev]])
    fix a ev1
    assume a: "evm_effect E ev ev1 \<and> P a"
    show "trip True (\<lambda>a ev'. evm_effect E ev ev' \<and> Q a) (\<lambda>_ _. True) (g a) ev1"
      by (rule trip_mono[OF assms(2)[unfolded keeps_def, rule_format, of a ev1]])
        (use a in \<open>auto intro: evm_effect_trans\<close>)
  qed simp
qed

lemma keeps_basic:
  "P a \<Longrightarrow> keeps E P (ret_st a)" "keeps E P panic_st" "keeps E (\<lambda>_. True) (get_ev g)"
  "(\<And>s. settles (ev_db E) s (snd (op s))) \<Longrightarrow> keeps E (\<lambda>_. True) (ev_db_op op)"
  "(\<And>s. settles (ev_db E) s (op' s)) \<Longrightarrow> keeps E (\<lambda>_. True) (ev_do_db op')"
  "keeps E (\<lambda>c. Gas c = gas) (new_contract cal obj val gas)"
  by (auto simp: keeps_def trip_simps yields_True evm_effect_def NewContract_def split: prod.split)

lemma keeps_if: "(b \<Longrightarrow> keeps E P m) \<Longrightarrow> (\<not> b \<Longrightarrow> keeps E P m') \<Longrightarrow> keeps E P (if b then m else m')"
  by simp

lemma call_spec_keeps: "call_spec E gas m = keeps E (\<lambda>(ret, g, err). unat g \<le> unat gas) m"
  by (simp add: call_spec_def keeps_def case_prod_unfold)

lemma create_spec_keeps: "create_spec E gas m = keeps E (\<lambda>(ret, a, g, err). unat g \<le> unat gas) m"
  by (simp add: create_spec_def keeps_def case_prod_unfold)

lemma run_spec_keeps: "run_spec E run = (\<forall>c inp ro. keeps E (\<lambda>(ret, err, c'). unat (Gas c') \<le> unat (Gas c)) (run c inp ro))"
  by (auto simp: run_spec_def keeps_def case_prod_unfold)

text \<open>A precompiled contract that works on the EVM returns at most the gas it gets, and acts on the state through its operations.\<close>

definition precompile_ok :: "('h, 't) evm_env \<Rightarrow> ('h, 't) PrecompiledContract \<Rightarrow> bool" where
  "precompile_ok E p \<longleftrightarrow> (case p of Precompile _ _ \<Rightarrow> True
     | AdvancedPrecompile run \<Rightarrow> \<forall>inp gas info ev. case run inp gas info ev of ((out, g, err), ev') \<Rightarrow>
         evm_effect E ev ev' \<and> unat g \<le> unat gas)"

definition precompiles_ok :: "('h, 't) evm_env \<Rightarrow> bool" where
  "precompiles_ok E \<longleftrightarrow> (\<forall>a p. precompile E a = Some p \<longrightarrow> precompile_ok E p)"

lemma RunPrecompiledContract_spec:
  assumes "precompile_ok E p"
  shows "keeps E (\<lambda>(ret, g, err). unat g \<le> unat gas) (RunPrecompiledContract p inp gas info)"
proof (cases p)
  case (AdvancedPrecompile run)
  then have "case run inp gas info ev of ((out, g, err), ev') \<Rightarrow> evm_effect E ev ev' \<and> unat g \<le> unat gas" for ev
    using assms by (simp add: precompile_ok_def)
  then show ?thesis using AdvancedPrecompile by (fastforce simp: keeps_def RunPrecompiledContract_def trip_def Let_def split: prod.splits)
next
  case (Precompile r run)
  then show ?thesis
    by (auto simp: RunPrecompiledContract_def Let_def unat_sub word_le_nat_alt linorder_not_less split: prod.split intro!: keeps_basic(1))
qed

lemma keeps_bind_ret: "keeps E Q (g a) \<Longrightarrow> keeps E Q (bind_st (ret_st a) g)"
  by (simp add: bind_st_def[abs_def] ret_st_def)

lemma keeps_bind_if:
  "keeps E (\<lambda>_. True) (if b then m else m') \<Longrightarrow> (\<And>a. keeps E Q (g a)) \<Longrightarrow> keeps E Q (bind_st (if b then m else m') g)"
  by (rule keeps_bind)

lemma run_gas_spec:
  assumes "run_spec E run" "Gas c = gas"
  shows "keeps E (\<lambda>(ret, g, err). unat g \<le> unat gas) (bind_st (run c inp ro) (\<lambda>(ret, err, c). ret_st (ret, Gas c, err)))"
  by (rule keeps_bind[OF assms(1)[unfolded run_spec_keeps, rule_format]]) (use assms(2) in \<open>auto intro!: keeps_basic(1)\<close>)

lemma SetCallCode_gas [simp]: "Gas (SetCallCode c a h code) = Gas c" "Gas (SetCodeOptionalHash c a ch) = Gas c"
  by (simp_all add: SetCallCode_def SetCodeOptionalHash_def)

lemma run_code_spec:
  "run_spec E run \<Longrightarrow> Gas c = gas \<Longrightarrow> keeps E (\<lambda>(ret, g, err). unat g \<le> unat gas) (run_code E run c a inp ro)"
  unfolding run_code_def by (intro keeps_bind[OF keeps_basic(4)] run_gas_spec) simp_all

lemma precompile_keeps:
  "precompiles_ok E \<Longrightarrow> precompile E a = Some pc \<Longrightarrow> keeps E (\<lambda>(ret, g, err). unat g \<le> unat gas) (RunPrecompiledContract pc inp gas info)"
  by (rule RunPrecompiledContract_spec) (simp add: precompiles_ok_def)

lemma delegate_keeps: "keeps E (\<lambda>c'. Gas c' = Gas c) (\<lambda>ev. (no_err (AsDelegate c), ev))"
  by (auto simp: keeps_def trip_def no_err_def AsDelegate_def split: outcome.split ContractRef.split)

lemmas keeps_rules = keeps_bind_ret keeps_bind[OF keeps_basic(3)] keeps_bind[OF keeps_basic(4)]
  keeps_bind[OF keeps_basic(5)] keeps_bind[OF keeps_basic(6)] keeps_bind_if keeps_if keeps_basic(1-5) run_code_spec run_gas_spec
  precompile_keeps keeps_bind[OF delegate_keeps]

text \<open>\<open>closes E i P m\<close>: the end of a call whose snapshot is \<open>i\<close>; it may revert to the snapshot as its last act.\<close>

definition closes :: "('h, 't) evm_env \<Rightarrow> int \<Rightarrow> ('a \<Rightarrow> bool) \<Rightarrow> ('h, 't, 'a) evm_action \<Rightarrow> bool" where
  "closes E i P m \<longleftrightarrow> (\<forall>ev. trip True (\<lambda>a ev'. P a \<and> (\<exists>ev1. evm_effect E ev ev1 \<and> (ev' = ev1 \<or>
     (\<exists>s. RevertToSnapshot (ev_db E) i (ev_StateDB ev1) = (Ret (), s) \<and> ev' = ev1\<lparr>ev_StateDB := s\<rparr>)))) (\<lambda>_ _. True) m ev)"

lemma closes_keeps: "keeps E P m \<Longrightarrow> closes E i P m"
  unfolding keeps_def closes_def by (rule allI, rule trip_mono, erule spec) auto

lemma closes_bind:
  fixes E :: "('h, 't) evm_env"
  assumes "keeps E P m" "\<And>a. P a \<Longrightarrow> closes E i Q (g a)"
  shows "closes E i Q (bind_st m g)"
  unfolding closes_def trip_bind
proof
  fix ev :: "('h, 't) EVM"
  let ?R = "\<lambda>ev a ev'. Q a \<and> (\<exists>ev1. evm_effect E ev ev1 \<and> (ev' = ev1 \<or>
     (\<exists>s. RevertToSnapshot (ev_db E) i (ev_StateDB ev1) = (Ret (), s) \<and> ev' = ev1\<lparr>ev_StateDB := s\<rparr>)))"
  show "trip True (\<lambda>a. trip True (?R ev) (\<lambda>_ _. True) (g a)) (\<lambda>_ _. True) m ev"
  proof (rule trip_mono[OF assms(1)[unfolded keeps_def, rule_format, of ev]])
    fix a ev1
    assume a: "evm_effect E ev ev1 \<and> P a"
    show "trip True (?R ev) (\<lambda>_ _. True) (g a) ev1"
      by (rule trip_mono[OF assms(2)[unfolded closes_def, rule_format, of a ev1]])
        (use a in \<open>auto intro: evm_effect_trans\<close>)
  qed simp
qed

lemma closes_revert: "P a \<Longrightarrow> closes E i P (bind_st (ev_try_db (RevertToSnapshot (ev_db E) i)) (\<lambda>_. ret_st a))"
  unfolding closes_def
proof
  fix ev :: "('b, 'c) EVM"
  assume "P a"
  then show "trip True (\<lambda>a ev'. P a \<and> (\<exists>ev1. evm_effect E ev ev1 \<and> (ev' = ev1 \<or>
     (\<exists>s. RevertToSnapshot (ev_db E) i (ev_StateDB ev1) = (Ret (), s) \<and> ev' = ev1\<lparr>ev_StateDB := s\<rparr>)))) (\<lambda>_ _. True)
     (bind_st (ev_try_db (RevertToSnapshot (ev_db E) i)) (\<lambda>_. ret_st a)) ev"
    by (cases "RevertToSnapshot (ev_db E) i (ev_StateDB ev)")
      (auto simp: trip_simps yields_True intro!: exI[of _ ev])
qed

lemma closes_finish:
  "(case r of (ret, g, err) \<Rightarrow> unat g \<le> unat gas) \<Longrightarrow> closes E i (\<lambda>(ret, g, err). unat g \<le> unat gas) (finish_call E i r)"
  unfolding finish_call_def Let_def
  by (cases r; cases "snd (snd r)") (auto intro!: closes_revert, auto intro!: closes_keeps keeps_basic(1))

text \<open>The state when the call takes its snapshot has settled, and so has the state \<open>T\<close> in which its code begins to run.\<close>

lemma closes_trip:
  fixes E :: "('h, 't) evm_env"
  assumes m: "closes E (fst (Snapshot s)) P m" and s: "settles (ev_db E) (ev_StateDB ev) s"
    and T: "acts (ev_db E) (snd (Snapshot s)) T" "settles (ev_db E) (ev_StateDB ev) T"
  shows "trip True (\<lambda>a ev'. evm_effect E ev ev' \<and> P a) (\<lambda>_ _. True) m (ev\<lparr>ev_StateDB := T\<rparr>)"
proof (rule trip_mono[OF m[unfolded closes_def, rule_format, of "ev\<lparr>ev_StateDB := T\<rparr>"]])
  fix a and ev' :: "('h, 't) EVM"
  assume "P a \<and> (\<exists>ev1. evm_effect E (ev\<lparr>ev_StateDB := T\<rparr>) ev1 \<and> (ev' = ev1 \<or>
     (\<exists>s'. RevertToSnapshot (ev_db E) (fst (Snapshot s)) (ev_StateDB ev1) = (Ret (), s') \<and> ev' = ev1\<lparr>ev_StateDB := s'\<rparr>)))"
  then obtain ev1 where P: "P a" and e: "evm_effect E (ev\<lparr>ev_StateDB := T\<rparr>) ev1" and
    or: "ev' = ev1 \<or> (\<exists>s'. RevertToSnapshot (ev_db E) (fst (Snapshot s)) (ev_StateDB ev1) = (Ret (), s') \<and> ev' = ev1\<lparr>ev_StateDB := s'\<rparr>)"
    by blast
  have 1: "evm_effect E ev ev1" using e T(2) by (auto simp: evm_effect_def intro: settles_trans)
  have "acts (ev_db E) (snd (Snapshot s)) (ev_StateDB ev1)"
    using e by (auto simp: evm_effect_def intro: acts_trans[OF T(1)] settles_acts)
  then have "settles (ev_db E) (ev_StateDB ev) s'" if "RevertToSnapshot (ev_db E) (fst (Snapshot s)) (ev_StateDB ev1) = (Ret (), s')" for s'
    using settles_trans[OF s settles_revert[OF surjective_pairing _ that]] by simp
  then show "evm_effect E ev ev' \<and> P a" using or 1 P by (auto simp: evm_effect_def)
qed simp

lemma keeps_snapshot:
  fixes E :: "('h, 't) evm_env"
  assumes "\<And>i. closes E i P (m i)"
  shows "keeps E P (bind_st (ev_db_op Snapshot) m)"
  unfolding keeps_def trip_bind trip_ev_db_op
  by (intro allI closes_trip[OF assms]) auto

lemma closes_body:
  "keeps E (\<lambda>(ret, g, err). unat g \<le> unat gas) m \<Longrightarrow> closes E i (\<lambda>(ret, g, err). unat g \<le> unat gas) (bind_st m (finish_call E i))"
  by (rule closes_bind, assumption) (rule closes_finish)

lemma acts_Transfer: "acts db s s' \<Longrightarrow> acts db s (Transfer db a b v s')"
  unfolding Transfer_def using acts_trans acts_SubBalance acts_AddBalance by metis

lemma settles_Transfer:
  "idle db s s' \<Longrightarrow> 0 \<le> v \<Longrightarrow> v = 0 \<or> v \<le> fst (GetBalance db a s) \<Longrightarrow> settles db s (Transfer db a b v s')"
  unfolding Transfer_def by (rule settles_checked_transfer)

lemma acts_idle:
  assumes "acts db s s'"
  shows "acts db s (snd (sdb_Exist db a s'))" "acts db s (CreateAccount db a s')" "acts db s (sdb_SetNonce db a n s')"
    "acts db s (AddBalance db a v s')"
  by (rule acts_trans[OF assms], rule acts_exec[of _ "Exist_op a"] acts_exec[of _ "CreateAccount_op a"] acts_exec[of _ "SetNonce_op a n"]
      acts_exec[of _ "AddBalance_op a v"]; simp; fail)+

lemma Call_spec:
  fixes E :: "('h, 't) evm_env"
  assumes "run_spec E run" "precompiles_ok E" "0 \<le> v"
  shows "call_spec E gas (Call E run cal a inp gas v)"
proof -
    define F where "F i = bind_st (case precompile E a of
                Some pc \<Rightarrow>
                  RunPrecompiledContract pc inp gas
                    \<lparr>PrecompileAddress = a, ActingAsAddress = a, pc_Caller = ref_Address cal, pc_Value = v, ReadOnly = False\<rparr>
              | None \<Rightarrow>
                  bind_st (ev_db_op (GetCode (ev_db E) a)) (\<lambda>code.
                  if bytes_of code = [] then ret_st ([], gas, None)
                  else
                    bind_st (new_contract cal (AccountRef a) v gas) (\<lambda>contract.
                    bind_st (ev_db_op (GetCodeHash (ev_db E) a)) (\<lambda>h.
                    bind_st (run (SetCallCode contract (Some a) h (bytes_of code)) inp False) (\<lambda>(ret, err, c).
                    ret_st (ret, Gas c, err)))))) (finish_call E i)" for i
  have F: "closes E i (\<lambda>(ret, g, err). unat g \<le> unat gas) (F i)" for i
    unfolding F_def by (rule closes_body, use assms in \<open>auto intro!: keeps_rules split: option.split\<close>)
  show ?thesis
    unfolding call_spec_keeps keeps_def Call_def Let_def F_def[symmetric]
    by (auto simp: trip_simps assms(3) intro!: closes_trip[OF F] acts_Transfer acts_idle settles_Transfer)
qed

lemma calls_spec:
  assumes "run_spec E run" "precompiles_ok E"
  shows "call_spec E gas (CallCode E run cal a inp gas v)" "call_spec E gas (DelegateCall E run cal a inp gas)"
    "call_spec E gas (StaticCall E run cal a inp gas)"
  using assms unfolding call_spec_keeps CallCode_def DelegateCall_def StaticCall_def Let_def
  by (auto intro!: keeps_rules keeps_snapshot closes_body closes_bind[OF keeps_basic(5)] settles_AddBalance_0 split: option.split ContractRef.split)

lemma store_code_spec:
  "keeps E (\<lambda>(err, c'). unat (Gas c') \<le> unat (Gas c)) (store_code E a ret err c)"
  unfolding store_code_def Let_def
  by (auto simp: UseGas_def unat_sub word_le_nat_alt linorder_not_less
      intro!: keeps_if keeps_basic(1) keeps_bind[OF keeps_basic(5)] split: prod.split)

lemma UseGas_all [simp]: "Gas (snd (UseGas c (Gas c))) = 0"
  by (simp add: UseGas_def)

lemma evm_create_spec:
  fixes E :: "('h, 't) evm_env"
  assumes run: "run_spec E run" and v: "0 \<le> v"
  shows "create_spec E gas (evm_create E run cal cah gas v a)"
proof -
  let ?P = "\<lambda>(ret, a, g, err). unat g \<le> unat gas"
  define F where "F i = bind_st (new_contract cal (AccountRef a) v gas) (\<lambda>contract.
       bind_st (run (SetCodeOptionalHash contract (Some a) cah) [] False) (\<lambda>(ret, err, contract).
       bind_st (store_code E a ret err contract) (\<lambda>(err, contract).
       if err \<noteq> None \<and> (r_IsHomestead (ev_chainRules E) \<or> err \<noteq> Some ErrCodeStoreOutOfGas) then
         bind_st (ev_try_db (RevertToSnapshot (ev_db E) i)) (\<lambda>_.
         let contract = (if err \<noteq> Some ErrExecutionReverted then snd (UseGas contract (Gas contract)) else contract) in
         ret_st (ret, a, Gas contract, err))
       else ret_st (ret, a, Gas contract, err))))" for i
  have store: "closes E i ?P (bind_st (store_code E a ret err c) (\<lambda>(err, contract).
       if err \<noteq> None \<and> (r_IsHomestead (ev_chainRules E) \<or> err \<noteq> Some ErrCodeStoreOutOfGas) then
         bind_st (ev_try_db (RevertToSnapshot (ev_db E) i)) (\<lambda>_.
         let contract = (if err \<noteq> Some ErrExecutionReverted then snd (UseGas contract (Gas contract)) else contract) in
         ret_st (ret, a, Gas contract, err))
       else ret_st (ret, a, Gas contract, err)))" if "unat (Gas c) \<le> unat gas" for ret err c i
    unfolding Let_def by (rule closes_bind[OF store_code_spec])
      (use that in \<open>auto intro!: closes_revert, auto intro!: closes_keeps keeps_basic(1)\<close>)
  have F: "closes E i ?P (F i)" for i
    unfolding F_def
    by (intro closes_bind[OF keeps_basic(6)] closes_bind[OF run[unfolded run_spec_keeps, rule_format]]) (use store in auto)
  show ?thesis
    unfolding create_spec_keeps keeps_def evm_create_def F_def[symmetric]
    by (auto simp: trip_simps v intro!: closes_trip[OF F] acts_Transfer acts_idle settles_Transfer)
qed

lemma creates_spec:
  assumes "run_spec E run" "0 \<le> v"
  shows "create_spec E gas (Create E run cal code gas v)" "create_spec E gas (Create2 E run cal code gas v salt)"
  using evm_create_spec[OF assms]
  by (auto simp: create_spec_keeps Create_def Create2_def Let_def intro!: keeps_bind[OF keeps_basic(4)] split: prod.split)

lemma calls_of_ok: "run_spec E run \<Longrightarrow> well_formed_env E \<Longrightarrow> precompiles_ok E \<Longrightarrow> calls_ok E (calls_of E run)"
  by (simp add: calls_ok_def calls_of_def Call_spec calls_spec creates_spec well_formed_env_def arith_ok_def)

lemma runner_at_spec: "well_formed_env E \<Longrightarrow> precompiles_ok E \<Longrightarrow> run_spec E (runner_at n E)"
proof (induction n)
  case 0
  show ?case unfolding runner_at.simps run_spec_keeps by (intro allI keeps_basic(2))
next
  case (Suc n)
  then show ?case by (simp add: Run_spec calls_of_ok)
qed

section \<open>Levels\<close>

text \<open>A round, the loop and a frame only depend on what the call functions do at the depth of the frame.\<close>

lemma bind_agree: "(\<And>a f'. m f = (Ret a, f') \<Longrightarrow> g a f' = g' a f') \<Longrightarrow> bind_st m g f = bind_st m g' f"
  by (auto simp: bind_st_def split: prod.split outcome.split)

lemma get_Ret: "get g f = (Ret a, f') \<Longrightarrow> a = g f \<and> f' = f"
  by (auto simp: get_def)

lemma check_stack_Ret: "check_stack op f = (Ret a, f') \<Longrightarrow> f' = f"
  by (auto simp: check_stack_def get_def bind_st_def abort_with_def split: if_splits)

lemma charge_gas_Ret: "charge_gas g f = (Ret a, f') \<Longrightarrow> \<exists>c. f' = f\<lparr>f_contract := c\<rparr>"
  by (auto simp: charge_gas_def use_gas_def UseGas_def bind_st_def abort_with_def Let_def split: if_splits)

lemma step_agree:
  assumes jt: "table_ok b jt" and E: "env_ok b E" "calls_ok E C" and f: "frame_ok f" and C: "calls_agree (ev_depth (f_evm f)) C C'"
  shows "step E C jt f = step E C' jt f"
proof -
  let ?d = "ev_depth (f_evm f)"
  let ?op = "jt (GetOp (f_contract f) (f_pc f))"
  obtain w where w: "mem_ok (f_mem f) w" using f by (auto simp: frame_ok_def)
  have op: "op_priced b ?op" by (rule table_op[OF jt])
  then obtain mem k extra where X: "stack_only extra"
    "case dynamicGas ?op of None \<Rightarrow> extra = (\<lambda>_. 0) \<and> k = 0 | Some g \<Rightarrow> \<forall>n. gas_spec E mem (\<lambda>f. extra f + k) (g E n) n"
    "memorySize ?op \<noteq> None \<longrightarrow> mem"
    using E unfolding op_priced_def prices_def by blast
  have ex: "execute ?op E C f' = execute ?op E C' f'" if "ev_depth (f_evm f') = ?d" for f'
    using op C that by (simp add: op_priced_def local_exec_def same_at_def)
  have d: "ev_depth (f_evm f') = ?d" if "charge_dynamic E ?op f1 = (Ret u, f')" "f1 = f\<lparr>f_contract := c\<rparr>" for f1 f' u c
  proof -
    have "mem_ok (f_mem f1) w" using w that(2) by simp
    from trip_Ret[OF charge_dynamic_trip[OF X(2,1,3) this] that(1)] show ?thesis
      using that(2) by (simp add: round_effect_def evm_effect_def)
  qed
  have cd: "bind_st (charge_dynamic E ?op) (\<lambda>_. bind_st (execute ?op E C) k) (f\<lparr>f_contract := c\<rparr>)
      = bind_st (charge_dynamic E ?op) (\<lambda>_. bind_st (execute ?op E C') k) (f\<lparr>f_contract := c\<rparr>)" for c k
    by (rule bind_agree) (use ex d in \<open>simp add: bind_st_def\<close>)
  show ?thesis
    unfolding step_def
    by (rule bind_agree, drule get_Ret, clarsimp, rule bind_agree, drule check_stack_Ret, clarsimp, rule bind_agree, drule charge_gas_Ret)
      (use cd in auto)
qed

lemma run_loop_agree:
  assumes jt: "table_ok b jt" and E: "env_ok b E" "calls_ok E C" and C: "calls_agree (ev_depth (f_evm f)) C C'" and f: "frame_ok f"
  shows "run_loop n E C jt f = run_loop n E C' jt f"
  using C f
proof (induction n arbitrary: f)
  case (Suc n)
  have "run_loop n E C jt f1 = run_loop n E C' jt f1" if "step E C jt f = (Ret u, f1)" for u f1
  proof -
    have "frame_ok f1 \<and> round_effect E f f1 \<and> f_gas f1 < f_gas f"
      using trip_Ret[OF step_trip[OF jt E Suc.prems(2)] that] .
    then show ?thesis using Suc.IH[of f1] Suc.prems(1) by (simp add: round_effect_def evm_effect_def)
  qed
  then show ?case using step_agree[OF jt E Suc.prems(2,1)] by (auto split: prod.split outcome.split)
qed simp

definition runs_agree :: "int \<Rightarrow> ('h, 't) runner \<Rightarrow> ('h, 't) runner \<Rightarrow> bool" where
  "runs_agree d run run' \<longleftrightarrow> (\<forall>c inp ro ev. ev_depth ev = d \<longrightarrow> run c inp ro ev = run' c inp ro ev)"

lemma Run_agree:
  assumes E: "well_formed_env E" and C: "calls_ok E C" "calls_agree (d + 1) C C'"
  shows "runs_agree d (Run E C) (Run E C')"
  unfolding runs_agree_def
proof (intro allI impI)
  fix c inp ro and ev :: "('a, 'b) EVM"
  assume "ev_depth ev = d"
  then have "calls_agree (ev_depth (f_evm (entry_frame E c inp ro ev))) C C'" using C(2) by (simp add: run_enter_def)
  note L = run_loop_agree[OF NewEVMInterpreter_ok well_formed_env_ok[OF E] C(1) this entry_frame_ok]
  show "Run E C c inp ro ev = Run E C' c inp ro ev" by (simp add: Run_def Let_def L del: run_loop.simps)
qed

definition same_ev :: "int \<Rightarrow> ('h, 't, 'a) evm_action \<Rightarrow> ('h, 't, 'a) evm_action \<Rightarrow> bool" where
  "same_ev d m m' \<longleftrightarrow> (\<forall>ev. ev_depth ev = d \<longrightarrow> m ev = m' ev)"

lemma same_ev_refl [simp]: "same_ev d m m"
  by (simp add: same_ev_def)

text \<open>Actions that stay at their depth.\<close>

definition level :: "('h, 't, 'a) evm_action \<Rightarrow> bool" where
  "level m \<longleftrightarrow> (\<forall>ev a ev'. m ev = (Ret a, ev') \<longrightarrow> ev_depth ev' = ev_depth ev)"

lemma level_basic:
  "level (ret_st a)" "level (ev_db_op op)" "level (ev_do_db op')" "level (new_contract cal obj val gas)"
  "level (\<lambda>ev. (no_err (AsDelegate c), ev))"
  by (auto simp: level_def ev_db_op_def ev_do_db_def new_contract_def split: prod.splits)

lemma level_if: "level m \<Longrightarrow> level m' \<Longrightarrow> level (if b then m else m')"
  by simp

lemma same_ev_bind: "level m \<Longrightarrow> (\<And>a. same_ev d (g a) (g' a)) \<Longrightarrow> same_ev d (bind_st m g) (bind_st m g')"
  by (simp add: same_ev_def level_def bind_st_def split: prod.split outcome.split)

lemma same_ev_head: "same_ev d m m' \<Longrightarrow> same_ev d (bind_st m g) (bind_st m' g)"
  by (simp add: same_ev_def bind_st_def)

lemma same_ev_if: "(\<not> b \<Longrightarrow> same_ev d m m') \<Longrightarrow> same_ev d (if b then n else m) (if b then n else m')"
  by simp

lemma same_ev_depth:
  "(d \<le> sint CallCreateDepth \<Longrightarrow> same_ev d m m') \<Longrightarrow>
   same_ev d (bind_st (get_ev ev_depth) (\<lambda>depth. if depth > sint CallCreateDepth then n else m))
     (bind_st (get_ev ev_depth) (\<lambda>depth. if depth > sint CallCreateDepth then n else m'))"
  by (auto simp: same_ev_def bind_st_def get_ev_def)

lemma same_ev_run: "runs_agree d run run' \<Longrightarrow> same_ev d (run c inp ro) (run' c inp ro)"
  by (simp add: runs_agree_def same_ev_def)

lemma same_ev_option:
  "(o1 = None \<Longrightarrow> same_ev d m m') \<Longrightarrow> same_ev d (case o1 of Some x \<Rightarrow> h x | None \<Rightarrow> m) (case o1 of Some x \<Rightarrow> h x | None \<Rightarrow> m')"
  by (cases o1) simp_all

lemma calls_of_agree:
  fixes E :: "('h, 't) evm_env"
  assumes "d \<le> sint CallCreateDepth \<Longrightarrow> runs_agree d run run'"
  shows "calls_agree d (calls_of E run) (calls_of E run')"
proof -
  note rules = same_ev_depth same_ev_if same_ev_bind level_basic level_if same_ev_option same_ev_head same_ev_run[OF assms]
  have "same_ev d (Call E run cal a inp g v) (Call E run' cal a inp g v)" for cal a inp g v
    unfolding Call_def Let_def by (intro rules; simp)
  moreover have "same_ev d (CallCode E run cal a inp g v) (CallCode E run' cal a inp g v)" for cal a inp g v
    unfolding CallCode_def Let_def run_code_def by (intro rules; simp)
  moreover have "same_ev d (DelegateCall E run cal a inp g) (DelegateCall E run' cal a inp g)" for cal a inp g
    unfolding DelegateCall_def Let_def run_code_def by (intro rules; simp)
  moreover have "same_ev d (StaticCall E run cal a inp g) (StaticCall E run' cal a inp g)" for cal a inp g
    unfolding StaticCall_def Let_def run_code_def by (intro rules; simp)
  moreover have create: "same_ev d (evm_create E run cal cah g v a) (evm_create E run' cal cah g v a)" for cal cah g v a
    unfolding evm_create_def by (intro rules; simp)
  moreover have "same_ev d (Create E run cal code g v) (Create E run' cal code g v)" for cal code g v
    unfolding Create_def by (intro rules create; simp)
  moreover have "same_ev d (Create2 E run cal code g v salt) (Create2 E run' cal code g v salt)" for cal code g v salt
    unfolding Create2_def Let_def by (simp add: create split: prod.split)
  ultimately show ?thesis by (simp add: calls_agree_def calls_of_def same_ev_def)
qed

lemma levels_agree:
  assumes E: "well_formed_env E" "precompiles_ok E"
  shows "d \<le> 1024 \<Longrightarrow> 1025 \<le> d + int n \<Longrightarrow> 1025 \<le> d + int m \<Longrightarrow> runs_agree d (runner_at n E) (runner_at m E)"
proof (induction n arbitrary: d m)
  case (Suc n)
  obtain k where k: "m = Suc k" using Suc.prems by (cases m) auto
  have "runs_agree (d + 1) (runner_at n E) (runner_at k E)" if "d + 1 \<le> sint CallCreateDepth"
    by (rule Suc.IH) (use that Suc.prems k in \<open>simp_all add: CallCreateDepth_def\<close>)
  then have "calls_agree (d + 1) (calls_of E (runner_at n E)) (calls_of E (runner_at k E))" by (rule calls_of_agree)
  then have "runs_agree d (Run E (calls_of E (runner_at n E))) (Run E (calls_of E (runner_at k E)))"
    by (rule Run_agree[OF E(1) calls_of_ok[OF runner_at_spec[OF E] E]])
  then show ?case using k by simp
qed simp

end
