(* ===== verification/Vm_Revert.thy ===== *)
theory Vm_Revert
  imports Vm_Calls
begin

text \<open>
  A call that fails, at whatever depth and for whatever reason, leaves the state database as it was.
\<close>

section \<open>Calls between a snapshot and its revert\<close>

text \<open>
  \<open>reverts E i m\<close>: the call body \<open>m\<close> acts on the state, and when it returns an error it has reverted to \<open>i\<close> last.
\<close>

definition reverts :: "('h, 't) evm_env \<Rightarrow> int \<Rightarrow> ('h, 't, bytes \<times> uint64 \<times> vm_error option) evm_action \<Rightarrow> bool" where
  "reverts E i m \<longleftrightarrow> (\<forall>ev. trip True (\<lambda>(ret, g, err) ev'. err \<noteq> None \<longrightarrow>
     (\<exists>s. acts (ev_db E) (ev_StateDB ev) s \<and> RevertToSnapshot (ev_db E) i s = (Ret (), ev_StateDB ev'))) (\<lambda>_ _. True) m ev)"

lemma reverts_bind:
  fixes E :: "('h, 't) evm_env"
  assumes "keeps E P m" "\<And>a. P a \<Longrightarrow> reverts E i (g a)"
  shows "reverts E i (bind_st m g)"
  unfolding reverts_def trip_bind
proof
  fix ev :: "('h, 't) EVM"
  let ?Q = "\<lambda>ev (ret, g, err) ev'. err \<noteq> None \<longrightarrow>
     (\<exists>s. acts (ev_db E) (ev_StateDB ev) s \<and> RevertToSnapshot (ev_db E) i s = (Ret (), ev_StateDB ev'))"
  show "trip True (\<lambda>a. trip True (?Q ev) (\<lambda>_ _. True) (g a)) (\<lambda>_ _. True) m ev"
  proof (rule trip_mono[OF assms(1)[unfolded keeps_def, rule_format, of ev]])
    fix a ev1
    assume a: "evm_effect E ev ev1 \<and> P a"
    show "trip True (?Q ev) (\<lambda>_ _. True) (g a) ev1"
      by (rule trip_mono[OF assms(2)[unfolded reverts_def, rule_format, of a ev1]])
        (use a in \<open>auto simp: evm_effect_def intro: acts_trans settles_acts\<close>)
  qed simp
qed

lemma reverts_finish: "keeps E P m \<Longrightarrow> reverts E i (bind_st m (finish_call E i))"
proof (rule reverts_bind)
  show "reverts E i (finish_call E i r)" for r
    by (cases r) (auto simp: reverts_def finish_call_def trip_simps yields_True split: prod.split intro: acts_refl)
qed

lemma reverts_do_db:
  fixes E :: "('h, 't) evm_env"
  assumes "\<And>s. acts (ev_db E) s (op s)" "reverts E i (g ())"
  shows "reverts E i (bind_st (ev_do_db op) g)"
  unfolding reverts_def trip_bind trip_ev_do_db
proof
  fix ev :: "('h, 't) EVM"
  show "trip True (\<lambda>(ret, g, err) ev'. err \<noteq> None \<longrightarrow>
     (\<exists>s. acts (ev_db E) (ev_StateDB ev) s \<and> RevertToSnapshot (ev_db E) i s = (Ret (), ev_StateDB ev'))) (\<lambda>_ _. True) (g ())
     (ev\<lparr>ev_StateDB := op (ev_StateDB ev)\<rparr>)"
    by (rule trip_mono[OF assms(2)[unfolded reverts_def, rule_format, of "ev\<lparr>ev_StateDB := op (ev_StateDB ev)\<rparr>"]])
      (auto intro: acts_trans[OF assms(1)])
qed

lemma reverts_ret: "reverts E i (ret_st (ret, g, None))"
  and reverts_if: "(b \<Longrightarrow> reverts E i m) \<Longrightarrow> (\<not> b \<Longrightarrow> reverts E i m') \<Longrightarrow> reverts E i (if b then m else m')"
  by (simp_all add: reverts_def trip_simps)

text \<open>\<open>safe_failure E m\<close>: an error of \<open>m\<close> leaves a state with the same view.\<close>

definition safe_failure :: "('h, 't) evm_env \<Rightarrow> ('h, 't, bytes \<times> uint64 \<times> vm_error option) evm_action \<Rightarrow> bool" where
  "safe_failure E m \<longleftrightarrow> (\<forall>ev. sdb_inv (ev_db E) (ev_StateDB ev) \<longrightarrow> trip True (\<lambda>(ret, g, err) ev'. err \<noteq> None \<longrightarrow>
     sdb_inv (ev_db E) (ev_StateDB ev') \<and> view (ev_db E) (ev_StateDB ev') = view (ev_db E) (ev_StateDB ev)) (\<lambda>_ _. True) m ev)"

lemma safe_failure_snapshot:
  fixes E :: "('h, 't) evm_env"
  assumes "\<And>i. reverts E i (m i)"
  shows "safe_failure E (bind_st (ev_db_op Snapshot) m)"
  unfolding safe_failure_def trip_bind trip_ev_db_op
proof (intro allI impI)
  fix ev :: "('h, 't) EVM"
  let ?s = "ev_StateDB ev"
  assume inv: "sdb_inv (ev_db E) ?s"
  obtain i s1 where sn: "Snapshot ?s = (i, s1)" by fastforce
  have "sdb_inv (ev_db E) s3 \<and> view (ev_db E) s3 = view (ev_db E) ?s"
    if "acts (ev_db E) s1 s2" "RevertToSnapshot (ev_db E) i s2 = (Ret (), s3)" for s2 s3
  proof -
    have "i \<in> rev_id ` set (validRevisions s2)" using that(2) RevertToSnapshot_invalid[of i s2 "ev_db E"] by fastforce
    then show ?thesis using snapshot_revert[OF inv sn] that unfolding acts_def by fastforce
  qed
  then show "trip True (\<lambda>(ret, g, err) ev'. err \<noteq> None \<longrightarrow> sdb_inv (ev_db E) (ev_StateDB ev') \<and>
      view (ev_db E) (ev_StateDB ev') = view (ev_db E) ?s) (\<lambda>_ _. True) (m (fst (Snapshot ?s))) (ev\<lparr>ev_StateDB := snd (Snapshot ?s)\<rparr>)"
    unfolding sn fst_conv snd_conv
    by (intro trip_mono[OF assms[of i, unfolded reverts_def, rule_format, of "ev\<lparr>ev_StateDB := s1\<rparr>"]]) auto
qed

lemma safe_failure_ret: "safe_failure E (ret_st r)"
  by (cases r) (simp add: safe_failure_def trip_simps)

lemma safe_failure_read:
  fixes E :: "('h, 't) evm_env"
  assumes "\<And>ev. sdb_inv (ev_db E) (ev_StateDB ev) \<Longrightarrow> trip True (\<lambda>_ ev'. sdb_inv (ev_db E) (ev_StateDB ev') \<and>
      view (ev_db E) (ev_StateDB ev') = view (ev_db E) (ev_StateDB ev)) (\<lambda>_ _. True) m ev"
    and "\<And>a. safe_failure E (g a)"
  shows "safe_failure E (bind_st m g)"
  unfolding safe_failure_def trip_bind
proof (intro allI impI)
  fix ev :: "('h, 't) EVM"
  assume inv: "sdb_inv (ev_db E) (ev_StateDB ev)"
  show "trip True (\<lambda>a. trip True (\<lambda>(ret, g, err) ev'. err \<noteq> None \<longrightarrow> sdb_inv (ev_db E) (ev_StateDB ev') \<and>
      view (ev_db E) (ev_StateDB ev') = view (ev_db E) (ev_StateDB ev)) (\<lambda>_ _. True) (g a)) (\<lambda>_ _. True) m ev"
  proof (rule trip_mono[OF assms(1)[OF inv]])
    fix a and ev1 :: "('h, 't) EVM"
    assume "sdb_inv (ev_db E) (ev_StateDB ev1) \<and> view (ev_db E) (ev_StateDB ev1) = view (ev_db E) (ev_StateDB ev)"
    then show "trip True (\<lambda>(ret, g, err) ev'. err \<noteq> None \<longrightarrow> sdb_inv (ev_db E) (ev_StateDB ev') \<and>
        view (ev_db E) (ev_StateDB ev') = view (ev_db E) (ev_StateDB ev)) (\<lambda>_ _. True) (g a) ev1"
      using assms(2)[of a, unfolded safe_failure_def, rule_format, of ev1] by auto
  qed simp
qed

lemma reads_inv:
  assumes "sdb_inv db s" "exec db x s = (Ret (), s')" "reads db s s'"
  shows "sdb_inv db s' \<and> view db s' = view db s"
  using exec_inv[OF assms(1,2)] assms(3) by (simp add: reads_def)

lemma safe_CanTransfer:
  fixes E :: "('h, 't) evm_env"
  shows "(\<And>a. safe_failure E (g a)) \<Longrightarrow> safe_failure E (bind_st (ev_db_op (CanTransfer (ev_db E) a v)) g)"
proof (rule safe_failure_read)
  fix ev :: "('h, 't) EVM"
  assume inv: "sdb_inv (ev_db E) (ev_StateDB ev)"
  have "sdb_inv (ev_db E) (snd (GetBalance (ev_db E) a (ev_StateDB ev))) \<and>
      view (ev_db E) (snd (GetBalance (ev_db E) a (ev_StateDB ev))) = view (ev_db E) (ev_StateDB ev)"
    by (rule reads_inv[OF inv, of "GetBalance_op a"]) (simp_all add: query_reads sdb_inv_wf[OF inv])
  then show "trip True (\<lambda>_ ev'. sdb_inv (ev_db E) (ev_StateDB ev') \<and> view (ev_db E) (ev_StateDB ev') = view (ev_db E) (ev_StateDB ev))
      (\<lambda>_ _. True) (ev_db_op (CanTransfer (ev_db E) a v)) ev"
    by (simp add: trip_ev_db_op CanTransfer_def Let_def case_prod_beta)
qed

lemma safe_depth: "safe_failure E m \<Longrightarrow> safe_failure E n \<Longrightarrow>
    safe_failure E (bind_st (get_ev ev_depth) (\<lambda>d. if d > k then n else m))"
  by (rule safe_failure_read) (simp_all add: trip_get_ev)

lemma safe_if: "safe_failure E m \<Longrightarrow> safe_failure E m' \<Longrightarrow> safe_failure E (if b then m else m')"
  and safe_bind_ret: "safe_failure E (g a) \<Longrightarrow> safe_failure E (bind_st (ret_st a) g)"
  by (simp_all add: bind_st_def[abs_def] ret_st_def)

lemma safe_can:
  "(\<And>a. safe_failure E (g a)) \<Longrightarrow> safe_failure E (bind_st (if b then ev_db_op (CanTransfer (ev_db E) a v) else ret_st c) g)"
  using safe_CanTransfer[of E g] safe_bind_ret[of E g c] by (cases b) simp_all

lemma safe_calls:
  assumes "run_spec E run" "precompiles_ok E"
  shows "safe_failure E (Call E run cal a inp gas v)" "safe_failure E (CallCode E run cal a inp gas v)"
    "safe_failure E (DelegateCall E run cal a inp gas)" "safe_failure E (StaticCall E run cal a inp gas)"
proof -
  let ?P = "\<lambda>(ret, g, err). unat g \<le> unat gas"
  note rules = safe_depth safe_failure_ret safe_can safe_CanTransfer safe_if safe_failure_snapshot
    reverts_finish[where P = ?P] reverts_ret reverts_if reverts_bind[OF keeps_basic(4)] reverts_do_db
    reverts_bind[where m = "if _ then _ else _" and P = "\<lambda>_. True"]
  show "safe_failure E (Call E run cal a inp gas v)"
    unfolding Call_def Let_def by (intro rules; use assms in \<open>auto intro!: keeps_rules acts_Transfer split: option.split\<close>)
  show "safe_failure E (CallCode E run cal a inp gas v)"
    unfolding CallCode_def Let_def by (intro rules; use assms in \<open>auto intro!: keeps_rules split: option.split\<close>)
  show "safe_failure E (DelegateCall E run cal a inp gas)"
    unfolding DelegateCall_def Let_def by (intro rules; use assms in \<open>auto intro!: keeps_rules split: option.split ContractRef.split\<close>)
  show "safe_failure E (StaticCall E run cal a inp gas)"
    unfolding StaticCall_def Let_def by (intro rules; use assms in \<open>auto intro!: keeps_rules acts_AddBalance split: option.split\<close>)
qed

end
