(* ===== verification/Vm_Properties.thy ===== *)
theory Vm_Properties
  imports Vm_Revert
begin

text \<open>
  The properties of the EVM: gas, termination, depth and reverts of calls, each with a run of a small contract.
\<close>

section \<open>A sample environment\<close>

definition arith_ref :: uint256_arith where
  "arith_ref =
     \<lparr>u_Add = (+), u_Sub = (-), u_Mul = (*), u_Div = (\<lambda>x y. if y = 0 then 0 else x div y),
      u_SDiv = (\<lambda>x y. if y = 0 then 0 else word_of_int (sgn (sint x) * sgn (sint y) * (\<bar>sint x\<bar> div \<bar>sint y\<bar>))),
      u_Mod = (\<lambda>x y. if y = 0 then 0 else x mod y),
      u_SMod = (\<lambda>x y. if y = 0 then 0 else word_of_int (sgn (sint x) * (\<bar>sint x\<bar> mod \<bar>sint y\<bar>))),
      u_Exp = (\<lambda>x y. x ^ unat y),
      u_ExtendSign = (\<lambda>x b. if unat b > 30 then x else word_of_int (signed_take_bit (8 * unat b + 7) (uint x))),
      u_Not = not, u_Lt = (<), u_Gt = (\<lambda>x y. y < x), u_Slt = (\<lambda>x y. sint x < sint y), u_Sgt = (\<lambda>x y. sint x > sint y),
      u_Eq = (=), u_IsZero = (\<lambda>x. x = 0), u_And = and, u_Or = or, u_Xor = xor,
      u_Byte = (\<lambda>x n. if unat n < 32 then word_of_nat (unat x div 256 ^ (31 - unat n) mod 256) else 0),
      u_AddMod = (\<lambda>x y m. if m = 0 then 0 else word_of_nat ((unat x + unat y) mod unat m)),
      u_MulMod = (\<lambda>x y m. if m = 0 then 0 else word_of_nat ((unat x * unat y) mod unat m)),
      u_LtUint64 = (\<lambda>x n. unat x < unat n), u_GtUint64 = (\<lambda>x n. unat x > unat n),
      u_Lsh = (\<lambda>x n. push_bit (unat n) x), u_Rsh = (\<lambda>x n. drop_bit (unat n) x),
      u_SRsh = (\<lambda>x n. word_of_int (drop_bit (unat n) (sint x))),
      u_Sign = (\<lambda>x. if x = 0 then 0 else if sint x < 0 then -1 else 1),
      u_BitLen = (\<lambda>x. 256 - length (takeWhile (\<lambda>i. \<not> bit x (255 - i)) [0..<256])),
      u_SetOne = 1, u_Clear = 0, u_SetAllOne = -1, u_SetBytes = (\<lambda>b. word_of_nat (be_nat b)), u_SetUint64 = ucast,
      u_FromBig = (\<lambda>x. case x of None \<Rightarrow> (None, False) | Some v \<Rightarrow> (Some (word_of_int v), v < 0 \<or> v \<ge> 2 ^ 256)),
      u_SetFromBig = word_of_int, u_ToBig = uint, u_Bytes20 = ucast, u_Hash32 = id\<rparr>"

lemma arith_ref_ok: "arith_ok arith_ref"
  by (simp add: arith_ok_def arith_ref_def)

definition sample_context :: BlockContext where
  "sample_context = \<lparr>bc_GetHash = (\<lambda>n. 0), bc_Coinbase = 9, bc_GasLimit = 1000000, bc_BlockNumber = 5, bc_Time = 7,
     bc_Difficulty = Some 1, bc_BaseFee = Some 1, bc_Random = None, bc_ArbOSVersion = 0\<rparr>"

definition sample_rules :: Rules where
  "sample_rules = \<lparr>r_IsArbitrum = False, r_ChainID = 1, r_IsHomestead = True, r_IsEIP150 = True, r_IsEIP155 = True, r_IsEIP158 = True,
     r_IsByzantium = True, r_IsConstantinople = True, r_IsPetersburg = True, r_IsIstanbul = True, r_IsBerlin = True,
     r_IsLondon = True, r_IsMerge = False, r_IsShanghai = False, r_IsCancun = False, r_IsPrague = False\<rparr>"

definition sample_evm_env :: "(unit, unit) evm_env" where
  "sample_evm_env = \<lparr>ev_U = uint256_ref, ev_A = arith_ref, ev_db = empty_db, ev_hook = DefaultTxProcessor 9,
     ev_Context = sample_context, ev_Origin = 1, ev_GasPrice = Some 1, ev_chainConfig = MainnetChainConfig,
     ev_chainRules = sample_rules, EnablePreimageRecording = False, ExtraEips = [], ev_abort = False,
     PrecompiledContractsArbitrum = Map.empty, PrecompiledContractsBerlin = Map.empty, PrecompiledContractsIstanbul = Map.empty,
     PrecompiledContractsByzantium = Map.empty, PrecompiledContractsHomestead = Map.empty\<rparr>"

lemma sample_env_ok: "well_formed_env sample_evm_env" "precompiles_ok sample_evm_env"
  by (simp_all add: well_formed_env_def sample_evm_env_def arith_ref_ok sample_rules_def DefaultTxProcessor_def
      precompiles_ok_def precompile_def)

text \<open>Account 2 has the code \<open>INVALID\<close>.\<close>

definition sample_ops_evm :: "op list" where
  "sample_ops_evm = [SetCode_op 2 (Some [0xfe])]"

definition sample_state :: "unit StateDB" where
  "sample_state = snd (exec_ops empty_db sample_ops_evm empty_state)"

definition sample_ev :: "(unit, unit) EVM" where
  "sample_ev = \<lparr>ev_StateDB = sample_state, ev_h = (), ev_depth = 0, in_readOnly = False, in_returnData = [], callGasTemp = 0,
     ev_jumpdests = Map.empty\<rparr>"

lemma sample_state: "exec_ops empty_db sample_ops_evm empty_state = (Ret (), sample_state)"
  by (simp add: sample_state_def sample_ops_evm_def bind_st_def)

lemma sample_table: "fst (NewEVMInterpreter sample_evm_env) 0xfe = undefined_op"
  by (simp add: NewEVMInterpreter_def sample_evm_env_def instructionSet_def sample_rules_def newLondonInstructionSet_def
      newBerlinInstructionSet_def newIstanbulInstructionSet_def newConstantinopleInstructionSet_def newByzantiumInstructionSet_def
      newSpuriousDragonInstructionSet_def newTangerineWhistleInstructionSet_def newHomesteadInstructionSet_def
      newFrontierInstructionSet_def frontier_ops_def frontier_lists enable3198_def enable3529_def enable2929_def enable2200_def
      enable1884_def enable1344_def reprice_def set_dynamicGas_def set_constantGas_def Let_def)

lemma sample_invalid:
  assumes "Code (f_contract f) = [0xfe]" "f_pc f = 0" "data (f_stack f) = []"
  shows "step sample_evm_env C (fst (NewEVMInterpreter sample_evm_env)) f = (Fail ([], ErrInvalidOpCode 0xfe), f)"
  using assms
  by (simp add: step_def bind_st_def get_def GetOp_def ulen_def sample_table undefined_op_def check_stack_def st_len_def
      maxStack_def StackLimit_def charge_gas_def use_gas_def UseGas_def charge_dynamic_def opUndefined_def lift_vm_def index_def
      stop_with_def Let_def)

lemma evm_run_unfold: "evm_run E = Run E (calls_of E (runner_at 1024 E))"
  using runner_at.simps(2)[of 1024 E] by (simp add: evm_run_def max_levels_def)

lemmas code_eval = sdb_SetCode_def so_SetCode_def so_Code_def obj_Code_def setCode_def GetCode_def GetCodeHash_def sdb_Exist_def
  setError_def so_SubBalance_def so_touch_def so_empty_def GetBalance_def

lemma sample_env_fields: "ev_db sample_evm_env = empty_db" "ev_chainRules sample_evm_env = sample_rules"
    "precompile sample_evm_env a = None" "ev_hook sample_evm_env = DefaultTxProcessor 9"
  by (simp_all add: sample_evm_env_def sample_rules_def precompile_def)

lemma sample_queries: "fst (GetCode empty_db 2 sample_state) = Some [0xfe]" "fst (GetBalance empty_db 1 sample_state) = 0"
  by (simp_all add: sample_state_def sample_ops_evm_def empty_state_def StateDB_New_def empty_db_def code_eval sdb_eval)

lemma sample_inv: "sdb_inv empty_db sample_state"
  by (rule exec_ops_inv[OF StateDB_New_inv[OF empty_db_ok] sample_state])

lemma empty_state_solvent: "solvent empty_db empty_state"
proof -
  have "fst (GetBalance empty_db a empty_state) = 0" for a
    by (simp add: empty_state_def StateDB_New_def empty_db_def code_eval sdb_eval)
  then show ?thesis using GetBalance_bal(1)[OF sdb_inv_wf[OF StateDB_New_inv[OF empty_db_ok]], of empty_db] by (simp add: solvent_def)
qed

lemma sample_solvent: "solvent empty_db sample_state"
proof -
  have "settles empty_db empty_state sample_state"
    by (rule settles_exec[of _ "SetCode_op 2 (Some [0xfe])"]) (simp_all add: sample_state_def sample_ops_evm_def bind_st_def)
  then show ?thesis using StateDB_New_inv[OF empty_db_ok] empty_state_solvent by (simp add: settles_def)
qed

lemma sample_Run:
  assumes "Code c = [0xfe]"
  shows "\<exists>ev'. Run sample_evm_env C c inp ro ev = (Ret ([], Some (ErrInvalidOpCode 0xfe), c\<lparr>Input := inp\<rparr>), ev') \<and> ev_StateDB ev' = ev_StateDB ev"
  using sample_invalid[of "entry_frame sample_evm_env c inp ro ev" C] assms
  by (simp add: Run_def Let_def newstack_def run_exit_def run_enter_def)

lemma sample_CallCode:
  "\<exists>ev'. CallCode sample_evm_env (evm_run sample_evm_env) (AccountRef 1) 2 [] 100 0 sample_ev = (Ret ([], 0, Some (ErrInvalidOpCode 0xfe)), ev')"
proof -
  define s1 where "s1 = snd (GetBalance empty_db 1 sample_state)"
  define i where "i = fst (Snapshot s1)"
  define s2 where "s2 = snd (Snapshot s1)"
  define s3 where "s3 = snd (GetCodeHash empty_db 2 s2)"
  define s4 where "s4 = snd (GetCode empty_db 2 s3)"
  have r1: "reads empty_db sample_state s1" unfolding s1_def by (rule query_reads[OF sdb_inv_wf[OF sample_inv]])
  have inv1: "sdb_inv empty_db s1" using reads_inv[OF sample_inv _ r1, of "GetBalance_op 1"] by (simp add: s1_def)
  have w2: "sdb_wf s2" "view empty_db s2 = view empty_db s1"
    using exec_inv[OF inv1, of Snapshot_op s2] sdb_inv_wf[of empty_db s2] by (simp_all add: s2_def Snapshot_def Let_def)
  have r3: "reads empty_db s2 s3" unfolding s3_def by (rule query_reads[OF w2(1)])
  have r4: "reads empty_db s3 s4" unfolding s4_def by (rule query_reads[OF reads_fields(1)[OF r3]])
  have code: "fst (GetCode empty_db 2 s3) = Some [0xfe]"
    using sample_queries(1) query_values(5)[OF sdb_inv_wf[OF sample_inv], of empty_db 2] query_values(5)[OF reads_fields(1)[OF r3], of empty_db 2]
      reads_fields(2)[OF r3] w2(2) reads_fields(2)[OF r1] by simp
  have "i \<in> rev_id ` set (validRevisions s4)"
    using reads_fields(8)[OF r3] reads_fields(8)[OF r4] by (simp add: i_def s2_def Snapshot_def Let_def)
  then obtain s5 where rev: "RevertToSnapshot empty_db i s4 = (Ret (), s5)"
    using snapshot_revert[OF inv1, of i s2 "[GetCodeHash_op 2, GetCode_op 2]" s4]
    by (auto simp: i_def s2_def s3_def s4_def bind_st_def)
  define h where "h = fst (GetCodeHash empty_db 2 s2)"
  have q: "GetBalance empty_db 1 sample_state = (0, s1)" "Snapshot s1 = (i, s2)" "GetCodeHash empty_db 2 s2 = (h, s3)"
    "GetCode empty_db 2 s3 = (Some [0xfe], s4)"
    using sample_queries(2) code by (simp_all add: s1_def i_def s2_def h_def s3_def s4_def prod_eq_iff)
  define ev where "ev = sample_ev\<lparr>ev_StateDB := s4, ev_jumpdests := Map.empty\<rparr>"
  define c where "c = SetCallCode (fst (NewContract Map.empty (AccountRef 1) (AccountRef 1) 0 100)) (Some 2) h [0xfe]"
  obtain ev' where "Run sample_evm_env (calls_of sample_evm_env (runner_at 1024 sample_evm_env)) c [] False ev
      = (Ret ([], Some (ErrInvalidOpCode 0xfe), c\<lparr>Input := []\<rparr>), ev')" "ev_StateDB ev' = s4"
    using sample_Run[of c "calls_of sample_evm_env (runner_at 1024 sample_evm_env)" "[]" False ev] by (auto simp: c_def ev_def SetCallCode_def)
  then show ?thesis
    unfolding evm_run_unfold
    by (simp add: CallCode_def get_ev_def ev_db_op_def ev_try_db_def bind_st_def sample_env_fields CanTransfer_def sample_ev_def q
        CallCreateDepth_def new_contract_def NewContract_def run_code_def bytes_of_def ev_def c_def finish_call_def rev)
qed

section \<open>Gas\<close>

text \<open>C4. No call and no creation hands back more gas than it was given, whatever code it runs and however deep it calls, in every fork and
  with every further EIP that can be activated; depth and read-only mode are what they were.\<close>

theorem evm_gas_bounded:
  assumes "well_formed_env E" "precompiles_ok E" "0 \<le> v"
  shows "(Call E (evm_run E) cal a inp gas v ev = (Ret (ret, g, err), ev') \<or> CallCode E (evm_run E) cal a inp gas v ev = (Ret (ret, g, err), ev')
      \<or> DelegateCall E (evm_run E) cal a inp gas ev = (Ret (ret, g, err), ev') \<or> StaticCall E (evm_run E) cal a inp gas ev = (Ret (ret, g, err), ev')
      \<or> Create E (evm_run E) cal inp gas v ev = (Ret (ret, b, g, err), ev') \<or> Create2 E (evm_run E) cal inp gas v salt ev = (Ret (ret, b, g, err), ev'))
    \<longrightarrow> unat g \<le> unat gas \<and> ev_depth ev' = ev_depth ev \<and> in_readOnly ev' = in_readOnly ev"
proof -
  have run: "run_spec E (evm_run E)" unfolding evm_run_def by (rule runner_at_spec[OF assms(1,2)])
  show ?thesis
    using Call_spec[OF run assms(2,3)] calls_spec[OF run assms(2)] creates_spec[OF run assms(3)]
    unfolding call_spec_def create_spec_def evm_effect_def by (auto dest!: spec trip_Ret)
qed

theorem evm_gas_bounded_witness:
  "\<exists>g ev'. CallCode sample_evm_env (evm_run sample_evm_env) (AccountRef 1) 2 [] 100 0 sample_ev = (Ret ([], g, Some (ErrInvalidOpCode 0xfe)), ev')
     \<and> unat g \<le> 100 \<and> ev_depth ev' = 0"
proof -
  obtain ev' where ev': "CallCode sample_evm_env (evm_run sample_evm_env) (AccountRef 1) 2 [] 100 0 sample_ev
      = (Ret ([], 0, Some (ErrInvalidOpCode 0xfe)), ev')" using sample_CallCode by blast
  have "unat (0 :: uint64) \<le> unat (100 :: uint64) \<and> ev_depth ev' = ev_depth sample_ev \<and> in_readOnly ev' = in_readOnly sample_ev"
    by (rule evm_gas_bounded[OF sample_env_ok order_refl, rule_format]) (use ev' in blast)
  then show ?thesis using ev' by (simp add: sample_ev_def)
qed

section \<open>Ether\<close>

text \<open>C2. The EVM creates no ether: whatever code a call or creation runs, when no account is in debt then none is afterwards, the sum of all
  balances has not grown, and \<open>GetUnexpectedBalanceDelta\<close> is what it was, since every ether burned on purpose has been announced.\<close>

theorem evm_creates_no_ether:
  assumes "well_formed_env E" "precompiles_ok E" "0 \<le> v" "sdb_inv (ev_db E) (ev_StateDB ev)" "solvent (ev_db E) (ev_StateDB ev)"
  shows "(Call E (evm_run E) cal a inp gas v ev = (Ret (ret, g, err), ev') \<or> CallCode E (evm_run E) cal a inp gas v ev = (Ret (ret, g, err), ev')
      \<or> DelegateCall E (evm_run E) cal a inp gas ev = (Ret (ret, g, err), ev') \<or> StaticCall E (evm_run E) cal a inp gas ev = (Ret (ret, g, err), ev')
      \<or> Create E (evm_run E) cal inp gas v ev = (Ret (ret, b, g, err), ev') \<or> Create2 E (evm_run E) cal inp gas v salt ev = (Ret (ret, b, g, err), ev'))
    \<longrightarrow> solvent (ev_db E) (ev_StateDB ev') \<and> TotalBalance (ev_db E) (ev_StateDB ev') \<le> TotalBalance (ev_db E) (ev_StateDB ev)
      \<and> GetUnexpectedBalanceDelta (ev_StateDB ev') = GetUnexpectedBalanceDelta (ev_StateDB ev)"
proof -
  have run: "run_spec E (evm_run E)" unfolding evm_run_def by (rule runner_at_spec[OF assms(1,2)])
  have "solvent (ev_db E) (ev_StateDB ev') \<and> TotalBalance (ev_db E) (ev_StateDB ev') \<le> TotalBalance (ev_db E) (ev_StateDB ev)
      \<and> GetUnexpectedBalanceDelta (ev_StateDB ev') = GetUnexpectedBalanceDelta (ev_StateDB ev)" if "evm_effect E ev ev'"
    using settles_total[of "ev_db E" "ev_StateDB ev" "ev_StateDB ev'"] that assms(4,5) by (simp add: evm_effect_def)
  then show ?thesis
    using Call_spec[OF run assms(2,3)] calls_spec[OF run assms(2)] creates_spec[OF run assms(3)]
    unfolding call_spec_def create_spec_def by (auto dest!: spec trip_Ret)
qed

theorem evm_creates_no_ether_witness:
  "\<exists>g ev'. CallCode sample_evm_env (evm_run sample_evm_env) (AccountRef 1) 2 [] 100 0 sample_ev = (Ret ([], g, Some (ErrInvalidOpCode 0xfe)), ev')
     \<and> solvent empty_db (ev_StateDB ev') \<and> GetUnexpectedBalanceDelta (ev_StateDB ev') = GetUnexpectedBalanceDelta sample_state"
proof -
  obtain ev' where ev': "CallCode sample_evm_env (evm_run sample_evm_env) (AccountRef 1) 2 [] 100 0 sample_ev
      = (Ret ([], 0, Some (ErrInvalidOpCode 0xfe)), ev')" using sample_CallCode by blast
  have i: "sdb_inv (ev_db sample_evm_env) (ev_StateDB sample_ev)" "solvent (ev_db sample_evm_env) (ev_StateDB sample_ev)"
    using sample_inv sample_solvent by (simp_all add: sample_env_fields sample_ev_def)
  have "solvent (ev_db sample_evm_env) (ev_StateDB ev') \<and> TotalBalance (ev_db sample_evm_env) (ev_StateDB ev') \<le> TotalBalance (ev_db sample_evm_env) (ev_StateDB sample_ev)
      \<and> GetUnexpectedBalanceDelta (ev_StateDB ev') = GetUnexpectedBalanceDelta (ev_StateDB sample_ev)"
    by (rule evm_creates_no_ether[OF sample_env_ok order_refl i, rule_format]) (use ev' in blast)
  then show ?thesis using ev' by (simp add: sample_ev_def sample_env_fields)
qed

section \<open>Termination\<close>

text \<open>C5. The interpreter loop ends: no frame that a call enters can go on for ever, and as many rounds as the frame has gas, and one more,
  are enough to reach the result.\<close>

theorem interpreter_terminates:
  assumes "well_formed_env E" "precompiles_ok E"
  shows "(\<nexists>F. F 0 = entry_frame E c inp ro ev
       \<and> (\<forall>i. step E (calls_of E (runner_at n E)) (fst (NewEVMInterpreter E)) (F i) = (Ret (), F (Suc i))))
    \<and> (\<forall>fuel > unat (Gas c). run_loop fuel E (calls_of E (runner_at n E)) (fst (NewEVMInterpreter E)) (entry_frame E c inp ro ev)
         = run_loop (Suc (unat (Gas c))) E (calls_of E (runner_at n E)) (fst (NewEVMInterpreter E)) (entry_frame E c inp ro ev))"
proof -
  note T = NewEVMInterpreter_ok well_formed_env_ok[OF assms(1)] calls_of_ok[OF runner_at_spec[OF assms(1,2)] assms(1,2)]
  let ?C = "calls_of E (runner_at n E)" and ?table = "fst (NewEVMInterpreter E)" and ?f = "entry_frame E c inp ro ev"
  have "run_loop fuel E ?C ?table ?f = run_loop (Suc (unat (Gas c))) E ?C ?table ?f" if "fuel > unat (Gas c)" for fuel
    by (rule run_loop_fuel[OF T entry_frame_ok]) (use that in simp_all)
  moreover have "\<exists>i. step E ?C ?table (F i) \<noteq> (Ret (), F (Suc i))" if "F 0 = ?f" for F
    by (rule no_infinite_run[OF T]) (unfold that, rule entry_frame_ok)
  ultimately show ?thesis by blast
qed

theorem interpreter_terminates_witness:
  "run_loop 1000 sample_evm_env (calls_of sample_evm_env (runner_at 3 sample_evm_env)) (fst (NewEVMInterpreter sample_evm_env))
       (entry_frame sample_evm_env sample_contract [] False sample_ev)
   = run_loop 101 sample_evm_env (calls_of sample_evm_env (runner_at 3 sample_evm_env)) (fst (NewEVMInterpreter sample_evm_env))
       (entry_frame sample_evm_env sample_contract [] False sample_ev)"
proof -
  have g: "unat (Gas sample_contract) = 100" by (simp add: sample_contract_def NewContract_def)
  then have "Suc (unat (Gas sample_contract)) = 101" by simp
  then show ?thesis
    using interpreter_terminates[OF sample_env_ok, where c = sample_contract and inp = "[]" and ro = False and ev = sample_ev and n = 3, THEN conjunct2, rule_format, of 1000] g
    by (simp del: run_loop.simps)
qed

text \<open>C6. \<open>CallCreateDepth\<close> bounds the nesting of calls: from any depth a transaction can be at, the levels of calls that the model allows are
  enough, and any greater number of levels gives the same result.\<close>

theorem call_depth_suffices:
  assumes "well_formed_env E" "precompiles_ok E" "0 \<le> ev_depth ev" "ev_depth ev \<le> 1024"
  shows "runner_at (max_levels + k) E c inp ro ev = evm_run E c inp ro ev"
proof -
  have "runs_agree (ev_depth ev) (runner_at (max_levels + k) E) (runner_at max_levels E)"
    by (rule levels_agree[OF assms(1,2,4)]) (use assms(3) in \<open>simp_all add: max_levels_def\<close>)
  then show ?thesis by (simp add: runs_agree_def evm_run_def)
qed

theorem call_depth_suffices_witness:
  "runner_at (max_levels + 7) sample_evm_env sample_contract [] False sample_ev = evm_run sample_evm_env sample_contract [] False sample_ev"
  by (rule call_depth_suffices[OF sample_env_ok]) (simp_all add: sample_ev_def)

section \<open>Failing calls\<close>

text \<open>C3. A call that returns an error, at whatever depth and for whatever reason, leaves the state as it was: from any state that operations
  on a newly opened state database reach, every query has the answer it had before the call.\<close>

theorem failing_call_reverts:
  assumes "well_formed_env E" "precompiles_ok E"
    and "db_ok (ev_db E) snaps" "StateDB_New root (ev_db E) snaps = Inr init" "exec_ops (ev_db E) ops init = (Ret (), ev_StateDB ev)"
    and "Call E (evm_run E) cal a inp gas v ev = (Ret (ret, g, Some err), ev') \<or> CallCode E (evm_run E) cal a inp gas v ev = (Ret (ret, g, Some err), ev')
      \<or> DelegateCall E (evm_run E) cal a inp gas ev = (Ret (ret, g, Some err), ev') \<or> StaticCall E (evm_run E) cal a inp gas ev = (Ret (ret, g, Some err), ev')"
  shows "answers_of (ev_db E) (ev_StateDB ev') = answers_of (ev_db E) (ev_StateDB ev)"
proof -
  have run: "run_spec E (evm_run E)" unfolding evm_run_def by (rule runner_at_spec[OF assms(1,2)])
  have inv: "sdb_inv (ev_db E) (ev_StateDB ev)" by (rule exec_ops_inv[OF StateDB_New_inv[OF assms(3,4)] assms(5)])
  have "sdb_inv (ev_db E) (ev_StateDB ev') \<and> view (ev_db E) (ev_StateDB ev') = view (ev_db E) (ev_StateDB ev)"
    if "safe_failure E m" "m ev = (Ret (ret, g, Some err), ev')" for m
    using trip_Ret[OF that(1)[unfolded safe_failure_def, rule_format, OF inv] that(2)] by simp
  then have "sdb_inv (ev_db E) (ev_StateDB ev') \<and> view (ev_db E) (ev_StateDB ev') = view (ev_db E) (ev_StateDB ev)"
    using safe_calls[OF run assms(2)] assms(6) by blast
  then show ?thesis by (auto intro: answers_view sdb_inv_wf inv)
qed

theorem failing_call_reverts_witness:
  "\<exists>ev'. CallCode sample_evm_env (evm_run sample_evm_env) (AccountRef 1) 2 [] 100 0 sample_ev = (Ret ([], 0, Some (ErrInvalidOpCode 0xfe)), ev')
     \<and> answers_of empty_db (ev_StateDB ev') = answers_of empty_db sample_state"
proof -
  obtain ev' where ev': "CallCode sample_evm_env (evm_run sample_evm_env) (AccountRef 1) 2 [] 100 0 sample_ev
      = (Ret ([], 0, Some (ErrInvalidOpCode 0xfe)), ev')" using sample_CallCode by blast
  have "answers_of (ev_db sample_evm_env) (ev_StateDB ev') = answers_of (ev_db sample_evm_env) (ev_StateDB sample_ev)"
  proof (rule failing_call_reverts[OF sample_env_ok])
    show "db_ok (ev_db sample_evm_env) None" "StateDB_New 0 (ev_db sample_evm_env) None = Inr empty_state"
      "exec_ops (ev_db sample_evm_env) sample_ops_evm empty_state = (Ret (), ev_StateDB sample_ev)"
      using empty_db_ok sample_state by (simp_all add: sample_env_fields sample_ev_def)
  qed (use ev' in blast)
  then show ?thesis using ev' by (simp add: sample_env_fields sample_ev_def)
qed

end
