(* ===== verification/State_Transition.thy ===== *)
theory State_Transition
  imports Vm_Calls
begin

text \<open>
  The application of a message to the state: \<open>core/gaspool.go\<close> and \<open>core/state_transition.go\<close>, on the EVM of
  \<open>Vm_Interpreter\<close>. The processing hook, an interface that the Arbitrum node implements, is a parameter; tracing is left
  out (no tracer is configured).
\<close>

section \<open>The gas pool\<close>

datatype tx_error =
    ErrNonceTooLow | ErrNonceTooHigh | ErrNonceMax | ErrSenderNoEOA
  | ErrFeeCapVeryHigh | ErrTipVeryHigh | ErrTipAboveFeeCap | ErrFeeCapTooLow
  | ErrInsufficientFunds | ErrGasLimitReached | ErrTxGasUintOverflow | ErrIntrinsicGas
  | ErrInsufficientFundsForTransfer | ErrMaxInitCodeSizeExceeded | ErrHook string | ErrState string

type_synonym GasPool = uint64

definition AddGas :: "GasPool \<Rightarrow> uint64 \<Rightarrow> (tx_error, GasPool) outcome" where
  "AddGas gp amount = (if gp > - 1 - amount then Panic else Ret (gp + amount))"

definition SubGas :: "GasPool \<Rightarrow> uint64 \<Rightarrow> (tx_error, GasPool) outcome" where
  "SubGas gp amount = (if gp < amount then Fail ErrGasLimitReached else Ret (gp - amount))"

section \<open>Intrinsic gas\<close>

definition TxGas :: uint64 where "TxGas = 21000"
definition TxGasContractCreation :: uint64 where "TxGasContractCreation = 53000"
definition TxDataZeroGas :: uint64 where "TxDataZeroGas = 4"
definition TxDataNonZeroGasFrontier :: uint64 where "TxDataNonZeroGasFrontier = 68"
definition TxDataNonZeroGasEIP2028 :: uint64 where "TxDataNonZeroGasEIP2028 = 16"
definition TxAccessListAddressGas :: uint64 where "TxAccessListAddressGas = 2400"
definition RefundQuotient :: uint64 where "RefundQuotient = 2"
definition RefundQuotientEIP3529 :: uint64 where "RefundQuotientEIP3529 = 5"

type_synonym AccessList = "(address \<times> hash list) list"

definition StorageKeys :: "AccessList \<Rightarrow> nat" where
  "StorageKeys al = sum_list (map (\<lambda>t. length (snd t)) al)"

text \<open>\<open>(math.MaxUint64-gas)/price < n\<close>, the guard in front of \<open>gas += n * price\<close>.\<close>

definition charge :: "uint64 \<Rightarrow> uint64 \<Rightarrow> uint64 \<Rightarrow> (tx_error, uint64) outcome" where
  "charge price n gas = (if (- 1 - gas) div price < n then Fail ErrTxGasUintOverflow else Ret (gas + n * price))"

definition core_toWordSize :: "uint64 \<Rightarrow> uint64" where
  "core_toWordSize sz = (if sz > - 1 - 31 then (- 1) div 32 + 1 else (sz + 31) div 32)"

definition IntrinsicGas :: "bytes \<Rightarrow> AccessList \<Rightarrow> bool \<Rightarrow> bool \<Rightarrow> bool \<Rightarrow> bool \<Rightarrow> (tx_error, uint64) outcome" where
  "IntrinsicGas d accessList isContractCreation isHomestead isEIP2028 isEIP3860 =
     (let gas = (if isContractCreation \<and> isHomestead then TxGasContractCreation else TxGas);
          dataLen = ulen d in
      bind_outcome
        (if dataLen > 0 then
           let nz = foldl (\<lambda>nz byt. if byt \<noteq> 0 then nz + 1 else nz) 0 d;
               nonZeroGas = (if isEIP2028 then TxDataNonZeroGasEIP2028 else TxDataNonZeroGasFrontier) in
           bind_outcome (charge nonZeroGas nz gas) (\<lambda>gas.
           let z = dataLen - nz in
           bind_outcome (charge TxDataZeroGas z gas) (\<lambda>gas.
           if isContractCreation \<and> isEIP3860 then charge InitCodeWordGas (core_toWordSize dataLen) gas else Ret gas))
         else Ret gas)
        (\<lambda>gas. Ret (gas + ulen accessList * TxAccessListAddressGas
                     + word_of_nat (StorageKeys accessList) * TxAccessListStorageKeyGas)))"

section \<open>Messages, hooks and the transition\<close>

record Message =
  To :: "address option"
  From :: address
  Nonce :: uint64
  Value :: int
  GasLimit :: uint64
  GasPrice :: int
  GasFeeCap :: "int option"
  GasTipCap :: int
  msg_Data :: bytes
  msg_AccessList :: AccessList
  SkipAccountChecks :: bool

text \<open>
  A new EVM computes the rules from the configuration and the block. \<open>G\<close> is what it finds in its packages: the state's database,
  the arithmetic, the maps of precompiled contracts and the interpreter's configuration.
\<close>

definition NewEVM :: "(unit, 't) evm_env \<Rightarrow> BlockContext \<Rightarrow> address \<Rightarrow> int option \<Rightarrow> ChainConfig \<Rightarrow> (unit, 't) evm_env" where
  "NewEVM G blockCtx origin gasPrice chainConfig =
     G\<lparr>ev_Context := blockCtx, ev_Origin := origin, ev_GasPrice := gasPrice, ev_chainConfig := chainConfig,
       ev_chainRules := config_Rules chainConfig (bc_BlockNumber blockCtx) (bc_Random blockCtx \<noteq> None) (bc_Time blockCtx)
         (bc_ArbOSVersion blockCtx),
       ev_hook := DefaultTxProcessor (bc_Coinbase blockCtx)\<rparr>"

text \<open>
  What a transition finds: the EVM it runs on, with its context, configuration, rules and hook; whether \<open>NoBaseFee\<close> is configured;
  and the lists of precompiled contracts, filled from the maps when the package is initialised.
\<close>

record ('h, 't) tx_env =
  te_evm :: "('h, 't) evm_env"
  te_NoBaseFee :: bool
  PrecompiledAddressesArbitrum :: "address list"
  PrecompiledAddressesBerlin :: "address list"
  PrecompiledAddressesIstanbul :: "address list"
  PrecompiledAddressesByzantium :: "address list"
  PrecompiledAddressesHomestead :: "address list"

abbreviation te_db :: "('h, 't) tx_env \<Rightarrow> 't Database" where "te_db E \<equiv> ev_db (te_evm E)"
abbreviation te_config :: "('h, 't) tx_env \<Rightarrow> ChainConfig" where "te_config E \<equiv> ev_chainConfig (te_evm E)"
abbreviation te_hook :: "('h, 't) tx_env \<Rightarrow> ('h, 't) TxProcessingHook" where "te_hook E \<equiv> ev_hook (te_evm E)"
abbreviation te_Coinbase :: "('h, 't) tx_env \<Rightarrow> address" where "te_Coinbase E \<equiv> bc_Coinbase (ev_Context (te_evm E))"
abbreviation te_BlockNumber :: "('h, 't) tx_env \<Rightarrow> int" where "te_BlockNumber E \<equiv> bc_BlockNumber (ev_Context (te_evm E))"
abbreviation te_BaseFee :: "('h, 't) tx_env \<Rightarrow> int option" where "te_BaseFee E \<equiv> bc_BaseFee (ev_Context (te_evm E))"

definition ActivePrecompiles :: "('h, 't) tx_env \<Rightarrow> Rules \<Rightarrow> address list" where
  "ActivePrecompiles E rules =
     (if r_IsArbitrum rules then PrecompiledAddressesArbitrum E
      else if r_IsBerlin rules then PrecompiledAddressesBerlin E
      else if r_IsIstanbul rules then PrecompiledAddressesIstanbul E
      else if r_IsByzantium rules then PrecompiledAddressesByzantium E
      else PrecompiledAddressesHomestead E)"

record ('h, 't) StateTransition =
  st_gp :: GasPool
  st_msg :: Message
  gasRemaining :: uint64
  initialGas :: uint64
  st_state :: "'t StateDB"
  st_hook :: 'h

text \<open>The error of a result comes from the hook or from the EVM.\<close>

record ExecutionResult =
  UsedGas :: uint64
  Err :: "(string + vm_error) option"
  ReturnData :: bytes
  TopLevelDeployed :: "address option"

definition Unwrap :: "ExecutionResult \<Rightarrow> (string + vm_error) option" where
  "Unwrap result = Err result"

definition Failed :: "ExecutionResult \<Rightarrow> bool" where
  "Failed result \<longleftrightarrow> Err result \<noteq> None"

definition res_Return :: "ExecutionResult \<Rightarrow> bytes" where
  "res_Return result = (if Err result \<noteq> None then [] else ReturnData result)"

definition res_Revert :: "ExecutionResult \<Rightarrow> bytes" where
  "res_Revert result = (if Err result \<noteq> Some (Inr ErrExecutionReverted) then [] else ReturnData result)"

type_synonym ('h, 't, 'a) transition = "(('h, 't) StateTransition, tx_error, 'a) stm"

definition get_st :: "('s \<Rightarrow> 'a) \<Rightarrow> ('s, 'e, 'a) stm" where
  "get_st f = (\<lambda>s. (Ret (f s), s))"

text \<open>A call of a \<open>StateDB\<close> method.\<close>

definition on_state :: "('t StateDB \<Rightarrow> 'a \<times> 't StateDB) \<Rightarrow> ('h, 't, 'a) transition" where
  "on_state f = (\<lambda>st. let (a, s) = f (st_state st) in (Ret a, st\<lparr>st_state := s\<rparr>))"

definition on_state_stm :: "('t StateDB, string, 'a) stm \<Rightarrow> ('h, 't, 'a) transition" where
  "on_state_stm f = (\<lambda>st. case f (st_state st) of
     (Ret a, s) \<Rightarrow> (Ret a, st\<lparr>st_state := s\<rparr>) | (Fail e, s) \<Rightarrow> (Fail (ErrState e), st\<lparr>st_state := s\<rparr>)
   | (Panic, s) \<Rightarrow> (Panic, st\<lparr>st_state := s\<rparr>))"

text \<open>A method call on a pointer to a \<open>big.Int\<close>; it panics on nil.\<close>

definition deref :: "'a option \<Rightarrow> ('s, 'e, 'a) stm" where
  "deref x = (case x of None \<Rightarrow> panic_st | Some a \<Rightarrow> ret_st a)"

fun bitlen :: "nat \<Rightarrow> nat" where
  "bitlen n = (if n = 0 then 0 else Suc (bitlen (n div 2)))"

declare bitlen.simps [simp del]

definition BitLen :: "int \<Rightarrow> nat" where
  "BitLen x = bitlen (nat \<bar>x\<bar>)"

definition BigMin :: "int \<Rightarrow> int \<Rightarrow> int" where
  "BigMin x y = (if x > y then y else x)"

definition gasUsed :: "('h, 't) StateTransition \<Rightarrow> uint64" where
  "gasUsed st = initialGas st - gasRemaining st"

definition gp_update :: "(GasPool \<Rightarrow> (tx_error, GasPool) outcome) \<Rightarrow> ('h, 't, unit) transition" where
  "gp_update f = (\<lambda>st. case f (st_gp st) of
     Ret gp \<Rightarrow> (Ret (), st\<lparr>st_gp := gp\<rparr>) | Fail e \<Rightarrow> (Fail e, st) | Panic \<Rightarrow> (Panic, st))"

definition buyGas :: "'t Database \<Rightarrow> ('h, 't, unit) transition" where
  "buyGas db =
     bind_st (get_st st_msg) (\<lambda>msg.
     let mgval = uint (GasLimit msg) * GasPrice msg;
         balanceCheck = (case GasFeeCap msg of None \<Rightarrow> mgval | Some feeCap \<Rightarrow> uint (GasLimit msg) * feeCap + Value msg) in
     bind_st (on_state (GetBalance db (From msg))) (\<lambda>have.
     if have < balanceCheck then fail_st ErrInsufficientFunds
     else
       bind_st (gp_update (\<lambda>gp. SubGas gp (GasLimit msg))) (\<lambda>_.
       bind_st (modify_st (\<lambda>st. st\<lparr>gasRemaining := gasRemaining st + GasLimit msg, initialGas := GasLimit msg\<rparr>)) (\<lambda>_.
       on_state (\<lambda>s. ((), SubBalance db (From msg) mgval s))))))"

definition check_account :: "'t Database \<Rightarrow> Message \<Rightarrow> ('h, 't, unit) transition" where
  "check_account db msg =
     bind_st (on_state (GetNonce db (From msg))) (\<lambda>stNonce.
     if stNonce < Nonce msg then fail_st ErrNonceTooHigh
     else if stNonce > Nonce msg then fail_st ErrNonceTooLow
     else if stNonce + 1 < stNonce then fail_st ErrNonceMax
     else
       bind_st (on_state (GetCodeHash db (From msg))) (\<lambda>codeHash.
       if codeHash \<noteq> 0 \<and> codeHash \<noteq> EmptyCodeHash db then fail_st ErrSenderNoEOA else ret_st ()))"

definition check_fees :: "int option \<Rightarrow> Message \<Rightarrow> ('h, 't, unit) transition" where
  "check_fees baseFee msg =
     bind_st (deref (GasFeeCap msg)) (\<lambda>feeCap.
     if BitLen feeCap > 256 then fail_st ErrFeeCapVeryHigh
     else if BitLen (GasTipCap msg) > 256 then fail_st ErrTipVeryHigh
     else if feeCap < GasTipCap msg then fail_st ErrTipAboveFeeCap
     else bind_st (deref baseFee) (\<lambda>baseFee. if feeCap < baseFee then fail_st ErrFeeCapTooLow else ret_st ()))"

text \<open>\<open>msg.GasFeeCap.BitLen() > 0 || msg.GasTipCap.BitLen() > 0\<close> is evaluated only when \<open>NoBaseFee\<close> is set.\<close>

definition fees_given :: "Message \<Rightarrow> ('h, 't, bool) transition" where
  "fees_given msg = bind_st (deref (GasFeeCap msg)) (\<lambda>feeCap. ret_st (BitLen feeCap > 0 \<or> BitLen (GasTipCap msg) > 0))"

definition preCheck :: "('h, 't) tx_env \<Rightarrow> ('h, 't, unit) transition" where
  "preCheck E =
     bind_st (get_st st_msg) (\<lambda>msg.
     bind_st (if \<not> SkipAccountChecks msg then check_account (te_db E) msg else ret_st ()) (\<lambda>_.
     bind_st
       (if IsLondon (te_config E) (te_BlockNumber E) then
          bind_st (if \<not> te_NoBaseFee E then ret_st True else fees_given msg) (\<lambda>check.
            if check then check_fees (te_BaseFee E) msg else ret_st ())
        else ret_st ()) (\<lambda>_.
     buyGas (te_db E))))"

definition refundGas :: "('h, 't) tx_env \<Rightarrow> uint64 \<Rightarrow> ('h, 't, unit) transition" where
  "refundGas E refundQuotient =
     bind_st (modify_st (\<lambda>st. st\<lparr>gasRemaining := gasRemaining st + ForceRefundGas (te_hook E) (st_hook st)\<rparr>)) (\<lambda>_.
     bind_st (modify_st (\<lambda>st.
       let nonrefundable = NonrefundableGas (te_hook E) (st_hook st) in
       if nonrefundable < gasUsed st then
         let refund = (gasUsed st - nonrefundable) div refundQuotient;
             refund = (if refund > sdb_refund (st_state st) then sdb_refund (st_state st) else refund) in
         st\<lparr>gasRemaining := gasRemaining st + refund\<rparr>
       else st)) (\<lambda>_.
     bind_st (get_st (\<lambda>st. (st_msg st, gasRemaining st))) (\<lambda>(msg, remaining).
     bind_st (on_state (\<lambda>s. ((), AddBalance (te_db E) (From msg) (uint remaining * GasPrice msg) s))) (\<lambda>_.
     gp_update (\<lambda>gp. AddGas gp remaining)))))"

definition start_hook :: "('h, 't) tx_env \<Rightarrow> ('h, 't, bool \<times> uint64 \<times> string option \<times> bytes) transition" where
  "start_hook E = (\<lambda>st. let (r, h, s) = StartTxHook (te_hook E) (st_hook st) (st_state st) in
     (Ret r, st\<lparr>st_hook := h, st_state := s\<rparr>))"

text \<open>Arbitrum: the tip of delayed messages is dropped.\<close>

definition drop_tip :: "('h, 't) tx_env \<Rightarrow> ('h, 't, unit) transition" where
  "drop_tip E =
     bind_st (get_st (\<lambda>st. (DropTip (te_hook E) (st_hook st), st_msg st))) (\<lambda>(drop, msg).
     if drop then
       bind_st (deref (te_BaseFee E)) (\<lambda>baseFee.
         if GasPrice msg > baseFee
         then modify_st (\<lambda>st. st\<lparr>st_msg := msg\<lparr>GasPrice := baseFee, GasTipCap := 0\<rparr>\<rparr>) else ret_st ())
     else ret_st ())"

definition charging_hook :: "('h, 't) tx_env \<Rightarrow> ('h, 't, address) transition" where
  "charging_hook E = (\<lambda>st. let (r, g, h, s) = GasChargingHook (te_hook E) (gasRemaining st) (st_hook st) (st_state st);
       st = st\<lparr>gasRemaining := g, st_hook := h, st_state := s\<rparr> in
     case r of Inl e \<Rightarrow> (Fail (ErrHook e), st) | Inr a \<Rightarrow> (Ret a, st))"

definition pay_intrinsic :: "Message \<Rightarrow> Rules \<Rightarrow> ('h, 't, unit) transition" where
  "pay_intrinsic msg rules =
     bind_st (lift_st (IntrinsicGas (msg_Data msg) (msg_AccessList msg) (To msg = None)
       (r_IsHomestead rules) (r_IsIstanbul rules) (r_IsShanghai rules))) (\<lambda>gas.
     bind_st (get_st gasRemaining) (\<lambda>g.
     if g < gas then fail_st ErrIntrinsicGas
     else modify_st (\<lambda>st. st\<lparr>gasRemaining := gasRemaining st - gas\<rparr>)))"

definition check_transfer :: "('h, 't) tx_env \<Rightarrow> Message \<Rightarrow> Rules \<Rightarrow> ('h, 't, unit) transition" where
  "check_transfer E msg rules =
     bind_st (if Value msg > 0 then on_state (CanTransfer (te_db E) (From msg) (Value msg)) else ret_st True) (\<lambda>can.
     if \<not> can then fail_st ErrInsufficientFundsForTransfer
     else if r_IsShanghai rules \<and> To msg = None \<and> int (length (msg_Data msg)) > sint (MaxInitCodeSize (te_config E))
     then fail_st ErrMaxInitCodeSizeExceeded
     else ret_st ())"

text \<open>
  The EVM at the start of the message: no call is open, and what the interpreter keeps between calls is written before it is
  read.
\<close>

definition idle_EVM :: "('h, 't) StateTransition \<Rightarrow> ('h, 't) EVM" where
  "idle_EVM st = \<lparr>ev_StateDB = st_state st, ev_h = st_hook st, ev_depth = 0, in_readOnly = False, in_returnData = [],
     callGasTemp = 0, ev_jumpdests = Map.empty\<rparr>"

definition on_evm :: "('h, 't, 'a) evm_action \<Rightarrow> ('h, 't, 'a) transition" where
  "on_evm m = (\<lambda>st. let (r, ev) = m (idle_EVM st) in (no_err r, st\<lparr>st_hook := ev_h ev, st_state := ev_StateDB ev\<rparr>))"

text \<open>The call of the EVM: contract creation, or a call after the sender's nonce is incremented.\<close>

definition run_evm :: "('h, 't) tx_env \<Rightarrow> Message \<Rightarrow> ('h, 't, bytes \<times> address option \<times> vm_error option) transition" where
  "run_evm E msg =
     (let evm = te_evm E; sender = AccountRef (From msg) in
      case To msg of
        None \<Rightarrow>
          bind_st (get_st gasRemaining) (\<lambda>g.
          bind_st (on_evm (Create evm (evm_run evm) sender (msg_Data msg) g (Value msg))) (\<lambda>(ret, deployed, g, vmerr).
          bind_st (modify_st (\<lambda>st. st\<lparr>gasRemaining := g\<rparr>)) (\<lambda>_. ret_st (ret, Some deployed, vmerr))))
      | Some dst \<Rightarrow>
          bind_st (on_state (GetNonce (te_db E) (From msg))) (\<lambda>n.
          bind_st (on_state (\<lambda>s. ((), sdb_SetNonce (te_db E) (From msg) (n + 1) s))) (\<lambda>_.
          bind_st (get_st gasRemaining) (\<lambda>g.
          bind_st (on_evm (Call evm (evm_run evm) sender dst (msg_Data msg) g (Value msg))) (\<lambda>(ret, g, vmerr).
          bind_st (modify_st (\<lambda>st. st\<lparr>gasRemaining := g\<rparr>)) (\<lambda>_. ret_st (ret, None, vmerr)))))))"

definition pay_tip :: "('h, 't) tx_env \<Rightarrow> Message \<Rightarrow> Rules \<Rightarrow> address \<Rightarrow> ('h, 't, unit) transition" where
  "pay_tip E msg rules tipReceipient =
     bind_st
       (if r_IsLondon rules
        then bind_st (deref (GasFeeCap msg)) (\<lambda>feeCap. bind_st (deref (te_BaseFee E)) (\<lambda>baseFee.
               ret_st (BigMin (GasTipCap msg) (feeCap - baseFee))))
        else ret_st (GasPrice msg)) (\<lambda>effectiveTip.
     bind_st
       (if te_NoBaseFee E then bind_st (deref (GasFeeCap msg)) (\<lambda>feeCap. ret_st (feeCap = 0 \<and> GasTipCap msg = 0))
        else ret_st False) (\<lambda>skip.
     if skip then ret_st ()
     else
       bind_st (get_st gasUsed) (\<lambda>used.
       on_state (\<lambda>s. ((), AddBalance (te_db E) tipReceipient (uint used * effectiveTip) s)))))"

definition end_hook :: "('h, 't) tx_env \<Rightarrow> vm_error option \<Rightarrow> ('h, 't, unit) transition" where
  "end_hook E vmerr = (\<lambda>st. let (h, s) = EndTxHook (te_hook E) (gasRemaining st) (vmerr = None) (st_hook st) (st_state st) in
     (Ret (), st\<lparr>st_hook := h, st_state := s\<rparr>))"

definition tx_rules :: "('h, 't) tx_env \<Rightarrow> Rules" where
  "tx_rules E = (let ctx = ev_Context (te_evm E) in
     config_Rules (te_config E) (bc_BlockNumber ctx) (bc_Random ctx \<noteq> None) (bc_Time ctx) (bc_ArbOSVersion ctx))"

definition TransitionDb :: "('h, 't) tx_env \<Rightarrow> ('h, 't, ExecutionResult) transition" where
  "TransitionDb E =
     bind_st (start_hook E) (\<lambda>(endTxNow, startHookUsedGas, err, returnData).
     if endTxNow
     then ret_st \<lparr>UsedGas = startHookUsedGas, Err = map_option Inl err, ReturnData = returnData, TopLevelDeployed = None\<rparr>
     else
       bind_st (drop_tip E) (\<lambda>_.
       bind_st (preCheck E) (\<lambda>_.
       bind_st (get_st st_msg) (\<lambda>msg.
       let rules = tx_rules E in
       bind_st (pay_intrinsic msg rules) (\<lambda>_.
       bind_st (charging_hook E) (\<lambda>tipReceipient.
       bind_st (check_transfer E msg rules) (\<lambda>_.
       bind_st (on_state_stm (Prepare (r_IsBerlin rules) (r_IsShanghai rules) (From msg) (te_Coinbase E) (To msg)
          (ActivePrecompiles E rules) (msg_AccessList msg))) (\<lambda>_.
       bind_st (run_evm E msg) (\<lambda>(ret, deployedContract, vmerr).
       bind_st (refundGas E (if \<not> r_IsLondon rules then RefundQuotient else RefundQuotientEIP3529)) (\<lambda>_.
       bind_st (pay_tip E msg rules tipReceipient) (\<lambda>_.
       bind_st (end_hook E vmerr) (\<lambda>_.
       get_st (\<lambda>st. \<lparr>UsedGas = gasUsed st, Err = map_option Inr vmerr, ReturnData = ret, TopLevelDeployed = deployedContract\<rparr>)))))))))))))"

definition NewStateTransition :: "Message \<Rightarrow> GasPool \<Rightarrow> 'h \<Rightarrow> 't StateDB \<Rightarrow> ('h, 't) StateTransition" where
  "NewStateTransition msg gp h s = \<lparr>st_gp = gp, st_msg = msg, gasRemaining = 0, initialGas = 0, st_state = s, st_hook = h\<rparr>"

definition ApplyMessage :: "('h, 't) tx_env \<Rightarrow> Message \<Rightarrow> GasPool \<Rightarrow> 'h \<Rightarrow> 't StateDB \<Rightarrow>
    (tx_error, ExecutionResult) outcome \<times> ('h, 't) StateTransition" where
  "ApplyMessage E msg gp h s = TransitionDb E (NewStateTransition msg gp h s)"

section \<open>Messages from transactions\<close>

text \<open>What \<open>TransactionToMessage\<close> reads of a transaction; \<open>sender\<close> is \<open>types.Sender\<close> for the signer at hand.\<close>

record tx_fields =
  tx_Nonce :: uint64
  tx_Gas :: uint64
  tx_GasPrice :: int
  tx_GasFeeCap :: int
  tx_GasTipCap :: int
  tx_To :: "address option"
  tx_Value :: int
  tx_Data :: bytes
  tx_AccessList :: AccessList
  tx_SkipAccountChecks :: bool

definition TransactionToMessage :: "tx_fields \<Rightarrow> (tx_fields \<Rightarrow> string + address) \<Rightarrow> int option \<Rightarrow> string + Message" where
  "TransactionToMessage tx sender baseFee =
     (let msg = \<lparr>To = tx_To tx, From = 0, Nonce = tx_Nonce tx, Value = tx_Value tx, GasLimit = tx_Gas tx,
            GasPrice = (case baseFee of None \<Rightarrow> tx_GasPrice tx
                        | Some bf \<Rightarrow> BigMin (tx_GasTipCap tx + bf) (tx_GasFeeCap tx)),
            GasFeeCap = Some (tx_GasFeeCap tx), GasTipCap = tx_GasTipCap tx, msg_Data = tx_Data tx,
            msg_AccessList = tx_AccessList tx, SkipAccountChecks = tx_SkipAccountChecks tx\<rparr> in
      case sender tx of Inl e \<Rightarrow> Inl e | Inr a \<Rightarrow> Inr (msg\<lparr>From := a\<rparr>))"

section \<open>Intrinsic gas is the sum of the prices\<close>

definition intrinsic :: "bytes \<Rightarrow> bool \<Rightarrow> bool \<Rightarrow> bool \<Rightarrow> bool \<Rightarrow> nat" where
  "intrinsic d creation homestead eip2028 eip3860 =
     (if creation \<and> homestead then 53000 else 21000)
     + (if eip2028 then 16 else 68) * length (filter (\<lambda>b. b \<noteq> 0) d)
     + 4 * length (filter (\<lambda>b. b = 0) d)
     + (if creation \<and> eip3860 then 2 * words (length d) else 0)"

lemma charge_spec:
  assumes "price \<noteq> 0"
  shows "charge price n gas = (if unat gas + unat n * unat price < 2 ^ 64
           then Ret (word_of_nat (unat gas + unat n * unat price)) else Fail ErrTxGasUintOverflow)"
proof -
  have p: "0 < unat price" using assms by (simp add: unat_gt_0)
  have g: "unat gas < 2 ^ 64" using unsigned_less[of gas, where 'a = nat] by simp
  have m: "unat (- 1 :: uint64) = 2 ^ 64 - 1" by (simp add: unsigned_minus_1_eq_mask mask_eq_exp_minus_1)
  have "unat (- 1 - gas) = 2 ^ 64 - 1 - unat gas"
    unfolding m[symmetric] by (rule unat_sub) (use g m in \<open>unfold word_le_nat_alt, linarith\<close>)
  then have "(- 1 - gas) div price < n \<longleftrightarrow> (2 ^ 64 - 1 - unat gas) div unat price < unat n"
    by (simp add: word_less_nat_alt unat_div)
  also have "\<dots> \<longleftrightarrow> 2 ^ 64 - 1 - unat gas < unat n * unat price" using p by (simp add: div_less_iff_less_mult)
  also have "\<dots> \<longleftrightarrow> \<not> unat gas + unat n * unat price < 2 ^ 64" using g by linarith
  finally show ?thesis by (simp add: charge_def)
qed

lemma nonzero_count:
  "foldl (\<lambda>nz byt. if byt \<noteq> 0 then nz + 1 else nz) k (d :: bytes) = (k + word_of_nat (length (filter (\<lambda>b. b \<noteq> 0) d)) :: uint64)"
  by (induction d arbitrary: k) simp_all

lemma core_toWordSize_eq: "core_toWordSize = toWordSize"
  by (simp add: fun_eq_iff core_toWordSize_def toWordSize_def)

lemma charge_nat:
  assumes "price \<noteq> 0" "a < 2 ^ 64"
  shows "charge price n (word_of_nat a) = (if a + unat n * unat price < 2 ^ 64
           then Ret (word_of_nat (a + unat n * unat price)) else Fail ErrTxGasUintOverflow)"
proof -
  have "unat (word_of_nat a :: uint64) = a" using assms(2) by (simp add: unat_of_nat)
  then show ?thesis using charge_spec[OF assms(1), of n "word_of_nat a"] by simp
qed

lemma zero_count:
  assumes "go_slice d"
  shows "ulen d - word_of_nat (length (filter (\<lambda>b. b \<noteq> 0) d)) = word_of_nat (length (filter (\<lambda>b. b = 0) d))"
proof -
  have "length d = length (filter (\<lambda>b. b \<noteq> 0) d) + length (filter (\<lambda>b. b = 0) d)"
    using sum_length_filter_compl[of "\<lambda>b. b \<noteq> 0" d] by simp
  then show ?thesis by (simp add: ulen_def)
qed

lemma unat_count: "go_slice d \<Longrightarrow> unat (word_of_nat (length (filter P d)) :: uint64) = length (filter P d)"
proof -
  assume "go_slice d"
  then have "length d < 2 ^ 64" by (simp add: go_slice_def)
  then have "length (filter P d) < 2 ^ 64" by (rule order_le_less_trans[OF length_filter_le])
  then show ?thesis by (simp add: unat_of_nat)
qed

text \<open>The sequence of guarded charges fails exactly when the whole sum does not fit.\<close>

lemma charges:
  assumes "p1 \<noteq> 0" "p2 \<noteq> 0" "p3 \<noteq> 0" "a < 2 ^ 64"
  shows "bind_outcome (charge p1 n1 (word_of_nat a)) (\<lambda>g. bind_outcome (charge p2 n2 g) (\<lambda>g. if b then charge p3 n3 g else Ret g))
   = (let t = a + unat n1 * unat p1 + unat n2 * unat p2 + (if b then unat n3 * unat p3 else 0) in
      if t < 2 ^ 64 then Ret (word_of_nat t) else Fail ErrTxGasUintOverflow)"
proof (cases "a + unat n1 * unat p1 < 2 ^ 64")
  case a1: True
  show ?thesis
  proof (cases "a + unat n1 * unat p1 + unat n2 * unat p2 < 2 ^ 64")
    case True
    then show ?thesis
      unfolding charge_nat[OF assms(1,4)] using a1 charge_nat[OF assms(2) a1, of n2] charge_nat[OF assms(3) True, of n3]
      by (auto simp: Let_def)
  next
    case False
    then show ?thesis unfolding charge_nat[OF assms(1,4)] using a1 charge_nat[OF assms(2) a1, of n2] by (simp add: Let_def)
  qed
next
  case False
  then show ?thesis unfolding charge_nat[OF assms(1,4)] by (simp add: Let_def)
qed

text \<open>C40. The intrinsic gas is the sum of the prices of the transaction, of its zero and non-zero data bytes, of its init code
  words and of its access list; the data part overflows a 64-bit counter exactly when the error is returned, the access
  list part is added without a check.\<close>

theorem IntrinsicGas_correct:
  assumes "go_slice d"
  shows "IntrinsicGas d al creation homestead eip2028 eip3860 =
     (if intrinsic d creation homestead eip2028 eip3860 < 2 ^ 64
      then Ret (word_of_nat (intrinsic d creation homestead eip2028 eip3860 + 2400 * length al + 1900 * StorageKeys al))
      else Fail ErrTxGasUintOverflow)"
proof -
  define nz where "nz = length (filter (\<lambda>b. b \<noteq> 0) d)"
  define z where "z = length (filter (\<lambda>b. b = 0) d)"
  define g0 where "g0 = (if creation \<and> homestead then 53000 else 21000 :: nat)"
  define p where "p = (if eip2028 then TxDataNonZeroGasEIP2028 else TxDataNonZeroGasFrontier)"
  have g0: "(if creation \<and> homestead then TxGasContractCreation else TxGas) = word_of_nat g0" "g0 < 2 ^ 64"
    by (simp_all add: g0_def TxGas_def TxGasContractCreation_def)
  have p: "p \<noteq> 0" "unat p = (if eip2028 then 16 else 68)"
    by (simp_all add: p_def TxDataNonZeroGasEIP2028_def TxDataNonZeroGasFrontier_def)
  have u: "unat (word_of_nat nz :: uint64) = nz" "unat (word_of_nat z :: uint64) = z" "unat (core_toWordSize (ulen d)) = words (length d)"
    using unat_count[OF assms] unat_ulen[OF assms] by (simp_all add: nz_def z_def core_toWordSize_eq unat_toWordSize)
  have c: "foldl (\<lambda>nz byt. if byt \<noteq> 0 then nz + 1 else nz) 0 d = (word_of_nat nz :: uint64)" using nonzero_count[of 0 d] by (simp add: nz_def)
  have cz: "ulen d - word_of_nat nz = word_of_nat z" using zero_count[OF assms] by (simp add: nz_def z_def)
  have I: "intrinsic d creation homestead eip2028 eip3860 = g0 + nz * unat p + z * 4 + (if creation \<and> eip3860 then words (length d) * 2 else 0)"
    by (simp add: intrinsic_def g0_def p(2) nz_def z_def)
  have e: "0 < ulen d \<longleftrightarrow> d \<noteq> []" using ulen_less[OF assms] unat_ulen[OF assms] by (simp add: word_less_nat_alt)
  have emp: "d = [] \<Longrightarrow> intrinsic d creation homestead eip2028 eip3860 = g0" by (simp add: intrinsic_def g0_def words_def)
  have "(if 0 < ulen d then bind_outcome (charge p (word_of_nat nz) (word_of_nat g0)) (\<lambda>gas.
           bind_outcome (charge TxDataZeroGas (word_of_nat z) gas) (\<lambda>gas.
           if creation \<and> eip3860 then charge InitCodeWordGas (core_toWordSize (ulen d)) gas else Ret gas)) else Ret (word_of_nat g0))
      = (if intrinsic d creation homestead eip2028 eip3860 < 2 ^ 64
         then Ret (word_of_nat (intrinsic d creation homestead eip2028 eip3860)) else Fail ErrTxGasUintOverflow)"
  proof (cases "d = []")
    case True
    then show ?thesis using emp g0(2) e by simp
  next
    case False
    have "TxDataZeroGas \<noteq> 0" "InitCodeWordGas \<noteq> 0" "unat TxDataZeroGas = 4" "unat InitCodeWordGas = 2"
      by (simp_all add: TxDataZeroGas_def InitCodeWordGas_def)
    then show ?thesis
      using charges[of p TxDataZeroGas InitCodeWordGas g0 "word_of_nat nz" "word_of_nat z" "creation \<and> eip3860" "core_toWordSize (ulen d)"]
        p(1) g0(2) False e by (simp only: u I Let_def if_True not_False_eq_True)
  qed
  then show ?thesis
    unfolding IntrinsicGas_def Let_def g0(1) c cz p_def[symmetric]
    by (simp add: ulen_def TxAccessListAddressGas_def TxAccessListStorageKeyGas_def mult.commute)
qed

theorem IntrinsicGas_correct_witness:
  "IntrinsicGas [0, 7, 9] [(1, [2, 3])] True True True True = Ret (53000 + 4 + 32 + 2 + 2400 + 3800)"
  using IntrinsicGas_correct[of "[0, 7, 9]" "[(1, [2, 3])]" True True True True]
  by (simp add: go_slice_def intrinsic_def words_def StorageKeys_def)

section \<open>The gas of a transition\<close>

text \<open>
  What the transition relies on in a processing hook: the gas it forces back was charged before.
\<close>

locale processing_hook =
  fixes hook :: "('h, 't) TxProcessingHook"
  assumes charging: "GasChargingHook hook g h s = (Inr a, g', h', s') \<Longrightarrow> unat g' + unat (ForceRefundGas hook h') \<le> unat g"
begin

lemma charging_effect:
  assumes "te_hook E = hook" "charging_hook E st = (Ret a, st')"
  shows "st_gp st' = st_gp st" "initialGas st' = initialGas st"
    "unat (gasRemaining st') + unat (ForceRefundGas hook (st_hook st')) \<le> unat (gasRemaining st)"
proof -
  obtain r g h s where c: "GasChargingHook hook (gasRemaining st) (st_hook st) (st_state st) = (r, g, h, s)"
    by (cases "GasChargingHook hook (gasRemaining st) (st_hook st) (st_state st)") auto
  then have r: "r = Inr a" "st' = st\<lparr>gasRemaining := g, st_hook := h, st_state := s\<rparr>"
    using assms by (auto simp: charging_hook_def Let_def split: sum.splits)
  show "st_gp st' = st_gp st" "initialGas st' = initialGas st" using r(2) by simp_all
  show "unat (gasRemaining st') + unat (ForceRefundGas hook (st_hook st')) \<le> unat (gasRemaining st)"
    using charging[OF c[unfolded r(1)]] r(2) by simp
qed

end

interpretation dp: processing_hook "DefaultTxProcessor coinbase"
  by unfold_locales (simp add: DefaultTxProcessor_def)

end
