(* ===== verification/Transition_Accounting.thy ===== *)
theory Transition_Accounting
  imports State_Transition Vm_Properties
begin

text \<open>
  The application of a message accounts for its gas and ether: what each stage of \<open>TransitionDb\<close> does to the gas pool, the gas
  that remains and the balances, and from that the gas used, the fee that is burned, and that no ether is created.
\<close>

section \<open>What each step does to gas and balances\<close>

text \<open>
  \<open>moves fr db a v s s'\<close>: the step from \<open>s\<close> to \<open>s'\<close> changes the balance of \<open>a\<close>, and the balance delta, by \<open>v\<close>, and no other
  balance; with \<open>fr\<close>, for a state without snapshots.
\<close>

definition moves :: "bool \<Rightarrow> 't Database \<Rightarrow> address \<Rightarrow> int \<Rightarrow> 't StateDB \<Rightarrow> 't StateDB \<Rightarrow> bool" where
  "moves fr db a v s s' \<longleftrightarrow> (sdb_inv db s \<longrightarrow> (fr \<longrightarrow> validRevisions s = []) \<longrightarrow>
     sdb_inv db s' \<and> (fr \<longrightarrow> validRevisions s' = []) \<and> pays db a v s s')"

lemma moves_trans: "moves fr db a v s s' \<Longrightarrow> moves fr db a w s' s'' \<Longrightarrow> moves fr db a (v + w) s s''"
  by (auto simp: moves_def pays_def)

lemma moves_refl: "moves fr db a 0 s s"
  by (simp add: moves_def pays_nothing)

lemma moves_query:
  assumes "acts db s s'" "sdb_wf s \<Longrightarrow> reads db s s'"
  shows "moves fr db a 0 s s'"
  unfolding moves_def
proof (intro impI conjI)
  assume i: "sdb_inv db s" "fr \<longrightarrow> validRevisions s = []"
  show "sdb_inv db s'" by (rule acts_inv[OF assms(1) i(1)])
  note r = assms(2)[OF sdb_inv_wf[OF i(1)]]
  show "fr \<Longrightarrow> validRevisions s' = []" using i(2) reads_fields(8)[OF r] by simp
  show "pays db a 0 s s'" by (rule pays_reads[OF r])
qed

lemma moves_GetBalance: "moves fr db a 0 s (snd (GetBalance db b s))"
  and moves_GetNonce: "moves fr db a 0 s (snd (GetNonce db b s))"
  and moves_GetCodeHash: "moves fr db a 0 s (snd (GetCodeHash db b s))"
  by (rule moves_query, rule acts_exec[of _ "GetBalance_op b"] acts_exec[of _ "GetNonce_op b"] acts_exec[of _ "GetCodeHash_op b"],
      simp, rule query_reads, assumption)+

lemma moves_journaled:
  assumes "acts db s s'" "sdb_wf s \<Longrightarrow> view_ok (view db s) \<Longrightarrow> journaled db s s'"
    and "sdb_wf s \<Longrightarrow> view_ok (view db s) \<Longrightarrow> pays db a v s s'"
  shows "moves fr db a v s s'"
  unfolding moves_def
proof (intro impI conjI)
  assume i: "sdb_inv db s" "fr \<longrightarrow> validRevisions s = []"
  note wf = sdb_inv_wf[OF i(1)] sdb_inv_view[OF i(1)]
  show "sdb_inv db s'" by (rule acts_inv[OF assms(1) i(1)])
  show "fr \<Longrightarrow> validRevisions s' = []" using i(2) assms(2)[OF wf] by (simp add: journaled_def)
  show "pays db a v s s'" by (rule assms(3)[OF wf])
qed

lemma moves_AddBalance: "moves fr db a v s (AddBalance db a v s)"
  by (rule moves_journaled[OF acts_AddBalance AddBalance_journaled AddBalance_pays])

lemma moves_SubBalance: "moves fr db a (- v) s (SubBalance db a v s)"
  by (rule moves_journaled[OF acts_SubBalance SubBalance_journaled SubBalance_pays])

lemma bind_st_RetE:
  assumes "bind_st m f s = (Ret y, s')"
  obtains x s1 where "m s = (Ret x, s1)" "f x s1 = (Ret y, s')"
  using assms by (auto simp: bind_st_Ret)

text \<open>Steps that only touch the state database.\<close>

definition steps :: "bool \<Rightarrow> 't Database \<Rightarrow> address \<Rightarrow> int \<Rightarrow> ('h, 't) StateTransition \<Rightarrow> ('h, 't) StateTransition \<Rightarrow> bool" where
  "steps fr db a v st st' \<longleftrightarrow> st' = st\<lparr>st_state := st_state st'\<rparr> \<and> moves fr db a v (st_state st) (st_state st')"

lemma steps_trans: "steps fr db a v st st' \<Longrightarrow> steps fr db a w st' st'' \<Longrightarrow> steps fr db a (v + w) st st''"
  unfolding steps_def using moves_trans by (metis StateTransition.surjective StateTransition.update_convs(5))

lemma steps_refl: "steps fr db a 0 st st"
  by (simp add: steps_def moves_refl)

lemma steps_fields:
  assumes "steps fr db a v st st'"
  shows "st_gp st' = st_gp st" "st_msg st' = st_msg st" "gasRemaining st' = gasRemaining st" "initialGas st' = initialGas st"
    "st_hook st' = st_hook st" "gasUsed st' = gasUsed st" "moves fr db a v (st_state st) (st_state st')"
proof -
  obtain s where "st' = st\<lparr>st_state := s\<rparr>" using assms unfolding steps_def by blast
  then show "st_gp st' = st_gp st" "st_msg st' = st_msg st" "gasRemaining st' = gasRemaining st" "initialGas st' = initialGas st"
    "st_hook st' = st_hook st" "gasUsed st' = gasUsed st" by (simp_all add: gasUsed_def)
  show "moves fr db a v (st_state st) (st_state st')" using assms by (simp add: steps_def)
qed

lemma steps_on_state:
  assumes "on_state f st = (Ret x, st')" "moves fr db a v (st_state st) (snd (f (st_state st)))"
  shows "steps fr db a v st st'" "x = fst (f (st_state st))"
  using assms by (auto simp: on_state_def steps_def split: prod.splits)

lemma deref_Ret: "deref x st = (Ret a, st') \<longleftrightarrow> x = Some a \<and> st' = st"
  by (cases x) (auto simp: deref_def)

lemma get_st_Ret: "get_st f st = (Ret a, st') \<longleftrightarrow> a = f st \<and> st' = st"
  by (auto simp: get_st_def)

lemma check_account_steps:
  assumes "check_account db msg st = (Ret (), st')"
  shows "steps fr db a 0 st st'"
proof -
  obtain n st1 h where 1: "on_state (GetNonce db (From msg)) st = (Ret n, st1)"
    "on_state (GetCodeHash db (From msg)) st1 = (Ret h, st')"
    using assms by (auto simp: check_account_def bind_st_Ret split: if_splits)
  show ?thesis
    using steps_trans[OF steps_on_state(1)[OF 1(1) moves_GetNonce] steps_on_state(1)[OF 1(2) moves_GetCodeHash], of fr a] by simp
qed

lemma check_fees_Ret:
  assumes "check_fees bf msg st = (Ret (), st')"
  shows "st' = st \<and> (\<exists>cap b. GasFeeCap msg = Some cap \<and> bf = Some b \<and> b \<le> cap)"
  using assms by (auto simp: check_fees_def bind_st_Ret deref_Ret split: if_splits)

lemma fees_given_same: "fees_given msg st = (Ret b, st') \<Longrightarrow> st' = st"
  by (auto simp: fees_given_def bind_st_Ret deref_Ret)

text \<open>The price of the gas, and what the sender must have.\<close>

abbreviation gas_cost :: "Message \<Rightarrow> int" where
  "gas_cost m \<equiv> uint (GasLimit m) * GasPrice m"

definition upfront :: "Message \<Rightarrow> int" where
  "upfront m = (case GasFeeCap m of None \<Rightarrow> gas_cost m | Some cap \<Rightarrow> uint (GasLimit m) * cap + Value m)"

lemma buyGas_effect:
  assumes "buyGas db st = (Ret (), st')"
  shows "\<exists>gp s. SubGas (st_gp st) (GasLimit (st_msg st)) = Ret gp
    \<and> st' = st\<lparr>st_gp := gp, gasRemaining := gasRemaining st + GasLimit (st_msg st), initialGas := GasLimit (st_msg st), st_state := s\<rparr>
    \<and> moves fr db (From (st_msg st)) (- gas_cost (st_msg st)) (st_state st) s
    \<and> (sdb_wf (st_state st) \<longrightarrow> upfront (st_msg st) \<le> bal db (st_state st) (From (st_msg st)))"
proof -
  let ?m = "st_msg st" and ?s = "st_state st"
  obtain st1 where 1: "on_state (GetBalance db (From ?m)) st = (Ret (fst (GetBalance db (From ?m) ?s)), st1)"
    "st1 = st\<lparr>st_state := snd (GetBalance db (From ?m) ?s)\<rparr>"
    by (simp add: on_state_def split: prod.splits)
  obtain gp where 2: "SubGas (st_gp st) (GasLimit ?m) = Ret gp" "upfront ?m \<le> fst (GetBalance db (From ?m) ?s)"
    "st' = st\<lparr>st_gp := gp, gasRemaining := gasRemaining st + GasLimit ?m, initialGas := GasLimit ?m,
       st_state := SubBalance db (From ?m) (gas_cost ?m) (snd (GetBalance db (From ?m) ?s))\<rparr>"
    using assms 1 unfolding buyGas_def Let_def upfront_def
    by (auto simp: bind_st_Ret get_st_Ret gp_update_def on_state_def split: outcome.splits if_splits)
  show ?thesis
    using 2 moves_trans[OF moves_GetBalance[of fr db "From ?m" ?s "From ?m"] moves_SubBalance[of fr db "From ?m" "gas_cost ?m"]] GetBalance_bal(1)[of ?s db "From ?m"] by fastforce
qed

lemma preCheck_effect:
  assumes "preCheck E st = (Ret (), st')"
  shows "\<exists>gp s. SubGas (st_gp st) (GasLimit (st_msg st)) = Ret gp
    \<and> st' = st\<lparr>st_gp := gp, gasRemaining := gasRemaining st + GasLimit (st_msg st), initialGas := GasLimit (st_msg st), st_state := s\<rparr>
    \<and> moves fr (te_db E) (From (st_msg st)) (- gas_cost (st_msg st)) (st_state st) s
    \<and> (sdb_inv (te_db E) (st_state st) \<longrightarrow> (fr \<longrightarrow> validRevisions (st_state st) = []) \<longrightarrow>
         upfront (st_msg st) \<le> bal (te_db E) (st_state st) (From (st_msg st)))"
    "IsLondon (te_config E) (te_BlockNumber E) \<Longrightarrow> \<not> te_NoBaseFee E \<Longrightarrow>
      \<exists>cap b. GasFeeCap (st_msg st) = Some cap \<and> te_BaseFee E = Some b \<and> b \<le> cap"
proof -
  obtain st1 where 1: "(if \<not> SkipAccountChecks (st_msg st) then check_account (te_db E) (st_msg st) else ret_st ()) st = (Ret (), st1)"
    "buyGas (te_db E) st1 = (Ret (), st')"
    and fees: "IsLondon (te_config E) (te_BlockNumber E) \<Longrightarrow> \<not> te_NoBaseFee E \<Longrightarrow>
      \<exists>cap b. GasFeeCap (st_msg st) = Some cap \<and> te_BaseFee E = Some b \<and> b \<le> cap"
    using assms unfolding preCheck_def
    by (auto simp: bind_st_Ret get_st_Ret dest!: check_fees_Ret fees_given_same split: if_splits)
  show "IsLondon (te_config E) (te_BlockNumber E) \<Longrightarrow> \<not> te_NoBaseFee E \<Longrightarrow>
      \<exists>cap b. GasFeeCap (st_msg st) = Some cap \<and> te_BaseFee E = Some b \<and> b \<le> cap" by (rule fees)
  have "steps fr (te_db E) a 0 st st1" for a
    using 1(1) check_account_steps[of "te_db E" "st_msg st" st st1 fr a] steps_refl[of fr "te_db E" a] by (auto split: if_splits)
  then obtain s1 where s1: "st1 = st\<lparr>st_state := s1\<rparr>" "moves fr (te_db E) (From (st_msg st)) 0 (st_state st) s1"
    unfolding steps_def by blast
  have b: "bal (te_db E) s1 = bal (te_db E) (st_state st) \<and> sdb_wf s1"
    if "sdb_inv (te_db E) (st_state st)" "fr \<longrightarrow> validRevisions (st_state st) = []"
    using s1(2) that sdb_inv_wf by (auto simp: moves_def pays_nothing)
  show "\<exists>gp s. SubGas (st_gp st) (GasLimit (st_msg st)) = Ret gp
    \<and> st' = st\<lparr>st_gp := gp, gasRemaining := gasRemaining st + GasLimit (st_msg st), initialGas := GasLimit (st_msg st), st_state := s\<rparr>
    \<and> moves fr (te_db E) (From (st_msg st)) (- gas_cost (st_msg st)) (st_state st) s
    \<and> (sdb_inv (te_db E) (st_state st) \<longrightarrow> (fr \<longrightarrow> validRevisions (st_state st) = []) \<longrightarrow>
         upfront (st_msg st) \<le> bal (te_db E) (st_state st) (From (st_msg st)))"
    using buyGas_effect[OF 1(2), of fr] s1(1) moves_trans[OF s1(2)] b by fastforce
qed

lemma drop_tip_effect:
  assumes "drop_tip E st = (Ret (), st')"
  shows "\<exists>m. st' = st\<lparr>st_msg := m\<rparr> \<and> GasLimit m = GasLimit (st_msg st) \<and> From m = From (st_msg st) \<and> Value m = Value (st_msg st)
     \<and> (\<not> DropTip (te_hook E) (st_hook st) \<longrightarrow> m = st_msg st)"
proof -
  have "st' = st \<or> (\<exists>b. st' = st\<lparr>st_msg := (st_msg st)\<lparr>GasPrice := b, GasTipCap := 0\<rparr>\<rparr> \<and> DropTip (te_hook E) (st_hook st))"
    using assms by (auto simp: drop_tip_def bind_st_Ret get_st_Ret deref_Ret split: if_splits)
  then show ?thesis by (auto intro: exI[of _ "st_msg st"])
qed

lemma pay_intrinsic_effect:
  assumes "pay_intrinsic msg rules st = (Ret (), st')"
  shows "\<exists>g. st' = st\<lparr>gasRemaining := g\<rparr> \<and> unat g \<le> unat (gasRemaining st)"
proof -
  have "\<exists>gas. gas \<le> gasRemaining st \<and> st' = st\<lparr>gasRemaining := gasRemaining st - gas\<rparr>"
    using assms by (force simp: pay_intrinsic_def bind_st_Ret get_st_Ret not_less split: if_splits)
  then show ?thesis by (auto simp: unat_sub)
qed

lemma check_transfer_steps:
  assumes "check_transfer E msg rules st = (Ret (), st')"
  shows "steps fr (te_db E) a 0 st st'"
  using assms moves_GetBalance[of fr "te_db E" a "st_state st" "From msg"] unfolding check_transfer_def
  by (auto simp: bind_st_Ret steps_refl dest!: steps_on_state(1)[where db = "te_db E" and fr = fr and a = a and v = 0] split: if_splits)

lemma prepare_steps:
  assumes "on_state_stm (Prepare b sh sender coinbase dst pre ls) st = (Ret (), st')"
  shows "steps True db a 0 st st'"
  using assms Prepare_effect[where db = db and c = a and b = b and sh = sh and s = "st_state st"]
  by (auto simp: on_state_stm_def steps_def moves_def split: prod.splits outcome.splits)

lemma refundGas_effect:
  assumes "refundGas E q st = (Ret (), st')"
  defines "g1 \<equiv> gasRemaining st + ForceRefundGas (te_hook E) (st_hook st)"
  defines "used \<equiv> initialGas st - g1"
  defines "g2 \<equiv> g1 + (if NonrefundableGas (te_hook E) (st_hook st) < used
      then min ((used - NonrefundableGas (te_hook E) (st_hook st)) div q) (sdb_refund (st_state st)) else 0)"
  shows "\<exists>gp s. AddGas (st_gp st) g2 = Ret gp \<and> st' = st\<lparr>st_gp := gp, gasRemaining := g2, st_state := s\<rparr>
    \<and> moves fr (te_db E) (From (st_msg st)) (uint g2 * GasPrice (st_msg st)) (st_state st) s"
proof -
  have "\<exists>gp. AddGas (st_gp st) g2 = Ret gp \<and> st' = st\<lparr>st_gp := gp, gasRemaining := g2,
      st_state := AddBalance (te_db E) (From (st_msg st)) (uint g2 * GasPrice (st_msg st)) (st_state st)\<rparr>"
    using assms(1)
    by (auto simp: refundGas_def bind_st_Ret get_st_Ret gp_update_def on_state_def gasUsed_def Let_def g2_def g1_def used_def min_def
        split: outcome.splits if_splits)
  then show ?thesis using moves_AddBalance by fastforce
qed

lemma pay_tip_effect:
  fixes st st' :: "('a, 'b) StateTransition"
  assumes "pay_tip E msg rules a st = (Ret (), st')"
  shows "\<exists>tip. steps fr (te_db E) a (uint (gasUsed st) * tip) st st'
    \<and> (\<not> te_NoBaseFee E \<longrightarrow> (if r_IsLondon rules
         then \<exists>cap bf. GasFeeCap msg = Some cap \<and> te_BaseFee E = Some bf \<and> tip = min (GasTipCap msg) (cap - bf)
         else tip = GasPrice msg))"
proof -
  have st: "on_state (\<lambda>s. ((), AddBalance (te_db E) a v s)) st = (Ret (), st') \<Longrightarrow> steps fr (te_db E) a v st st'" for v
    using steps_on_state(1)[of "\<lambda>s. ((), AddBalance (te_db E) a v s)" st "()" st' fr "te_db E" a v] moves_AddBalance[of fr "te_db E" a v "st_state st"] by simp
  have z: "steps fr (te_db E) a (uint (gasUsed st) * 0) st st" by (simp add: steps_refl)
  obtain tip where t: "if r_IsLondon rules
      then \<exists>cap bf. GasFeeCap msg = Some cap \<and> te_BaseFee E = Some bf \<and> tip = min (GasTipCap msg) (cap - bf)
      else tip = GasPrice msg"
    and r: "bind_st (if te_NoBaseFee E then bind_st (deref (GasFeeCap msg)) (\<lambda>feeCap. ret_st (feeCap = 0 \<and> GasTipCap msg = 0))
        else ret_st False) (\<lambda>skip. if skip then ret_st () else bind_st (get_st gasUsed) (\<lambda>used.
          on_state (\<lambda>s. ((), AddBalance (te_db E) a (uint used * tip) s)))) st = (Ret (), st')"
  proof -
    obtain tip st1 where 1: "((if r_IsLondon rules
        then bind_st (deref (GasFeeCap msg)) (\<lambda>feeCap. bind_st (deref (te_BaseFee E)) (\<lambda>baseFee.
               ret_st (BigMin (GasTipCap msg) (feeCap - baseFee))))
        else ret_st (GasPrice msg)) :: ('a, 'b, int) transition) st = (Ret tip, st1)"
      "bind_st (if te_NoBaseFee E then bind_st (deref (GasFeeCap msg)) (\<lambda>feeCap. ret_st (feeCap = 0 \<and> GasTipCap msg = 0))
        else ret_st False) (\<lambda>skip. if skip then ret_st () else bind_st (get_st gasUsed) (\<lambda>used.
          on_state (\<lambda>s. ((), AddBalance (te_db E) a (uint used * tip) s)))) st1 = (Ret (), st')"
      by (rule bind_st_RetE[OF assms[unfolded pay_tip_def]])
    from 1(1) have "st1 = st" "if r_IsLondon rules
      then \<exists>cap bf. GasFeeCap msg = Some cap \<and> te_BaseFee E = Some bf \<and> tip = min (GasTipCap msg) (cap - bf)
      else tip = GasPrice msg"
      by (auto simp: bind_st_Ret deref_Ret BigMin_def min_def split: if_splits)
    then show thesis using that 1(2) by simp
  qed
  from r consider "te_NoBaseFee E" "st' = st" | "on_state (\<lambda>s. ((), AddBalance (te_db E) a (uint (gasUsed st) * tip) s)) st = (Ret (), st')"
    by (auto simp: bind_st_Ret get_st_Ret deref_Ret split: if_splits)
  then show ?thesis
  proof cases
    case 1
    then show ?thesis using z by blast
  next
    case 2
    then show ?thesis using st t by blast
  qed
qed

section \<open>Gas and ether are accounted for\<close>

text \<open>The stages of a transition.\<close>

lemma transition_stages:
  assumes "TransitionDb E st = (Ret r, st')" "\<not> fst (fst (StartTxHook (te_hook E) (st_hook st) (st_state st)))"
  obtains st1 m st3 tipto st4 st5 ret dep vmerr st6 st7 st8 st9 where
    "st1 = st\<lparr>st_hook := fst (snd (StartTxHook (te_hook E) (st_hook st) (st_state st))),
       st_state := snd (snd (StartTxHook (te_hook E) (st_hook st) (st_state st))), st_msg := m\<rparr>"
    "GasLimit m = GasLimit (st_msg st)" "From m = From (st_msg st)" "Value m = Value (st_msg st)"
    "\<not> DropTip (te_hook E) (st_hook st1) \<longrightarrow> m = st_msg st"
    "preCheck E st1 = (Ret (), st3)"
    "pay_intrinsic m (tx_rules E) st3 = (Ret (), st4)"
    "charging_hook E st4 = (Ret tipto, st5)"
    "\<forall>a. steps True (te_db E) a 0 st5 st6"
    "run_evm E m st6 = (Ret (ret, dep, vmerr), st7)"
    "refundGas E (if \<not> r_IsLondon (tx_rules E) then RefundQuotient else RefundQuotientEIP3529) st7 = (Ret (), st8)"
    "pay_tip E m (tx_rules E) tipto st8 = (Ret (), st9)"
    "end_hook E vmerr st9 = (Ret (), st')"
    "UsedGas r = gasUsed st'" "Err r = map_option Inr vmerr"
proof -
  obtain b u e d h s where H: "StartTxHook (te_hook E) (st_hook st) (st_state st) = ((b, u, e, d), h, s)"
    by (cases "StartTxHook (te_hook E) (st_hook st) (st_state st)") auto
  have S: "start_hook E st = (Ret (b, u, e, d), st\<lparr>st_hook := h, st_state := s\<rparr>)" by (simp add: start_hook_def H)
  have nb: "\<not> b" using assms(2) H by simp
  define st0 where "st0 = st\<lparr>st_hook := h, st_state := s\<rparr>"
  obtain st1 st3 st4 tipto st5 st5' st6 ret dep vmerr st7 st8 st9 where T:
    "drop_tip E st0 = (Ret (), st1)" "preCheck E st1 = (Ret (), st3)"
    "pay_intrinsic (st_msg st3) (tx_rules E) st3 = (Ret (), st4)" "charging_hook E st4 = (Ret tipto, st5)"
    "check_transfer E (st_msg st3) (tx_rules E) st5 = (Ret (), st5')"
    "on_state_stm (Prepare (r_IsBerlin (tx_rules E)) (r_IsShanghai (tx_rules E)) (From (st_msg st3)) (te_Coinbase E)
       (To (st_msg st3)) (ActivePrecompiles E (tx_rules E)) (msg_AccessList (st_msg st3))) st5' = (Ret (), st6)"
    "run_evm E (st_msg st3) st6 = (Ret (ret, dep, vmerr), st7)"
    "refundGas E (if \<not> r_IsLondon (tx_rules E) then RefundQuotient else RefundQuotientEIP3529) st7 = (Ret (), st8)"
    "pay_tip E (st_msg st3) (tx_rules E) tipto st8 = (Ret (), st9)" "end_hook E vmerr st9 = (Ret (), st')"
    "r = \<lparr>UsedGas = gasUsed st', Err = map_option Inr vmerr, ReturnData = ret, TopLevelDeployed = dep\<rparr>"
    using assms(1) nb unfolding TransitionDb_def Let_def st0_def
    by (simp add: bind_st_Ret get_st_Ret S split: prod.splits) blast
  obtain m where m: "st1 = st0\<lparr>st_msg := m\<rparr>" "GasLimit m = GasLimit (st_msg st0)" "From m = From (st_msg st0)" "Value m = Value (st_msg st0)"
    "\<not> DropTip (te_hook E) (st_hook st0) \<longrightarrow> m = st_msg st0" using drop_tip_effect[OF T(1)] by blast
  have m3: "st_msg st3 = m" using preCheck_effect(1)[OF T(2), of True] m(1) by auto
  have s6: "steps True (te_db E) a 0 st5 st6" for a
    using steps_trans[OF check_transfer_steps[OF T(5)] prepare_steps[OF T(6)], of a] by simp
  show thesis
    by (rule that[of st1 m st3 st4 tipto st5 st6 ret dep vmerr st7 st8 st9])
       (use m m3 T s6 H in \<open>simp_all add: st0_def\<close>)
qed

text \<open>The run of the EVM.\<close>

lemma on_evm_effect:
  assumes "keeps E P m" "on_evm m st = (Ret x, st')"
  shows "P x \<and> (\<exists>h s. st' = st\<lparr>st_hook := h, st_state := s\<rparr> \<and> settles (ev_db E) (st_state st) s
    \<and> ForceRefundGas (ev_hook E) h = ForceRefundGas (ev_hook E) (st_hook st))"
proof -
  obtain r ev' where m: "m (idle_EVM st) = (r, ev')" by fastforce
  then have r: "r = Ret x" "st' = st\<lparr>st_hook := ev_h ev', st_state := ev_StateDB ev'\<rparr>"
    using assms(2) by (auto simp: on_evm_def no_err_def split: outcome.splits)
  have "evm_effect E (idle_EVM st) ev' \<and> P x"
    by (rule trip_Ret[OF assms(1)[unfolded keeps_def, rule_format]]) (use m r in simp)
  then show ?thesis using r(2) by (auto simp: evm_effect_def idle_EVM_def)
qed

lemma run_evm_effect:
  assumes "well_formed_env (te_evm E)" "precompiles_ok (te_evm E)" "0 \<le> Value m" "run_evm E m st = (Ret x, st')"
  shows "\<exists>g h s. st' = st\<lparr>st_hook := h, st_state := s, gasRemaining := g\<rparr> \<and> unat g \<le> unat (gasRemaining st)
    \<and> settles (te_db E) (st_state st) s \<and> ForceRefundGas (te_hook E) h = ForceRefundGas (te_hook E) (st_hook st)"
proof -
  let ?E = "te_evm E"
  have run: "run_spec ?E (evm_run ?E)" unfolding evm_run_def by (rule runner_at_spec[OF assms(1,2)])
  show ?thesis
  proof (cases "To m")
    case None
    obtain ret a g err st1 where 1: "on_evm (Create ?E (evm_run ?E) (AccountRef (From m)) (msg_Data m) (gasRemaining st) (Value m)) st
        = (Ret (ret, a, g, err), st1)" "st' = st1\<lparr>gasRemaining := g\<rparr>"
      using assms(4) None by (auto simp: run_evm_def Let_def bind_st_Ret get_st_Ret)
    show ?thesis
      using on_evm_effect[OF creates_spec(1)[OF run assms(3), unfolded create_spec_keeps] 1(1)] 1(2) by auto
  next
    case (Some d)
    let ?s1 = "snd (GetNonce (te_db E) (From m) (st_state st))"
    define s2 where "s2 = sdb_SetNonce (te_db E) (From m) (fst (GetNonce (te_db E) (From m) (st_state st)) + 1) ?s1"
    obtain ret g err st1 where 1: "on_evm (Call ?E (evm_run ?E) (AccountRef (From m)) d (msg_Data m) (gasRemaining st) (Value m)) (st\<lparr>st_state := s2\<rparr>)
        = (Ret (ret, g, err), st1)" "st' = st1\<lparr>gasRemaining := g\<rparr>"
      using assms(4) Some by (auto simp: run_evm_def Let_def bind_st_Ret get_st_Ret on_state_def s2_def split: prod.splits)
    have "settles (te_db E) (st_state st) s2" unfolding s2_def by (intro settles_ops settles_refl)
    then show ?thesis
      using on_evm_effect[OF Call_spec[OF run assms(2,3), unfolded call_spec_keeps] 1(1)] 1(2) settles_trans by fastforce
  qed
qed

lemma SubGas_Ret: "SubGas gp a = Ret gp' \<Longrightarrow> unat a \<le> unat gp \<and> unat gp' = unat gp - unat a"
  by (auto simp: SubGas_def word_less_nat_alt unat_sub word_le_nat_alt split: if_splits)

lemma AddGas_spec: "AddGas gp a = (if unat gp + unat a < 2 ^ 64 then Ret (gp + a) else Panic)"
proof -
  have m: "unat (- 1 :: uint64) = 2 ^ 64 - 1" by (simp add: unsigned_minus_1_eq_mask mask_eq_exp_minus_1)
  have a: "unat a < 2 ^ 64" using unsigned_less[of a, where 'a = nat] by simp
  have "unat (- 1 - a) = 2 ^ 64 - 1 - unat a"
    unfolding m[symmetric] by (rule unat_sub) (use a m in \<open>unfold word_le_nat_alt, linarith\<close>)
  then have "gp > - 1 - a \<longleftrightarrow> \<not> unat gp + unat a < 2 ^ 64" using a by (simp only: word_less_nat_alt) linarith
  then show ?thesis by (simp add: AddGas_def)
qed

lemma AddGas_Ret: "AddGas gp a = Ret gp' \<Longrightarrow> unat gp' = unat gp + unat a"
  by (auto simp: AddGas_spec unat_add_small split: if_splits)

text \<open>The refund never exceeds what was used.\<close>

lemma refund_bound:
  fixes L g f n q c :: uint64
  assumes "unat g + unat f \<le> unat L"
  defines "g1 \<equiv> g + f"
  defines "used \<equiv> L - g1"
  defines "g2 \<equiv> g1 + (if n < used then min ((used - n) div q) c else 0)"
  shows "unat g2 \<le> unat L" "unat (L - g2) = unat L - unat g2" "unat g1 \<le> unat g2"
proof -
  have l: "unat L < 2 ^ 64" using unsigned_less[of L, where 'a = nat] by simp
  have g1: "unat g1 = unat g + unat f" unfolding g1_def by (rule unat_add_small) (use assms(1) l in linarith)
  have u: "unat used = unat L - unat g1" unfolding used_def by (rule unat_sub) (use g1 assms(1) in \<open>simp add: word_le_nat_alt\<close>)
  define x where "x = (if n < used then min ((used - n) div q) c else 0)"
  have "unat x \<le> unat used"
  proof (cases "n < used")
    case True
    then have "unat (used - n) = unat used - unat n" by (intro unat_sub) simp
    then have "unat ((used - n) div q) \<le> unat used" by (simp add: unat_div) (meson diff_le_self div_le_dividend le_trans)
    then show ?thesis using True by (auto simp: x_def min_def word_le_nat_alt)
  qed (simp add: x_def)
  then have b: "unat g1 + unat x \<le> unat L" using u g1 assms(1) by linarith
  have g2: "unat g2 = unat g1 + unat x"
    unfolding g2_def x_def[symmetric] by (rule unat_add_small) (use b l in linarith)
  show "unat g2 \<le> unat L" "unat g1 \<le> unat g2" using b g2 by simp_all
  then show "unat (L - g2) = unat L - unat g2" by (intro unat_sub) (simp add: word_le_nat_alt)
qed

lemma refundGas_accounts:
  assumes "refundGas E q st = (Ret (), st')"
    and "unat (gasRemaining st) + unat (ForceRefundGas (te_hook E) (st_hook st)) \<le> unat (initialGas st)"
  obtains g2 gp s where "unat g2 \<le> unat (initialGas st)" "unat (initialGas st - g2) = unat (initialGas st) - unat g2"
    "AddGas (st_gp st) g2 = Ret gp" "st' = st\<lparr>st_gp := gp, gasRemaining := g2, st_state := s\<rparr>"
    "moves fr (te_db E) (From (st_msg st)) (uint g2 * GasPrice (st_msg st)) (st_state st) s"
proof -
  define g1 where "g1 = gasRemaining st + ForceRefundGas (te_hook E) (st_hook st)"
  define g2 where "g2 = g1 + (if NonrefundableGas (te_hook E) (st_hook st) < initialGas st - g1
      then min ((initialGas st - g1 - NonrefundableGas (te_hook E) (st_hook st)) div q) (sdb_refund (st_state st)) else 0)"
  have b: "unat g2 \<le> unat (initialGas st)" "unat (initialGas st - g2) = unat (initialGas st) - unat g2"
    unfolding g2_def g1_def by (rule refund_bound[OF assms(2)])+
  from refundGas_effect[OF assms(1), of fr, folded g1_def, folded g2_def] b show thesis using that by blast
qed

text \<open>C7. Gas is accounted for: when a message is applied, the gas used is at most its gas limit, the limit was available
  in the block's gas pool, and the pool afterwards is what it was less the gas used. The hook returns only gas that it
  has charged and does not settle the message itself in \<open>StartTxHook\<close>; that the EVM returns no more gas than it was given is part of the proof.\<close>

theorem ApplyMessage_gas:
  assumes "processing_hook (te_hook E)" "well_formed_env (te_evm E)" "precompiles_ok (te_evm E)" "0 \<le> Value msg" "\<not> fst (fst (StartTxHook (te_hook E) h s))"
    and "ApplyMessage E msg gp h s = (Ret r, st')"
  shows "unat (UsedGas r) \<le> unat (GasLimit msg) \<and> unat (GasLimit msg) \<le> unat gp \<and> unat (st_gp st') + unat (UsedGas r) = unat gp"
proof -
  define st where "st = NewStateTransition msg gp h s"
  have st: "st_gp st = gp" "st_msg st = msg" "gasRemaining st = 0" "st_hook st = h" "st_state st = s"
    by (simp_all add: st_def NewStateTransition_def)
  define L where "L = GasLimit msg"
  have T: "TransitionDb E st = (Ret r, st')" using assms(6) by (simp add: ApplyMessage_def st_def)
  have nb: "\<not> fst (fst (StartTxHook (te_hook E) (st_hook st) (st_state st)))" using assms(5) by (simp add: st)
  obtain st1 m st3 tipto st4 st5 ret dep vmerr st6 st7 st8 st9 where
    s1: "st1 = st\<lparr>st_hook := fst (snd (StartTxHook (te_hook E) (st_hook st) (st_state st))),
       st_state := snd (snd (StartTxHook (te_hook E) (st_hook st) (st_state st))), st_msg := m\<rparr>"
    and m: "GasLimit m = GasLimit (st_msg st)" and v: "Value m = Value (st_msg st)"
    and pc: "preCheck E st1 = (Ret (), st3)" and pi: "pay_intrinsic m (tx_rules E) st3 = (Ret (), st4)"
    and ch: "charging_hook E st4 = (Ret tipto, st5)" and s6: "\<forall>a. steps True (te_db E) a 0 st5 st6"
    and ev: "run_evm E m st6 = (Ret (ret, dep, vmerr), st7)"
    and rf: "refundGas E (if \<not> r_IsLondon (tx_rules E) then RefundQuotient else RefundQuotientEIP3529) st7 = (Ret (), st8)"
    and pt: "pay_tip E m (tx_rules E) tipto st8 = (Ret (), st9)" and eh: "end_hook E vmerr st9 = (Ret (), st')"
    and ug: "UsedGas r = gasUsed st'"
    by (rule transition_stages[OF T nb])
  have m1: "GasLimit (st_msg st1) = L" "st_gp st1 = gp" "gasRemaining st1 = 0" using s1 m st by (simp_all add: L_def)
  obtain gp3 where g3: "SubGas gp L = Ret gp3" "st_gp st3 = gp3" "gasRemaining st3 = L" "initialGas st3 = L"
    using preCheck_effect(1)[OF pc, of True] m1 by auto
  have g4: "unat (gasRemaining st4) \<le> unat L" "st_gp st4 = gp3" "initialGas st4 = L"
    using pay_intrinsic_effect[OF pi] g3 by auto
  have g5: "st_gp st5 = gp3" "initialGas st5 = L"
    "unat (gasRemaining st5) + unat (ForceRefundGas (te_hook E) (st_hook st5)) \<le> unat L"
    using processing_hook.charging_effect[OF assms(1) refl ch] g4 by auto
  have f6: "st_gp st6 = st_gp st5" "initialGas st6 = initialGas st5" "gasRemaining st6 = gasRemaining st5" "st_hook st6 = st_hook st5"
    by (rule steps_fields[OF s6[rule_format, of 0]])+
  have g7: "st_gp st7 = gp3" "initialGas st7 = L"
    "unat (gasRemaining st7) + unat (ForceRefundGas (te_hook E) (st_hook st7)) \<le> unat L"
    using run_evm_effect[OF assms(2,3) _ ev] f6 g5 v assms(4) by (auto simp: st)
  obtain g2 gp8 where g8: "unat g2 \<le> unat L" "unat (L - g2) = unat L - unat g2" "AddGas gp3 g2 = Ret gp8"
    "st_gp st8 = gp8" "gasRemaining st8 = g2" "initialGas st8 = L"
    by (rule refundGas_accounts[OF rf]) (use g7 in auto)
  obtain w where "steps True (te_db E) tipto w st8 st9" using pay_tip_effect[OF pt, of True] by blast
  then have f9: "st_gp st9 = gp8" "gasRemaining st9 = g2" "initialGas st9 = L"
    using g8 steps_fields[of True "te_db E" tipto w st8 st9] by simp_all
  have f: "st_gp st' = gp8" "gasUsed st' = L - g2"
    using eh f9 by (auto simp: end_hook_def gasUsed_def split: prod.splits)
  show ?thesis
    using f ug g8 SubGas_Ret[OF g3(1)] AddGas_Ret[OF g8(3)] by (simp add: L_def)
qed

text \<open>A call in a London block with base fee 7, from an account with a million wei, to an account that does not exist.\<close>

definition london_context :: BlockContext where
  "london_context = \<lparr>bc_GetHash = (\<lambda>n. 0), bc_Coinbase = 9, bc_GasLimit = 30000000, bc_BlockNumber = 13000000, bc_Time = 7,
     bc_Difficulty = Some 1, bc_BaseFee = Some 7, bc_Random = None, bc_ArbOSVersion = 0\<rparr>"

definition london_env :: "(unit, unit) tx_env" where
  "london_env = \<lparr>te_evm = NewEVM sample_evm_env london_context 1 (Some 8) MainnetChainConfig, te_NoBaseFee = False,
     PrecompiledAddressesArbitrum = [], PrecompiledAddressesBerlin = [], PrecompiledAddressesIstanbul = [],
     PrecompiledAddressesByzantium = [], PrecompiledAddressesHomestead = []\<rparr>"

definition london_tx :: tx_fields where
  "london_tx = \<lparr>tx_Nonce = 0, tx_Gas = 30000, tx_GasPrice = 0, tx_GasFeeCap = 9, tx_GasTipCap = 1, tx_To = Some 2, tx_Value = 0,
     tx_Data = [], tx_AccessList = [], tx_SkipAccountChecks = True\<rparr>"

definition london_msg :: Message where
  "london_msg = \<lparr>To = Some 2, From = 1, Nonce = 0, Value = 0, GasLimit = 30000, GasPrice = 8, GasFeeCap = Some 9, GasTipCap = 1,
     msg_Data = [], msg_AccessList = [], SkipAccountChecks = True\<rparr>"

definition rich_state :: "unit StateDB" where
  "rich_state = AddBalance empty_db 1 1000000 empty_state"

text \<open>Account 1 is loaded, account 2 does not exist.\<close>

definition one_account :: "unit StateDB \<Rightarrow> bool" where
  "one_account s \<longleftrightarrow> (\<exists>o1. stateObjects s 1 = Some o1 \<and> so_address o1 = 1 \<and> \<not> deleted o1) \<and> stateObjects s 2 = None \<and> snap s = None"

lemmas account_eval = one_account_def sdb_eval empty_db_def GetBalance_def GetNonce_def so_SubBalance_def so_touch_def so_empty_def

lemma one_account_rich: "one_account rich_state"
  by (simp add: rich_state_def account_eval empty_state_def StateDB_New_def)

lemma one_account_ops:
  assumes "one_account s"
  shows "one_account (snd (GetBalance empty_db 1 s))" "one_account (SubBalance empty_db 1 v s)"
    "one_account (snd (GetNonce empty_db 1 s))" "one_account (sdb_SetNonce empty_db 1 n s)"
    "one_account (s\<lparr>sdb_accessList := al, sdb_transient := t\<rparr>)" "\<not> fst (sdb_Exist empty_db 2 (snd (Snapshot s)))"
  using assms by (auto simp: account_eval sdb_Exist_def)

lemma BitLen_small: "BitLen 9 = 4" "BitLen 1 = 1" "BitLen 0 = 0"
  by (simp_all add: BitLen_def bitlen.simps)

lemma rich_state_balance: "fst (GetBalance empty_db 1 rich_state) = 1000000"
  by (simp add: rich_state_def empty_state_def StateDB_New_def empty_db_def sdb_eval GetBalance_def so_touch_def so_empty_def)

lemma rich_state_ok: "sdb_inv empty_db rich_state" "validRevisions rich_state = []" "solvent empty_db rich_state"
proof -
  have i: "sdb_inv empty_db empty_state" by (rule StateDB_New_inv[OF empty_db_ok])
  show "sdb_inv empty_db rich_state" unfolding rich_state_def by (rule acts_inv[OF acts_AddBalance i])
  show "validRevisions rich_state = []"
    by (simp add: rich_state_def empty_state_def StateDB_New_def empty_db_def sdb_eval GetBalance_def so_touch_def so_empty_def)
  show "solvent empty_db rich_state"
    unfolding rich_state_def using empty_state_solvent
    by (intro pays_solvent[OF AddBalance_pays[OF sdb_inv_wf[OF i] sdb_inv_view[OF i]]]) (simp_all add: solvent_def)
qed

text \<open>The return of unused gas cannot overflow the pool it was taken from.\<close>

lemma refundGas_returns:
  assumes "unat (gasRemaining st) + unat (ForceRefundGas (te_hook E) (st_hook st)) \<le> unat (initialGas st)"
    and "unat (st_gp st) + unat (initialGas st) < 2 ^ 64"
  shows "\<exists>st'. refundGas E q st = (Ret (), st') \<and> st_msg st' = st_msg st \<and> st_hook st' = st_hook st"
proof -
  define g1 where "g1 = gasRemaining st + ForceRefundGas (te_hook E) (st_hook st)"
  define n where "n = NonrefundableGas (te_hook E) (st_hook st)"
  define c where "c = sdb_refund (st_state st)"
  define g2 where "g2 = g1 + (if n < initialGas st - g1 then min ((initialGas st - g1 - n) div q) c else 0)"
  have "unat g2 \<le> unat (initialGas st)" unfolding g2_def g1_def by (rule refund_bound[OF assms(1)])
  then have a: "AddGas (st_gp st) g2 = Ret (st_gp st + g2)" using assms(2) by (simp add: AddGas_spec)
  have "refundGas E q st = (Ret (), st\<lparr>st_gp := st_gp st + g2, gasRemaining := g2,
      st_state := AddBalance (te_db E) (From (st_msg st)) (uint g2 * GasPrice (st_msg st)) (st_state st)\<rparr>)"
  proof (cases "n < initialGas st - g1")
    case True
    then have g: "g2 = g1 + min ((initialGas st - g1 - n) div q) c" by (simp add: g2_def)
    show ?thesis
      using a True by (simp add: refundGas_def bind_st_def modify_st_def get_st_def on_state_def gp_update_def gasUsed_def Let_def
          g min_def c_def n_def g1_def not_less[symmetric] split: if_splits)
  next
    case False
    then have g: "g2 = g1" by (simp add: g2_def)
    show ?thesis
      using a False by (simp add: refundGas_def bind_st_def modify_st_def get_st_def on_state_def gp_update_def gasUsed_def Let_def
          g n_def g1_def)
  qed
  then show ?thesis by simp
qed

lemma london_fields: "te_NoBaseFee london_env = False" "te_BaseFee london_env = Some 7" "te_db london_env = empty_db"
  "te_BlockNumber london_env = 13000000" "te_hook london_env = DefaultTxProcessor 9" "te_Coinbase london_env = 9"
  "te_config london_env = MainnetChainConfig" "ActivePrecompiles london_env r = []" "ev_chainRules (te_evm london_env) = tx_rules london_env"
  "precompile (te_evm london_env) a = None" "bc_Time (ev_Context (te_evm london_env)) = 7"
  by (simp_all add: london_env_def NewEVM_def sample_evm_env_def london_context_def ActivePrecompiles_def tx_rules_def precompile_def Let_def)

lemma london_rules: "IsLondon MainnetChainConfig 13000000" "r_IsLondon (tx_rules london_env)" "r_IsBerlin (tx_rules london_env)"
  "\<not> r_IsShanghai (tx_rules london_env)" "r_IsHomestead (tx_rules london_env)" "r_IsIstanbul (tx_rules london_env)"
  "r_IsEIP158 (tx_rules london_env)" "r_IsEIP150 (tx_rules london_env)"
  by (simp_all add: tx_rules_def Let_def london_fields config_Rules_def MainnetChainConfig_def no_arbitrum_def IsLondon_def IsBerlin_def
      IsShanghai_def IsHomestead_def IsIstanbul_def IsEIP158_def IsEIP150_def
      IsArbitrum_def isBlockForked_def isTimestampForked_def)

lemma london_env_ok: "well_formed_env (te_evm london_env)" "precompiles_ok (te_evm london_env)"
  by (simp_all add: well_formed_env_def london_fields london_rules precompiles_ok_def DefaultTxProcessor_def)
    (simp add: london_env_def NewEVM_def sample_evm_env_def arith_ref_ok)

lemma london_TransactionToMessage: "TransactionToMessage london_tx (\<lambda>_. Inr 1) (Some 7) = Inr london_msg"
  by (simp add: TransactionToMessage_def london_tx_def london_msg_def BigMin_def)

lemma london_preCheck:
  "\<exists>s. preCheck london_env (NewStateTransition london_msg 100000 () rich_state)
     = (Ret (), \<lparr>st_gp = 70000, st_msg = london_msg, gasRemaining = 30000, initialGas = 30000, st_state = s, st_hook = ()\<rparr>) \<and> one_account s"
proof -
  define s1 where "s1 = snd (GetBalance empty_db 1 rich_state)"
  have b: "GetBalance empty_db 1 rich_state = (1000000, s1)" using rich_state_balance by (simp add: s1_def prod_eq_iff)
  have "one_account (SubBalance empty_db 1 v s1)" for v unfolding s1_def by (intro one_account_ops one_account_rich)
  then show ?thesis
    by (simp add: preCheck_def bind_st_def get_st_def NewStateTransition_def london_msg_def london_rules(1) london_fields check_fees_def deref_def
        BitLen_small buyGas_def on_state_def b gp_update_def SubGas_def)
qed

lemma london_intrinsic: "st_msg st = london_msg \<Longrightarrow> gasRemaining st = 30000 \<Longrightarrow>
   pay_intrinsic london_msg (tx_rules london_env) st = (Ret (), st\<lparr>gasRemaining := 9000\<rparr>)"
  by (simp add: pay_intrinsic_def london_msg_def IntrinsicGas_def TxGas_def ulen_def StorageKeys_def bind_st_def get_st_def)

text \<open>The EVM finds no account 2 and returns at once.\<close>

lemma london_run:
  assumes "one_account (st_state st)"
  shows "\<exists>h s. run_evm london_env london_msg st = (Ret ([], None, None), st\<lparr>st_hook := h, st_state := s\<rparr>)"
proof -
  obtain n s0 where n: "GetNonce empty_db 1 (st_state st) = (n, s0)" by fastforce
  define s1 where "s1 = sdb_SetNonce empty_db 1 (n + 1) s0"
  have "one_account s0" using one_account_ops(3)[OF assms] n by simp
  then have "\<not> fst (sdb_Exist empty_db 2 (snd (Snapshot s1)))" unfolding s1_def by (intro one_account_ops)
  then obtain s2 where s2: "sdb_Exist empty_db 2 (snd (Snapshot s1)) = (False, s2)" by (metis (full_types) prod.collapse)
  obtain ev where "Call (te_evm london_env) (evm_run (te_evm london_env)) (AccountRef 1) 2 [] (gasRemaining st) 0 (idle_EVM (st\<lparr>st_state := s1\<rparr>))
      = (Ret ([], gasRemaining st, None), ev)"
    using s2 by (simp add: Call_def get_ev_def bind_st_def idle_EVM_def ev_db_op_def london_fields london_rules CallCreateDepth_def
        Let_def case_prod_beta)
  then show ?thesis
    by (simp add: run_evm_def Let_def london_msg_def bind_st_def on_state_def london_fields get_st_def on_evm_def no_err_def n s1_def) blast
qed

lemma london_apply: "\<exists>r st'. ApplyMessage london_env london_msg 100000 () rich_state = (Ret r, st')"
proof -
  define st0 where "st0 = NewStateTransition london_msg 100000 () rich_state"
  have 0: "start_hook london_env st0 = (Ret (False, 0, None, []), st0)" "drop_tip london_env st0 = (Ret (), st0)"
    by (simp_all add: start_hook_def drop_tip_def london_fields DefaultTxProcessor_def bind_st_def get_st_def)
  obtain s3 where 3: "preCheck london_env st0
      = (Ret (), \<lparr>st_gp = 70000, st_msg = london_msg, gasRemaining = 30000, initialGas = 30000, st_state = s3, st_hook = ()\<rparr>)"
    and o3: "one_account s3"
    unfolding st0_def using london_preCheck by blast
  define st4 where "st4 = \<lparr>st_gp = 70000, st_msg = london_msg, gasRemaining = 9000, initialGas = 30000, st_state = s3, st_hook = ()\<rparr>"
  have 4: "pay_intrinsic london_msg (tx_rules london_env)
      \<lparr>st_gp = 70000, st_msg = london_msg, gasRemaining = 30000, initialGas = 30000, st_state = s3, st_hook = ()\<rparr> = (Ret (), st4)"
    by (simp add: london_intrinsic st4_def)
  have 5: "charging_hook london_env st4 = (Ret 9, st4)" "check_transfer london_env london_msg (tx_rules london_env) st4 = (Ret (), st4)"
    by (simp_all add: charging_hook_def check_transfer_def london_fields DefaultTxProcessor_def london_msg_def london_rules st4_def bind_st_def)
  obtain al t where 6: "on_state_stm (Prepare (r_IsBerlin (tx_rules london_env)) (r_IsShanghai (tx_rules london_env)) (From london_msg)
      (te_Coinbase london_env) (To london_msg) (ActivePrecompiles london_env (tx_rules london_env)) (msg_AccessList london_msg)) st4
      = (Ret (), st4\<lparr>st_state := s3\<lparr>sdb_accessList := al, sdb_transient := t\<rparr>\<rparr>)"
    by (simp add: on_state_stm_def Prepare_def london_rules london_fields london_msg_def Let_def st4_def)
  obtain s7 where 7: "run_evm london_env london_msg (st4\<lparr>st_state := s3\<lparr>sdb_accessList := al, sdb_transient := t\<rparr>\<rparr>)
      = (Ret ([], None, None), st4\<lparr>st_state := s7\<rparr>)"
    using london_run[of "st4\<lparr>st_state := s3\<lparr>sdb_accessList := al, sdb_transient := t\<rparr>\<rparr>"] one_account_ops(5)[OF o3, of t al] by (auto simp: st4_def)
  obtain st8 where 8: "refundGas london_env 5 (st4\<lparr>st_state := s7\<rparr>) = (Ret (), st8)"
    using refundGas_returns[of "st4\<lparr>st_state := s7\<rparr>" london_env] by (auto simp: st4_def london_fields DefaultTxProcessor_def)
  obtain st9 where 9: "pay_tip london_env london_msg (tx_rules london_env) 9 st8 = (Ret (), st9)"
    by (simp add: pay_tip_def london_rules london_fields london_msg_def BigMin_def bind_st_def deref_def get_st_def on_state_def)
  have e: "end_hook london_env None st9 = (Ret (), st9)" by (simp add: end_hook_def london_fields DefaultTxProcessor_def)
  show ?thesis
    unfolding ApplyMessage_def st0_def[symmetric] TransitionDb_def Let_def
    by (simp add: bind_st_def 0 3 get_st_def 4 5 6 7 8 9 e london_rules(2) RefundQuotientEIP3529_def)
qed

theorem ApplyMessage_gas_witness:
  "\<exists>r st'. ApplyMessage london_env london_msg 100000 () rich_state = (Ret r, st') \<and> unat (st_gp st') + unat (UsedGas r) = 100000"
proof -
  obtain r st' where a: "ApplyMessage london_env london_msg 100000 () rich_state = (Ret r, st')" using london_apply by blast
  have "processing_hook (te_hook london_env)" unfolding london_fields by (rule dp.processing_hook_axioms)
  moreover have "\<not> fst (fst (StartTxHook (te_hook london_env) () rich_state))" by (simp add: london_fields DefaultTxProcessor_def)
  ultimately show ?thesis using ApplyMessage_gas[OF _ london_env_ok _ _ a] a by (auto simp: london_msg_def)
qed

section \<open>Ether is accounted for\<close>

text \<open>
  \<open>ledger db v s s'\<close>: if no account is in debt, none falls into debt, the balance delta changes by \<open>v\<close>, and the sum of all balances
  by \<open>v\<close> at most.
\<close>

definition ledger :: "'t Database \<Rightarrow> int \<Rightarrow> 't StateDB \<Rightarrow> 't StateDB \<Rightarrow> bool" where
  "ledger db v s s' \<longleftrightarrow> (sdb_inv db s \<longrightarrow> solvent db s \<longrightarrow> sdb_inv db s' \<and> solvent db s'
     \<and> unexpectedBalanceDelta s' = unexpectedBalanceDelta s + v \<and> drift db s \<le> drift db s')"

lemma ledger_trans: "ledger db v s s' \<Longrightarrow> ledger db w s' s'' \<Longrightarrow> ledger db (v + w) s s''"
  by (auto simp: ledger_def)

lemma ledger_settles: "settles db s s' \<Longrightarrow> ledger db 0 s s'"
  using acts_inv[OF settles_acts] by (auto simp: ledger_def settles_def)

lemma ledger_moves:
  assumes "moves fr db a v s s'" "fr \<longrightarrow> validRevisions s = []" "sdb_inv db s \<Longrightarrow> solvent db s \<Longrightarrow> 0 \<le> bal db s a + v"
  shows "ledger db v s s'"
  unfolding ledger_def
proof (intro impI)
  assume i: "sdb_inv db s" "solvent db s"
  then have p: "sdb_inv db s'" "pays db a v s s'" using assms(1,2) by (simp_all add: moves_def)
  then show "sdb_inv db s' \<and> solvent db s' \<and> unexpectedBalanceDelta s' = unexpectedBalanceDelta s + v \<and> drift db s \<le> drift db s'"
    using pays_solvent[OF p(2) i(2) assms(3)[OF i]] pays_drift[OF p(2)] by (simp add: pays_def)
qed

lemma ledger_gain: "moves False db a v s s' \<Longrightarrow> 0 \<le> v \<Longrightarrow> ledger db v s s'"
  by (rule ledger_moves) (auto simp: solvent_def)

lemma ledger_total:
  assumes "ledger db v s s'" "sdb_inv db s" "solvent db s"
  shows "solvent db s' \<and> TotalBalance db s' \<le> TotalBalance db s + v \<and> GetUnexpectedBalanceDelta s' = GetUnexpectedBalanceDelta s + v"
  using assms TotalBalance_view[OF sdb_inv_wf, of db s] TotalBalance_view[OF sdb_inv_wf, of db s']
  by (auto simp: ledger_def drift_def GetUnexpectedBalanceDelta_def)

lemma effective_tip: "BigMin (t + b) c - min t (c - b) = b"
  by (simp add: BigMin_def min_def)

text \<open>Up to the run of the EVM, the sender pays for the whole gas limit.\<close>

lemma fees_before_run:
  assumes hook: "te_hook E = DefaultTxProcessor c"
    and st: "st_msg st = msg" "gasRemaining st = 0" "sdb_inv (te_db E) (st_state st)" "validRevisions (st_state st) = []"
    and msg: "GasFeeCap msg = Some cap" "GasPrice msg \<le> cap" "0 \<le> Value msg"
    and pc: "preCheck E st = (Ret (), st3)" and pi: "pay_intrinsic msg rules st3 = (Ret (), st4)"
    and ch: "charging_hook E st4 = (Ret tipto, st5)" and s6: "\<forall>a. steps True (te_db E) a 0 st5 st6"
  shows "ledger (te_db E) (- (uint (GasLimit msg) * GasPrice msg)) (st_state st) (st_state st6)"
    "st_msg st6 = msg" "initialGas st6 = GasLimit msg" "unat (gasRemaining st6) \<le> unat (GasLimit msg)"
proof -
  define L where "L = GasLimit msg"
  define p where "p = GasPrice msg"
  define db where "db = te_db E"
  obtain gp3 s3 where 3: "st3 = st\<lparr>st_gp := gp3, gasRemaining := L, initialGas := L, st_state := s3\<rparr>"
    "moves True db (From msg) (- (uint L * p)) (st_state st) s3" "upfront msg \<le> bal db (st_state st) (From msg)"
    using preCheck_effect(1)[OF pc, of True] st by (auto simp: L_def db_def p_def)
  have l3: "ledger db (- (uint L * p)) (st_state st) s3"
  proof (rule ledger_moves[OF 3(2)])
    have "uint L * p \<le> uint L * cap + Value msg" using mult_left_mono[OF msg(2), of "uint L"] msg(3) by (simp add: p_def)
    then show "0 \<le> bal db (st_state st) (From msg) + - (uint L * p)" using 3(3) msg(1) by (simp add: upfront_def L_def)
  qed (use st(4) in simp)
  have v3: "validRevisions s3 = []" using 3(2) st(3,4) by (simp add: moves_def db_def)
  obtain g4 where 4: "st4 = st3\<lparr>gasRemaining := g4\<rparr>" "unat g4 \<le> unat L" using pay_intrinsic_effect[OF pi] 3 by auto
  have 5: "st5 = st4" using ch by (auto simp: charging_hook_def hook DefaultTxProcessor_def)
  obtain s6' where 6: "st6 = st5\<lparr>st_state := s6'\<rparr>" "moves True db tipto 0 s3 s6'"
    using s6[rule_format, of tipto] 3 4 5 by (auto simp: steps_def db_def)
  have l6: "ledger db 0 s3 s6'" by (rule ledger_moves[OF 6(2)]) (use v3 in \<open>simp_all add: solvent_def\<close>)
  show "ledger (te_db E) (- (uint (GasLimit msg) * GasPrice msg)) (st_state st) (st_state st6)"
    using ledger_trans[OF l3 l6] 6(1) by (simp add: L_def p_def db_def)
  show "st_msg st6 = msg" "initialGas st6 = GasLimit msg" "unat (gasRemaining st6) \<le> unat (GasLimit msg)"
    using 6(1) 5 4 3(1) st(1) by (simp_all add: L_def)
qed

text \<open>After it, the sender gets the rest back and the tip is paid: all but the base fee of the gas used returns.\<close>

lemma fees_after_run:
  assumes hook: "te_hook E = DefaultTxProcessor c"
    and env: "IsLondon (te_config E) (te_BlockNumber E)" "\<not> te_NoBaseFee E" "te_BaseFee E = Some bf"
    and msg: "st_msg st = msg" "GasFeeCap msg = Some cap" "bf \<le> cap" "0 \<le> GasTipCap msg" "0 \<le> GasPrice msg"
      "GasPrice msg = BigMin (GasTipCap msg + bf) cap"
    and gas: "unat (gasRemaining st) \<le> unat (initialGas st)"
    and rf: "refundGas E q st = (Ret (), st8)" and pt: "pay_tip E msg (tx_rules E) tipto st8 = (Ret (), st9)"
  shows "ledger (te_db E) (uint (initialGas st) * GasPrice msg - uint (gasUsed st9) * bf) (st_state st) (st_state st9)"
proof -
  define L where "L = initialGas st"
  define p where "p = GasPrice msg"
  have f0: "ForceRefundGas (te_hook E) h = 0" for h by (simp add: hook DefaultTxProcessor_def)
  obtain g2 s8 gp8 where 8: "unat g2 \<le> unat L" "unat (L - g2) = unat L - unat g2"
    "st8 = st\<lparr>st_gp := gp8, gasRemaining := g2, st_state := s8\<rparr>" "moves False (te_db E) (From msg) (uint g2 * p) (st_state st) s8"
    by (rule refundGas_accounts[OF rf, of False]) (use gas msg(1) in \<open>auto simp: f0 L_def p_def\<close>)
  have u: "gasUsed st8 = L - g2" using 8(3) by (simp add: gasUsed_def L_def)
  have "r_IsLondon (tx_rules E)" using env(1) by (simp add: tx_rules_def config_Rules_def Let_def)
  then obtain tip where t: "steps False (te_db E) tipto (uint (L - g2) * tip) st8 st9" "tip = min (GasTipCap msg) (cap - bf)"
    using pay_tip_effect[OF pt, of False] env(2,3) u msg(2) by auto
  have 9: "gasUsed st9 = L - g2" "moves False (te_db E) tipto (uint (L - g2) * tip) s8 (st_state st9)"
    using steps_fields(6,7)[OF t(1)] unfolding u by (simp_all add: 8(3))
  have "0 \<le> tip" using t(2) msg(3,4) by simp
  then have "ledger (te_db E) (uint (L - g2) * tip) s8 (st_state st9)" by (intro ledger_gain[OF 9(2)] mult_nonneg_nonneg) simp_all
  moreover have "ledger (te_db E) (uint g2 * p) (st_state st) s8" by (rule ledger_gain[OF 8(4)]) (use msg(5) in \<open>simp add: p_def\<close>)
  ultimately have l: "ledger (te_db E) (uint g2 * p + uint (L - g2) * tip) (st_state st) (st_state st9)" by (rule ledger_trans[rotated])
  have rest: "uint (L - g2) = uint L - uint g2" unfolding uint_nat 8(2) by (rule of_nat_diff[OF 8(1)])
  have "p - tip = bf" using effective_tip[of "GasTipCap msg" bf cap] msg(6) t(2) by (simp add: p_def)
  then have base: "bf = p - tip" by simp
  have "uint g2 * p + uint (L - g2) * tip = uint L * p - uint (gasUsed st9) * bf" unfolding 9(1) rest base by (simp add: algebra_simps)
  then show ?thesis using l by (simp add: L_def p_def)
qed

text \<open>C1. EIP-1559 burns the base fee, and no transaction creates ether: when a message of a London block, priced by
  \<open>TransactionToMessage\<close>, is applied with the default hook, then whatever contracts it runs, the balance delta falls by exactly the
  gas used times the base fee, the sum of all balances by at least that, and no account is left in debt.\<close>

theorem ApplyMessage_burns_base_fee:
  assumes "te_hook E = DefaultTxProcessor c" "well_formed_env (te_evm E)" "precompiles_ok (te_evm E)" "\<not> te_NoBaseFee E"
    and "IsLondon (te_config E) (te_BlockNumber E)" "te_BaseFee E = Some bf" "0 \<le> bf"
    and "TransactionToMessage tx sender (Some bf) = Inr msg" "0 \<le> tx_Value tx" "0 \<le> tx_GasTipCap tx"
    and "sdb_inv (te_db E) s" "validRevisions s = []" "solvent (te_db E) s"
    and "ApplyMessage E msg gp () s = (Ret r, st')"
  shows "GetUnexpectedBalanceDelta (st_state st') = GetUnexpectedBalanceDelta s - uint (UsedGas r) * bf
     \<and> TotalBalance (te_db E) (st_state st') \<le> TotalBalance (te_db E) s - uint (UsedGas r) * bf
     \<and> solvent (te_db E) (st_state st')"
proof -
  define st where "st = NewStateTransition msg gp () s"
  have st: "st_msg st = msg" "gasRemaining st = 0" "st_state st = s" by (simp_all add: st_def NewStateTransition_def)
  have H: "StartTxHook (te_hook E) h s = ((False, 0, None, []), h, s)" "\<not> DropTip (te_hook E) h" for h s
    by (simp_all add: assms(1) DefaultTxProcessor_def)
  have T: "TransitionDb E st = (Ret r, st')" using assms(14) by (simp add: ApplyMessage_def st_def)
  have nb: "\<not> fst (fst (StartTxHook (te_hook E) (st_hook st) (st_state st)))" by (simp add: H)
  obtain st1 m st3 tipto st4 st5 ret dep vmerr st6 st7 st8 st9 where
    s1: "st1 = st\<lparr>st_hook := fst (snd (StartTxHook (te_hook E) (st_hook st) (st_state st))),
       st_state := snd (snd (StartTxHook (te_hook E) (st_hook st) (st_state st))), st_msg := m\<rparr>"
    and m0: "\<not> DropTip (te_hook E) (st_hook st1) \<longrightarrow> m = st_msg st"
    and pc: "preCheck E st1 = (Ret (), st3)" and pi: "pay_intrinsic m (tx_rules E) st3 = (Ret (), st4)"
    and ch: "charging_hook E st4 = (Ret tipto, st5)" and s6: "\<forall>a. steps True (te_db E) a 0 st5 st6"
    and ev: "run_evm E m st6 = (Ret (ret, dep, vmerr), st7)"
    and rf: "refundGas E (if \<not> r_IsLondon (tx_rules E) then RefundQuotient else RefundQuotientEIP3529) st7 = (Ret (), st8)"
    and pt: "pay_tip E m (tx_rules E) tipto st8 = (Ret (), st9)" and eh: "end_hook E vmerr st9 = (Ret (), st')"
    and ug: "UsedGas r = gasUsed st'"
    by (rule transition_stages[OF T nb])
  have m: "m = msg" using m0 H(2) st(1) by simp
  have 1: "st_msg st1 = msg" "gasRemaining st1 = 0" "st_state st1 = s" using s1 st H m by simp_all
  obtain cap where cap: "GasFeeCap msg = Some cap" "bf \<le> cap" using preCheck_effect(2)[OF pc assms(5,4)] 1(1) assms(6) by auto
  have fees: "GasPrice msg = BigMin (GasTipCap msg + bf) cap" "0 \<le> Value msg" "0 \<le> GasTipCap msg"
    using assms(8,9,10) cap by (auto simp: TransactionToMessage_def Let_def split: sum.splits)
  then have price: "0 \<le> GasPrice msg" "GasPrice msg \<le> cap" using cap(2) assms(7) by (auto simp: BigMin_def)
  note before = fees_before_run[OF assms(1) 1(1,2) _ _ cap(1) price(2) fees(2) pc pi[unfolded m] ch s6, unfolded 1(3), OF assms(11,12)]
  obtain g7 h7 s7 where 7: "st7 = st6\<lparr>st_hook := h7, st_state := s7, gasRemaining := g7\<rparr>" "unat g7 \<le> unat (GasLimit msg)"
    "settles (te_db E) (st_state st6) s7"
    using run_evm_effect[OF assms(2,3) _ ev] fees(2) before(4) by (auto simp: m)
  have "ledger (te_db E) (uint (GasLimit msg) * GasPrice msg - uint (gasUsed st9) * bf) s7 (st_state st9)"
    using fees_after_run[OF assms(1,5,4,6) _ cap fees(3) price(1) fees(1) _ rf pt[unfolded m]] 7 before(2,3) by simp
  from ledger_trans[OF ledger_trans[OF before(1) ledger_settles[OF 7(3)]] this]
  have "ledger (te_db E) (- (uint (UsedGas r) * bf)) s (st_state st')"
    using eh ug by (auto simp: end_hook_def assms(1) DefaultTxProcessor_def gasUsed_def)
  from ledger_total[OF this] show ?thesis using assms(11,13) by simp
qed

theorem ApplyMessage_burns_base_fee_witness:
  "\<exists>r st'. ApplyMessage london_env london_msg 100000 () rich_state = (Ret r, st') \<and>
     GetUnexpectedBalanceDelta (st_state st') = GetUnexpectedBalanceDelta rich_state - uint (UsedGas r) * 7
     \<and> TotalBalance empty_db (st_state st') \<le> TotalBalance empty_db rich_state - uint (UsedGas r) * 7"
proof -
  obtain r st' where a: "ApplyMessage london_env london_msg 100000 () rich_state = (Ret r, st')" using london_apply by blast
  show ?thesis
    using ApplyMessage_burns_base_fee[OF london_fields(5) london_env_ok _ _ london_fields(2) _ london_TransactionToMessage _ _ _ _ _ a] a
      rich_state_ok london_rules(1) by (auto simp: london_fields london_tx_def)
qed

end
