(* ===== verification/Spec2Isabelle.thy ===== *)
theory Spec2Isabelle
  imports Prelude Rlp_Encode Rlp_Raw Trie_Encoding Trie_Spec Trie_Node Trie_Ops Trie_Sim
    Store_Interface Trie_Map Trie_Hasher Undo_Interface State_AccessList State_DB State_View State_Revert
    State_Snapshot State_Balance State_Finalise Chain_Config Consensus_Misc Vm_Analysis Vm_Memory Vm_Contract
    State_Ether Vm_Machine Vm_Instructions Vm_Gas Vm_JumpTable Vm_Interpreter Vm_Logic Vm_Metering Vm_Prices Vm_Tables
    Vm_Execution Vm_Calls Vm_Revert Vm_Properties State_Transition Transition_Accounting
begin

text \<open>
  arb-geth is the fork of go-ethereum on which Arbitrum nodes run: an Ethereum execution client whose blocks come
  from a sequencer and whose transactions are charged by hooks of the Arbitrum node. This development models its
  core, the code every node must agree on, and proves that it is correct. File names are relative to
  \<^verbatim>\<open>src/\<close>; definitions keep the names of the Go functions, with a prefix where several types share a method name.

  \<^bold>\<open>Parts of the program and how they interact.\<close>
  A block is a list of transactions. \<^verbatim>\<open>core/state_transition.go\<close> turns a transaction into a message, buys its gas from
  the gas pool of the block and from the sender, runs the EVM (\<^verbatim>\<open>core/vm\<close>), returns what is left and pays the tip. The EVM
  executes the code of contracts round by round, calls other contracts and reverts what a failing call has done. The EVM
  and the transition work on the state database (\<^verbatim>\<open>core/state\<close>), which caches accounts, journals every change so that a
  failed call can be reverted, and at the end of a transaction writes into Merkle Patricia tries (\<^verbatim>\<open>trie\<close>), whose root
  hash identifies the state. Trie nodes are RLP (\<^verbatim>\<open>rlp\<close>). The chain configuration (\<^verbatim>\<open>params\<close>) decides which rules apply to a
  block, and \<^verbatim>\<open>consensus/misc\<close> fixes the fees and limits in its header.

  \<^bold>\<open>Conventions.\<close>
  Go's integers are words of their width, \<open>big.Int\<close> is \<open>int\<close>, byte slices are lists of bytes, hashes and addresses are words
  of 256 and 160 bits. A Go call has an \<open>outcome\<close>: \<open>Ret\<close> a value, \<open>Fail\<close> a non-nil error, \<open>Panic\<close> a run-time panic (index or
  slice out of range, nil dereference, explicit \<open>panic\<close>). Methods that change their receiver pass it through (\<open>stm\<close>), and what
  was written before an error stays written. Pointers that may be nil are options. A slice is assumed to be shorter than
  \<open>2 ^ 63\<close> bytes (\<open>go_slice\<close>), as the run-time guarantees.

  \<^bold>\<open>Theories.\<close>
  \<^item> \<open>Prelude\<close>: words, outcomes, state passing, slices, big-endian numbers and the lemmas on them.
  \<^item> \<open>Rlp_Encode\<close> (\<^verbatim>\<open>rlp/encode.go\<close>, \<^verbatim>\<open>rlp/encbuffer.go\<close>): the buffered encoder that writes list headers in a second
    pass equals the recursive definition of RLP. \<open>Rlp_Raw\<close> (\<^verbatim>\<open>rlp/raw.go\<close>): the readers accept exactly canonical encodings,
    invert the writers and never panic.
  \<^item> \<open>Trie_Encoding\<close> (\<^verbatim>\<open>trie/encoding.go\<close>): the key encodings and their round trips; \<open>Trie_Node\<close> (\<^verbatim>\<open>trie/node.go\<close>,
    \<^verbatim>\<open>trie/node_enc.go\<close>): nodes and the round trip of their disk format; \<open>Trie_Spec\<close>: Patricia trees as maps and their
    canonical form; \<open>Trie_Ops\<close> (\<^verbatim>\<open>trie/trie.go\<close>, \<^verbatim>\<open>trie/tracer.go\<close>, \<^verbatim>\<open>trie/trie_reader.go\<close>): the operations with lazy
    loading; \<open>Trie_Sim\<close>: the operations simulate those on trees, and the tracer is exact; \<open>Store_Interface\<close>: the contract of
    a fallible key-value store as a locale, interpreted in \<open>Trie_Map\<close> by the trie; \<open>Trie_Hasher\<close> (\<^verbatim>\<open>trie/hasher.go\<close>): the root
    hash is the Merkle root of the content, by the sequential hasher or by the parallel one in whatever order its goroutines finish.
  \<^item> \<open>State_AccessList\<close> (\<^verbatim>\<open>core/state/access_list.go\<close>, \<^verbatim>\<open>core/state/transient_storage.go\<close>); \<open>State_DB\<close>
    (\<^verbatim>\<open>core/state/state_object.go\<close>, \<^verbatim>\<open>core/state/journal.go\<close>, \<^verbatim>\<open>core/state/statedb.go\<close>, \<^verbatim>\<open>core/state/statedb_arbitrum.go\<close>): all
    operations of the state database up to \<open>Finalise\<close>; \<open>State_View\<close>: what a client can observe; \<open>Undo_Interface\<close>: the contract
    of a journal as a locale, interpreted in \<open>State_Revert\<close>; \<open>State_Snapshot\<close>: reverting restores every answer (\<open>Prepare\<close>, which starts a transaction, and
    \<open>SetStorage\<close>, for debugging, are not journalled and stay outside; that the latter survives a revert is shown); \<open>State_Balance\<close>:
    the balance delta of Arbitrum follows the sum of all balances; \<open>State_Finalise\<close>: dirty counters and the end of a
    transaction.
  \<^item> \<open>Chain_Config\<close> (\<^verbatim>\<open>params/config.go\<close>, \<^verbatim>\<open>params/config_arbitrum.go\<close>): forks, rules, the order and compatibility checks.
    \<open>Consensus_Misc\<close> (\<^verbatim>\<open>consensus/misc\<close>): base fees, blob fees, gas limits, the DAO header.
  \<^item> \<open>Vm_Analysis\<close> (\<^verbatim>\<open>core/vm/analysis.go\<close>), \<open>Vm_Memory\<close> (\<^verbatim>\<open>core/vm/stack.go\<close>, \<^verbatim>\<open>core/vm/memory.go\<close>,
    \<^verbatim>\<open>core/vm/memory_table.go\<close>, \<^verbatim>\<open>core/vm/common.go\<close>, \<^verbatim>\<open>core/vm/gas.go\<close>), \<open>Vm_Contract\<close> (\<^verbatim>\<open>core/vm/contract.go\<close>): the data
    structures of the interpreter, the fee of memory and the exactness of jump destinations.
  \<^item> \<open>State_Ether\<close>: what code that uses the state database may do to ether: \<open>settles\<close>.
  \<^item> The EVM. \<open>Vm_Machine\<close>: contexts, hooks, frames and the access to their parts (\<^verbatim>\<open>core/vm/evm.go\<close>,
    \<^verbatim>\<open>core/vm/evm_arbitrum.go\<close>); \<open>Vm_Instructions\<close> (\<^verbatim>\<open>core/vm/instructions.go\<close>, \<^verbatim>\<open>core/vm/eips.go\<close>): one definition per
    instruction; \<open>Vm_Gas\<close> (\<^verbatim>\<open>core/vm/gas_table.go\<close>, \<^verbatim>\<open>core/vm/operations_acl.go\<close>, \<^verbatim>\<open>params/protocol_params.go\<close>): gas functions
    and prices; \<open>Vm_JumpTable\<close> (\<^verbatim>\<open>core/vm/jump_table.go\<close>): the instruction sets of all forks; \<open>Vm_Interpreter\<close>
    (\<^verbatim>\<open>core/vm/interpreter.go\<close>, \<^verbatim>\<open>core/vm/evm.go\<close>): the loop, calls and creations.
  \<^item> Proofs about the EVM. \<open>Vm_Logic\<close>: \<open>trip\<close>, a weakest precondition for actions that may fail or panic, computed by rewriting;
    \<open>Vm_Metering\<close>: the effect of every instruction on gas, state and memory; \<open>Vm_Prices\<close>: what every gas function charges at least;
    \<open>Vm_Tables\<close>: every entry of every instruction set pays for its round; \<open>Vm_Execution\<close>: rounds and the loop; \<open>Vm_Calls\<close>: calls and
    creations keep gas and ether, and the depth bounds their nesting; \<open>Vm_Revert\<close>: failing calls leave the state as it was;
    \<open>Vm_Properties\<close>: the properties of the EVM with runs of a small contract.
  \<^item> \<open>State_Transition\<close> (\<^verbatim>\<open>core/gaspool.go\<close>, \<^verbatim>\<open>core/state_transition.go\<close>): the application of a message, on the EVM above;
    \<open>Transition_Accounting\<close>: its gas and ether are accounted for, whatever contracts the message runs.

  \<^bold>\<open>Parameters.\<close>
  Keccak-256, the node store, the account and code database, the \<open>uint256\<close> package, signature recovery, the processing hook
  and the precompiled contracts are arguments of the definitions that use them. What is needed of them is named: \<open>uint256_ok\<close>
  and \<open>arith_ok\<close> (the methods compute as documented), \<open>db_ok\<close> (stored code hashes have 32 bytes), \<open>code_sizes_ok\<close> (the database
  reports the sizes of the code it holds), \<open>processing_hook\<close> (a locale:
  the hook gives back only gas it has charged), \<open>well_formed_env\<close> (the rules of EIP-2929 come with those of EIP-150, and the hook
  keeps its gas while callers are pushed and popped), \<open>precompiles_ok\<close> (a precompiled contract that works on the EVM uses the
  operations of the state, returns at most its gas, and creates no ether).

  \<^bold>\<open>Loops and fuel.\<close>
  Loops that run over a slice are structural. The trie operations follow hashes through a store that may be cyclic, so they
  take fuel; the length of the key in nibbles plus a constant is enough on every store that holds a finite tree, and the
  theorems on tries state success outright. \<open>CheckCompatible\<close> and \<open>fakeExponential\<close> are partial functions into \<open>option\<close>; that they
  return is proved, for \<open>CheckCompatible\<close> when the forks are in order, none is at timestamp 0 or 1 and the Arbitrum genesis block is
  the same (that it loops on some other configurations is shown too). The interpreter loop takes as many
  rounds of fuel as the frame has gas, and one more, and calls nest to \<open>max_levels = 1025\<close> levels; that neither bound is ever
  reached is proved (\<open>interpreter_terminates\<close>, \<open>call_depth_suffices\<close>).

  \<^bold>\<open>Not modelled.\<close>
  Networking, RPC, the commands, wallets, databases and file formats are input and output. The block chain, the transaction
  pool, the miner and the snapshots are dominated by goroutines and caches over those. The cryptographic primitives are
  vendored. Reflection-driven RLP decoding, trie iteration, proofs and sync are left out, and so are metrics, tracing and
  logging inside modelled functions.
\<close>

end
